(* ===== verification/Prelude.thy ===== *)
theory Prelude
  imports Main "HOL-Library.Word" "HOL-Library.Monad_Syntax" "HOL-Library.Sublist"
begin

text \<open>
  Shared vocabulary of the development: the machine types of the Go sources, the bounds-checked
  slice operations of the Go run time, and a small total-correctness calculus for
  state-passing code.

  \<^item> A Go \<open>byte\<close> is an Isabelle \<open>char\<close> (both have exactly 256 values) and a \<open>[]byte\<close>
    is a \<open>string\<close>.
  \<^item> Go's index and slice expressions are checked at run time and panic out of range.
    \<open>nth_opt\<close>, \<open>upd_opt\<close> and \<open>slice_opt\<close> return \<open>None\<close> exactly there, so
    that \<open>None\<close> in the result of a modelled function means that the Go code panics (or, for
    the recursive-descent parser, that the recursion fuel ran out).
  \<^item> \<open>wp m Q\<close> says that \<open>m\<close> delivers a value and a state and that they satisfy
    \<open>Q\<close>: neither a panic nor a lack of fuel.
\<close>

type_synonym byte = char
type_synonym bytes = "char list"
type_synonym u64 = "64 word"

text \<open>The number of a byte.\<close>

abbreviation byte_val :: "byte \<Rightarrow> nat" where
  "byte_val b \<equiv> of_char b"

section \<open>Bounds-checked access\<close>

definition nth_opt :: "'a list \<Rightarrow> nat \<Rightarrow> 'a option" where
  "nth_opt xs i = (if i < length xs then Some (xs ! i) else None)"

definition upd_opt :: "'a list \<Rightarrow> nat \<Rightarrow> ('a \<Rightarrow> 'a) \<Rightarrow> 'a list option" where
  "upd_opt xs i f = (if i < length xs then Some (xs[i := f (xs ! i)]) else None)"

definition slice :: "'a list \<Rightarrow> nat \<Rightarrow> nat \<Rightarrow> 'a list" where
  "slice xs a b = take (b - a) (drop a xs)"

definition slice_opt :: "'a list \<Rightarrow> nat \<Rightarrow> nat \<Rightarrow> 'a list option" where
  "slice_opt xs a b = (if a \<le> b \<and> b \<le> length xs then Some (slice xs a b) else None)"

lemma nth_opt_Some [simp]: "i < length xs \<Longrightarrow> nth_opt xs i = Some (xs ! i)"
  by (simp add: nth_opt_def)

lemma upd_opt_Some [simp]: "i < length xs \<Longrightarrow> upd_opt xs i f = Some (xs[i := f (xs ! i)])"
  by (simp add: upd_opt_def)

lemma nth_opt_eq_Some_iff: "nth_opt xs i = Some x \<longleftrightarrow> i < length xs \<and> xs ! i = x"
  by (auto simp: nth_opt_def)

lemma upd_opt_eq_Some_iff:
  "upd_opt xs i f = Some ys \<longleftrightarrow> i < length xs \<and> ys = xs[i := f (xs ! i)]"
  by (auto simp: upd_opt_def)

lemma slice_opt_Some [simp]: "a \<le> b \<Longrightarrow> b \<le> length xs \<Longrightarrow> slice_opt xs a b = Some (slice xs a b)"
  by (simp add: slice_opt_def)

lemma length_slice: "a \<le> b \<Longrightarrow> b \<le> length xs \<Longrightarrow> length (slice xs a b) = b - a"
  by (simp add: slice_def)

lemma nth_slice: "b \<le> length xs \<Longrightarrow> i < b - a \<Longrightarrow> slice xs a b ! i = xs ! (a + i)"
  by (simp add: slice_def)

lemma slice_same [simp]: "slice xs a a = []"
  by (simp add: slice_def)

lemma slice_append:
  assumes "a \<le> b" and "b \<le> c"
  shows "slice xs a b @ slice xs b c = slice xs a c"
proof -
  have "take (c - a) (drop a xs) = take (b - a) (drop a xs) @ take (c - b) (drop (b - a) (drop a xs))"
    using assms by (metis add_diff_inverse_nat diff_le_mono leD le_add_diff_inverse
        le_add_diff_inverse2 Nat.add_diff_assoc2 take_add add.commute ordered_cancel_comm_monoid_diff_class.diff_add_assoc2)
  then show ?thesis
    using assms by (simp add: slice_def)
qed

lemma slice_Cons: "a < b \<Longrightarrow> b \<le> length xs \<Longrightarrow> slice xs a b = xs ! a # slice xs (Suc a) b"
  by (simp add: slice_def Cons_nth_drop_Suc [symmetric] Suc_diff_Suc [symmetric])

lemma slice_snoc: "a \<le> b \<Longrightarrow> b < length xs \<Longrightarrow> slice xs a (Suc b) = slice xs a b @ [xs ! b]"
  by (simp add: slice_def Suc_diff_le take_Suc_conv_app_nth)

lemma set_slice: "b \<le> length xs \<Longrightarrow> set (slice xs a b) = {xs ! i | i. a \<le> i \<and> i < b}"
proof (intro set_eqI iffI)
  fix x
  assume b: "b \<le> length xs" and "x \<in> set (slice xs a b)"
  then obtain i where "i < length (slice xs a b)" "slice xs a b ! i = x"
    by (auto simp: in_set_conv_nth)
  with b show "x \<in> {xs ! i | i. a \<le> i \<and> i < b}"
    by (auto simp: slice_def intro!: exI [of _ "a + i"])
next
  fix x
  assume b: "b \<le> length xs" and "x \<in> {xs ! i | i. a \<le> i \<and> i < b}"
  then obtain i where "a \<le> i" "i < b" "x = xs ! i" by blast
  with b have "slice xs a b ! (i - a) = x" "i - a < length (slice xs a b)"
    by (simp_all add: slice_def)
  then show "x \<in> set (slice xs a b)" by (auto simp: in_set_conv_nth)
qed

section \<open>Counted loops\<close>

text \<open>
  \<open>forM xs f s\<close> is the loop \<open>for _, x := range xs { s = f(x, s) }\<close>; a counted loop
  \<open>for i := 0; i < n; i++\<close> ranges over \<open>[0..<n]\<close>. It stops with \<open>None\<close> at the
  first iteration that panics.
\<close>

primrec forM :: "'a list \<Rightarrow> ('a \<Rightarrow> 's \<Rightarrow> 's option) \<Rightarrow> 's \<Rightarrow> 's option" where
  "forM [] f s = Some s"
| "forM (x # xs) f s = Option.bind (f x s) (forM xs f)"

lemma forM_append: "forM (xs @ ys) f s = Option.bind (forM xs f s) (forM ys f)"
  by (induction xs arbitrary: s) (auto split: bind_splits)

lemma forM_cong [fundef_cong]:
  assumes "xs = ys" and "\<And>x s. x \<in> set ys \<Longrightarrow> f x s = g x s" and "s = s'"
  shows "forM xs f s = forM ys g s'"
  using assms(2) unfolding assms(1,3)
  by (induction ys arbitrary: s') (auto intro!: Option.bind_cong)

text \<open>A loop invariant: every iteration delivers a state and keeps the invariant.\<close>

lemma forM_invariant:
  assumes "I s" and "\<And>x s. x \<in> set xs \<Longrightarrow> I s \<Longrightarrow> \<exists>s'. f x s = Some s' \<and> I s'"
  shows "\<exists>s'. forM xs f s = Some s' \<and> I s'"
  using assms
proof (induction xs arbitrary: s)
  case (Cons x xs)
  then obtain s1 where "f x s = Some s1" "I s1" by (meson list.set_intros(1))
  with Cons show ?case by auto
qed simp

section \<open>Total correctness of state-passing code\<close>

named_theorems wp_rules \<open>rules that move a postcondition through one operation\<close>

definition wp :: "('a \<times> 's) option \<Rightarrow> ('a \<Rightarrow> 's \<Rightarrow> bool) \<Rightarrow> bool" where
  "wp m Q \<longleftrightarrow> (case m of None \<Rightarrow> False | Some (a, s) \<Rightarrow> Q a s)"

lemma wp_Some [simp]: "wp (Some (a, s)) Q \<longleftrightarrow> Q a s"
  by (simp add: wp_def)

lemma wp_None [simp]: "\<not> wp None Q"
  by (simp add: wp_def)

lemma wp_bind [simp]: "wp (Option.bind m f) Q \<longleftrightarrow> wp m (\<lambda>a s. wp (f (a, s)) Q)"
  by (cases m) (auto simp: wp_def)

lemma wp_mono: "wp m Q \<Longrightarrow> (\<And>a s. Q a s \<Longrightarrow> R a s) \<Longrightarrow> wp m R"
  by (auto simp: wp_def split: option.splits)

lemma wp_conj: "wp m Q \<Longrightarrow> wp m R \<Longrightarrow> wp m (\<lambda>a s. Q a s \<and> R a s)"
  by (auto simp: wp_def split: option.splits)

lemma wp_iff: "wp m Q \<longleftrightarrow> (\<exists>a s. m = Some (a, s) \<and> Q a s)"
  by (auto simp: wp_def split: option.splits)

lemma wpD: "wp m Q \<Longrightarrow> m = Some (a, s) \<Longrightarrow> Q a s"
  by (simp add: wp_def)

lemma wp_if [wp_rules]: "(b \<Longrightarrow> wp m Q) \<Longrightarrow> (\<not> b \<Longrightarrow> wp m' Q) \<Longrightarrow> wp (if b then m else m') Q"
  by simp

section \<open>Lists\<close>

lemma sorted_wrt_less_nth_mono:
  "sorted_wrt (<) (xs :: nat list) \<Longrightarrow> i \<le> j \<Longrightarrow> j < length xs \<Longrightarrow> xs ! i \<le> xs ! j"
  by (metis le_eq_less_or_eq sorted_wrt_nth_less)

lemma prefix_nth: "prefix xs ys \<Longrightarrow> i < length xs \<Longrightarrow> ys ! i = xs ! i"
  by (auto simp: prefix_def nth_append)

end
