(* ===== verification/Tokens.thy ===== *)
theory Tokens
  imports Prelude
begin

text \<open>
  Package \<open>token\<close> (\<open>src/token/token.go\<close>): the token kinds with their numbers, the
  token record, and the bit sets of token kinds that the parser uses to recognise the ends
  of blocks. The constructors carry the prefix \<open>T\<close>, because several of the source's names
  (\<open>If\<close>, \<open>True\<close>, \<open>Not\<close>) are constants of HOL.
\<close>

unbundle bit_operations_syntax

section \<open>Kinds and tokens\<close>

datatype (plugins only: code size) Kind =
    TIllegal | TEOF | TComment
  | TIdent | TNumber | TString | TBacktickString
  | TAnd | TBreak | TDo | TElse | TElseIf | TEnd | TFalse | TFor | TFunction | TGoto | TIf | TIn
  | TLocal | TNil | TNot | TOr | TRepeat | TReturn | TThen | TTrue | TUntil | TWhile
  | TPlus | TMinus | TAsterisk | TSlash | TFloorSlash | TModulo | TCaret | THash
  | TBitAnd | TBitOr | TBitXor | TShiftLeft | TShiftRight | TConcat
  | TEq | TNotEq | TLess | TLessEq | TGreater | TGreaterEq | TAssign
  | TLParen | TRParen | TLBrace | TRBrace | TLBrack | TRBrack | TDoubleColon | TSemicolon
  | TColon | TComma | TDot | TVararg

text \<open>The number of a kind: its position in the source's \<open>iota\<close> enumeration.\<close>

primrec kind_code :: "Kind \<Rightarrow> nat" where
  "kind_code TIllegal = 0" | "kind_code TEOF = 1" | "kind_code TComment = 2"
| "kind_code TIdent = 3" | "kind_code TNumber = 4" | "kind_code TString = 5"
| "kind_code TBacktickString = 6"
| "kind_code TAnd = 7" | "kind_code TBreak = 8" | "kind_code TDo = 9" | "kind_code TElse = 10"
| "kind_code TElseIf = 11" | "kind_code TEnd = 12" | "kind_code TFalse = 13"
| "kind_code TFor = 14" | "kind_code TFunction = 15" | "kind_code TGoto = 16"
| "kind_code TIf = 17" | "kind_code TIn = 18" | "kind_code TLocal = 19" | "kind_code TNil = 20"
| "kind_code TNot = 21" | "kind_code TOr = 22" | "kind_code TRepeat = 23"
| "kind_code TReturn = 24" | "kind_code TThen = 25" | "kind_code TTrue = 26"
| "kind_code TUntil = 27" | "kind_code TWhile = 28"
| "kind_code TPlus = 29" | "kind_code TMinus = 30" | "kind_code TAsterisk = 31"
| "kind_code TSlash = 32" | "kind_code TFloorSlash = 33" | "kind_code TModulo = 34"
| "kind_code TCaret = 35" | "kind_code THash = 36" | "kind_code TBitAnd = 37"
| "kind_code TBitOr = 38" | "kind_code TBitXor = 39" | "kind_code TShiftLeft = 40"
| "kind_code TShiftRight = 41" | "kind_code TConcat = 42"
| "kind_code TEq = 43" | "kind_code TNotEq = 44" | "kind_code TLess = 45"
| "kind_code TLessEq = 46" | "kind_code TGreater = 47" | "kind_code TGreaterEq = 48"
| "kind_code TAssign = 49"
| "kind_code TLParen = 50" | "kind_code TRParen = 51" | "kind_code TLBrace = 52"
| "kind_code TRBrace = 53" | "kind_code TLBrack = 54" | "kind_code TRBrack = 55"
| "kind_code TDoubleColon = 56" | "kind_code TSemicolon = 57" | "kind_code TColon = 58"
| "kind_code TComma = 59" | "kind_code TDot = 60" | "kind_code TVararg = 61"

record Token =
  tkKind :: Kind
  tkStart :: nat
  tkEnd :: nat

text \<open>\<open>Token.Text\<close> slices the source; \<open>None\<close> is the run-time panic.\<close>

definition Token_Text :: "Token \<Rightarrow> bytes \<Rightarrow> bytes option" where
  "Token_Text t source = slice_opt source (tkStart t) (tkEnd t)"

section \<open>Token sets\<close>

text \<open>\<open>TokenSet\<close> is an array of two 64-bit masks.\<close>

type_synonym TokenSet = "u64 list"

definition addKind :: "Kind \<Rightarrow> TokenSet \<Rightarrow> TokenSet" where
  "addKind k s =
     (let i = kind_code k div 64
      in if i < 2 then s[i := s ! i OR push_bit (kind_code k mod 64) 1] else s)"

definition NewTokenSet :: "Kind list \<Rightarrow> TokenSet" where
  "NewTokenSet kinds = fold addKind kinds [0, 0]"

definition Contains :: "TokenSet \<Rightarrow> Kind \<Rightarrow> bool" where
  "Contains s k =
     (let i = kind_code k div 64
      in if i < 2 then s ! i AND push_bit (kind_code k mod 64) 1 \<noteq> 0 else False)"

section \<open>Lemmas\<close>

lemma kind_code_less: "kind_code k < 62"
  by (cases k) simp_all

lemma kind_code_div: "kind_code k div 64 = 0"
  using kind_code_less [of k] by simp

text \<open>The enumeration in the order of the source, which inverts \<open>kind_code\<close>.\<close>

definition all_kinds :: "Kind list" where
  "all_kinds =
    [TIllegal, TEOF, TComment, TIdent, TNumber, TString, TBacktickString,
     TAnd, TBreak, TDo, TElse, TElseIf, TEnd, TFalse, TFor, TFunction, TGoto, TIf, TIn,
     TLocal, TNil, TNot, TOr, TRepeat, TReturn, TThen, TTrue, TUntil, TWhile,
     TPlus, TMinus, TAsterisk, TSlash, TFloorSlash, TModulo, TCaret, THash,
     TBitAnd, TBitOr, TBitXor, TShiftLeft, TShiftRight, TConcat,
     TEq, TNotEq, TLess, TLessEq, TGreater, TGreaterEq, TAssign,
     TLParen, TRParen, TLBrace, TRBrace, TLBrack, TRBrack, TDoubleColon, TSemicolon,
     TColon, TComma, TDot, TVararg]"

lemma all_kinds_nth: "all_kinds ! kind_code k = k"
  by (cases k) (simp_all add: all_kinds_def)

lemma kind_code_inject: "kind_code a = kind_code b \<longleftrightarrow> a = b"
  by (metis all_kinds_nth)

lemma Contains_bit: "Contains s k \<longleftrightarrow> bit (s ! 0) (kind_code k)"
  unfolding Contains_def bit_iff_and_push_bit_not_eq_0
  using kind_code_less [of k] by (simp add: Let_def)

text \<open>Adding a kind to a set leaves two masks and makes exactly that kind a new member.\<close>

lemma length_addKind [simp]: "length (addKind k s) = length s"
  by (simp add: addKind_def Let_def)

lemma Contains_addKind:
  assumes "length s = 2"
  shows "Contains (addKind j s) k \<longleftrightarrow> j = k \<or> Contains s k"
proof -
  have "addKind j s ! 0 = s ! 0 OR push_bit (kind_code j) 1"
    using assms kind_code_less [of j] by (simp add: addKind_def kind_code_div)
  then show ?thesis
    using kind_code_less [of j] kind_code_less [of k]
    by (auto simp: Contains_bit bit_simps kind_code_inject)
qed

lemma Contains_fold_addKind:
  "length s = 2 \<Longrightarrow> Contains (fold addKind ks s) k \<longleftrightarrow> k \<in> set ks \<or> Contains s k"
  by (induction ks arbitrary: s) (auto simp: Contains_addKind)

lemma Contains_set: "Contains (NewTokenSet kinds) k \<longleftrightarrow> k \<in> set kinds"
proof -
  have "\<not> Contains [0, 0] k"
    by (simp add: Contains_bit)
  then show ?thesis
    by (simp add: NewTokenSet_def Contains_fold_addKind)
qed

text \<open>
  Membership in a token set: the set built by \<open>NewTokenSet\<close> from any list of kinds
  contains exactly the kinds of that list, so the two-word bit mask implements the
  finite set it stands for, for all 62 kinds.
\<close>

lemma Contains_NewTokenSet: "Contains (NewTokenSet kinds) k \<longleftrightarrow> k \<in> set kinds"
  by (rule Contains_set)

end
