(* ===== verification/Ast.thy ===== *)
theory Ast
  imports Tokens
begin

text \<open>
  Package \<open>ast\<close> (\<open>src/ast/ast.go\<close>): the flat syntax tree. Nodes live in one array and
  refer to each other by index; the children of a node with many children are a range of a
  second array, \<open>ExtraList\<close>. Index 0 is reserved for the invalid node. Byte offsets and
  node numbers are \<open>uint32\<close> in Go and \<open>nat\<close> here: every offset that the lexer and
  the parser store is bounded by the length of the source (theories \<open>Lexer\<close> and
  \<open>Parser\<close>), so no conversion wraps for a source shorter than \<open>2 ^ 32\<close> bytes.
\<close>

section \<open>Nodes and trees\<close>

datatype (plugins only: code size) NodeKind =
    KindInvalid | KindFile | KindBlock | KindLocalAssign | KindAssign | KindIdent | KindNumber
  | KindString | KindHashedString | KindBinaryExpr | KindUnaryExpr | KindParenExpr
  | KindNil | KindTrue | KindFalse | KindVararg | KindFunctionExpr | KindTableExpr
  | KindIndexExpr | KindMemberExpr | KindCallExpr
  | KindRecordField | KindIndexField | KindMethodCall | KindMethodName
  | KindExprList | KindNameList
  | KindBreak | KindReturn | KindLabel | KindGoto | KindDo | KindWhile | KindRepeat
  | KindIf | KindElseIf | KindElse | KindForNum | KindForIn | KindLocalFunction
  | KindFunctionStmt

datatype Attr = AttrNone | AttrConst | AttrClose

primrec attr_code :: "Attr \<Rightarrow> nat" where
  "attr_code AttrNone = 0"
| "attr_code AttrConst = 1"
| "attr_code AttrClose = 2"

type_synonym NodeID = nat

abbreviation (input) InvalidNode :: NodeID where
  "InvalidNode \<equiv> 0"

record Node =
  nStart :: nat
  nEnd :: nat
  nParent :: NodeID
  nLeft :: NodeID
  nRight :: NodeID
  nExtra :: nat
  nCount :: nat
  nKind :: NodeKind
  nFlags :: nat

text \<open>A struct literal \<open>Node{Kind: k, Start: s, End: e}\<close>: the other fields are zero.\<close>

definition mkNode :: "NodeKind \<Rightarrow> nat \<Rightarrow> nat \<Rightarrow> Node" where
  "mkNode k s e =
     \<lparr>nStart = s, nEnd = e, nParent = 0, nLeft = 0, nRight = 0, nExtra = 0, nCount = 0,
      nKind = k, nFlags = 0\<rparr>"

definition invalidNode :: Node where
  "invalidNode = mkNode KindInvalid (2 ^ 32 - 1) (2 ^ 32 - 1)"

record Tree =
  Source :: bytes
  Root :: NodeID
  PositionEncoding :: string
  Nodes :: "Node list"
  Comments :: "Token list"
  ExtraList :: "NodeID list"
  LineOffsets :: "nat list"

section \<open>Lines\<close>

text \<open>
  \<open>bytes.IndexByte\<close> of the standard library: the index of the first occurrence of a byte,
  \<open>None\<close> for \<open>-1\<close>.
\<close>

primrec IndexByte :: "bytes \<Rightarrow> byte \<Rightarrow> nat option" where
  "IndexByte [] c = None"
| "IndexByte (b # bs) c = (if b = c then Some 0 else map_option Suc (IndexByte bs c))"

abbreviation newline :: byte where
  "newline \<equiv> CHR 0x0A"

function computeLineOffsets_from :: "bytes \<Rightarrow> nat \<Rightarrow> nat list \<Rightarrow> nat list" where
  "computeLineOffsets_from source offset lines =
     (if offset < length source
      then (case IndexByte (drop offset source) newline of
              None \<Rightarrow> lines
            | Some idx \<Rightarrow>
                computeLineOffsets_from source (offset + idx + 1) (lines @ [offset + idx + 1]))
      else lines)"
  by pat_completeness auto
termination
  by (relation "measure (\<lambda>(source, offset, lines). length source - offset)") auto

definition computeLineOffsets :: "bytes \<Rightarrow> nat list \<Rightarrow> nat list" where
  "computeLineOffsets source lines = computeLineOffsets_from source 0 lines"

definition NewTree :: "bytes \<Rightarrow> Tree" where
  "NewTree source =
     \<lparr>Source = source, Root = 0, PositionEncoding = ''utf-16'', Nodes = [invalidNode],
      Comments = [], ExtraList = [], LineOffsets = computeLineOffsets source [0]\<rparr>"

definition SetPositionEncoding :: "string \<Rightarrow> Tree \<Rightarrow> Tree" where
  "SetPositionEncoding encoding t =
     (if encoding = ''utf-8'' \<or> encoding = ''utf-16'' \<or> encoding = ''utf-32''
      then t\<lparr>PositionEncoding := encoding\<rparr>
      else t\<lparr>PositionEncoding := ''utf-16''\<rparr>)"

text \<open>
  \<open>Tree.Reset\<close> reuses the backing arrays when they are large enough. The capacity of the
  node array is not part of the tree's contents, so it is an argument.
\<close>

definition Tree_Reset :: "nat \<Rightarrow> bytes \<Rightarrow> Tree \<Rightarrow> Tree" where
  "Tree_Reset capNodes source t =
     (let t = t\<lparr>Source := source\<rparr>;
          t = (if capNodes < length source div 10
               then t\<lparr>Nodes := [invalidNode], ExtraList := []\<rparr>
               else if Nodes t \<noteq> [] then t\<lparr>Nodes := take 1 (Nodes t), ExtraList := []\<rparr>
               else t);
          t = t\<lparr>Comments := []\<rparr>;
          t = (if LineOffsets t \<noteq> [] then t\<lparr>LineOffsets := take 1 (LineOffsets t)\<rparr> else t)
      in t\<lparr>LineOffsets := computeLineOffsets source (LineOffsets t)\<rparr>)"

text \<open>\<open>Tree.TrimOversized\<close> replaces each oversized array by an exact copy of its contents.\<close>

definition Tree_TrimOversized ::
  "nat \<Rightarrow> nat \<Rightarrow> nat \<Rightarrow> nat \<Rightarrow> nat \<Rightarrow> Tree \<Rightarrow> Tree" where
  "Tree_TrimOversized maxCap capNodes capExtra capComments capLines t =
     (let t = (if capNodes > maxCap then t\<lparr>Nodes := take (length (Nodes t)) (Nodes t)\<rparr> else t);
          t = (if capExtra > maxCap
               then t\<lparr>ExtraList := take (length (ExtraList t)) (ExtraList t)\<rparr> else t);
          t = (if capComments > maxCap
               then t\<lparr>Comments := take (length (Comments t)) (Comments t)\<rparr> else t)
      in if capLines > maxCap
         then t\<lparr>LineOffsets := take (length (LineOffsets t)) (LineOffsets t)\<rparr> else t)"

section \<open>Building and searching the tree\<close>

text \<open>The statement \<open>if child != InvalidNode { t.Nodes[child].Parent = id }\<close>.\<close>

definition linkChild :: "NodeID \<Rightarrow> NodeID \<Rightarrow> Node list \<Rightarrow> Node list option" where
  "linkChild nid child nodes =
     (if child \<noteq> InvalidNode then upd_opt nodes child (\<lambda>n. n\<lparr>nParent := nid\<rparr>) else Some nodes)"

definition AddNode :: "Tree \<Rightarrow> Node \<Rightarrow> (NodeID \<times> Tree) option" where
  "AddNode t n = do {
     let id = length (Nodes t);
     let n = n\<lparr>nParent := InvalidNode\<rparr>;
     nodes \<leftarrow> linkChild id (nLeft n) (Nodes t @ [n]);
     nodes \<leftarrow> linkChild id (nRight n) nodes;
     nodes \<leftarrow> (if nKind n = KindForIn then linkChild id (nExtra n) nodes else Some nodes);
     nodes \<leftarrow> forM [0..<nCount n] (\<lambda>i nodes. do {
                child \<leftarrow> nth_opt (ExtraList t) (nExtra n + i);
                linkChild id child nodes
              }) nodes;
     Some (id, t\<lparr>Nodes := nodes\<rparr>)
   }"

text \<open>
  \<open>IndexOfExtra\<close>: the position of a child in the range of its parent, \<open>-1\<close> if it does not
  occur there.
\<close>

primrec indexOfExtra_from :: "NodeID list \<Rightarrow> nat \<Rightarrow> NodeID \<Rightarrow> nat list \<Rightarrow> int option" where
  "indexOfExtra_from extra start targetID [] = Some (-1)"
| "indexOfExtra_from extra start targetID (i # is) = do {
     x \<leftarrow> nth_opt extra (start + i);
     if x = targetID then Some (int i) else indexOfExtra_from extra start targetID is
   }"

definition IndexOfExtra :: "Tree \<Rightarrow> NodeID \<Rightarrow> NodeID \<Rightarrow> int option" where
  "IndexOfExtra t listNodeID targetID =
     (if listNodeID = InvalidNode \<or> length (Nodes t) \<le> listNodeID then Some (-1)
      else let node = Nodes t ! listNodeID
           in indexOfExtra_from (ExtraList t) (nExtra node) targetID [0..<nCount node])"

text \<open>
  The closure \<open>check\<close> of \<open>NodeAt\<close>: it keeps the first child found so far, else takes
  \<open>childID\<close> when that node covers the offset.
\<close>

definition checkChild :: "Tree \<Rightarrow> nat \<Rightarrow> NodeID \<Rightarrow> NodeID \<Rightarrow> NodeID option" where
  "checkChild t offset childID next =
     (if childID \<noteq> InvalidNode \<and> next = InvalidNode
      then do {
        c \<leftarrow> nth_opt (Nodes t) childID;
        Some (if nStart c \<le> offset \<and> offset \<le> nEnd c then childID else next)
      }
      else Some next)"

text \<open>The binary search among the statements of a block or file.\<close>

function searchChild :: "Tree \<Rightarrow> nat \<Rightarrow> nat \<Rightarrow> nat \<Rightarrow> nat \<Rightarrow> NodeID option" where
  "searchChild t offset extra low high =
     (if low < high
      then let mid = (low + high) div 2
           in (case nth_opt (ExtraList t) (extra + mid) of
                 None \<Rightarrow> None
               | Some childID \<Rightarrow>
                   (case nth_opt (Nodes t) childID of
                      None \<Rightarrow> None
                    | Some c \<Rightarrow>
                        if offset < nStart c then searchChild t offset extra low mid
                        else if nEnd c < offset then searchChild t offset extra (mid + 1) high
                        else Some childID))
      else Some InvalidNode)"
  by pat_completeness auto
termination
  by (relation "measure (\<lambda>(t, offset, extra, low, high). high - low)") auto

text \<open>One iteration of the loop of \<open>NodeAt\<close>: the child to descend to, or the invalid node.\<close>

definition nodeAt_next :: "Tree \<Rightarrow> nat \<Rightarrow> Node \<Rightarrow> NodeID option" where
  "nodeAt_next t offset node = do {
     next \<leftarrow> checkChild t offset (nLeft node) InvalidNode;
     next \<leftarrow> checkChild t offset (nRight node) next;
     next \<leftarrow> (if nKind node = KindForIn then checkChild t offset (nExtra node) next else Some next);
     if next = InvalidNode \<and> nCount node > 0
     then if nKind node = KindBlock \<or> nKind node = KindFile
          then searchChild t offset (nExtra node) 0 (nCount node)
          else forM [0..<nCount node] (\<lambda>i next. do {
                 childID \<leftarrow> nth_opt (ExtraList t) (nExtra node + i);
                 checkChild t offset childID next
               }) next
     else Some next
   }"

partial_function (option) nodeAt_loop :: "Tree \<Rightarrow> nat \<Rightarrow> NodeID \<Rightarrow> NodeID option" where
  "nodeAt_loop t offset cur =
     (if length (Nodes t) \<le> cur then Some InvalidNode
      else Option.bind (nodeAt_next t offset (Nodes t ! cur))
             (\<lambda>next. if next \<noteq> InvalidNode then nodeAt_loop t offset next else Some cur))"

text \<open>\<open>None\<close>: the loop panics or descends forever.\<close>

definition NodeAt :: "Tree \<Rightarrow> nat \<Rightarrow> NodeID option" where
  "NodeAt t offset =
     (let cur = Root t
      in if length (Nodes t) \<le> cur then Some InvalidNode
         else if cur = InvalidNode \<or> offset < nStart (Nodes t ! cur) \<or> nEnd (Nodes t ! cur) < offset
         then Some InvalidNode
         else nodeAt_loop t offset cur)"

section \<open>Hashing\<close>

definition fnv_step :: "u64 \<Rightarrow> byte \<Rightarrow> u64" where
  "fnv_step hash b = (hash XOR of_char b) * 1099511628211"

definition fnv_offset :: u64 where
  "fnv_offset = 14695981039346656037"

definition HashBytes :: "bytes \<Rightarrow> u64" where
  "HashBytes b = foldl fnv_step fnv_offset b"

definition HashBytesConcat :: "bytes \<Rightarrow> bytes \<Rightarrow> bytes \<Rightarrow> u64" where
  "HashBytesConcat a sep b =
     (let hash = fnv_offset;
          hash = (if a \<noteq> [] then foldl fnv_step hash a else hash);
          hash = (if sep \<noteq> [] then foldl fnv_step hash sep else hash)
      in if b \<noteq> [] then foldl fnv_step hash b else hash)"

section \<open>Well-formed trees\<close>

text \<open>
  The invariant of a tree that the parser has built. A node other than the invalid one covers
  a range of the source, its children have smaller numbers than the node itself, the range of
  its child list lies inside \<open>ExtraList\<close>, and its parent, if it has one, has a larger number.
  So every walk down or up the tree terminates and stays inside the arrays.
\<close>

definition wf_node :: "nat \<Rightarrow> NodeID list \<Rightarrow> NodeID \<Rightarrow> Node \<Rightarrow> bool" where
  "wf_node len extra i n \<longleftrightarrow>
     nStart n \<le> nEnd n \<and> nEnd n \<le> len \<and> nLeft n < i \<and> nRight n < i \<and>
     (nKind n = KindForIn \<longrightarrow> nExtra n < i) \<and>
     (0 < nCount n \<longrightarrow> nExtra n + nCount n \<le> length extra) \<and>
     (\<forall>k<nCount n. extra ! (nExtra n + k) < i)"

definition wf_parent :: "nat \<Rightarrow> NodeID \<Rightarrow> Node \<Rightarrow> bool" where
  "wf_parent sz i n \<longleftrightarrow> nParent n = InvalidNode \<or> (i < nParent n \<and> nParent n < sz)"

definition wf_tree :: "Tree \<Rightarrow> bool" where
  "wf_tree t \<longleftrightarrow>
     Nodes t \<noteq> [] \<and> Nodes t ! 0 = invalidNode \<and>
     (\<forall>i<length (Nodes t). 0 < i \<longrightarrow>
        wf_node (length (Source t)) (ExtraList t) i (Nodes t ! i) \<and>
        wf_parent (length (Nodes t)) i (Nodes t ! i))"

text \<open>The children that \<open>AddNode\<close> links to a new node.\<close>

definition childSet :: "NodeID list \<Rightarrow> Node \<Rightarrow> NodeID set" where
  "childSet extra n =
     ({nLeft n, nRight n} \<union> (if nKind n = KindForIn then {nExtra n} else {})
      \<union> {extra ! (nExtra n + k) | k. k < nCount n}) - {InvalidNode}"

definition linkParents :: "NodeID \<Rightarrow> NodeID set \<Rightarrow> Node list \<Rightarrow> Node list" where
  "linkParents parent S ns =
     map (\<lambda>i. if i \<in> S then (ns ! i)\<lparr>nParent := parent\<rparr> else ns ! i) [0..<length ns]"

section \<open>Lemmas\<close>

declare computeLineOffsets_from.simps [simp del] searchChild.simps [simp del]

lemma IndexByte_None_iff: "IndexByte bs c = None \<longleftrightarrow> c \<notin> set bs"
  by (induction bs) auto

lemma IndexByte_SomeD:
  "IndexByte bs c = Some k \<Longrightarrow> k < length bs \<and> bs ! k = c \<and> (\<forall>j<k. bs ! j \<noteq> c)"
proof (induction bs arbitrary: k)
  case (Cons b bs)
  then show ?case by (auto simp: nth_Cons split: if_splits nat.splits)
qed simp

lemma length_linkParents [simp]: "length (linkParents parent S ns) = length ns"
  by (simp add: linkParents_def)

lemma nth_linkParents:
  "i < length ns \<Longrightarrow>
     linkParents parent S ns ! i = (if i \<in> S then (ns ! i)\<lparr>nParent := parent\<rparr> else ns ! i)"
  by (simp add: linkParents_def)

lemma linkParents_empty [simp]: "linkParents parent {} ns = ns"
  by (simp add: linkParents_def map_nth)

lemma linkChild_linkParents:
  "c < length ns \<Longrightarrow>
     linkChild parent c (linkParents parent S ns)
     = Some (linkParents parent (({c} - {InvalidNode}) \<union> S) ns)"
  unfolding linkChild_def
  by (auto simp: nth_linkParents intro!: nth_equalityI simp: nth_list_update)

lemma forM_linkChild:
  assumes "\<And>i. i \<in> set is \<Longrightarrow> start + i < length extra \<and> extra ! (start + i) < length ns"
  shows "forM is (\<lambda>i nodes. Option.bind (nth_opt extra (start + i))
            (\<lambda>child. linkChild parent child nodes)) (linkParents parent S ns)
         = Some (linkParents parent (((\<lambda>i. extra ! (start + i)) ` set is - {InvalidNode}) \<union> S) ns)"
  using assms
proof (induction "is" arbitrary: S)
  case (Cons i js)
  then show ?case
    by (simp add: linkChild_linkParents insert_Diff_if Un_commute Un_left_commute)
qed simp

lemma AddNode_eq:
  assumes "wf_node len (ExtraList t) (length (Nodes t)) n"
  shows "AddNode t n =
     Some (length (Nodes t),
           t\<lparr>Nodes := linkParents (length (Nodes t)) (childSet (ExtraList t) n)
                         (Nodes t @ [n\<lparr>nParent := InvalidNode\<rparr>])\<rparr>)"
proof -
  let ?id = "length (Nodes t)" and ?ns = "Nodes t @ [n\<lparr>nParent := InvalidNode\<rparr>]"
  let ?L = "\<lambda>S. linkParents ?id S ?ns"
  have 1: "linkChild ?id (nLeft n) ?ns = Some (?L ({nLeft n} - {InvalidNode}))"
    using linkChild_linkParents [of "nLeft n" ?ns ?id "{}"] assms by (simp add: wf_node_def)
  have 2: "linkChild ?id (nRight n) (?L S) = Some (?L (({nRight n} - {InvalidNode}) \<union> S))" for S
    using linkChild_linkParents [of "nRight n" ?ns ?id S] assms by (simp add: wf_node_def)
  have 3: "linkChild ?id (nExtra n) (?L S) = Some (?L (({nExtra n} - {InvalidNode}) \<union> S))"
    if "nKind n = KindForIn" for S
    using linkChild_linkParents [of "nExtra n" ?ns ?id S] assms that by (simp add: wf_node_def)
  have 4: "forM [0..<nCount n] (\<lambda>i nodes. Option.bind (nth_opt (ExtraList t) (nExtra n + i))
             (\<lambda>child. linkChild ?id child nodes)) (?L S)
           = Some (?L (((\<lambda>i. ExtraList t ! (nExtra n + i)) ` {0..<nCount n} - {InvalidNode}) \<union> S))" for S
    using forM_linkChild [of "[0..<nCount n]" "nExtra n" "ExtraList t" ?ns ?id S] assms
    by (auto simp: wf_node_def less_Suc_eq)
  have "childSet (ExtraList t) n =
      ((\<lambda>i. ExtraList t ! (nExtra n + i)) ` {0..<nCount n} - {InvalidNode}) \<union>
      ((if nKind n = KindForIn then {nExtra n} - {InvalidNode} else {}) \<union>
       (({nRight n} - {InvalidNode}) \<union> ({nLeft n} - {InvalidNode})))"
    by (auto simp: childSet_def)
  then show ?thesis
    by (simp add: AddNode_def Let_def 1 2 3 4)
qed

lemma childSet_less: "wf_node len extra i n \<Longrightarrow> c \<in> childSet extra n \<Longrightarrow> 0 < c \<and> c < i"
  by (auto simp: childSet_def wf_node_def split: if_splits)

lemma wf_node_mono_extra: "wf_node len extra i n \<Longrightarrow> wf_node len (extra @ xs) i n"
  by (auto simp: wf_node_def nth_append)

lemma wf_node_parent [simp]: "wf_node len extra i (n\<lparr>nParent := x\<rparr>) = wf_node len extra i n"
  by (simp add: wf_node_def)

lemma wf_treeD:
  assumes "wf_tree t" "i < length (Nodes t)" "0 < i"
  shows "wf_node (length (Source t)) (ExtraList t) i (Nodes t ! i)"
    and "wf_parent (length (Nodes t)) i (Nodes t ! i)"
  using assms by (auto simp: wf_tree_def)

lemma wf_tree_node0: "wf_tree t \<Longrightarrow> Nodes t ! 0 = invalidNode \<and> 0 < length (Nodes t)"
  by (auto simp: wf_tree_def)

lemma invalidNode_simps [simp]:
  "nKind invalidNode = KindInvalid" "nLeft invalidNode = 0" "nRight invalidNode = 0"
  "nCount invalidNode = 0" "nExtra invalidNode = 0" "nParent invalidNode = 0"
  by (simp_all add: invalidNode_def mkNode_def)

text \<open>Any node's children are in range, the invalid node's included.\<close>

lemma wf_tree_children:
  assumes "wf_tree t" "i < length (Nodes t)"
  shows "nLeft (Nodes t ! i) \<le> i" "nRight (Nodes t ! i) \<le> i"
    and "nLeft (Nodes t ! i) < length (Nodes t)" "nRight (Nodes t ! i) < length (Nodes t)"
    and "k < nCount (Nodes t ! i) \<Longrightarrow> nExtra (Nodes t ! i) + k < length (ExtraList t)"
    and "k < nCount (Nodes t ! i) \<Longrightarrow> ExtraList t ! (nExtra (Nodes t ! i) + k) < i"
    and "nKind (Nodes t ! i) = KindForIn \<Longrightarrow> nExtra (Nodes t ! i) < i"
  using wf_treeD [OF assms] wf_tree_node0 [OF assms(1)] assms(2)
  by (cases "i = 0"; auto simp: wf_node_def)+

lemma wf_tree_extra: "wf_tree t \<Longrightarrow> wf_tree (t\<lparr>ExtraList := ExtraList t @ xs\<rparr>)"
  by (auto simp: wf_tree_def intro: wf_node_mono_extra)

lemma wf_parent_mono: "wf_parent sz i n \<Longrightarrow> sz \<le> sz' \<Longrightarrow> wf_parent sz' i n"
  by (auto simp: wf_parent_def)

lemma AddNode_wf:
  assumes wf: "wf_tree t"
    and n: "wf_node (length (Source t)) (ExtraList t) (length (Nodes t)) n"
    and add: "AddNode t n = Some (i, t')"
  shows "wf_tree t'"
proof -
  let ?len = "length (Nodes t)"
  let ?S = "childSet (ExtraList t) n"
  have t': "t' = t\<lparr>Nodes := linkParents ?len ?S (Nodes t @ [n\<lparr>nParent := InvalidNode\<rparr>])\<rparr>"
    using AddNode_eq [OF n] add by simp
  have node: "Nodes t' ! j = (if j \<in> ?S then (Nodes t ! j)\<lparr>nParent := ?len\<rparr> else Nodes t ! j)"
    if "j < ?len" for j
    using that by (simp add: t' nth_linkParents nth_append)
  have new: "Nodes t' ! ?len = n\<lparr>nParent := InvalidNode\<rparr>"
    using childSet_less [OF n, of ?len] by (auto simp: t' nth_linkParents)
  have len: "length (Nodes t') = Suc ?len" and same: "Source t' = Source t" "ExtraList t' = ExtraList t"
    by (simp_all add: t')
  have "wf_node (length (Source t')) (ExtraList t') j (Nodes t' ! j) \<and>
        wf_parent (length (Nodes t')) j (Nodes t' ! j)"
    if j: "j < length (Nodes t')" "0 < j" for j
  proof (cases "j < ?len")
    case True
    then have "wf_parent (Suc ?len) j (Nodes t ! j)"
      using wf_treeD(2) [OF wf True j(2)] by (auto intro: wf_parent_mono)
    with True show ?thesis
      using wf_treeD(1) [OF wf True j(2)] by (auto simp: node same len wf_parent_def)
  next
    case False
    with j len have "j = ?len" by simp
    with n show ?thesis by (simp add: new same wf_parent_def)
  qed
  moreover have "Nodes t' ! 0 = invalidNode"
    using wf_tree_node0 [OF wf] node [of 0] childSet_less [OF n, of 0] by auto
  ultimately show ?thesis
    unfolding wf_tree_def using len by auto
qed

section \<open>The search for the node at an offset\<close>

definition covers :: "Tree \<Rightarrow> nat \<Rightarrow> NodeID \<Rightarrow> bool" where
  "covers t offset i \<longleftrightarrow> nStart (Nodes t ! i) \<le> offset \<and> offset \<le> nEnd (Nodes t ! i)"

text \<open>What one iteration may choose below node \<open>i\<close>: nothing, or a covering node below it.\<close>

definition descends :: "Tree \<Rightarrow> nat \<Rightarrow> NodeID \<Rightarrow> NodeID \<Rightarrow> bool" where
  "descends t offset i nx \<longleftrightarrow> nx = InvalidNode \<or> (nx < i \<and> covers t offset nx)"

lemma checkChild_descends:
  assumes "childID = InvalidNode \<or> childID < i" "i < length (Nodes t)" "descends t offset i nx"
  shows "\<exists>nx'. checkChild t offset childID nx = Some nx' \<and> descends t offset i nx'"
  using assms by (auto simp: checkChild_def descends_def covers_def)

lemma searchChild_descends:
  assumes "wf_tree t" "i < length (Nodes t)" "high \<le> nCount (Nodes t ! i)"
  shows "\<exists>nx. searchChild t offset (nExtra (Nodes t ! i)) low high = Some nx
                 \<and> descends t offset i nx"
  using assms(3)
proof (induction "high - low" arbitrary: low high rule: less_induct)
  case less
  let ?n = "Nodes t ! i" and ?mid = "(low + high) div 2"
  let ?c = "ExtraList t ! (nExtra ?n + ?mid)"
  show ?case
  proof (cases "low < high")
    case True
    then have "?mid < nCount ?n" using less.prems by auto
    then have read: "nth_opt (ExtraList t) (nExtra ?n + ?mid) = Some ?c" and c: "?c < i"
      using wf_tree_children(5,6) [OF assms(1,2)] by auto
    have "\<exists>nx. searchChild t offset (nExtra ?n) low ?mid = Some nx \<and> descends t offset i nx"
      by (rule less.hyps) (use True less.prems in auto)
    moreover have "\<exists>nx. searchChild t offset (nExtra ?n) (?mid + 1) high = Some nx
                     \<and> descends t offset i nx"
      by (rule less.hyps) (use True less.prems in auto)
    ultimately show ?thesis
      using True read c assms(2)
      by (subst searchChild.simps) (auto simp: Let_def descends_def covers_def)
  next
    case False
    then show ?thesis by (subst searchChild.simps) (simp add: descends_def)
  qed
qed

lemma nodeAt_next_descends:
  assumes "wf_tree t" "i < length (Nodes t)"
  shows "\<exists>nx. nodeAt_next t offset (Nodes t ! i) = Some nx \<and> descends t offset i nx"
proof -
  let ?n = "Nodes t ! i"
  have start: "descends t offset i InvalidNode" by (simp add: descends_def)
  have child: "c = InvalidNode \<or> c < i" if "c \<le> i" "c < i \<or> i = 0" for c
    using that by auto
  have lr: "nLeft ?n = InvalidNode \<or> nLeft ?n < i" "nRight ?n = InvalidNode \<or> nRight ?n < i"
    using assms by (cases "i = 0"; auto simp: wf_tree_def wf_node_def)+
  obtain n1 where n1: "checkChild t offset (nLeft ?n) InvalidNode = Some n1" "descends t offset i n1"
    using checkChild_descends [OF lr(1) assms(2) start] by blast
  obtain n2 where n2: "checkChild t offset (nRight ?n) n1 = Some n2" "descends t offset i n2"
    using checkChild_descends [OF lr(2) assms(2) n1(2)] by blast
  have "\<exists>n3. (if nKind ?n = KindForIn then checkChild t offset (nExtra ?n) n2 else Some n2) = Some n3
              \<and> descends t offset i n3"
    using checkChild_descends [of "nExtra ?n" i t offset n2] wf_tree_children(7) [OF assms] assms(2) n2(2)
    by auto
  then obtain n3 where n3: "(if nKind ?n = KindForIn then checkChild t offset (nExtra ?n) n2 else Some n2)
      = Some n3" "descends t offset i n3" by blast
  have loop: "\<exists>nx. forM [0..<nCount ?n] (\<lambda>k nx. Option.bind (nth_opt (ExtraList t) (nExtra ?n + k))
        (\<lambda>childID. checkChild t offset childID nx)) n3 = Some nx \<and> descends t offset i nx"
  proof (rule forM_invariant [where I = "descends t offset i", OF n3(2)])
    fix k nx
    assume k: "k \<in> set [0..<nCount ?n]" and d: "descends t offset i nx"
    then have "ExtraList t ! (nExtra ?n + k) < i" "nExtra ?n + k < length (ExtraList t)"
      using wf_tree_children(5,6) [OF assms] by auto
    with checkChild_descends [OF _ assms(2) d]
    show "\<exists>s'. Option.bind (nth_opt (ExtraList t) (nExtra ?n + k))
        (\<lambda>childID. checkChild t offset childID nx) = Some s' \<and> descends t offset i s'"
      by auto
  qed
  show ?thesis
    using loop n3(2) searchChild_descends [OF assms order_refl, of offset 0]
    by (auto simp: nodeAt_next_def n1(1) n2(1) n3(1))
qed

lemma nodeAt_loop_total:
  assumes "wf_tree t" "0 < i" "i < length (Nodes t)" "covers t offset i"
  shows "\<exists>r. nodeAt_loop t offset i = Some r \<and> 0 < r \<and> r \<le> i \<and> covers t offset r
              \<and> nodeAt_next t offset (Nodes t ! r) = Some InvalidNode"
  using assms(2-4)
proof (induction i rule: less_induct)
  case (less i)
  obtain nx where n: "nodeAt_next t offset (Nodes t ! i) = Some nx" "descends t offset i nx"
    using nodeAt_next_descends [OF assms(1) less.prems(2)] by blast
  show ?case
  proof (cases "nx = InvalidNode")
    case True
    with n less.prems show ?thesis by (subst nodeAt_loop.simps) auto
  next
    case False
    with n(2) have "nx < i" "covers t offset nx" by (auto simp: descends_def)
    with less.IH [of "nx"] less.prems False obtain r where
      "nodeAt_loop t offset nx = Some r" "0 < r" "r \<le> nx" "covers t offset r"
      "nodeAt_next t offset (Nodes t ! r) = Some InvalidNode" by auto
    with n False less.prems \<open>nx < i\<close> show ?thesis by (subst nodeAt_loop.simps) auto
  qed
qed

text \<open>
  The statements of a block or file are ordered when none is the invalid node and both their
  starts and their ends do not decrease; the binary search of \<open>NodeAt\<close> relies on that.
\<close>

definition orderedNode :: "Tree \<Rightarrow> NodeID \<Rightarrow> bool" where
  "orderedNode t i \<longleftrightarrow>
     (let n = Nodes t ! i; child = (\<lambda>k. Nodes t ! (ExtraList t ! (nExtra n + k)))
      in nKind n = KindBlock \<or> nKind n = KindFile \<longrightarrow>
         (\<forall>k<nCount n. ExtraList t ! (nExtra n + k) \<noteq> InvalidNode \<and>
            (\<forall>j<k. nStart (child j) \<le> nStart (child k) \<and> nEnd (child j) \<le> nEnd (child k))))"

lemma searchChild_none:
  assumes wf: "wf_tree t" and i: "i < length (Nodes t)"
    and ord: "\<And>j k. j < k \<Longrightarrow> k < nCount (Nodes t ! i) \<Longrightarrow>
        nStart (Nodes t ! (ExtraList t ! (nExtra (Nodes t ! i) + j)))
          \<le> nStart (Nodes t ! (ExtraList t ! (nExtra (Nodes t ! i) + k))) \<and>
        nEnd (Nodes t ! (ExtraList t ! (nExtra (Nodes t ! i) + j)))
          \<le> nEnd (Nodes t ! (ExtraList t ! (nExtra (Nodes t ! i) + k)))"
    and nz: "\<And>k. k < nCount (Nodes t ! i) \<Longrightarrow> ExtraList t ! (nExtra (Nodes t ! i) + k) \<noteq> InvalidNode"
    and "high \<le> nCount (Nodes t ! i)"
    and "searchChild t offset (nExtra (Nodes t ! i)) low high = Some InvalidNode"
    and "low \<le> k" "k < high" and c: "c = ExtraList t ! (nExtra (Nodes t ! i) + k)"
  shows "\<not> covers t offset c"
  using assms(5-8)
proof (induction "high - low" arbitrary: low high rule: less_induct)
  case less
  let ?e = "nExtra (Nodes t ! i)" and ?mid = "(low + high) div 2"
  let ?m = "ExtraList t ! (?e + ?mid)"
  have mid: "low \<le> ?mid" "?mid < high" "?mid < nCount (Nodes t ! i)" and lh: "low < high"
    using less.prems by auto
  then have "nth_opt (ExtraList t) (?e + ?mid) = Some ?m" and m: "?m < i"
    using wf_tree_children(5,6) [OF wf i] by auto
  then have step: "(if offset < nStart (Nodes t ! ?m) then searchChild t offset ?e low ?mid
      else if nEnd (Nodes t ! ?m) < offset then searchChild t offset ?e (?mid + 1) high
      else Some ?m) = Some InvalidNode"
    using less.prems(2) lh i by (subst (asm) searchChild.simps) (auto simp: Let_def)
  have k: "k < nCount (Nodes t ! i)" using less.prems by simp
  consider (left) "offset < nStart (Nodes t ! ?m)" "searchChild t offset ?e low ?mid = Some InvalidNode"
    | (right) "nEnd (Nodes t ! ?m) < offset" "searchChild t offset ?e (?mid + 1) high = Some InvalidNode"
    | (here) "?m = InvalidNode" "\<not> offset < nStart (Nodes t ! ?m)" "\<not> nEnd (Nodes t ! ?m) < offset"
    using step by (auto split: if_splits)
  then show ?case
  proof cases
    case left
    show ?thesis
    proof (cases "k < ?mid")
      case True
      with less.hyps [of ?mid low] left mid less.prems lh show ?thesis by auto
    next
      case False
      then have "nStart (Nodes t ! ?m) \<le> nStart (Nodes t ! c)"
        using ord [of ?mid k] k c by (cases "?mid = k") auto
      with left(1) show ?thesis by (auto simp: covers_def)
    qed
  next
    case right
    show ?thesis
    proof (cases "?mid < k")
      case True
      with less.hyps [of high "?mid + 1"] right mid less.prems lh show ?thesis by auto
    next
      case False
      then have "nEnd (Nodes t ! c) \<le> nEnd (Nodes t ! ?m)"
        using ord [of k ?mid] mid c by (cases "?mid = k") auto
      with right(1) show ?thesis by (auto simp: covers_def)
    qed
  next
    case here
    with nz [OF mid(3)] show ?thesis by simp
  qed
qed

lemma checkChild_none:
  assumes "checkChild t offset c nx = Some InvalidNode" "c \<noteq> InvalidNode"
  shows "nx = InvalidNode \<and> \<not> covers t offset c"
  using assms by (auto simp: checkChild_def nth_opt_def covers_def split: if_splits bind_splits)

lemma checkChild_keeps: "checkChild t offset c nx = Some InvalidNode \<Longrightarrow> nx = InvalidNode"
  by (auto simp: checkChild_def split: if_splits bind_splits)

lemma forM_checkChild_none:
  assumes "forM is (\<lambda>k nx. Option.bind (nth_opt extra (start + k))
            (\<lambda>childID. checkChild t offset childID nx)) nx = Some InvalidNode"
  shows "nx = InvalidNode \<and> (\<forall>k \<in> set is. extra ! (start + k) \<noteq> InvalidNode \<longrightarrow>
           \<not> covers t offset (extra ! (start + k)))"
  using assms
proof (induction "is" arbitrary: nx)
  case (Cons k ks)
  then obtain nx1 where nx1: "checkChild t offset (extra ! (start + k)) nx = Some nx1"
    and rest: "forM ks (\<lambda>k nx. Option.bind (nth_opt extra (start + k))
            (\<lambda>childID. checkChild t offset childID nx)) nx1 = Some InvalidNode"
    by (auto simp: nth_opt_def split: bind_splits if_splits)
  with Cons.IH [OF rest] checkChild_none [of t offset "extra ! (start + k)" nx] checkChild_keeps
  show ?case by auto
qed simp

lemma nodeAt_next_none:
  assumes wf: "wf_tree t" and i: "i < length (Nodes t)" and ord: "orderedNode t i"
    and none: "nodeAt_next t offset (Nodes t ! i) = Some InvalidNode"
    and c: "c \<in> childSet (ExtraList t) (Nodes t ! i)"
  shows "\<not> covers t offset c"
proof -
  let ?n = "Nodes t ! i"
  let ?loop = "forM [0..<nCount ?n] (\<lambda>k nx. Option.bind (nth_opt (ExtraList t) (nExtra ?n + k))
            (\<lambda>childID. checkChild t offset childID nx))"
  obtain n1 n2 n3 where n1: "checkChild t offset (nLeft ?n) InvalidNode = Some n1"
    and n2: "checkChild t offset (nRight ?n) n1 = Some n2"
    and n3: "(if nKind ?n = KindForIn then checkChild t offset (nExtra ?n) n2 else Some n2) = Some n3"
    and last: "(if n3 = InvalidNode \<and> 0 < nCount ?n
          then if nKind ?n = KindBlock \<or> nKind ?n = KindFile
               then searchChild t offset (nExtra ?n) 0 (nCount ?n) else ?loop n3
          else Some n3) = Some InvalidNode"
    using none by (auto simp: nodeAt_next_def split: bind_splits)
  have n3_0: "n3 = InvalidNode"
    using last by (auto split: if_splits)
  with n3 have n2_0: "n2 = InvalidNode"
    by (auto split: if_splits dest: checkChild_keeps)
  with n2 have n1_0: "n1 = InvalidNode" by (auto dest: checkChild_keeps)
  have range: "\<not> covers t offset (ExtraList t ! (nExtra ?n + k))"
    if k: "k < nCount ?n" and nz: "ExtraList t ! (nExtra ?n + k) \<noteq> InvalidNode" for k
  proof (cases "nKind ?n = KindBlock \<or> nKind ?n = KindFile")
    case True
    with last n3_0 k have "searchChild t offset (nExtra ?n) 0 (nCount ?n) = Some InvalidNode"
      by auto
    from searchChild_none [OF wf i _ _ order_refl this _ k refl] True ord show ?thesis
      by (auto simp: orderedNode_def Let_def)
  next
    case False
    with last n3_0 k have "?loop InvalidNode = Some InvalidNode" by auto
    from forM_checkChild_none [OF this] k nz show ?thesis by auto
  qed
  show ?thesis
    using c range n1 n2 n3 checkChild_none unfolding n1_0 n2_0 n3_0
    by (auto simp: childSet_def split: if_splits)
qed

text \<open>
  C37. \<open>Tree.NodeAt\<close> terminates without a run-time panic on every well-formed tree. For an
  offset inside the root it returns a node that covers the offset and is the narrowest one:
  if the statements of that node are in order, none of its children covers the offset.
\<close>

theorem NodeAt_narrowest:
  assumes "wf_tree t" and "0 < Root t" and "Root t < length (Nodes t)" and "covers t offset (Root t)"
  shows "\<exists>r. NodeAt t offset = Some r \<and> r \<noteq> InvalidNode \<and> r \<le> Root t \<and> covers t offset r \<and>
           (orderedNode t r \<longrightarrow> (\<forall>c \<in> childSet (ExtraList t) (Nodes t ! r). \<not> covers t offset c))"
proof -
  obtain r where r: "nodeAt_loop t offset (Root t) = Some r" "0 < r" "r \<le> Root t" "covers t offset r"
    "nodeAt_next t offset (Nodes t ! r) = Some InvalidNode"
    using nodeAt_loop_total [OF assms] by blast
  have "NodeAt t offset = Some r"
    using assms r(1) by (simp add: NodeAt_def covers_def)
  moreover have "\<not> covers t offset c"
    if "orderedNode t r" "c \<in> childSet (ExtraList t) (Nodes t ! r)" for c
    using nodeAt_next_none [OF assms(1) _ that(1) r(5) that(2)] r(3) assms(3) by simp
  ultimately show ?thesis using r by blast
qed

text \<open>A file that holds one empty block.\<close>

definition sampleTree :: Tree where
  "sampleTree = (NewTree ''x'')\<lparr>Root := 2, Nodes := [invalidNode, mkNode KindBlock 0 1,
     (mkNode KindFile 0 1)\<lparr>nLeft := 1\<rparr>]\<rparr>"

theorem NodeAt_narrowest_witness:
  "\<exists>r. NodeAt sampleTree 0 = Some r \<and> r \<noteq> InvalidNode \<and> r \<le> Root sampleTree \<and> covers sampleTree 0 r \<and>
     (orderedNode sampleTree r \<longrightarrow>
        (\<forall>c \<in> childSet (ExtraList sampleTree) (Nodes sampleTree ! r). \<not> covers sampleTree 0 c))"
proof (rule NodeAt_narrowest)
  show "wf_tree sampleTree"
    by (auto simp: sampleTree_def NewTree_def wf_tree_def wf_node_def wf_parent_def mkNode_def
        less_Suc_eq numeral_2_eq_2)
qed (simp_all add: sampleTree_def covers_def mkNode_def)

section \<open>Child indices, hashes and reuse\<close>

lemma indexOfExtra_from_spec:
  assumes "\<And>i. i \<in> set is \<Longrightarrow> start + i < length extra"
  shows "indexOfExtra_from extra start target is =
     Some (case find (\<lambda>i. extra ! (start + i) = target) is of None \<Rightarrow> -1 | Some i \<Rightarrow> int i)"
  using assms by (induction "is") auto

lemma IndexOfExtra_cases:
  assumes "wf_tree t"
  obtains "IndexOfExtra t l target = Some (-1)"
  | k where "IndexOfExtra t l target = Some (int k)" "0 < l" "l < length (Nodes t)"
      "k < nCount (Nodes t ! l)" "ExtraList t ! (nExtra (Nodes t ! l) + k) = target"
proof (cases "l = InvalidNode \<or> length (Nodes t) \<le> l")
  case True
  then show ?thesis by (intro that(1)) (auto simp: IndexOfExtra_def)
next
  case False
  let ?n = "Nodes t ! l"
  let ?f = "find (\<lambda>i. ExtraList t ! (nExtra ?n + i) = target) [0..<nCount ?n]"
  have eq: "IndexOfExtra t l target = Some (case ?f of None \<Rightarrow> -1 | Some i \<Rightarrow> int i)"
    using False wf_tree_children(5) [OF assms, of l]
    by (auto simp: IndexOfExtra_def Let_def intro!: indexOfExtra_from_spec)
  show ?thesis
  proof (cases ?f)
    case None
    with eq show ?thesis by (intro that(1)) simp
  next
    case (Some k)
    then have "k < nCount ?n" "ExtraList t ! (nExtra ?n + k) = target"
      by (auto simp: find_Some_iff)
    with eq Some False show ?thesis by (intro that(2)) auto
  qed
qed

text \<open>\<open>HashBytesConcat\<close> computes, without building the concatenation, the FNV-1a hash of the
  three slices joined: the optimised routine agrees with \<open>HashBytes\<close> on every input, the
  wrap-around of the 64-bit multiplication included.
\<close>

lemma HashBytesConcat_eq: "HashBytesConcat a sep b = HashBytes (a @ sep @ b)"
  by (simp add: HashBytesConcat_def HashBytes_def)

text \<open>\<open>Tree.Reset\<close> prepares a used tree for a new source: whatever the capacity of its arrays,
  the contents become those of a new tree for that source; only the last root and the
  negotiated position encoding are kept.
\<close>

lemma Tree_Reset_eq_NewTree:
  assumes "Nodes t \<noteq> []" and "Nodes t ! 0 = invalidNode"
    and "LineOffsets t \<noteq> []" and "LineOffsets t ! 0 = 0"
  shows "Tree_Reset capNodes source t =
           (NewTree source)\<lparr>Root := Root t, PositionEncoding := PositionEncoding t\<rparr>"
proof -
  have "take 1 (Nodes t) = [invalidNode]" "take 1 (LineOffsets t) = [0]"
    using assms by (auto simp: neq_Nil_conv)
  then show ?thesis
    using assms by (simp add: Tree_Reset_def NewTree_def Let_def)
qed

lemma wf_NewTree [simp]: "wf_tree (NewTree source)"
  by (simp add: wf_tree_def NewTree_def)

lemma NewTree_simps [simp]:
  "Source (NewTree source) = source" "Nodes (NewTree source) = [invalidNode]"
  "ExtraList (NewTree source) = []" "Comments (NewTree source) = []"
  by (simp_all add: NewTree_def)

end
