(* ===== verification/Positions.thy ===== *)
theory Positions
  imports Ast
begin

text \<open>
  The conversions between byte offsets and line/column positions of \<open>src/ast/ast.go\<close>
  (\<open>computeLineOffsets\<close>, \<open>Position\<close>, \<open>Offset\<close>) in the three position encodings of the
  Language Server Protocol, with the part of the standard library's UTF-8 decoder that they
  use.
\<close>

section \<open>Positions\<close>

text \<open>
  \<open>utf8.DecodeRune\<close> of the standard library on a non-empty slice: the code point and its
  width in bytes. An ill-formed sequence yields \<open>RuneError\<close> (0xFFFD) with width 1.
\<close>

definition RuneError :: nat where
  "RuneError = 0xFFFD"

text \<open>The table \<open>first\<close> and the accept ranges: size, lowest and highest second byte.\<close>

definition rune_first :: "nat \<Rightarrow> (nat \<times> nat \<times> nat) option" where
  "rune_first b =
     (if 0xC2 \<le> b \<and> b \<le> 0xDF then Some (2, 0x80, 0xBF)
      else if b = 0xE0 then Some (3, 0xA0, 0xBF)
      else if b = 0xED then Some (3, 0x80, 0x9F)
      else if 0xE1 \<le> b \<and> b \<le> 0xEF then Some (3, 0x80, 0xBF)
      else if b = 0xF0 then Some (4, 0x90, 0xBF)
      else if 0xF1 \<le> b \<and> b \<le> 0xF3 then Some (4, 0x80, 0xBF)
      else if b = 0xF4 then Some (4, 0x80, 0x8F)
      else None)"

definition continuation :: "nat \<Rightarrow> bool" where
  "continuation b \<longleftrightarrow> 0x80 \<le> b \<and> b \<le> 0xBF"

definition DecodeRune :: "bytes \<Rightarrow> nat \<times> nat" where
  "DecodeRune p =
     (case map byte_val p of
        [] \<Rightarrow> (RuneError, 0)
      | p0 # rest \<Rightarrow>
          if p0 < 0x80 then (p0, 1)
          else (case rune_first p0 of
             None \<Rightarrow> (RuneError, 1)
           | Some (sz, lo, hi) \<Rightarrow>
               if length p < sz then (RuneError, 1)
               else if rest ! 0 < lo \<or> hi < rest ! 0 then (RuneError, 1)
               else if sz \<le> 2 then ((p0 mod 32) * 64 + rest ! 0 mod 64, 2)
               else if \<not> continuation (rest ! 1) then (RuneError, 1)
               else if sz \<le> 3
               then ((p0 mod 16) * 4096 + (rest ! 0 mod 64) * 64 + rest ! 1 mod 64, 3)
               else if \<not> continuation (rest ! 2) then (RuneError, 1)
               else ((p0 mod 8) * 262144 + (rest ! 0 mod 64) * 4096 + (rest ! 1 mod 64) * 64
                      + rest ! 2 mod 64, 4)))"

lemma DecodeRune_size_pos [simp]: "p \<noteq> [] \<Longrightarrow> 0 < snd (DecodeRune p)"
  by (cases p) (auto simp: DecodeRune_def split: option.split)

text \<open>The binary search of \<open>Position\<close>: the number of line starts at or before the offset.\<close>

function searchLine :: "nat list \<Rightarrow> nat \<Rightarrow> nat \<Rightarrow> nat \<Rightarrow> nat option" where
  "searchLine lines offset low high =
     (if low < high
      then let mid = (low + high) div 2
           in (case nth_opt lines mid of
                 None \<Rightarrow> None
               | Some l \<Rightarrow> if l \<le> offset then searchLine lines offset (mid + 1) high
                          else searchLine lines offset low mid)
      else Some low)"
  by pat_completeness auto
termination
  by (relation "measure (\<lambda>(lines, offset, low, high). high - low)") auto

text \<open>The column loop of \<open>Position\<close> on the bytes that remain of the line prefix.\<close>

function countColumns :: "string \<Rightarrow> bytes \<Rightarrow> nat" where
  "countColumns enc bs =
     (if bs = [] then 0
      else if byte_val (hd bs) < 0x80 then 1 + countColumns enc (tl bs)
      else let (r, size) = DecodeRune bs
           in (if enc = ''utf-32'' then 1 else if r > 0xFFFF then 2 else 1)
              + countColumns enc (drop size bs))"
  by pat_completeness auto
termination
  by (relation "measure (\<lambda>(enc, bs). length bs)")
     (auto simp: neq_Nil_conv, metis DecodeRune_size_pos diff_less length_Cons list.distinct(1)
        snd_conv zero_less_Suc)

text \<open>
  \<open>lineIdx := uint32(low - 1)\<close>: the subtraction wraps when no line starts at or before
  the offset, and the bounds test then fails. \<open>None\<close> is a run-time panic.
\<close>

definition Position :: "Tree \<Rightarrow> nat \<Rightarrow> (nat \<times> nat) option" where
  "Position t offset =
     (let lines = LineOffsets t in
      do {
        low \<leftarrow> searchLine lines offset 0 (length lines);
        let lineIdx = (low + (2 ^ 32 - 1)) mod 2 ^ 32;
        if lineIdx < length lines
        then do {
          let safeOffset = min offset (length (Source t));
          let startOffset = min (lines ! lineIdx) safeOffset;
          colBytes \<leftarrow> slice_opt (Source t) startOffset safeOffset;
          let hasNonASCII = list_ex (\<lambda>b. byte_val b \<ge> 0x80) colBytes;
          if PositionEncoding t = ''utf-8'' \<or> \<not> hasNonASCII
          then Some (lineIdx, length colBytes)
          else Some (lineIdx, countColumns (PositionEncoding t) colBytes)
        }
        else Some (0, 0)
      })"

text \<open>The loop of \<open>Offset\<close> on the bytes that remain after index \<open>i\<close>.\<close>

function skipColumns :: "string \<Rightarrow> nat \<Rightarrow> bytes \<Rightarrow> nat \<Rightarrow> nat \<Rightarrow> nat" where
  "skipColumns enc col rem currentCol i =
     (if rem \<noteq> [] \<and> currentCol < col
      then if hd rem = newline then i
           else if byte_val (hd rem) < 0x80
           then skipColumns enc col (tl rem) (currentCol + 1) (i + 1)
           else let (r, size) = DecodeRune rem;
                    w = (if enc = ''utf-8'' then size
                         else if enc = ''utf-32'' then 1
                         else if enc = ''utf-16'' then (if r > 0xFFFF then 2 else 1)
                         else 1)
                in skipColumns enc col (drop size rem) (currentCol + w) (i + size)
      else i)"
  by pat_completeness auto
termination
  by (relation "measure (\<lambda>(enc, col, rem, currentCol, i). length rem)")
     (auto simp: neq_Nil_conv, metis DecodeRune_size_pos diff_less length_Cons list.distinct(1)
        snd_conv zero_less_Suc)

definition Offset :: "Tree \<Rightarrow> nat \<Rightarrow> nat \<Rightarrow> nat option" where
  "Offset t line col =
     (if line < length (LineOffsets t)
      then do {
        let lineStart = LineOffsets t ! line;
        rem \<leftarrow> slice_opt (Source t) lineStart (length (Source t));
        let offset = lineStart + skipColumns (PositionEncoding t) col rem 0 0;
        Some (if offset > length (Source t) then length (Source t) else offset)
      }
      else Some (length (Source t)))"

section \<open>Line starts\<close>

declare searchLine.simps [simp del] countColumns.simps [simp del] skipColumns.simps [simp del]

definition newlines_from :: "bytes \<Rightarrow> nat \<Rightarrow> nat list" where
  "newlines_from source offset = map Suc (filter (\<lambda>i. source ! i = newline) [offset..<length source])"

lemma newlines_from_skip:
  assumes "offset \<le> k" "\<forall>j. offset \<le> j \<and> j < k \<longrightarrow> source ! j \<noteq> newline" "k \<le> length source"
  shows "newlines_from source offset = newlines_from source k"
proof -
  have "[offset..<length source] = [offset..<k] @ [k..<length source]"
    using assms upt_add_eq_append [of offset k "length source - k"] by simp
  moreover have "filter (\<lambda>i. source ! i = newline) [offset..<k] = []"
    using assms(2) by (auto simp: filter_empty_conv)
  ultimately show ?thesis by (simp add: newlines_from_def)
qed

lemma computeLineOffsets_from_eq:
  "computeLineOffsets_from source offset lines = lines @ newlines_from source offset"
proof (induction source offset lines rule: computeLineOffsets_from.induct)
  case (1 source offset lines)
  show ?case
  proof (cases "offset < length source")
    case True
    show ?thesis
    proof (cases "IndexByte (drop offset source) newline")
      case None
      then have none: "newline \<notin> set (drop offset source)" by (simp add: IndexByte_None_iff)
      have "source ! j \<noteq> newline" if "offset \<le> j" "j < length source" for j
        using none that nth_mem [of "j - offset" "drop offset source"] diff_less_mono [of j _ offset]
        by auto
      then have "newlines_from source offset = []"
        by (auto simp: newlines_from_def filter_empty_conv)
      with True None show ?thesis by (subst computeLineOffsets_from.simps) simp
    next
      case (Some idx)
      from IndexByte_SomeD [OF Some] have idx: "offset + idx < length source"
        "source ! (offset + idx) = newline" "\<forall>j<idx. source ! (offset + j) \<noteq> newline" by auto
      have "\<forall>j. offset \<le> j \<and> j < offset + idx \<longrightarrow> source ! j \<noteq> newline"
        using idx(3) by (metis add_diff_inverse_nat leD less_diff_conv2 add.commute)
      then have "newlines_from source offset = newlines_from source (offset + idx)"
        using idx(1) by (intro newlines_from_skip) auto
      also have "\<dots> = (offset + idx + 1) # newlines_from source (offset + idx + 1)"
        using idx by (simp add: newlines_from_def upt_conv_Cons)
      finally show ?thesis
        using 1 [OF True Some] True Some by (subst computeLineOffsets_from.simps) simp
    qed
  next
    case False
    then show ?thesis by (subst computeLineOffsets_from.simps) (simp add: newlines_from_def)
  qed
qed

text \<open>
  The line table: \<open>computeLineOffsets\<close> lists 0 and then, in increasing order, exactly the
  positions that follow a newline byte, so line \<open>k\<close> starts after the \<open>k\<close>-th newline.
\<close>

lemma computeLineOffsets_lines:
  "computeLineOffsets source [0] =
     0 # map Suc (filter (\<lambda>i. source ! i = newline) [0..<length source])"
  by (simp add: computeLineOffsets_def computeLineOffsets_from_eq newlines_from_def)

lemma sorted_line_starts: "sorted_wrt (<) (0 # newlines_from source offset)"
proof -
  have "sorted_wrt (<) (filter (\<lambda>i. source ! i = newline) [offset..<length source])"
    by (intro sorted_wrt_filter) simp
  then show ?thesis by (auto simp: newlines_from_def sorted_wrt_map)
qed

section \<open>From offsets to positions\<close>

lemma searchLine_spec:
  assumes "sorted_wrt (<) lines" and "high \<le> length lines"
    and "\<forall>i<low. lines ! i \<le> offset" and "\<forall>i. high \<le> i \<and> i < length lines \<longrightarrow> offset < lines ! i"
    and "low \<le> high"
  shows "\<exists>r. searchLine lines offset low high = Some r \<and> r \<le> length lines \<and>
           (\<forall>i<r. lines ! i \<le> offset) \<and> (\<forall>i. r \<le> i \<and> i < length lines \<longrightarrow> offset < lines ! i)"
  using assms(2-)
proof (induction "high - low" arbitrary: low high rule: less_induct)
  case less
  show ?case
  proof (cases "low < high")
    case True
    let ?mid = "(low + high) div 2"
    have mid: "low \<le> ?mid" "?mid < high" "?mid < length lines" using True less.prems by auto
    show ?thesis
    proof (cases "lines ! ?mid \<le> offset")
      case le: True
      have "lines ! i \<le> offset" if "i < ?mid + 1" for i
        using sorted_wrt_less_nth_mono [OF assms(1), of i ?mid] that mid(3) le by simp
      with less.hyps [of high "?mid + 1"] less.prems mid le True show ?thesis
        by (subst searchLine.simps) (auto simp: Let_def)
    next
      case False
      then have "\<forall>i. ?mid \<le> i \<and> i < length lines \<longrightarrow> offset < lines ! i"
        using sorted_wrt_less_nth_mono [OF assms(1), of ?mid] by (meson leD leI order.trans)
      with less.hyps [of ?mid low] less.prems mid False True show ?thesis
        by (subst searchLine.simps) (auto simp: Let_def)
    qed
  next
    case False
    with less.prems show ?thesis by (subst searchLine.simps) auto
  qed
qed

text \<open>The line table that belongs to the source, as \<open>NewTree\<close> and \<open>Reset\<close> install it.\<close>

definition wf_lines :: "Tree \<Rightarrow> bool" where
  "wf_lines t \<longleftrightarrow> LineOffsets t = computeLineOffsets (Source t) [0] \<and> length (Source t) < 2 ^ 32 - 1"

lemma wf_lines_eq: "wf_lines t \<Longrightarrow> LineOffsets t = 0 # newlines_from (Source t) 0"
  by (simp add: wf_lines_def computeLineOffsets_def computeLineOffsets_from_eq)

lemma wf_lines_length: "wf_lines t \<Longrightarrow> length (LineOffsets t) < 2 ^ 32"
proof -
  assume wf: "wf_lines t"
  have "length (newlines_from (Source t) 0) \<le> length (Source t)"
    by (simp add: newlines_from_def) (metis length_filter_le length_upt diff_zero)
  with wf show ?thesis by (simp add: wf_lines_eq) (simp add: wf_lines_def)
qed

lemma wf_lines_le: "wf_lines t \<Longrightarrow> l < length (LineOffsets t) \<Longrightarrow> LineOffsets t ! l \<le> length (Source t)"
proof -
  assume "wf_lines t" "l < length (LineOffsets t)"
  then have "LineOffsets t ! l \<in> set (0 # newlines_from (Source t) 0)"
    by (metis nth_mem wf_lines_eq)
  then show ?thesis by (auto simp: newlines_from_def)
qed

text \<open>The number of the line that holds an offset.\<close>

definition lineOf :: "Tree \<Rightarrow> nat \<Rightarrow> nat" where
  "lineOf t offset = length (filter (\<lambda>s. s \<le> offset) (LineOffsets t)) - 1"

lemma length_filter_le_split:
  assumes "r \<le> length xs" "\<forall>i<r. xs ! i \<le> (k::nat)" "\<forall>i. r \<le> i \<and> i < length xs \<longrightarrow> k < xs ! i"
  shows "length (filter (\<lambda>s. s \<le> k) xs) = r"
proof -
  have "filter (\<lambda>s. s \<le> k) (take r xs) = take r xs"
    using assms(1,2) by (auto simp: filter_id_conv in_set_conv_nth)
  moreover have "k < xs ! (r + i)" if "i < length xs - r" for i
    using assms(3) that by auto
  then have "filter (\<lambda>s. s \<le> k) (drop r xs) = []"
    using leD by (fastforce simp: filter_empty_conv in_set_conv_nth)
  ultimately show ?thesis
    using assms(1) by (metis append_Nil2 append_take_drop_id filter_append length_take min.absorb2)
qed

lemma searchLine_lineOf:
  assumes "wf_lines t"
  shows "searchLine (LineOffsets t) offset 0 (length (LineOffsets t)) = Some (Suc (lineOf t offset))"
    and "lineOf t offset < length (LineOffsets t)"
    and "LineOffsets t ! lineOf t offset \<le> offset"
    and "Suc (lineOf t offset) < length (LineOffsets t) \<Longrightarrow>
         offset < LineOffsets t ! Suc (lineOf t offset)"
proof -
  let ?L = "LineOffsets t"
  obtain r where r: "searchLine ?L offset 0 (length ?L) = Some r" "r \<le> length ?L"
    "\<forall>i<r. ?L ! i \<le> offset" "\<forall>i. r \<le> i \<and> i < length ?L \<longrightarrow> offset < ?L ! i"
    using searchLine_spec [of ?L "length ?L" 0 offset] sorted_line_starts [of "Source t" 0]
    by (auto simp: wf_lines_eq [OF assms])
  have "r \<noteq> 0"
    using r(4) by (auto simp: wf_lines_eq [OF assms])
  moreover have "lineOf t offset = r - 1"
    using length_filter_le_split [OF r(2-4)] by (simp add: lineOf_def)
  ultimately show "searchLine ?L offset 0 (length ?L) = Some (Suc (lineOf t offset))"
    and "lineOf t offset < length ?L" and "?L ! lineOf t offset \<le> offset"
    and "Suc (lineOf t offset) < length ?L \<Longrightarrow> offset < ?L ! Suc (lineOf t offset)"
    using r by auto
qed

text \<open>The column of \<open>Position\<close>: bytes, or the columns that the encoding counts.\<close>

definition columnOf :: "string \<Rightarrow> bytes \<Rightarrow> nat" where
  "columnOf enc bs = (if enc = ''utf-8'' then length bs else countColumns enc bs)"

lemma countColumns_ascii: "list_all (\<lambda>b. byte_val b < 0x80) bs \<Longrightarrow> countColumns enc bs = length bs"
  by (induction bs) (simp_all add: countColumns.simps)

lemma Position_eq:
  assumes "wf_lines t" "offset \<le> length (Source t)"
  shows "Position t offset =
     Some (lineOf t offset,
           columnOf (PositionEncoding t) (slice (Source t) (LineOffsets t ! lineOf t offset) offset))"
proof -
  let ?l = "lineOf t offset" and ?s = "LineOffsets t ! lineOf t offset"
  note search = searchLine_lineOf [OF assms(1), of offset]
  have idx: "(Suc ?l + (2 ^ 32 - 1)) mod 2 ^ 32 = ?l"
    using search(2) wf_lines_length [OF assms(1)] by simp
  have bs: "slice_opt (Source t) (min ?s (min offset (length (Source t)))) (min offset (length (Source t)))
       = Some (slice (Source t) ?s offset)"
    using search(3) assms(2) by (simp add: min_absorb1)
  have ascii: "\<not> list_ex (\<lambda>b. byte_val b \<ge> 0x80) bs \<Longrightarrow> countColumns enc bs = length bs" for enc bs
    by (rule countColumns_ascii) (simp add: list_ex_iff list_all_iff not_le)
  show ?thesis
    unfolding Position_def Let_def search(1)
    using search(2) ascii by (simp only: Option.bind.simps idx if_True bs) (auto simp: columnOf_def)
qed

text \<open>
  \<open>Position\<close> finds the line: on a tree whose line table belongs to its source (fewer than
  \<open>2 ^ 32 - 1\<close> bytes), the reported line starts at or before the offset and the next line, if
  there is one, starts after it. The conversion never panics.
\<close>

lemma Position_line:
  assumes "wf_lines t" and "offset \<le> length (Source t)"
  shows "\<exists>line col. Position t offset = Some (line, col) \<and> line < length (LineOffsets t) \<and>
           LineOffsets t ! line \<le> offset \<and>
           (Suc line < length (LineOffsets t) \<longrightarrow> offset < LineOffsets t ! Suc line)"
  using Position_eq [OF assms] searchLine_lineOf [OF assms(1), of offset] by blast

lemma Position_line_witness:
  "\<exists>line col. Position (NewTree ''ab'') 1 = Some (line, col) \<and> line < length (LineOffsets (NewTree ''ab'')) \<and>
     LineOffsets (NewTree ''ab'') ! line \<le> 1 \<and>
     (Suc line < length (LineOffsets (NewTree ''ab'')) \<longrightarrow> 1 < LineOffsets (NewTree ''ab'') ! Suc line)"
  using Position_line [of "NewTree ''ab''" 1] by (simp add: wf_lines_def NewTree_def)

section \<open>The round trip\<close>

text \<open>
  A rune boundary of a byte string: a position that decoding from the front reaches, an
  ill-formed byte counting as one rune.
\<close>

function runeBoundary :: "bytes \<Rightarrow> nat \<Rightarrow> bool" where
  "runeBoundary bs n =
     (if n = 0 then True
      else if bs = [] then False
      else let size = snd (DecodeRune bs)
           in size \<le> n \<and> runeBoundary (drop size bs) (n - size))"
  by pat_completeness auto
termination
  by (relation "measure (\<lambda>(bs, n). length bs)") auto

declare runeBoundary.simps [simp del]

lemma DecodeRune_take:
  assumes "bs \<noteq> []" "snd (DecodeRune bs) \<le> n"
  shows "DecodeRune (take n bs) = DecodeRune bs"
proof -
  obtain b rest where bs: "bs = b # rest" using assms(1) by (cases bs) auto
  have "0 < n" using assms DecodeRune_size_pos [OF assms(1)] by linarith
  then obtain m where n: "n = Suc m" by (cases n) auto
  show ?thesis
  proof (cases "byte_val b < 0x80 \<or> rune_first (byte_val b) = None")
    case True
    then show ?thesis by (auto simp: bs n DecodeRune_def)
  next
    case False
    then obtain sz lo hi where f: "rune_first (byte_val b) = Some (sz, lo, hi)" by auto
    have sz: "sz = 2 \<or> sz = 3 \<or> sz = 4"
      using f by (auto simp: rune_first_def split: if_splits)
    show ?thesis
    proof (cases "length (take n bs) < sz")
      case True
      then have "snd (DecodeRune bs) = 1 \<Longrightarrow> ?thesis"
        using False f by (auto simp: bs n DecodeRune_def split: if_splits)
      moreover have "snd (DecodeRune bs) = 1"
        using True assms(2) False f sz
        by (auto simp: bs n DecodeRune_def min_def split: if_splits)
      ultimately show ?thesis by blast
    next
      case le: False
      have eq: "map byte_val (take m rest) ! i = map byte_val rest ! i" if "Suc i < sz" for i
      proof -
        have "sz \<le> Suc (min (length rest) m)" using le by (simp add: bs n)
        with that have "i < m" "i < length rest" by linarith+
        then show ?thesis by simp
      qed
      have ge: "\<not> length bs < sz" using le by simp
      show ?thesis
        using sz False f le ge eq [of 0] eq [of 1] eq [of 2]
        by (elim disjE) (simp_all add: bs n DecodeRune_def numeral_2_eq_2, auto simp: min_def)
    qed
  qed
qed

text \<open>The width that both loops give to one rune.\<close>

definition runeWidth :: "string \<Rightarrow> bytes \<Rightarrow> nat" where
  "runeWidth enc bs =
     (let (r, size) = DecodeRune bs
      in if enc = ''utf-8'' then size
         else if enc = ''utf-32'' then 1
         else if r > 0xFFFF then 2 else 1)"

definition lspEncodings :: "string set" where
  "lspEncodings = {''utf-8'', ''utf-16'', ''utf-32''}"

lemma runeWidth_pos: "bs \<noteq> [] \<Longrightarrow> 0 < runeWidth enc bs"
  using DecodeRune_size_pos [of bs] by (cases "DecodeRune bs") (auto simp: runeWidth_def)

lemma DecodeRune_ascii: "bs \<noteq> [] \<Longrightarrow> byte_val (hd bs) < 0x80 \<Longrightarrow> DecodeRune bs = (byte_val (hd bs), 1)"
  by (cases bs) (auto simp: DecodeRune_def)

lemma columnOf_step:
  assumes "bs \<noteq> []" "enc \<in> lspEncodings" "snd (DecodeRune bs) \<le> length bs"
  shows "columnOf enc bs = runeWidth enc bs + columnOf enc (drop (snd (DecodeRune bs)) bs)"
  using assms DecodeRune_ascii [of bs]
  by (auto simp: columnOf_def runeWidth_def Let_def countColumns.simps [of enc bs] drop_Suc
      split: prod.splits)

lemma skipColumns_step:
  assumes "rem \<noteq> []" "currentCol < col" "hd rem \<noteq> newline" "enc \<in> lspEncodings"
  shows "skipColumns enc col rem currentCol i =
     skipColumns enc col (drop (snd (DecodeRune rem)) rem)
       (currentCol + runeWidth enc rem) (i + snd (DecodeRune rem))"
  using assms DecodeRune_ascii [of rem]
  by (subst skipColumns.simps)
     (auto simp: runeWidth_def lspEncodings_def Let_def drop_Suc split: prod.splits)

lemma skipColumns_columnOf:
  assumes "enc \<in> lspEncodings" "runeBoundary rem n" "newline \<notin> set (take n rem)" "n \<le> length rem"
    "col = currentCol + columnOf enc (take n rem)"
  shows "skipColumns enc col rem currentCol i = i + n"
  using assms(2-)
proof (induction rem n arbitrary: currentCol i rule: runeBoundary.induct)
  case (1 bs n)
  show ?case
  proof (cases "n = 0")
    case True
    with 1 show ?thesis by (subst skipColumns.simps) (simp add: columnOf_def countColumns.simps)
  next
    case False
    let ?sz = "snd (DecodeRune bs)"
    have bs: "bs \<noteq> []" and sz: "?sz \<le> n" and rest: "runeBoundary (drop ?sz bs) (n - ?sz)"
      using "1.prems"(1) False by (auto simp: runeBoundary.simps [of bs n] Let_def split: if_splits)
    have dec: "DecodeRune (take n bs) = DecodeRune bs"
      by (rule DecodeRune_take [OF bs sz])
    have ne: "take n bs \<noteq> []" using bs False by simp
    have col: "columnOf enc (take n bs) = runeWidth enc bs + columnOf enc (take (n - ?sz) (drop ?sz bs))"
      using columnOf_step [OF ne assms(1)] sz "1.prems"(3)
      by (simp add: dec runeWidth_def drop_take)
    have "hd bs \<noteq> newline"
      using "1.prems"(2) False bs by (cases bs; cases n) auto
    then have "skipColumns enc col bs currentCol i =
        skipColumns enc col (drop ?sz bs) (currentCol + runeWidth enc bs) (i + ?sz)"
      using skipColumns_step [OF bs, of currentCol col enc] assms(1) "1.prems"(4) col
        runeWidth_pos [OF bs, of enc] by simp
    also have "\<dots> = i + ?sz + (n - ?sz)"
    proof (rule "1.IH" [OF False bs refl])
      show "newline \<notin> set (take (n - ?sz) (drop ?sz bs))"
        using "1.prems"(2) by (metis drop_take in_set_dropD)
    qed (use rest "1.prems" col sz in simp_all)
    finally show ?thesis using sz by simp
  qed
qed

lemma no_newline_before:
  assumes "wf_lines t" "LineOffsets t ! lineOf t offset \<le> j" "j < offset" "offset \<le> length (Source t)"
  shows "Source t ! j \<noteq> newline"
proof
  assume nl: "Source t ! j = newline"
  let ?L = "LineOffsets t" and ?l = "lineOf t offset"
  have "Suc j \<in> set ?L"
    using nl assms(3,4) by (simp add: wf_lines_eq [OF assms(1)] newlines_from_def)
  then obtain k where k: "k < length ?L" "?L ! k = Suc j" by (auto simp: in_set_conv_nth)
  have sorted: "sorted_wrt (<) ?L"
    using sorted_line_starts by (simp add: wf_lines_eq [OF assms(1)])
  note line = searchLine_lineOf [OF assms(1), of offset]
  have "?l < k"
  proof (rule ccontr)
    assume "\<not> ?l < k"
    then have "Suc j \<le> ?L ! ?l"
      using k line(2) sorted_wrt_less_nth_mono [OF sorted, of k ?l] by simp
    with assms(2) show False by simp
  qed
  then have "?L ! Suc ?l \<le> Suc j"
    using k sorted_wrt_less_nth_mono [OF sorted, of "Suc ?l" k] by simp
  with line(4) \<open>?l < k\<close> k assms(3) show False by simp
qed

text \<open>
  C38. Round trip of positions: converting an offset to a line and column and back gives the
  offset again, in each of the three encodings, for every offset that is on a rune boundary
  of its line. Ill-formed UTF-8 and the surrogate pairs of UTF-16 are included.
\<close>

theorem Offset_Position:
  assumes "wf_lines t" and "PositionEncoding t \<in> lspEncodings" and "offset \<le> length (Source t)"
    and "runeBoundary (drop (LineOffsets t ! lineOf t offset) (Source t))
           (offset - LineOffsets t ! lineOf t offset)"
  shows "Option.bind (Position t offset) (\<lambda>(line, col). Offset t line col) = Some offset"
proof -
  let ?s = "LineOffsets t ! lineOf t offset"
  note line = searchLine_lineOf [OF assms(1), of offset]
  let ?rem = "drop ?s (Source t)" and ?n = "offset - ?s"
  have "newline \<notin> set (slice (Source t) ?s offset)"
    using no_newline_before [OF assms(1) _ _ assms(3)] assms(3) by (force simp: set_slice)
  then have "skipColumns (PositionEncoding t) (columnOf (PositionEncoding t) (slice (Source t) ?s offset))
      ?rem 0 0 = 0 + ?n"
    using assms(3) by (intro skipColumns_columnOf [OF assms(2,4)]) (auto simp: slice_def)
  moreover have "slice_opt (Source t) ?s (length (Source t)) = Some ?rem"
    using line(3) assms(3) by (simp add: slice_def)
  ultimately show ?thesis
    using line assms(3) by (simp add: Position_eq [OF assms(1,3)] Offset_def)
qed

theorem Offset_Position_witness:
  "Option.bind (Position (NewTree [CHR 0xC3, CHR 0xA9, CHR ''x'']) 2)
     (\<lambda>(line, col). Offset (NewTree [CHR 0xC3, CHR 0xA9, CHR ''x'']) line col) = Some 2"
proof (rule Offset_Position)
  let ?t = "NewTree [CHR 0xC3, CHR 0xA9, CHR ''x'']"
  show "wf_lines ?t" by (simp add: wf_lines_def NewTree_def)
  show "PositionEncoding ?t \<in> lspEncodings" "2 \<le> length (Source ?t)"
    by (simp_all add: lspEncodings_def NewTree_def)
  have "LineOffsets ?t = [0]"
    by (simp add: NewTree_def computeLineOffsets_def computeLineOffsets_from.simps)
  moreover have "runeBoundary [CHR 0xC3, CHR 0xA9, CHR ''x''] 2" by code_simp
  ultimately show "runeBoundary (drop (LineOffsets ?t ! lineOf ?t 2) (Source ?t)) (2 - LineOffsets ?t ! lineOf ?t 2)"
    by (simp add: lineOf_def)
qed

section \<open>Ranges\<close>

text \<open>Pairs of positions (\<open>src/lsp/messages.go\<close>, \<open>src/lsp/utils.go\<close>), as the server reports them.\<close>

record Range =
  rgStart :: "nat \<times> nat"
  rgEnd :: "nat \<times> nat"

definition getRange :: "Tree \<Rightarrow> nat \<Rightarrow> nat \<Rightarrow> Range option" where
  "getRange tree start stop = do {
     s \<leftarrow> Position tree start;
     e \<leftarrow> Position tree stop;
     Some \<lparr>rgStart = s, rgEnd = e\<rparr>
   }"

definition getNodeRange :: "Tree \<Rightarrow> NodeID \<Rightarrow> Range option" where
  "getNodeRange tree nid =
     (if nid = InvalidNode \<or> length (Nodes tree) \<le> nid then Some \<lparr>rgStart = (0, 0), rgEnd = (0, 0)\<rparr>
      else getRange tree (nStart (Nodes tree ! nid)) (nEnd (Nodes tree ! nid)))"

end
