(* ===== verification/Lexer.thy ===== *)
theory Lexer
  imports Ast
begin

text \<open>
  Package \<open>lexer\<close> (\<open>src/lexer/lexer.go\<close>): the hand-written scanner. Its state is the
  source, the offset \<open>lCursor\<close> of the current byte \<open>lCh\<close>, and the offset \<open>lRead\<close> of the
  byte after it; at the end of the source \<open>lCh\<close> is 0, and a zero byte in the source is
  treated as the end. \<open>Next\<close> returns \<open>None\<close> exactly where the Go code would panic.
\<close>

unbundle bit_operations_syntax

section \<open>Character classes\<close>

definition propIdent :: "8 word" where "propIdent = 1"
definition propDigit :: "8 word" where "propDigit = 2"
definition propHex :: "8 word" where "propHex = 4"
definition propLetter :: "8 word" where "propLetter = 8"

text \<open>The entry of the table \<open>charProps\<close> that \<open>init\<close> computes for one byte.\<close>

definition charProps :: "byte \<Rightarrow> 8 word" where
  "charProps c =
     (let i = byte_val c; p = 0;
          p = (if (97 \<le> i \<and> i \<le> 122) \<or> (65 \<le> i \<and> i \<le> 90) \<or> i = 95
               then p OR (propLetter OR propIdent OR propHex) else p);
          p = (if 48 \<le> i \<and> i \<le> 57 then p OR (propDigit OR propIdent OR propHex) else p)
      in if (103 \<le> i \<and> i \<le> 122) \<or> (71 \<le> i \<and> i \<le> 90) \<or> i = 95
         then p AND NOT propHex else p)"

definition hasProp :: "byte \<Rightarrow> 8 word \<Rightarrow> bool" where
  "hasProp c prop \<longleftrightarrow> charProps c AND prop \<noteq> 0"

definition isSpace :: "byte \<Rightarrow> bool" where
  "isSpace c \<longleftrightarrow> c = CHR '' '' \<or> c = CHR 0x09 \<or> c = newline \<or> c = CHR 0x0D"

section \<open>State and cursor movement\<close>

record Lexer =
  lSource :: bytes
  lLength :: nat
  lCursor :: nat
  lRead :: nat
  lCh :: byte

abbreviation nul :: byte where
  "nul \<equiv> CHR 0x00"

definition advance :: "Lexer \<Rightarrow> Lexer" where
  "advance l =
     (if lRead l < length (lSource l)
      then l\<lparr>lCh := lSource l ! lRead l, lCursor := lRead l, lRead := lRead l + 1\<rparr>
      else l\<lparr>lCh := nul, lCursor := lRead l\<rparr>)"

definition lexer_peek :: "Lexer \<Rightarrow> byte" where
  "lexer_peek l = (if lRead l < length (lSource l) then lSource l ! lRead l else nul)"

definition Lexer_Reset :: "bytes \<Rightarrow> Lexer \<Rightarrow> Lexer" where
  "Lexer_Reset source l =
     (let l = l\<lparr>lSource := source, lLength := length source, lCursor := 0, lRead := 0, lCh := nul\<rparr>;
          l = (if length source \<ge> 3 \<and> source ! 0 = CHR 0xEF \<and> source ! 1 = CHR 0xBB
                  \<and> source ! 2 = CHR 0xBF
               then l\<lparr>lRead := 3\<rparr> else l)
      in advance l)"

definition Lexer_New :: "bytes \<Rightarrow> Lexer" where
  "Lexer_New source =
     Lexer_Reset source \<lparr>lSource = [], lLength = 0, lCursor = 0, lRead = 0, lCh = nul\<rparr>"

text \<open>The assignments that end every scanning loop over the index \<open>i\<close>.\<close>

definition moveTo :: "Lexer \<Rightarrow> nat \<Rightarrow> Lexer" where
  "moveTo l i =
     (let l = l\<lparr>lCursor := i\<rparr>
      in if i < length (lSource l) then l\<lparr>lCh := lSource l ! i, lRead := i + 1\<rparr>
         else l\<lparr>lCh := nul, lRead := i\<rparr>)"

text \<open>The loop \<open>for ; i < len(src); i++ { if !P(src[i]) { break } }\<close>.\<close>

function scanWhile :: "(byte \<Rightarrow> bool) \<Rightarrow> bytes \<Rightarrow> nat \<Rightarrow> nat" where
  "scanWhile P src i = (if i < length src \<and> P (src ! i) then scanWhile P src (i + 1) else i)"
  by pat_completeness auto
termination
  by (relation "measure (\<lambda>(P, src, i). length src - i)") auto

definition skipWhitespace :: "Lexer \<Rightarrow> Lexer" where
  "skipWhitespace l =
     (if \<not> isSpace (lCh l) then l
      else moveTo l (scanWhile isSpace (lSource l) (lCursor l)))"

definition tok :: "Kind \<Rightarrow> nat \<Rightarrow> nat \<Rightarrow> Token" where
  "tok k s e = \<lparr>tkKind = k, tkStart = s, tkEnd = e\<rparr>"

section \<open>Token readers\<close>

definition luaKeywords :: "(bytes \<times> Kind) list" where
  "luaKeywords =
     [(''and'', TAnd), (''break'', TBreak), (''do'', TDo), (''else'', TElse),
      (''elseif'', TElseIf), (''end'', TEnd), (''false'', TFalse), (''for'', TFor),
      (''function'', TFunction), (''goto'', TGoto), (''if'', TIf), (''in'', TIn),
      (''local'', TLocal), (''nil'', TNil), (''not'', TNot), (''or'', TOr),
      (''repeat'', TRepeat), (''return'', TReturn), (''then'', TThen), (''true'', TTrue),
      (''until'', TUntil), (''while'', TWhile)]"

definition identKind :: "bytes \<Rightarrow> Kind" where
  "identKind text = (case map_of luaKeywords text of Some k \<Rightarrow> k | None \<Rightarrow> TIdent)"

definition readIdent :: "nat \<Rightarrow> Lexer \<Rightarrow> Token \<times> Lexer" where
  "readIdent start l =
     (let src = lSource l;
          i = scanWhile (\<lambda>c. hasProp c propIdent) src (lCursor l);
          l = moveTo l i;
          kind = (if start \<le> i \<and> i \<le> length src then identKind (slice src start i) else TIdent)
      in (tok kind start (lCursor l), l))"

text \<open>A measure of what is left to read; \<open>advance\<close> decreases it unless the end is reached.\<close>

definition lexRest :: "Lexer \<Rightarrow> nat" where
  "lexRest l = 2 * (length (lSource l) - lRead l) + (if lCh l \<noteq> nul then 1 else 0)"

lemma lexRest_advance: "lCh l \<noteq> nul \<Longrightarrow> lexRest (advance l) < lexRest l"
  by (auto simp: lexRest_def advance_def)

lemma lexRest_advance_le: "lexRest (advance l) \<le> lexRest l"
  by (auto simp: lexRest_def advance_def)

text \<open>\<open>if l.ch == '+' || l.ch == '-' { l.advance() }\<close> after an exponent mark.\<close>

definition skipSign :: "Lexer \<Rightarrow> Lexer" where
  "skipSign l = (if lCh l = CHR ''+'' \<or> lCh l = CHR ''-'' then advance l else l)"

function numberLoop :: "bool \<Rightarrow> Lexer \<Rightarrow> Lexer" where
  "numberLoop isHex l =
     (if lCh l \<noteq> nul
      then if isHex \<and> (hasProp (lCh l) propHex \<or> lCh l = CHR ''.'')
           then numberLoop isHex (advance l)
           else if \<not> isHex \<and> (hasProp (lCh l) propDigit \<or> lCh l = CHR ''.'')
           then numberLoop isHex (advance l)
           else if isHex \<and> (lCh l = CHR ''p'' \<or> lCh l = CHR ''P'')
           then numberLoop isHex (skipSign (advance l))
           else if \<not> isHex \<and> (lCh l = CHR ''e'' \<or> lCh l = CHR ''E'')
           then numberLoop isHex (skipSign (advance l))
           else l
      else l)"
  by pat_completeness auto
termination
  by (relation "measure (\<lambda>(isHex, l). lexRest l)")
     (auto simp: skipSign_def lexRest_advance intro: le_less_trans [OF lexRest_advance_le lexRest_advance])

definition readNumber :: "nat \<Rightarrow> Lexer \<Rightarrow> (Token \<times> Lexer) option" where
  "readNumber start l = do {
     c \<leftarrow> nth_opt (lSource l) start;
     let isHex = (c = CHR ''0'' \<and> (lCh l = CHR ''x'' \<or> lCh l = CHR ''X''));
     let l = (if isHex then advance l else l);
     let l = numberLoop isHex l;
     Some (tok TNumber start (lCursor l), l)
   }"

function stringEnd :: "byte \<Rightarrow> bytes \<Rightarrow> nat \<Rightarrow> nat" where
  "stringEnd quote src i =
     (if i < length src
      then let c = src ! i
           in if c = CHR 0x5C
              then stringEnd quote src (if i + 1 < length src then i + 2 else i + 1)
              else if c = quote then i + 1
              else if c = newline then i
              else stringEnd quote src (i + 1)
      else i)"
  by pat_completeness auto
termination
  by (relation "measure (\<lambda>(quote, src, i). length src - i)") auto

definition readString :: "nat \<Rightarrow> byte \<Rightarrow> Lexer \<Rightarrow> Token \<times> Lexer" where
  "readString start quote l =
     (let l = moveTo l (stringEnd quote (lSource l) (lCursor l))
      in (tok TString start (lCursor l), l))"

definition readBacktickString :: "nat \<Rightarrow> Lexer \<Rightarrow> Token \<times> Lexer" where
  "readBacktickString start l =
     (let i = scanWhile (\<lambda>c. c \<noteq> CHR 0x60) (lSource l) (lCursor l);
          i = (if i < length (lSource l) then i + 1 else i);
          l = moveTo l i
      in (tok TBacktickString start (lCursor l), l))"

text \<open>The loop that counts equals signs; it returns the count and the state.\<close>

function countEq :: "nat \<Rightarrow> Lexer \<Rightarrow> nat \<times> Lexer" where
  "countEq n l = (if lCh l = CHR ''='' then countEq (n + 1) (advance l) else (n, l))"
  by pat_completeness auto
termination
  by (relation "measure (\<lambda>(n, l). lexRest l)") (auto intro: lexRest_advance)

declare scanWhile.simps [simp del] numberLoop.simps [simp del] stringEnd.simps [simp del]
  countEq.simps [simp del]

lemma lexRest_countEq: "lexRest (snd (countEq n l)) \<le> lexRest l"
proof (induction n l rule: countEq.induct)
  case (1 n l)
  then show ?case
    by (subst countEq.simps) (auto intro: order_trans [OF _ lexRest_advance_le])
qed

function longStringLoop :: "nat \<Rightarrow> Lexer \<Rightarrow> Lexer" where
  "longStringLoop eqCount l =
     (if lCh l \<noteq> nul
      then if lCh l = CHR '']''
           then let (closingEq, l) = countEq 0 (advance l)
                in if lCh l = CHR '']'' \<and> closingEq = eqCount then advance l
                   else longStringLoop eqCount l
           else longStringLoop eqCount (advance l)
      else l)"
  by pat_completeness auto
termination
proof (relation "measure (\<lambda>(eqCount, l). lexRest l)", goal_cases)
  case (2 eqCount l x closingEq l')
  have "lexRest l' \<le> lexRest (advance l)"
    using 2(3,4) lexRest_countEq [of 0 "advance l"] by (metis snd_conv)
  then show ?case
    using lexRest_advance [OF 2(1)] by simp
qed (auto intro: lexRest_advance)

definition readLongString :: "nat \<Rightarrow> Lexer \<Rightarrow> Token \<times> Lexer" where
  "readLongString start l =
     (let (eqCount, l) = countEq 0 l
      in if lCh l \<noteq> CHR ''['' then (tok TIllegal start (lCursor l), l)
         else let l = longStringLoop eqCount (advance l)
              in (tok TString start (lCursor l), l))"

definition readComment :: "nat \<Rightarrow> Lexer \<Rightarrow> (Token \<times> Lexer) option" where
  "readComment start l =
     (let l = advance l
      in if lCh l = CHR ''['' \<and> (lexer_peek l = CHR ''['' \<or> lexer_peek l = CHR ''='')
         then let l = advance l;
                  (t, l) = readLongString (lCursor l - 1) l
              in Some (t\<lparr>tkKind := TComment, tkStart := start\<rparr>, l)
         else do {
           let read = lCursor l;
           rest \<leftarrow> slice_opt (lSource l) read (length (lSource l));
           let read = (case IndexByte rest newline of
                         None \<Rightarrow> length (lSource l) | Some idx \<Rightarrow> read + idx);
           let l = moveTo l read;
           Some (tok TComment start (lCursor l), l)
         })"

section \<open>The scanner\<close>

text \<open>The token of kind \<open>k\<close> that ends at the cursor.\<close>

definition emit :: "Kind \<Rightarrow> nat \<Rightarrow> Lexer \<Rightarrow> (Token \<times> Lexer) option" where
  "emit k start l = Some (tok k start (lCursor l), l)"

definition Next :: "Lexer \<Rightarrow> (Token \<times> Lexer) option" where
  "Next l0 =
     (let l = skipWhitespace l0; start = lCursor l
      in if lCh l = nul then Some (tok TEOF start start, l)
         else let ch = lCh l; l = advance l in
           if ch = CHR ''+'' then emit TPlus start l
           else if ch = CHR ''*'' then emit TAsterisk start l
           else if ch = CHR ''%'' then emit TModulo start l
           else if ch = CHR ''^'' then emit TCaret start l
           else if ch = CHR ''&'' then emit TBitAnd start l
           else if ch = CHR ''|'' then emit TBitOr start l
           else if ch = CHR ''#'' then emit THash start l
           else if ch = CHR ''('' then emit TLParen start l
           else if ch = CHR '')'' then emit TRParen start l
           else if ch = CHR ''{'' then emit TLBrace start l
           else if ch = CHR ''}'' then emit TRBrace start l
           else if ch = CHR '']'' then emit TRBrack start l
           else if ch = CHR '';'' then emit TSemicolon start l
           else if ch = CHR '','' then emit TComma start l
           else if ch = CHR ''-'' then
             (if lCh l = CHR ''-'' then readComment start l else emit TMinus start l)
           else if ch = CHR ''/'' then
             (if lCh l = CHR ''/'' then emit TFloorSlash start (advance l) else emit TSlash start l)
           else if ch = CHR ''='' then
             (if lCh l = CHR ''='' then emit TEq start (advance l) else emit TAssign start l)
           else if ch = CHR ''~'' then
             (if lCh l = CHR ''='' then emit TNotEq start (advance l) else emit TBitXor start l)
           else if ch = CHR ''<'' then
             (if lCh l = CHR ''='' then emit TLessEq start (advance l)
              else if lCh l = CHR ''<'' then emit TShiftLeft start (advance l)
              else emit TLess start l)
           else if ch = CHR ''>'' then
             (if lCh l = CHR ''='' then emit TGreaterEq start (advance l)
              else if lCh l = CHR ''>'' then emit TShiftRight start (advance l)
              else emit TGreater start l)
           else if ch = CHR '':'' then
             (if lCh l = CHR '':'' then emit TDoubleColon start (advance l) else emit TColon start l)
           else if ch = CHR ''.'' then
             (if lCh l = CHR ''.''
              then let l = advance l
                   in if lCh l = CHR ''.'' then emit TVararg start (advance l)
                      else emit TConcat start l
              else if 48 \<le> byte_val (lCh l) \<and> byte_val (lCh l) \<le> 57 then readNumber start l
              else emit TDot start l)
           else if ch = CHR 0x27 \<or> ch = CHR 0x22 then Some (readString start ch l)
           else if ch = CHR 0x60 then Some (readBacktickString start l)
           else if ch = CHR ''['' then
             (if lCh l = CHR ''['' \<or> lCh l = CHR ''='' then Some (readLongString start l)
              else emit TLBrack start l)
           else if hasProp ch propLetter then Some (readIdent start l)
           else if hasProp ch propDigit then readNumber start l
           else emit TIllegal start l)"

section \<open>The lexer as a position in the source\<close>

text \<open>
  The abstraction: between two calls the state of the lexer is determined by the source and
  one position in it. Every operation maps \<open>lexAt src i\<close> to \<open>lexAt src j\<close> with
  \<open>i \<le> j \<le> length src\<close>.
\<close>

definition lexAt :: "bytes \<Rightarrow> nat \<Rightarrow> Lexer" where
  "lexAt src i =
     \<lparr>lSource = src, lLength = length src, lCursor = i,
      lRead = (if i < length src then i + 1 else i),
      lCh = (if i < length src then src ! i else nul)\<rparr>"

lemma lexAt_simps [simp]:
  "lSource (lexAt src i) = src" "lCursor (lexAt src i) = i" "lLength (lexAt src i) = length src"
  by (simp_all add: lexAt_def)

lemma lCh_lexAt: "lCh (lexAt src i) = (if i < length src then src ! i else nul)"
  by (simp add: lexAt_def)

lemma advance_lexAt [simp]:
  "i \<le> length src \<Longrightarrow> advance (lexAt src i) = lexAt src (min (Suc i) (length src))"
  by (auto simp: advance_def lexAt_def min_def)

lemma advance_lexAt_less: "i < length src \<Longrightarrow> advance (lexAt src i) = lexAt src (Suc i)"
  by simp

lemma moveTo_lexAt [simp]: "moveTo (lexAt src i) j = lexAt src j"
  by (simp add: moveTo_def lexAt_def Let_def)

lemma lCh_lexAt_nonnul: "lCh (lexAt src i) \<noteq> nul \<Longrightarrow> i < length src \<and> src ! i \<noteq> nul"
  by (auto simp: lCh_lexAt split: if_splits)

lemma Lexer_Reset_lexAt:
  "\<exists>i \<le> length source. Lexer_Reset source l = lexAt source i"
proof -
  let ?i = "if length source \<ge> 3 \<and> source ! 0 = CHR 0xEF \<and> source ! 1 = CHR 0xBB
                  \<and> source ! 2 = CHR 0xBF then 3 else (0::nat)"
  have "Lexer_Reset source l = lexAt source ?i"
    by (cases l) (auto simp: Lexer_Reset_def lexAt_def advance_def)
  then show ?thesis by (intro exI [of _ ?i]) auto
qed

lemma scanWhile_spec:
  assumes "i \<le> length src"
  shows "i \<le> scanWhile P src i \<and> scanWhile P src i \<le> length src \<and>
         (\<forall>k. i \<le> k \<and> k < scanWhile P src i \<longrightarrow> P (src ! k)) \<and>
         (scanWhile P src i < length src \<longrightarrow> \<not> P (src ! scanWhile P src i))"
  using assms
proof (induction P src i rule: scanWhile.induct)
  case (1 P src i)
  show ?case
  proof (cases "i < length src \<and> P (src ! i)")
    case True
    with 1 have IH: "i + 1 \<le> scanWhile P src (i + 1) \<and> scanWhile P src (i + 1) \<le> length src \<and>
         (\<forall>k. i + 1 \<le> k \<and> k < scanWhile P src (i + 1) \<longrightarrow> P (src ! k)) \<and>
         (scanWhile P src (i + 1) < length src \<longrightarrow> \<not> P (src ! scanWhile P src (i + 1)))"
      by simp
    have "P (src ! k)" if "i \<le> k" "k < scanWhile P src (i + 1)" for k
      using IH True that by (cases "k = i") auto
    with True IH show ?thesis by (simp add: scanWhile.simps [of P src i])
  next
    case False
    with 1 show ?thesis by (auto simp: scanWhile.simps [of P src i])
  qed
qed

text \<open>A token reader started at \<open>i\<close> ends its token at the position it stops at.\<close>

definition reads :: "bytes \<Rightarrow> nat \<Rightarrow> nat \<Rightarrow> Token \<times> Lexer \<Rightarrow> bool" where
  "reads src start i r \<longleftrightarrow>
     (\<exists>t j. r = (t, lexAt src j) \<and> tkStart t = start \<and> tkEnd t = j \<and> i \<le> j \<and> j \<le> length src
            \<and> tkKind t \<noteq> TEOF)"

named_theorems reads_intros \<open>token readers and the positions they reach\<close>

lemma reads_tok [reads_intros]:
  "i \<le> j \<Longrightarrow> j \<le> length src \<Longrightarrow> k \<noteq> TEOF \<Longrightarrow> reads src start i (tok k start j, lexAt src j)"
  by (simp add: reads_def tok_def)

declare longStringLoop.simps [simp del]

lemma readIdent_reads [reads_intros]:
  assumes "i \<le> length src"
  shows "reads src start i (readIdent start (lexAt src i))"
proof -
  have "identKind w \<noteq> TEOF" for w
    by (auto simp: identKind_def luaKeywords_def split: option.splits if_splits)
  then show ?thesis
    using scanWhile_spec [OF assms, of "\<lambda>c. hasProp c propIdent"]
    by (auto simp: readIdent_def Let_def intro!: reads_tok)
qed

lemma stringEnd_bounds:
  assumes "i \<le> length src"
  shows "i \<le> stringEnd q src i \<and> stringEnd q src i \<le> length src"
  using assms
proof (induction "length src - i" arbitrary: i rule: less_induct)
  case less
  have step: "i \<le> stringEnd q src k \<and> stringEnd q src k \<le> length src"
    if "i < k" "k \<le> length src" for k
    using less.hyps [of k] that by force
  show ?case
    using step [of "i + 1"] step [of "i + 2"] less.prems
    by (subst (1 2) stringEnd.simps) (auto simp: Let_def)
qed

lemma readString_reads [reads_intros]:
  "i \<le> length src \<Longrightarrow> reads src start i (readString start q (lexAt src i))"
  using stringEnd_bounds [of i src q] by (auto simp: readString_def Let_def intro!: reads_tok)

lemma readBacktickString_reads [reads_intros]:
  "i \<le> length src \<Longrightarrow> reads src start i (readBacktickString start (lexAt src i))"
  using scanWhile_spec [of i src "\<lambda>c. c \<noteq> CHR 0x60"]
  by (auto simp: readBacktickString_def Let_def intro!: reads_tok)

lemma numberLoop_lexAt:
  assumes "i \<le> length src"
  shows "\<exists>j. numberLoop isHex (lexAt src i) = lexAt src j \<and> i \<le> j \<and> j \<le> length src"
  using assms
proof (induction "length src - i" arbitrary: i rule: less_induct)
  case less
  have step: "\<exists>j. numberLoop isHex (lexAt src k) = lexAt src j \<and> i \<le> j \<and> j \<le> length src"
    if "i < k" "k \<le> length src" for k
    using less.hyps [of k] that by force
  show ?case
  proof (cases "lCh (lexAt src i) = nul")
    case True
    with less.prems show ?thesis by (subst numberLoop.simps) auto
  next
    case False
    then have i: "i < length src" by (simp add: lCh_lexAt split: if_splits)
    then have a: "advance (lexAt src i) = lexAt src (Suc i)" by simp
    have "\<exists>k. skipSign (lexAt src (Suc i)) = lexAt src k \<and> i < k \<and> k \<le> length src"
      using i by (auto simp: skipSign_def)
    then obtain k where k: "skipSign (lexAt src (Suc i)) = lexAt src k" "i < k" "k \<le> length src" by blast
    show ?thesis
      using step [of "Suc i"] step [OF k(2,3)] i less.prems
      by (subst numberLoop.simps) (auto simp: a k(1))
  qed
qed

lemma readNumber_reads:
  assumes "start < length src" "i \<le> length src"
  shows "\<exists>r. readNumber start (lexAt src i) = Some r \<and> reads src start i r"
proof -
  define hex where "hex \<longleftrightarrow> src ! start = CHR ''0'' \<and>
    (lCh (lexAt src i) = CHR ''x'' \<or> lCh (lexAt src i) = CHR ''X'')"
  define k where "k = (if hex then min (Suc i) (length src) else i)"
  have k: "i \<le> k" "k \<le> length src" using assms(2) by (auto simp: k_def)
  obtain j where j: "numberLoop hex (lexAt src k) = lexAt src j" "k \<le> j" "j \<le> length src"
    using numberLoop_lexAt [OF k(2)] by blast
  have "(if hex then advance (lexAt src i) else lexAt src i) = lexAt src k"
    using assms(2) by (simp add: k_def)
  then have "readNumber start (lexAt src i) = Some (tok TNumber start j, lexAt src j)"
    using assms j(1) by (simp add: readNumber_def hex_def [symmetric])
  with j k(1) show ?thesis by (auto intro!: reads_tok)
qed

lemma countEq_lexAt:
  assumes "i \<le> length src"
  shows "\<exists>m j. countEq n (lexAt src i) = (m, lexAt src j) \<and> i \<le> j \<and> j \<le> length src"
  using assms
proof (induction "length src - i" arbitrary: i n rule: less_induct)
  case less
  show ?case
  proof (cases "lCh (lexAt src i) = CHR ''=''")
    case True
    then have i: "i < length src" by (simp add: lCh_lexAt split: if_splits)
    with less.hyps [of "Suc i" "n + 1"] True show ?thesis
      by (subst countEq.simps) force
  next
    case False
    with less.prems show ?thesis by (subst countEq.simps) auto
  qed
qed

lemma longStringLoop_lexAt:
  assumes "i \<le> length src"
  shows "\<exists>j. longStringLoop eq (lexAt src i) = lexAt src j \<and> i \<le> j \<and> j \<le> length src"
  using assms
proof (induction "length src - i" arbitrary: i rule: less_induct)
  case less
  have step: "\<exists>j. longStringLoop eq (lexAt src k) = lexAt src j \<and> i \<le> j \<and> j \<le> length src"
    if "i < k" "k \<le> length src" for k
    using less.hyps [of k] that by force
  show ?case
  proof (cases "lCh (lexAt src i) = nul")
    case True
    with less.prems show ?thesis by (subst longStringLoop.simps) auto
  next
    case False
    then have i: "i < length src" by (simp add: lCh_lexAt split: if_splits)
    then have a: "advance (lexAt src i) = lexAt src (Suc i)" by simp
    obtain m k where k: "countEq 0 (lexAt src (Suc i)) = (m, lexAt src k)" "Suc i \<le> k" "k \<le> length src"
      using countEq_lexAt [of "Suc i" src 0] i by auto
    show ?thesis
      using step [of "Suc i"] step [of k] k i
      by (subst longStringLoop.simps) (auto simp: a Let_def)
  qed
qed

lemma readLongString_reads [reads_intros]:
  assumes "i \<le> length src"
  shows "reads src start i (readLongString start (lexAt src i))"
proof -
  obtain m k where k: "countEq 0 (lexAt src i) = (m, lexAt src k)" "i \<le> k" "k \<le> length src"
    using countEq_lexAt [OF assms, of 0] by blast
  obtain j where j: "longStringLoop m (lexAt src (min (Suc k) (length src))) = lexAt src j"
    "min (Suc k) (length src) \<le> j" "j \<le> length src"
    using longStringLoop_lexAt [of "min (Suc k) (length src)" src m] by auto
  show ?thesis
    using k j by (auto simp: readLongString_def Let_def intro!: reads_tok)
qed

lemma readComment_reads:
  assumes "i \<le> length src"
  shows "\<exists>r. readComment start (lexAt src i) = Some r \<and> reads src start i r"
proof -
  let ?i = "min (Suc i) (length src)"
  let ?l = "lexAt src ?i"
  have a: "advance (lexAt src i) = ?l" "i \<le> ?i" "?i \<le> length src" using assms by simp_all
  show ?thesis
  proof (cases "lCh ?l = CHR ''['' \<and> (lexer_peek ?l = CHR ''['' \<or> lexer_peek ?l = CHR ''='')")
    case True
    let ?j = "min (Suc ?i) (length src)"
    obtain t k where r: "readLongString (?j - 1) (lexAt src ?j) = (t, lexAt src k)"
      "tkEnd t = k" "?j \<le> k" "k \<le> length src"
      using readLongString_reads [of ?j src "?j - 1"] by (auto simp: reads_def)
    have "readComment start (lexAt src i) = Some (t\<lparr>tkKind := TComment, tkStart := start\<rparr>, lexAt src k)"
      using True r(1) by (simp add: readComment_def a(1) Let_def)
    moreover have "i \<le> k" using r(3) a(2) by linarith
    ultimately show ?thesis using r by (auto simp: reads_def)
  next
    case False
    let ?rest = "drop ?i src"
    let ?k = "case IndexByte ?rest newline of None \<Rightarrow> length src | Some idx \<Rightarrow> ?i + idx"
    have k: "?i \<le> ?k" "?k \<le> length src"
      using a(3) by (auto split: option.split dest!: IndexByte_SomeD)
    have "readComment start (lexAt src i) = Some (tok TComment start ?k, lexAt src ?k)"
      using False a(3) by (auto simp: readComment_def a(1) Let_def slice_def split: option.split)
    then show ?thesis
      using k a(2) by (auto intro!: reads_tok)
  qed
qed

text \<open>
  The contract of one call of \<open>Next\<close>: it skips white space only, it ends its token where
  the lexer then stands, and unless it reports the end of the source the token is not empty.
\<close>

definition scans :: "bytes \<Rightarrow> nat \<Rightarrow> Token \<Rightarrow> nat \<Rightarrow> bool" where
  "scans src i t j \<longleftrightarrow>
     i \<le> tkStart t \<and> tkStart t \<le> j \<and> tkEnd t = j \<and> j \<le> length src \<and>
     (\<forall>k. i \<le> k \<and> k < tkStart t \<longrightarrow> isSpace (src ! k)) \<and>
     (if tkKind t = TEOF then tkStart t = j \<and> (j = length src \<or> src ! j = nul)
      else tkStart t < j \<and> src ! tkStart t \<noteq> nul)"

lemma skipWhitespace_lexAt:
  assumes "i \<le> length src"
  shows "\<exists>j. skipWhitespace (lexAt src i) = lexAt src j \<and> i \<le> j \<and> j \<le> length src \<and>
           (\<forall>k. i \<le> k \<and> k < j \<longrightarrow> isSpace (src ! k))"
  using scanWhile_spec [OF assms, of isSpace] assms by (auto simp: skipWhitespace_def)

definition scanned :: "bytes \<Rightarrow> nat \<Rightarrow> (Token \<times> Lexer) option \<Rightarrow> bool" where
  "scanned src start m \<longleftrightarrow> (\<exists>r. m = Some r \<and> reads src start (Suc start) r)"

lemma scanned_emit [reads_intros]:
  "start < j \<Longrightarrow> j \<le> length src \<Longrightarrow> k \<noteq> TEOF \<Longrightarrow> scanned src start (emit k start (lexAt src j))"
  by (auto simp: scanned_def emit_def intro: reads_tok)

lemma scanned_emit_advance [reads_intros]:
  "start < j \<Longrightarrow> j \<le> length src \<Longrightarrow> k \<noteq> TEOF \<Longrightarrow> scanned src start (emit k start (advance (lexAt src j)))"
  by (auto intro!: scanned_emit)

lemma scanned_emit_advance2 [reads_intros]:
  "start < j \<Longrightarrow> j \<le> length src \<Longrightarrow> k \<noteq> TEOF \<Longrightarrow>
     scanned src start (emit k start (advance (advance (lexAt src j))))"
  by (auto intro!: scanned_emit)

lemma scanned_Some [reads_intros]: "reads src start (Suc start) r \<Longrightarrow> scanned src start (Some r)"
  by (simp add: scanned_def)

lemma scanned_if [reads_intros]:
  "(b \<Longrightarrow> scanned src start m) \<Longrightarrow> (\<not> b \<Longrightarrow> scanned src start m') \<Longrightarrow>
     scanned src start (if b then m else m')"
  by simp

lemma scanned_readNumber [reads_intros]:
  "start < length src \<Longrightarrow> scanned src start (readNumber start (lexAt src (Suc start)))"
  using readNumber_reads [of start src "Suc start"] by (auto simp: scanned_def)

lemma scanned_readComment [reads_intros]:
  "start < length src \<Longrightarrow> scanned src start (readComment start (lexAt src (Suc start)))"
  using readComment_reads [of "Suc start" src start] by (auto simp: scanned_def)

lemma Next_lexAt:
  assumes "i \<le> length src"
  shows "\<exists>t j. Next (lexAt src i) = Some (t, lexAt src j) \<and> scans src i t j"
proof -
  obtain s where s: "skipWhitespace (lexAt src i) = lexAt src s" "i \<le> s" "s \<le> length src"
    "\<forall>k. i \<le> k \<and> k < s \<longrightarrow> isSpace (src ! k)"
    using skipWhitespace_lexAt [OF assms] by blast
  show ?thesis
  proof (cases "lCh (lexAt src s) = nul")
    case True
    then have "Next (lexAt src i) = Some (tok TEOF s s, lexAt src s)"
      by (simp add: Next_def s(1) Let_def)
    moreover have "s = length src \<or> src ! s = nul"
      using True s(3) by (auto simp: lCh_lexAt split: if_splits)
    ultimately show ?thesis using s by (auto simp: scans_def tok_def)
  next
    case False
    then have lt: "s < length src" and nz: "src ! s \<noteq> nul" using lCh_lexAt_nonnul by auto
    then have adv: "advance (lexAt src s) = lexAt src (Suc s)" by simp
    have "scanned src s (Next (lexAt src i))"
      unfolding Next_def s(1) Let_def adv lexAt_simps using False lt
      by (simp only: if_False) (intro reads_intros; use lt in simp)
    then show ?thesis
      using s nz by (fastforce simp: scanned_def reads_def scans_def)
  qed
qed

section \<open>Token streams\<close>

text \<open>\<open>lex_run l ts l'\<close>: successive calls of \<open>Next\<close> deliver the tokens \<open>ts\<close>, none of which is the
  end of the source, and leave the lexer in state \<open>l'\<close>.\<close>

inductive lex_run :: "Lexer \<Rightarrow> Token list \<Rightarrow> Lexer \<Rightarrow> bool" where
  stop: "lex_run l [] l"
| step: "Next l = Some (t, l') \<Longrightarrow> tkKind t \<noteq> TEOF \<Longrightarrow> lex_run l' ts l'' \<Longrightarrow> lex_run l (t # ts) l''"

inductive_cases lex_run_ConsE: "lex_run l (t # ts) l''"

text \<open>The tokens tile the source from \<open>i\<close> to \<open>j\<close>: between them there is white space only.\<close>

fun tiling :: "bytes \<Rightarrow> nat \<Rightarrow> Token list \<Rightarrow> nat \<Rightarrow> bool" where
  "tiling src i [] j \<longleftrightarrow> i = j"
| "tiling src i (t # ts) j \<longleftrightarrow>
     i \<le> tkStart t \<and> tkStart t < tkEnd t \<and> tkEnd t \<le> length src \<and>
     list_all isSpace (slice src i (tkStart t)) \<and> tiling src (tkEnd t) ts j"

lemma list_all_slice:
  "b \<le> length src \<Longrightarrow> list_all P (slice src a b) \<longleftrightarrow> (\<forall>k. a \<le> k \<and> k < b \<longrightarrow> P (src ! k))"
  by (auto simp: list_all_iff set_slice)

lemma Next_lexAtD:
  assumes "Next (lexAt src i) = Some (t, l)" "i \<le> length src"
  obtains j where "l = lexAt src j" "scans src i t j"
  using Next_lexAt [OF assms(2)] assms(1) by auto

lemma lex_run_tiling:
  assumes "lex_run l ts l'" "l = lexAt src i" "i \<le> length src"
  shows "\<exists>j. l' = lexAt src j \<and> j \<le> length src \<and> tiling src i ts j \<and> length ts + i \<le> j"
  using assms
proof (induction arbitrary: i rule: lex_run.induct)
  case (stop l)
  then show ?case by simp
next
  case (step l t l' ts l'')
  then obtain j where j: "l' = lexAt src j" "scans src i t j"
    by (metis Next_lexAtD)
  with step.IH [OF j(1)] obtain k where "l'' = lexAt src k" "k \<le> length src" "tiling src j ts k"
    "length ts + j \<le> k" by (auto simp: scans_def)
  with j step.hyps(2) show ?case by (auto simp: scans_def list_all_slice)
qed

lemma lex_run_exists:
  assumes "i \<le> length src"
  shows "\<exists>ts j t. lex_run (lexAt src i) ts (lexAt src j) \<and> j \<le> length src \<and>
           (\<exists>k. Next (lexAt src j) = Some (t, lexAt src k) \<and> scans src j t k \<and> tkKind t = TEOF)"
  using assms
proof (induction "length src - i" arbitrary: i rule: less_induct)
  case less
  obtain t j where t: "Next (lexAt src i) = Some (t, lexAt src j)" "scans src i t j"
    using Next_lexAt [OF less.prems] by blast
  show ?case
  proof (cases "tkKind t = TEOF")
    case True
    with t less.prems show ?thesis by (blast intro: lex_run.stop)
  next
    case False
    with t(2) have "i < j" "j \<le> length src" by (auto simp: scans_def)
    with less.hyps [of j] obtain ts m u k where "lex_run (lexAt src j) ts (lexAt src m)"
      "m \<le> length src" "Next (lexAt src m) = Some (u, lexAt src k)" "scans src m u k" "tkKind u = TEOF"
      by (metis diff_less_mono2 less_le_trans)
    with t False show ?thesis by (blast intro: lex_run.step)
  qed
qed

text \<open>
  Lexing terminates: for every source, valid Lua or not, \<open>Next\<close> never panics, and after at
  most \<open>length source\<close> tokens it reports the end, which is the end of the text or a
  zero byte.
\<close>

lemma lexer_terminates:
  "\<exists>ts l eof l'. lex_run (Lexer_New source) ts l \<and> length ts \<le> length source \<and>
     Next l = Some (eof, l') \<and> tkKind eof = TEOF \<and> tkStart eof = tkEnd eof \<and>
     (tkEnd eof = length source \<or> source ! tkEnd eof = nul)"
proof -
  obtain i where i: "i \<le> length source" "Lexer_New source = lexAt source i"
    using Lexer_Reset_lexAt by (metis Lexer_New_def)
  obtain ts j t k where run: "lex_run (lexAt source i) ts (lexAt source j)" "j \<le> length source"
    "Next (lexAt source j) = Some (t, lexAt source k)" "scans source j t k" "tkKind t = TEOF"
    using lex_run_exists [OF i(1)] by blast
  have "length ts \<le> length source"
    using lex_run_tiling [OF run(1) refl i(1)] by (auto simp: lexAt_def split: if_splits)
  with run i(2) show ?thesis by (auto simp: scans_def)
qed

text \<open>
  C39. The lexer loses nothing: the tokens it has delivered, comments included, are non-empty,
  lie in the source, follow each other in order, and every byte outside them is white
  space (or the byte order mark before the first position).
\<close>

theorem lexer_lossless:
  assumes "lex_run (Lexer_New source) ts l"
  shows "\<exists>i. (i = 0 \<or> i = 3 \<and> take 3 source = [CHR 0xEF, CHR 0xBB, CHR 0xBF]) \<and>
           tiling source i ts (lCursor l)"
proof -
  let ?bom = "length source \<ge> 3 \<and> source ! 0 = CHR 0xEF \<and> source ! 1 = CHR 0xBB
                  \<and> source ! 2 = CHR 0xBF"
  let ?i = "if ?bom then 3 else 0"
  have i: "Lexer_New source = lexAt source ?i" "?i \<le> length source"
    by (auto simp: Lexer_New_def Lexer_Reset_def lexAt_def advance_def)
  have "take 3 source = [CHR 0xEF, CHR 0xBB, CHR 0xBF]" if ?bom
    using that by (auto simp: list_eq_iff_nth_eq numeral_3_eq_3 numeral_2_eq_2 nth_Cons' less_Suc_eq)
  then show ?thesis
    using lex_run_tiling [OF assms i] by (intro exI [of _ ?i]) auto
qed

theorem lexer_lossless_witness:
  "\<exists>i. (i = 0 \<or> i = 3 \<and> take 3 ''x'' = [CHR 0xEF, CHR 0xBB, CHR 0xBF]) \<and>
     tiling ''x'' i [tok TIdent 0 1] 1"
proof -
  have "Next (Lexer_New ''x'') = Some (tok TIdent 0 1, lexAt ''x'' 1)" by code_simp
  then have "lex_run (Lexer_New ''x'') [tok TIdent 0 1] (lexAt ''x'' 1)"
    by (auto intro!: lex_run.intros simp: tok_def)
  from lexer_lossless [OF this] show ?thesis by simp
qed

section \<open>Identifiers and keywords\<close>

definition isLetter :: "byte \<Rightarrow> bool" where
  "isLetter c \<longleftrightarrow> (97 \<le> byte_val c \<and> byte_val c \<le> 122) \<or> (65 \<le> byte_val c \<and> byte_val c \<le> 90)
     \<or> byte_val c = 95"

definition isDigit :: "byte \<Rightarrow> bool" where
  "isDigit c \<longleftrightarrow> 48 \<le> byte_val c \<and> byte_val c \<le> 57"

lemmas prop_defs = hasProp_def charProps_def Let_def propLetter_def propIdent_def propHex_def
  propDigit_def isLetter_def isDigit_def

lemma hasProp_letter: "hasProp c propLetter \<longleftrightarrow> isLetter c"
  by (auto simp: prop_defs)

lemma hasProp_ident: "hasProp c propIdent \<longleftrightarrow> isLetter c \<or> isDigit c"
  by (auto simp: prop_defs)

lemma hasProp_digit: "hasProp c propDigit \<longleftrightarrow> isDigit c"
  by (auto simp: prop_defs)

text \<open>The bytes that \<open>Next\<close> handles before it looks for a letter or a digit.\<close>

definition punctuation :: bytes where
  "punctuation = ''+*%^&|#(){}];,-/=~<>:.['' @ [CHR 0x27, CHR 0x22, CHR 0x60]"

lemma letter_not_special:
  "isLetter c \<Longrightarrow> c \<notin> set punctuation \<and> \<not> isSpace c \<and> c \<noteq> nul"
  by (auto simp: punctuation_def isLetter_def isSpace_def)

lemma Next_letter:
  assumes "i < length src" "isLetter (src ! i)"
  shows "Next (lexAt src i) = Some (readIdent i (lexAt src (Suc i)))"
proof -
  have c: "lCh (lexAt src i) = src ! i" using assms(1) by (simp add: lCh_lexAt)
  have ws: "skipWhitespace (lexAt src i) = lexAt src i"
    using letter_not_special [OF assms(2)] by (simp add: skipWhitespace_def c)
  have adv: "advance (lexAt src i) = lexAt src (Suc i)" using assms(1) by simp
  show ?thesis
    using letter_not_special [OF assms(2)] assms(2)
    unfolding Next_def ws Let_def adv c
    by (simp add: punctuation_def hasProp_letter)
qed

text \<open>
  Identifiers and keywords: at a letter or underscore, \<open>Next\<close> reads the longest run of
  letters, digits and underscores, and classifies it as the keyword it spells, or as an
  identifier if it spells none.
\<close>

lemma Next_identifier:
  assumes "i < length src" and "isLetter (src ! i)"
  shows "\<exists>j k. Next (lexAt src i) = Some (tok k i j, lexAt src j) \<and> i < j \<and> j \<le> length src \<and>
           list_all (\<lambda>c. isLetter c \<or> isDigit c) (slice src i j) \<and>
           (j < length src \<longrightarrow> \<not> isLetter (src ! j) \<and> \<not> isDigit (src ! j)) \<and>
           (if slice src i j \<in> fst ` set luaKeywords then (slice src i j, k) \<in> set luaKeywords
            else k = TIdent)"
proof -
  let ?j = "scanWhile (\<lambda>c. hasProp c propIdent) src (Suc i)"
  let ?k = "identKind (slice src i ?j)"
  have j: "Suc i \<le> ?j" "?j \<le> length src"
    "\<forall>k. Suc i \<le> k \<and> k < ?j \<longrightarrow> isLetter (src ! k) \<or> isDigit (src ! k)"
    "?j < length src \<longrightarrow> \<not> isLetter (src ! ?j) \<and> \<not> isDigit (src ! ?j)"
    using scanWhile_spec [of "Suc i" src "\<lambda>c. hasProp c propIdent"] assms(1)
    by (auto simp: hasProp_ident)
  have nx: "Next (lexAt src i) = Some (tok ?k i ?j, lexAt src ?j)"
    using j(1,2) by (simp add: Next_letter [OF assms] readIdent_def Let_def)
  have "isLetter (src ! k) \<or> isDigit (src ! k)" if "i \<le> k" "k < ?j" for k
    using j(3) assms(2) that by (cases "k = i") auto
  then have run: "list_all (\<lambda>c. isLetter c \<or> isDigit c) (slice src i ?j)"
    using j(2) by (simp add: list_all_slice)
  have "if w \<in> fst ` set luaKeywords then (w, identKind w) \<in> set luaKeywords else identKind w = TIdent" for w
  proof (cases "map_of luaKeywords w")
    case None
    then have "w \<notin> fst ` set luaKeywords" by (simp add: map_of_eq_None_iff)
    with None show ?thesis by (simp add: identKind_def)
  next
    case (Some k)
    from map_of_SomeD [OF Some] Some show ?thesis by (force simp: identKind_def)
  qed
  then show ?thesis
    using nx j run by (intro exI [of _ ?j] exI [of _ ?k]) auto
qed

lemma Next_identifier_witness:
  "\<exists>j k. Next (lexAt ''if x'' 0) = Some (tok k 0 j, lexAt ''if x'' j) \<and> 0 < j \<and> j \<le> length ''if x'' \<and>
     list_all (\<lambda>c. isLetter c \<or> isDigit c) (slice ''if x'' 0 j) \<and>
     (j < length ''if x'' \<longrightarrow> \<not> isLetter (''if x'' ! j) \<and> \<not> isDigit (''if x'' ! j)) \<and>
     (if slice ''if x'' 0 j \<in> fst ` set luaKeywords then (slice ''if x'' 0 j, k) \<in> set luaKeywords
      else k = TIdent)"
  using Next_identifier [of 0 "''if x''"] by (simp add: isLetter_def)

section \<open>Long brackets\<close>

definition closeBracket :: "nat \<Rightarrow> bytes" where
  "closeBracket n = CHR '']'' # replicate n (CHR ''='') @ [CHR '']'']"

definition longBracket :: "nat \<Rightarrow> bytes \<Rightarrow> bytes" where
  "longBracket n content =
     CHR ''['' # replicate n (CHR ''='') @ [CHR ''[''] @ content @ closeBracket n"

lemma countEq_run:
  assumes "i + m < length src" "\<forall>k<m. src ! (i + k) = CHR ''=''" "src ! (i + m) \<noteq> CHR ''=''"
  shows "countEq n (lexAt src i) = (n + m, lexAt src (i + m))"
  using assms
proof (induction m arbitrary: i n)
  case 0
  then show ?case by (subst countEq.simps) (simp add: lCh_lexAt)
next
  case (Suc m)
  then have "src ! i = CHR ''=''" by auto
  moreover have "countEq (n + 1) (lexAt src (Suc i)) = (n + 1 + m, lexAt src (Suc i + m))"
    using Suc.prems by (intro Suc.IH) auto
  ultimately show ?case
    using Suc.prems by (subst countEq.simps) (simp add: lCh_lexAt)
qed

text \<open>A closing bracket of level \<open>n\<close> stands at position \<open>p\<close>.\<close>

definition closesAt :: "nat \<Rightarrow> bytes \<Rightarrow> nat \<Rightarrow> bool" where
  "closesAt n src p \<longleftrightarrow>
     p + n + 1 < length src \<and> src ! p = CHR '']'' \<and> (\<forall>k<n. src ! (Suc p + k) = CHR ''='') \<and>
     src ! (Suc p + n) = CHR '']''"

lemma longStringLoop_finds:
  assumes close: "closesAt n src e"
    and first: "\<And>q. p \<le> q \<Longrightarrow> q < e \<Longrightarrow> \<not> closesAt n src q \<and> src ! q \<noteq> nul"
    and "p \<le> e"
  shows "longStringLoop n (lexAt src p) = lexAt src (e + n + 2)"
  using assms(2,3)
proof (induction "e - p" arbitrary: p rule: less_induct)
  case less
  have e: "e + n + 1 < length src" "src ! e = CHR '']''" using close by (auto simp: closesAt_def)
  then have p: "p < length src" using less.prems by simp
  then have adv: "advance (lexAt src p) = lexAt src (Suc p)" by simp
  have nz: "src ! p \<noteq> nul" using less.prems e by (cases "p = e") auto
  show ?case
  proof (cases "src ! p = CHR '']''")
    case False
    then have "p < e" using e less.prems(2) by (metis le_neq_implies_less)
    then have "longStringLoop n (lexAt src (Suc p)) = lexAt src (e + n + 2)"
      using less.prems by (intro less.hyps) auto
    then show ?thesis
      using False nz p adv by (subst longStringLoop.simps) (simp add: lCh_lexAt)
  next
    case bracket: True
    have "\<exists>m. Suc p + m < length src \<and> src ! (Suc p + m) \<noteq> CHR ''='' \<and> (p < e \<longrightarrow> Suc p + m \<le> e)
            \<and> (\<forall>k<m. src ! (Suc p + k) = CHR ''='') \<and> (p = e \<longrightarrow> m = n)"
    proof (cases "p = e")
      case True
      then show ?thesis using close by (intro exI [of _ n]) (auto simp: closesAt_def)
    next
      case False
      let ?P = "\<lambda>m. src ! (Suc p + m) \<noteq> CHR ''=''"
      have ex: "?P (e - Suc p)" using e less.prems(2) False by simp
      then have "(LEAST m. ?P m) \<le> e - Suc p" by (rule Least_le)
      with LeastI [of ?P, OF ex] not_less_Least [of _ ?P] e False less.prems(2) show ?thesis
        by (intro exI [of _ "LEAST m. ?P m"]) auto
    qed
    then obtain m where m: "Suc p + m < length src" "src ! (Suc p + m) \<noteq> CHR ''=''"
      "p < e \<longrightarrow> Suc p + m \<le> e" "\<forall>k<m. src ! (Suc p + k) = CHR ''=''" "p = e \<longrightarrow> m = n" by blast
    have count: "countEq 0 (lexAt src (Suc p)) = (m, lexAt src (Suc p + m))"
      using countEq_run [OF m(1,4,2), of 0] by simp
    show ?thesis
    proof (cases "src ! (Suc p + m) = CHR '']'' \<and> m = n")
      case True
      then have "closesAt n src p" using m bracket by (auto simp: closesAt_def)
      with less.prems have "p = e" by (metis le_neq_implies_less order_refl)
      with True bracket nz p m(1) adv count show ?thesis
        by (subst longStringLoop.simps) (auto simp: lCh_lexAt)
    next
      case False
      then have "p < e" using m(5) close less.prems(2) by (cases "p = e") (auto simp: closesAt_def)
      then have "longStringLoop n (lexAt src (Suc p + m)) = lexAt src (e + n + 2)"
        using less.prems m(3) by (intro less.hyps) auto
      with False bracket nz p m(1) adv count show ?thesis
        by (subst longStringLoop.simps) (auto simp: lCh_lexAt)
    qed
  qed
qed

text \<open>
  C40. Long brackets of every level: where a long bracket of level \<open>n\<close> begins whose content holds no
  zero byte and no closing bracket of the same level that starts before the final one,
  \<open>Next\<close> returns one string token that covers exactly the bracket, whatever follows.
\<close>

theorem Next_longBracket:
  assumes "nul \<notin> set content"
    and "\<And>k. k < length content \<Longrightarrow> \<not> closesAt n (content @ closeBracket n) k"
  shows "Next (lexAt (pre @ longBracket n content @ post) (length pre)) =
     Some (tok TString (length pre) (length pre + length (longBracket n content)),
           lexAt (pre @ longBracket n content @ post) (length pre + length (longBracket n content)))"
proof -
  let ?src = "pre @ longBracket n content @ post" and ?i = "length pre"
  let ?a = "?i + n + 2" let ?e = "?a + length content"
  have len: "length (longBracket n content) = 2 * n + length content + 4"
    by (simp add: longBracket_def closeBracket_def)
  have open0: "?src ! ?i = CHR ''[''" by (simp add: nth_append longBracket_def)
  have eqs: "?src ! (Suc ?i + k) = CHR ''=''" if "k < n" for k
    using that by (simp add: nth_append longBracket_def)
  have open1: "?src ! (Suc ?i + n) = CHR ''[''"
    by (simp add: nth_append longBracket_def)
  let ?pre = "pre @ CHR ''['' # replicate n (CHR ''='') @ [CHR ''['']"
  have src: "?src = ?pre @ (content @ closeBracket n) @ post"
    by (simp add: longBracket_def)
  have body: "?src ! (?a + k) = (content @ closeBracket n) ! k" if "k < length content + n + 2" for k
  proof -
    have "length ?pre = ?a" and "k < length (content @ closeBracket n)"
      using that by (simp_all add: closeBracket_def)
    then show ?thesis
      unfolding src by (metis nth_append nth_append_length_plus)
  qed
  have cb: "closeBracket n ! 0 = CHR '']''" "closeBracket n ! Suc n = CHR '']''"
    "\<And>k. k < n \<Longrightarrow> closeBracket n ! Suc k = CHR ''=''"
    by (simp_all add: closeBracket_def nth_append)
  have close: "closesAt n ?src ?e"
    using body [of "length content"] body [of "length content + Suc n"] cb len
      body [of "length content + Suc k" for k]
    by (auto simp: closesAt_def nth_append add.assoc)
  have first: "\<not> closesAt n ?src q \<and> ?src ! q \<noteq> nul" if "?a \<le> q" "q < ?e" for q
  proof -
    obtain k where k: "q = ?a + k" "k < length content" using \<open>?a \<le> q\<close> \<open>q < ?e\<close> le_Suc_ex [of ?a q] by auto
    have "\<not> closesAt n ?src (?a + k)"
      using assms(2) [OF k(2)] k(2) body [of k] body [of "k + Suc n"] body [of "k + Suc j" for j]
      by (auto simp: closesAt_def closeBracket_def add.assoc)
    moreover have "?src ! q = (content @ closeBracket n) ! k"
      unfolding k(1) by (rule body) (use k in simp)
    then have "?src ! q \<noteq> nul"
      using assms(1) nth_mem [OF k(2)] k(2) by (metis nth_append)
    ultimately show ?thesis using k(1) by simp
  qed
  have i: "?i < length ?src" using len by simp
  have c: "lCh (lexAt ?src ?i) = CHR ''[''" using i open0 by (simp add: lCh_lexAt)
  have ws: "skipWhitespace (lexAt ?src ?i) = lexAt ?src ?i"
    by (simp add: skipWhitespace_def c isSpace_def)
  note adv = advance_lexAt_less [OF i]
  have "lCh (lexAt ?src (Suc ?i)) = CHR ''['' \<or> lCh (lexAt ?src (Suc ?i)) = CHR ''=''"
    using eqs [of 0] open1 len by (cases n) (simp_all add: lCh_lexAt)
  then have "Next (lexAt ?src ?i) = Some (readLongString ?i (lexAt ?src (Suc ?i)))"
    unfolding Next_def ws Let_def adv c by simp
  moreover have "countEq 0 (lexAt ?src (Suc ?i)) = (n, lexAt ?src (Suc ?i + n))"
    using countEq_run [of "Suc ?i" n ?src 0] eqs open1 len by simp
  moreover have stop: "?e + n + 2 = ?i + length (longBracket n content)" "Suc ?i + n < length ?src"
    using len by simp_all
  have "longStringLoop n (lexAt ?src ?a) = lexAt ?src (?e + n + 2)"
    by (rule longStringLoop_finds [OF close first]) simp_all
  then have "longStringLoop n (lexAt ?src ?a) = lexAt ?src (?i + length (longBracket n content))"
    unfolding stop(1) .
  ultimately show ?thesis
    using open1 stop(2) by (simp add: readLongString_def lCh_lexAt)
qed

theorem Next_longBracket_witness:
  "Next (lexAt (longBracket 1 ''a'' @ ''b'') 0) =
     Some (tok TString 0 (length (longBracket 1 ''a'')),
           lexAt (longBracket 1 ''a'' @ ''b'') (length (longBracket 1 ''a'')))"
  using Next_longBracket [of "''a''" 1 "[]" "''b''"] by (simp add: closesAt_def closeBracket_def)

end
