(* ===== verification/Parser.thy ===== *)
theory Parser
  imports Lexer
begin

text \<open>
  Package \<open>parser\<close> (\<open>src/parser/parser.go\<close>): the recursive-descent parser with its Pratt
  loop for expressions, its error recovery and its nesting limits. A parser method is a
  function from the parser state to an optional result and new state; \<open>None\<close> is a run-time
  panic or a lack of fuel.

  The methods call each other recursively only through \<open>parseExpression\<close> and
  \<open>parseBlock\<close>. Every other method takes these two as arguments \<open>pe\<close> and \<open>pb\<close>, and the
  knot is tied at the end of the theory by recursion on the nesting depth. Loops run on
  fuel \<open>loopFuel\<close>, which bounds the number of tokens that are left; the theory
  \<open>Parser_Correct\<close> proves that neither fuel ever runs out.
\<close>

section \<open>Precedences and block ends\<close>

definition Lowest :: nat where "Lowest = 0"
definition Or :: nat where "Or = 1"
definition And :: nat where "And = 2"
definition Comparison :: nat where "Comparison = 3"
definition BitOr :: nat where "BitOr = 4"
definition BitXor :: nat where "BitXor = 5"
definition BitAnd :: nat where "BitAnd = 6"
definition BitShift :: nat where "BitShift = 7"
definition Concat :: nat where "Concat = 8"
definition Term :: nat where "Term = 9"
definition Factor :: nat where "Factor = 10"
definition Unary :: nat where "Unary = 11"
definition Power :: nat where "Power = 12"
definition CallIndex :: nat where "CallIndex = 13"

definition precedences :: "Kind \<Rightarrow> nat" where
  "precedences k =
     (if k = TOr then Or
      else if k = TAnd then And
      else if k \<in> {TLess, TLessEq, TGreater, TGreaterEq, TEq, TNotEq} then Comparison
      else if k = TBitOr then BitOr
      else if k = TBitXor then BitXor
      else if k = TBitAnd then BitAnd
      else if k \<in> {TShiftLeft, TShiftRight} then BitShift
      else if k = TConcat then Concat
      else if k \<in> {TPlus, TMinus} then Term
      else if k \<in> {TAsterisk, TSlash, TFloorSlash, TModulo} then Factor
      else if k = TCaret then Power
      else if k \<in> {TLParen, TLBrack, TDot, TString, TBacktickString, TLBrace, TColon} then CallIndex
      else 0)"

definition stopBlockIf :: TokenSet where "stopBlockIf = NewTokenSet [TElseIf, TElse, TEnd]"
definition stopBlockEnd :: TokenSet where "stopBlockEnd = NewTokenSet [TEnd]"
definition stopBlockUntil :: TokenSet where "stopBlockUntil = NewTokenSet [TUntil]"
definition stopBlockEOF :: TokenSet where "stopBlockEOF = NewTokenSet [TEOF]"

section \<open>State\<close>

record ParseError =
  peMessage :: string
  peStart :: nat
  peEnd :: nat

record Parser =
  pLex :: Lexer
  pTree :: Tree
  pErrors :: "ParseError list"
  pMaxErrors :: int
  pPrev :: Token
  pCurr :: Token
  pPeek :: Token
  pLoopDepth :: nat
  pDepth :: nat
  pBlockDepth :: nat
  pListStack :: "NodeID list"

abbreviation curKind :: "Parser \<Rightarrow> Kind" where
  "curKind p \<equiv> tkKind (pCurr p)"

abbreviation curStart :: "Parser \<Rightarrow> nat" where
  "curStart p \<equiv> tkStart (pCurr p)"

abbreviation curEnd :: "Parser \<Rightarrow> nat" where
  "curEnd p \<equiv> tkEnd (pCurr p)"

abbreviation prevEnd :: "Parser \<Rightarrow> nat" where
  "prevEnd p \<equiv> tkEnd (pPrev p)"

text \<open>More iterations than any loop over the remaining tokens can make.\<close>

definition loopFuel :: "Parser \<Rightarrow> nat" where
  "loopFuel p = length (lSource (pLex p)) + 3"

section \<open>Tokens, errors and nodes\<close>

text \<open>The loop of \<open>nextToken\<close> that moves comments to the tree.\<close>

primrec skipComments ::
  "nat \<Rightarrow> Token \<Rightarrow> Token list \<Rightarrow> Lexer \<Rightarrow> ((Token \<times> Token list) \<times> Lexer) option" where
  "skipComments 0 peek comments l = None"
| "skipComments (Suc n) peek comments l =
     (if tkKind peek = TComment
      then do {
        (peek', l) \<leftarrow> Next l;
        skipComments n peek' (comments @ [peek]) l
      }
      else Some ((peek, comments), l))"

definition nextToken :: "Parser \<Rightarrow> (unit \<times> Parser) option" where
  "nextToken p = do {
     let p = p\<lparr>pPrev := pCurr p, pCurr := pPeek p\<rparr>;
     (peek, l) \<leftarrow> Next (pLex p);
     ((peek, comments), l) \<leftarrow> skipComments (loopFuel p) peek (Comments (pTree p)) l;
     Some ((), p\<lparr>pLex := l, pPeek := peek, pTree := (pTree p)\<lparr>Comments := comments\<rparr>\<rparr>)
   }"

definition isAt :: "TokenSet \<Rightarrow> Parser \<Rightarrow> bool" where
  "isAt s p = Contains s (curKind p)"

definition errorAt :: "nat \<Rightarrow> nat \<Rightarrow> string \<Rightarrow> Parser \<Rightarrow> Parser" where
  "errorAt start end msg p =
     (if pMaxErrors p > 0 \<and> int (length (pErrors p)) \<ge> pMaxErrors p then p
      else p\<lparr>pErrors := pErrors p @ [\<lparr>peMessage = msg, peStart = start, peEnd = end\<rparr>]\<rparr>)"

definition parser_error :: "string \<Rightarrow> Parser \<Rightarrow> Parser" where
  "parser_error msg p =
     (if pMaxErrors p > 0 \<and> int (length (pErrors p)) \<ge> pMaxErrors p then p
      else p\<lparr>pErrors := pErrors p @
               [\<lparr>peMessage = msg, peStart = curStart p, peEnd = curEnd p\<rparr>]\<rparr>)"

text \<open>\<open>if p.curr.Kind == k { p.nextToken() } else { p.error(msg) }\<close>.\<close>

definition expect :: "Kind \<Rightarrow> string \<Rightarrow> Parser \<Rightarrow> (unit \<times> Parser) option" where
  "expect k msg p = (if curKind p = k then nextToken p else Some ((), parser_error msg p))"

definition addNode :: "Node \<Rightarrow> Parser \<Rightarrow> (NodeID \<times> Parser) option" where
  "addNode n p = do {
     (i, t) \<leftarrow> AddNode (pTree p) n;
     Some (i, p\<lparr>pTree := t\<rparr>)
   }"

definition getNode :: "NodeID \<Rightarrow> Parser \<Rightarrow> (Node \<times> Parser) option" where
  "getNode i p = map_option (\<lambda>n. (n, p)) (nth_opt (Nodes (pTree p)) i)"

definition getExtra :: "nat \<Rightarrow> Parser \<Rightarrow> (NodeID \<times> Parser) option" where
  "getExtra k p = map_option (\<lambda>i. (i, p)) (nth_opt (ExtraList (pTree p)) k)"

definition updNode :: "NodeID \<Rightarrow> (Node \<Rightarrow> Node) \<Rightarrow> Parser \<Rightarrow> (unit \<times> Parser) option" where
  "updNode i f p = do {
     ns \<leftarrow> upd_opt (Nodes (pTree p)) i f;
     Some ((), p\<lparr>pTree := (pTree p)\<lparr>Nodes := ns\<rparr>\<rparr>)
   }"

definition push :: "NodeID \<Rightarrow> Parser \<Rightarrow> Parser" where
  "push i p = p\<lparr>pListStack := pListStack p @ [i]\<rparr>"

text \<open>The statements that move the top of the list stack to \<open>ExtraList\<close>.\<close>

definition moveList :: "nat \<Rightarrow> Parser \<Rightarrow> (nat \<times> Parser) option" where
  "moveList stackStart p =
     (if stackStart \<le> length (pListStack p)
      then Some (length (ExtraList (pTree p)),
                 p\<lparr>pTree := (pTree p)\<lparr>ExtraList := ExtraList (pTree p) @ drop stackStart (pListStack p)\<rparr>,
                   pListStack := take stackStart (pListStack p)\<rparr>)
      else None)"

definition flushListStack :: "nat \<Rightarrow> Parser \<Rightarrow> ((nat \<times> nat) \<times> Parser) option" where
  "flushListStack stackStart p =
     (if length (pListStack p) = stackStart then Some ((0, 0), p)
      else do {
        let count = length (pListStack p) - stackStart;
        (extraStart, p) \<leftarrow> moveList stackStart p;
        Some ((extraStart, count), p)
      })"

definition isIdentOrKeyword :: "Parser \<Rightarrow> bool" where
  "isIdentOrKeyword p \<longleftrightarrow>
     curKind p = TIdent \<or>
     (kind_code TAnd \<le> kind_code (curKind p) \<and> kind_code (curKind p) \<le> kind_code TWhile)"

text \<open>A leaf node for the current token.\<close>

definition leaf :: "NodeKind \<Rightarrow> Parser \<Rightarrow> Node" where
  "leaf k p = mkNode k (curStart p) (curEnd p)"

section \<open>Recovery\<close>

definition syncKinds :: "Kind set" where
  "syncKinds = {TLocal, TFunction, TIf, TFor, TWhile, TRepeat, TReturn, TDo, TBreak, TEnd, TGoto,
                TDoubleColon}"

primrec syncLoop :: "nat \<Rightarrow> Parser \<Rightarrow> (unit \<times> Parser) option" where
  "syncLoop 0 p = None"
| "syncLoop (Suc n) p =
     (if curKind p \<noteq> TEOF
      then if curKind p = TSemicolon then nextToken p
           else if curKind p \<in> syncKinds then Some ((), p)
           else if curKind p = TIdent then Some ((), p)
           else do {
             (_, p) \<leftarrow> nextToken p;
             syncLoop n p
           }
      else Some ((), p))"

definition sync :: "Parser \<Rightarrow> (unit \<times> Parser) option" where
  "sync p = do {
     (_, p) \<leftarrow> nextToken p;
     syncLoop (loopFuel p) p
   }"

definition validateLHS :: "NodeID \<Rightarrow> Parser \<Rightarrow> (unit \<times> Parser) option" where
  "validateLHS listNodeID p =
     (if listNodeID = InvalidNode then Some ((), p)
      else do {
        (listNode, p) \<leftarrow> getNode listNodeID p;
        p \<leftarrow> forM [0..<nCount listNode] (\<lambda>i p. do {
               (exprID, p) \<leftarrow> getExtra (nExtra listNode + i) p;
               (node, p) \<leftarrow> getNode exprID p;
               Some (if nKind node \<noteq> KindIdent \<and> nKind node \<noteq> KindIndexExpr \<and> nKind node \<noteq> KindMemberExpr
                     then errorAt (nStart node) (nEnd node) ''syntax error: cannot assign to expression'' p
                     else p)
             }) p;
        Some ((), p)
      })"

type_synonym exprParser = "nat \<Rightarrow> Parser \<Rightarrow> (NodeID \<times> Parser) option"
type_synonym blockParser = "TokenSet \<Rightarrow> Parser \<Rightarrow> (NodeID \<times> Parser) option"


text \<open>Error messages that quote a token.\<close>

definition quoted :: "string \<Rightarrow> string" where
  "quoted w = CHR 0x27 # w @ [CHR 0x27]"

definition expectedMsg :: "string \<Rightarrow> string" where
  "expectedMsg w = ''expected '' @ quoted w"

section \<open>Expressions\<close>

text \<open>\<open>parseExprList\<close>\<close>

primrec exprListLoop :: "nat \<Rightarrow> exprParser \<Rightarrow> Parser \<Rightarrow> (unit \<times> Parser) option" where
  "exprListLoop 0 pe p = None"
| "exprListLoop (Suc n) pe p = do {
     (expr, p) \<leftarrow> pe Lowest p;
     let p = (if expr \<noteq> InvalidNode then push expr p else p);
     if curKind p = TComma
     then do { (_, p) \<leftarrow> nextToken p; exprListLoop n pe p }
     else Some ((), p)
   }"

definition parseExprList :: "exprParser \<Rightarrow> Parser \<Rightarrow> (NodeID \<times> Parser) option" where
  "parseExprList pe p = do {
     let start = curStart p;
     let stackStart = length (pListStack p);
     (_, p) \<leftarrow> exprListLoop (loopFuel p) pe p;
     let count = length (pListStack p) - stackStart;
     if count = 0 then Some (InvalidNode, p)
     else do {
       (extraStart, p) \<leftarrow> moveList stackStart p;
       addNode ((mkNode KindExprList start (prevEnd p))\<lparr>nExtra := extraStart, nCount := count\<rparr>) p
     }
   }"

text \<open>\<open>parseTableConstructor\<close>: one field, the loop over the fields, and the method.\<close>

definition tableField :: "exprParser \<Rightarrow> Parser \<Rightarrow> (NodeID \<times> Parser) option" where
  "tableField pe p =
     (if curKind p = TLBrack
      then do {
        let fieldStart = curStart p;
        (_, p) \<leftarrow> nextToken p;
        (key, p) \<leftarrow> pe Lowest p;
        (_, p) \<leftarrow> expect TRBrack (expectedMsg '']'') p;
        (_, p) \<leftarrow> expect TAssign (expectedMsg ''='') p;
        (val, p) \<leftarrow> pe Lowest p;
        addNode ((mkNode KindIndexField fieldStart (prevEnd p))\<lparr>nLeft := key, nRight := val\<rparr>) p
      }
      else if isIdentOrKeyword p \<and> tkKind (pPeek p) = TAssign
      then do {
        let fieldStart = curStart p;
        (key, p) \<leftarrow> addNode (leaf KindIdent p) p;
        (_, p) \<leftarrow> nextToken p;
        (_, p) \<leftarrow> nextToken p;
        (val, p) \<leftarrow> pe Lowest p;
        addNode ((mkNode KindRecordField fieldStart (prevEnd p))\<lparr>nLeft := key, nRight := val\<rparr>) p
      }
      else pe Lowest p)"

primrec tableLoop :: "nat \<Rightarrow> exprParser \<Rightarrow> Parser \<Rightarrow> (unit \<times> Parser) option" where
  "tableLoop 0 pe p = None"
| "tableLoop (Suc n) pe p =
     (if curKind p \<noteq> TRBrace \<and> curKind p \<noteq> TEOF
      then do {
        (field, p) \<leftarrow> tableField pe p;
        let p = push field p;
        if curKind p = TComma \<or> curKind p = TSemicolon
        then do { (_, p) \<leftarrow> nextToken p; tableLoop n pe p }
        else if curKind p = TRBrace \<or> curKind p = TEOF then Some ((), p)
        else do {
          let p = parser_error (expectedMsg '','' @ '' or '' @ quoted '';'' @ '' in table'') p;
          (_, p) \<leftarrow> (if field = InvalidNode then nextToken p else Some ((), p));
          tableLoop n pe p
        }
      }
      else Some ((), p))"

definition parseTableConstructor :: "exprParser \<Rightarrow> Parser \<Rightarrow> (NodeID \<times> Parser) option" where
  "parseTableConstructor pe p = do {
     let start = curStart p;
     (_, p) \<leftarrow> nextToken p;
     let stackStart = length (pListStack p);
     (_, p) \<leftarrow> tableLoop (loopFuel p) pe p;
     let end = curEnd p;
     (_, p) \<leftarrow> expect TRBrace (expectedMsg ''}'') p;
     ((extraStart, count), p) \<leftarrow> flushListStack stackStart p;
     addNode ((mkNode KindTableExpr start end)\<lparr>nExtra := extraStart, nCount := count\<rparr>) p
   }"

text \<open>\<open>parseCallArgs\<close>: the loop over parenthesised arguments, the switch that returns the
  end of the call, and the method.\<close>

primrec argsLoop :: "nat \<Rightarrow> exprParser \<Rightarrow> Parser \<Rightarrow> (unit \<times> Parser) option" where
  "argsLoop 0 pe p = None"
| "argsLoop (Suc n) pe p =
     (if curKind p \<noteq> TRParen \<and> curKind p \<noteq> TEOF
      then do {
        (arg, p) \<leftarrow> pe Lowest p;
        let p = (if arg \<noteq> InvalidNode then push arg p else p);
        if curKind p = TComma
        then do { (_, p) \<leftarrow> nextToken p; argsLoop n pe p }
        else Some ((), p)
      }
      else Some ((), p))"

definition callArgs :: "exprParser \<Rightarrow> Kind \<Rightarrow> Parser \<Rightarrow> (nat \<times> Parser) option" where
  "callArgs pe callToken p =
     (if callToken = TLParen
      then do {
        (_, p) \<leftarrow> nextToken p;
        (_, p) \<leftarrow> argsLoop (loopFuel p) pe p;
        let end = curEnd p;
        (_, p) \<leftarrow> expect TRParen (expectedMsg '')'') p;
        Some (end, p)
      }
      else if callToken = TString \<or> callToken = TBacktickString
      then do {
        let kind = (if callToken = TBacktickString then KindHashedString else KindString);
        (arg, p) \<leftarrow> addNode (leaf kind p) p;
        let p = push arg p;
        let end = curEnd p;
        (_, p) \<leftarrow> nextToken p;
        Some (end, p)
      }
      else if callToken = TLBrace
      then do {
        (arg, p) \<leftarrow> parseTableConstructor pe p;
        let p = push arg p;
        (node, p) \<leftarrow> getNode arg p;
        Some (nEnd node, p)
      }
      else do {
        (_, p) \<leftarrow> nextToken p;
        Some (0, p)
      })"

definition parseCallArgs :: "exprParser \<Rightarrow> NodeID \<Rightarrow> Kind \<Rightarrow> Parser \<Rightarrow> (NodeID \<times> Parser) option" where
  "parseCallArgs pe left callToken p = do {
     (leftNode, p) \<leftarrow> getNode left p;
     let start = nStart leftNode;
     let stackStart = length (pListStack p);
     (end, p) \<leftarrow> callArgs pe callToken p;
     ((extraStart, count), p) \<leftarrow> flushListStack stackStart p;
     addNode ((mkNode KindCallExpr start end)
                \<lparr>nLeft := left, nExtra := extraStart, nCount := count\<rparr>) p
   }"

text \<open>\<open>parseFunctionBody\<close>\<close>

primrec paramsLoop :: "nat \<Rightarrow> Parser \<Rightarrow> (unit \<times> Parser) option" where
  "paramsLoop 0 p = None"
| "paramsLoop (Suc n) p =
     (if curKind p \<noteq> TRParen \<and> curKind p \<noteq> TEOF
      then if curKind p = TIdent \<or> curKind p = TVararg
           then do {
             (param, p) \<leftarrow> addNode (leaf KindIdent p) p;
             let isVararg = (curKind p = TVararg);
             (_, p) \<leftarrow> (if isVararg then updNode param (\<lambda>n. n\<lparr>nKind := KindVararg\<rparr>) p
                        else Some ((), p));
             let p = push param p;
             (_, p) \<leftarrow> nextToken p;
             let p = (if isVararg \<and> curKind p = TComma
                      then parser_error (''syntax error: vararg '' @ quoted ''...'' @
                                         '' must be the last parameter'') p
                      else p);
             if curKind p = TComma
             then do { (_, p) \<leftarrow> nextToken p; paramsLoop n p }
             else Some ((), p)
           }
           else Some ((), parser_error (''expected identifier or '' @ quoted ''...'' @
                                        '' in parameters'') p)
      else Some ((), p))"

definition parseFunctionBody ::
  "blockParser \<Rightarrow> nat \<Rightarrow> Parser \<Rightarrow> (NodeID \<times> Parser) option" where
  "parseFunctionBody pb start p = do {
     (_, p) \<leftarrow> expect TLParen (expectedMsg ''('' @ '' for function parameters'') p;
     let stackStart = length (pListStack p);
     (_, p) \<leftarrow> paramsLoop (loopFuel p) p;
     (_, p) \<leftarrow> expect TRParen (expectedMsg '')'') p;
     (block, p) \<leftarrow> pb stopBlockEnd p;
     let end = curEnd p;
     (_, p) \<leftarrow> expect TEnd (expectedMsg ''end'') p;
     ((extraStart, count), p) \<leftarrow> flushListStack stackStart p;
     addNode ((mkNode KindFunctionExpr start end)
                \<lparr>nExtra := extraStart, nCount := count, nRight := block\<rparr>) p
   }"

text \<open>\<open>parsePrefix\<close>: the eight kinds of token that are an expression by themselves, then
  the method.\<close>

definition leafKind :: "Kind \<Rightarrow> NodeKind option" where
  "leafKind k =
     (if k = TIdent then Some KindIdent
      else if k = TNumber then Some KindNumber
      else if k = TString then Some KindString
      else if k = TBacktickString then Some KindHashedString
      else if k = TNil then Some KindNil
      else if k = TTrue then Some KindTrue
      else if k = TFalse then Some KindFalse
      else if k = TVararg then Some KindVararg
      else None)"

definition parsePrefix :: "exprParser \<Rightarrow> blockParser \<Rightarrow> Parser \<Rightarrow> (NodeID \<times> Parser) option" where
  "parsePrefix pe pb p =
     (case leafKind (curKind p) of
        Some k \<Rightarrow> do {
          (i, p) \<leftarrow> addNode (leaf k p) p;
          (_, p) \<leftarrow> nextToken p;
          Some (i, p)
        }
      | None \<Rightarrow>
        if curKind p = TLBrace then parseTableConstructor pe p
        else if curKind p = TFunction
        then do {
          let start = curStart p;
          (_, p) \<leftarrow> nextToken p;
          parseFunctionBody pb start p
        }
        else if curKind p \<in> {TMinus, TNot, THash, TBitXor}
        then do {
          let start = curStart p;
          (_, p) \<leftarrow> nextToken p;
          (right, p) \<leftarrow> pe Unary p;
          addNode ((mkNode KindUnaryExpr start (prevEnd p))\<lparr>nRight := right\<rparr>) p
        }
        else if curKind p = TLParen
        then do {
          let start = curStart p;
          (_, p) \<leftarrow> nextToken p;
          (inner, p) \<leftarrow> pe Lowest p;
          let end = curEnd p;
          (_, p) \<leftarrow> expect TRParen (''expected closing '' @ quoted '')'') p;
          addNode ((mkNode KindParenExpr start end)\<lparr>nLeft := inner\<rparr>) p
        }
        else Some (InvalidNode, parser_error ''expected expression'' p))"

text \<open>\<open>parseInfix\<close>: one definition per group of operators, then the switch.\<close>

definition binaryKinds :: "Kind set" where
  "binaryKinds =
     {TPlus, TMinus, TAsterisk, TSlash, TFloorSlash, TModulo, TCaret, TConcat, TEq, TNotEq, TLess,
      TLessEq, TGreater, TGreaterEq, TAnd, TOr, TBitAnd, TBitOr, TBitXor, TShiftLeft, TShiftRight}"

definition callKinds :: "Kind set" where
  "callKinds = {TLParen, TString, TBacktickString, TLBrace}"

definition rightPrecedence :: "Kind \<Rightarrow> nat" where
  "rightPrecedence opKind =
     (if opKind = TCaret \<or> opKind = TConcat then precedences opKind - 1 else precedences opKind)"

definition infixBinary :: "exprParser \<Rightarrow> NodeID \<Rightarrow> nat \<Rightarrow> Parser \<Rightarrow> (NodeID \<times> Parser) option" where
  "infixBinary pe left start p = do {
     let opKind = curKind p;
     (_, p) \<leftarrow> nextToken p;
     (right, p) \<leftarrow> pe (rightPrecedence opKind) p;
     addNode ((mkNode KindBinaryExpr start (prevEnd p))
                \<lparr>nLeft := left, nRight := right, nExtra := kind_code opKind\<rparr>) p
   }"

definition infixMember :: "NodeID \<Rightarrow> nat \<Rightarrow> Parser \<Rightarrow> (NodeID \<times> Parser) option" where
  "infixMember left start p = do {
     (_, p) \<leftarrow> nextToken p;
     if \<not> isIdentOrKeyword p
     then Some (left, parser_error (''expected identifier after '' @ quoted ''.'') p)
     else do {
       (right, p) \<leftarrow> addNode (leaf KindIdent p) p;
       (_, p) \<leftarrow> nextToken p;
       addNode ((mkNode KindMemberExpr start (prevEnd p))\<lparr>nLeft := left, nRight := right\<rparr>) p
     }
   }"

definition infixIndex :: "exprParser \<Rightarrow> NodeID \<Rightarrow> nat \<Rightarrow> Parser \<Rightarrow> (NodeID \<times> Parser) option" where
  "infixIndex pe left start p = do {
     (_, p) \<leftarrow> nextToken p;
     (right, p) \<leftarrow> pe Lowest p;
     let end = curEnd p;
     (_, p) \<leftarrow> expect TRBrack (expectedMsg '']'') p;
     addNode ((mkNode KindIndexExpr start end)\<lparr>nLeft := left, nRight := right\<rparr>) p
   }"

definition infixMethod :: "exprParser \<Rightarrow> NodeID \<Rightarrow> nat \<Rightarrow> Parser \<Rightarrow> (NodeID \<times> Parser) option" where
  "infixMethod pe left start p = do {
     (_, p) \<leftarrow> nextToken p;
     if \<not> isIdentOrKeyword p then Some (left, parser_error ''expected method name'' p)
     else do {
       (methodName, p) \<leftarrow> addNode (leaf KindIdent p) p;
       (_, p) \<leftarrow> nextToken p;
       if curKind p \<notin> callKinds
       then Some (left, parser_error ''expected function arguments'' p)
       else do {
         (callNode, p) \<leftarrow> parseCallArgs pe methodName (curKind p) p;
         (_, p) \<leftarrow> updNode callNode
                    (\<lambda>n. n\<lparr>nKind := KindMethodCall, nLeft := left, nRight := methodName,
                          nStart := start\<rparr>) p;
         (_, p) \<leftarrow> (if left \<noteq> InvalidNode
                    then updNode left (\<lambda>n. n\<lparr>nParent := callNode\<rparr>) p
                    else Some ((), p));
         Some (callNode, p)
       }
     }
   }"

definition parseInfix :: "exprParser \<Rightarrow> NodeID \<Rightarrow> Parser \<Rightarrow> (NodeID \<times> Parser) option" where
  "parseInfix pe left p = do {
     (leftNode, p) \<leftarrow> getNode left p;
     let start = nStart leftNode;
     if curKind p \<in> binaryKinds then infixBinary pe left start p
     else if curKind p = TDot then infixMember left start p
     else if curKind p = TLBrack then infixIndex pe left start p
     else if curKind p \<in> callKinds then parseCallArgs pe left (curKind p) p
     else if curKind p = TColon then infixMethod pe left start p
     else Some (left, p)
   }"

primrec infixLoop :: "nat \<Rightarrow> exprParser \<Rightarrow> nat \<Rightarrow> NodeID \<Rightarrow> Parser \<Rightarrow> (NodeID \<times> Parser) option" where
  "infixLoop 0 pe precedence leftID p = None"
| "infixLoop (Suc n) pe precedence leftID p =
     (if precedence < precedences (curKind p)
      then do {
        (leftID, p) \<leftarrow> parseInfix pe leftID p;
        infixLoop n pe precedence leftID p
      }
      else Some (leftID, p))"

text \<open>The body of \<open>parseExpression\<close>, with \<open>pe\<close> and \<open>pb\<close> for the recursive calls.\<close>

definition maxDepth :: nat where "maxDepth = 200"

definition parseExpressionBody ::
  "exprParser \<Rightarrow> blockParser \<Rightarrow> nat \<Rightarrow> Parser \<Rightarrow> (NodeID \<times> Parser) option" where
  "parseExpressionBody pe pb precedence p = do {
     let p = p\<lparr>pDepth := pDepth p + 1\<rparr>;
     if maxDepth < pDepth p
     then do {
       let p = (if pDepth p = maxDepth + 1
                then parser_error ''expression nesting too deep (possible cyclic/malicious code)'' p
                else p);
       Some (InvalidNode, p\<lparr>pDepth := pDepth p - 1\<rparr>)
     }
     else do {
       (leftID, p) \<leftarrow> parsePrefix pe pb p;
       if leftID = InvalidNode then Some (InvalidNode, p\<lparr>pDepth := pDepth p - 1\<rparr>)
       else do {
         (leftID, p) \<leftarrow> infixLoop (loopFuel p) pe precedence leftID p;
         Some (leftID, p\<lparr>pDepth := pDepth p - 1\<rparr>)
       }
     }
   }"


section \<open>Statements\<close>

definition parseAssignmentOrCall :: "exprParser \<Rightarrow> Parser \<Rightarrow> (NodeID \<times> Parser) option" where
  "parseAssignmentOrCall pe p = do {
     let start = curStart p;
     (lhsList, p) \<leftarrow> parseExprList pe p;
     if lhsList = InvalidNode then Some (InvalidNode, p)
     else if curKind p = TAssign
     then do {
       (_, p) \<leftarrow> nextToken p;
       (_, p) \<leftarrow> validateLHS lhsList p;
       (rhsList, p) \<leftarrow> parseExprList pe p;
       addNode ((mkNode KindAssign start (prevEnd p))\<lparr>nLeft := lhsList, nRight := rhsList\<rparr>) p
     }
     else do {
       (lhsNode, p) \<leftarrow> getNode lhsList p;
       (call, p) \<leftarrow>
         (if nCount lhsNode = 1
          then do {
            (firstExpr, p) \<leftarrow> getExtra (nExtra lhsNode) p;
            (exprNode, p) \<leftarrow> getNode firstExpr p;
            Some (if nKind exprNode = KindCallExpr \<or> nKind exprNode = KindMethodCall
                  then Some firstExpr else None, p)
          }
          else Some (None, p));
       case call of
         Some firstExpr \<Rightarrow> Some (firstExpr, p)
       | None \<Rightarrow>
           Some (InvalidNode,
                 errorAt (nStart lhsNode) (nEnd lhsNode)
                   ''syntax error: unexpected symbol (expected assignment or function call)'' p)
     }
   }"

text \<open>The name of a function statement: an identifier, or an empty one after an error.\<close>

definition functionName :: "Parser \<Rightarrow> (NodeID \<times> Parser) option" where
  "functionName p =
     (if curKind p = TIdent
      then do {
        (name, p) \<leftarrow> addNode (leaf KindIdent p) p;
        (_, p) \<leftarrow> nextToken p;
        Some (name, p)
      }
      else do {
        let p = parser_error ''expected function name'' p;
        addNode (mkNode KindIdent (curStart p) (curStart p)) p
      })"

text \<open>\<open>parseLocal\<close>: an attribute \<open><const>\<close> or \<open><close>\<close>, one name, the loop over
  the names, and the method.\<close>

definition parseAttr :: "Parser \<Rightarrow> (Attr \<times> Parser) option" where
  "parseAttr p =
     (if curKind p = TLess \<and> tkKind (pPeek p) = TIdent
      then do {
        (_, p) \<leftarrow> nextToken p;
        attrText \<leftarrow> Token_Text (pCurr p) (Source (pTree p));
        let attr = (if attrText = ''const'' then AttrConst
                    else if attrText = ''close'' then AttrClose
                    else AttrNone);
        (_, p) \<leftarrow> nextToken p;
        (_, p) \<leftarrow> (if curKind p = TGreater then nextToken p else Some ((), p));
        Some (attr, p)
      }
      else Some (AttrNone, p))"

definition localName :: "Parser \<Rightarrow> (unit \<times> Parser) option" where
  "localName p = do {
     (ident, p) \<leftarrow> addNode (leaf KindIdent p) p;
     (_, p) \<leftarrow> nextToken p;
     (attr, p) \<leftarrow> parseAttr p;
     (_, p) \<leftarrow> updNode ident (\<lambda>n. n\<lparr>nExtra := attr_code attr\<rparr>) p;
     Some ((), push ident p)
   }"

primrec localLoop :: "nat \<Rightarrow> Parser \<Rightarrow> (unit \<times> Parser) option" where
  "localLoop 0 p = None"
| "localLoop (Suc n) p =
     (if curKind p \<noteq> TIdent then Some ((), parser_error ''expected identifier'' p)
      else do {
        (_, p) \<leftarrow> localName p;
        if curKind p = TComma
        then do { (_, p) \<leftarrow> nextToken p; localLoop n p }
        else Some ((), p)
      })"

definition localFunction :: "blockParser \<Rightarrow> nat \<Rightarrow> Parser \<Rightarrow> (NodeID \<times> Parser) option" where
  "localFunction pb start p = do {
     (_, p) \<leftarrow> nextToken p;
     (name, p) \<leftarrow> functionName p;
     (funcBody, p) \<leftarrow> parseFunctionBody pb start p;
     (body, p) \<leftarrow> getNode funcBody p;
     addNode ((mkNode KindLocalFunction start (nEnd body))\<lparr>nLeft := name, nRight := funcBody\<rparr>) p
   }"

definition localNames :: "Parser \<Rightarrow> (NodeID \<times> Parser) option" where
  "localNames p = do {
     let stackStart = length (pListStack p);
     (_, p) \<leftarrow> localLoop (loopFuel p) p;
     ((extraStart, count), p) \<leftarrow> flushListStack stackStart p;
     ((lhsStart, lhsEnd), p) \<leftarrow>
       (if 0 < count
        then do {
          (firstID, p) \<leftarrow> getExtra extraStart p;
          (lastID, p) \<leftarrow> getExtra (extraStart + (count - 1)) p;
          (firstNode, p) \<leftarrow> getNode firstID p;
          (lastNode, p) \<leftarrow> getNode lastID p;
          Some ((nStart firstNode, nEnd lastNode), p)
        }
        else Some ((curStart p, curStart p), p));
     addNode ((mkNode KindNameList lhsStart lhsEnd)\<lparr>nExtra := extraStart, nCount := count\<rparr>) p
   }"

definition parseLocal :: "exprParser \<Rightarrow> blockParser \<Rightarrow> Parser \<Rightarrow> (NodeID \<times> Parser) option" where
  "parseLocal pe pb p = do {
     let start = curStart p;
     (_, p) \<leftarrow> nextToken p;
     if curKind p = TFunction then localFunction pb start p
     else do {
       (lhsList, p) \<leftarrow> localNames p;
       (rhsList, p) \<leftarrow>
         (if curKind p = TAssign
          then do { (_, p) \<leftarrow> nextToken p; parseExprList pe p }
          else Some (InvalidNode, p));
       addNode ((mkNode KindLocalAssign start (prevEnd p))\<lparr>nLeft := lhsList, nRight := rhsList\<rparr>) p
     }
   }"

text \<open>\<open>parseIf\<close>: the loop over \<open>elseif\<close> branches, the optional \<open>else\<close>, the method.\<close>

primrec elseIfLoop ::
  "nat \<Rightarrow> exprParser \<Rightarrow> blockParser \<Rightarrow> Parser \<Rightarrow> (unit \<times> Parser) option" where
  "elseIfLoop 0 pe pb p = None"
| "elseIfLoop (Suc n) pe pb p =
     (if curKind p = TElseIf
      then do {
        let elseifStart = curStart p;
        (_, p) \<leftarrow> nextToken p;
        (cond, p) \<leftarrow> pe Lowest p;
        (_, p) \<leftarrow> expect TThen (expectedMsg ''then'') p;
        (blk, p) \<leftarrow> pb stopBlockIf p;
        (elseifNode, p) \<leftarrow>
          addNode ((mkNode KindElseIf elseifStart (prevEnd p))\<lparr>nLeft := cond, nRight := blk\<rparr>) p;
        let p = push elseifNode p;
        elseIfLoop n pe pb p
      }
      else Some ((), p))"

definition elseBranch :: "blockParser \<Rightarrow> Parser \<Rightarrow> (NodeID \<times> Parser) option" where
  "elseBranch pb p =
     (if curKind p = TElse
      then do {
        let elseStart = curStart p;
        (_, p) \<leftarrow> nextToken p;
        (blk, p) \<leftarrow> pb stopBlockEnd p;
        addNode ((mkNode KindElse elseStart (prevEnd p))\<lparr>nLeft := blk\<rparr>) p
      }
      else Some (InvalidNode, p))"

definition parseIf :: "exprParser \<Rightarrow> blockParser \<Rightarrow> Parser \<Rightarrow> (NodeID \<times> Parser) option" where
  "parseIf pe pb p = do {
     let start = curStart p;
     (_, p) \<leftarrow> nextToken p;
     (condition, p) \<leftarrow> pe Lowest p;
     (_, p) \<leftarrow> expect TThen (expectedMsg ''then'') p;
     (thenBlock, p) \<leftarrow> pb stopBlockIf p;
     let stackStart = length (pListStack p);
     (_, p) \<leftarrow> elseIfLoop (loopFuel p) pe pb p;
     (elseBlock, p) \<leftarrow> elseBranch pb p;
     (_, p) \<leftarrow> expect TEnd (expectedMsg ''end'') p;
     let p = (if elseBlock \<noteq> InvalidNode then push elseBlock p else p);
     ((extraStart, count), p) \<leftarrow> flushListStack stackStart p;
     addNode ((mkNode KindIf start (prevEnd p))
                \<lparr>nLeft := condition, nRight := thenBlock, nExtra := extraStart, nCount := count\<rparr>) p
   }"

definition parseReturn :: "exprParser \<Rightarrow> Parser \<Rightarrow> (NodeID \<times> Parser) option" where
  "parseReturn pe p = do {
     let start = curStart p;
     (_, p) \<leftarrow> nextToken p;
     (exprList, p) \<leftarrow>
       (if curKind p \<notin> {TEnd, TElseIf, TElse, TUntil, TEOF, TSemicolon}
        then parseExprList pe p
        else Some (InvalidNode, p));
     (_, p) \<leftarrow> (if curKind p = TSemicolon then nextToken p else Some ((), p));
     addNode ((mkNode KindReturn start (prevEnd p))\<lparr>nLeft := exprList\<rparr>) p
   }"

text \<open>The body of a loop: \<open>p.loopDepth++; block := p.parseBlock(stop); p.loopDepth--\<close>.\<close>

definition loopBlock :: "blockParser \<Rightarrow> TokenSet \<Rightarrow> Parser \<Rightarrow> (NodeID \<times> Parser) option" where
  "loopBlock pb stop p = do {
     let p = p\<lparr>pLoopDepth := pLoopDepth p + 1\<rparr>;
     (block, p) \<leftarrow> pb stop p;
     Some (block, p\<lparr>pLoopDepth := pLoopDepth p - 1\<rparr>)
   }"

definition parseWhile :: "exprParser \<Rightarrow> blockParser \<Rightarrow> Parser \<Rightarrow> (NodeID \<times> Parser) option" where
  "parseWhile pe pb p = do {
     let start = curStart p;
     (_, p) \<leftarrow> nextToken p;
     (condition, p) \<leftarrow> pe Lowest p;
     (_, p) \<leftarrow> expect TDo (expectedMsg ''do'') p;
     (block, p) \<leftarrow> loopBlock pb stopBlockEnd p;
     let end = curEnd p;
     (_, p) \<leftarrow> expect TEnd (expectedMsg ''end'') p;
     addNode ((mkNode KindWhile start end)\<lparr>nLeft := condition, nRight := block\<rparr>) p
   }"

definition parseRepeat :: "exprParser \<Rightarrow> blockParser \<Rightarrow> Parser \<Rightarrow> (NodeID \<times> Parser) option" where
  "parseRepeat pe pb p = do {
     let start = curStart p;
     (_, p) \<leftarrow> nextToken p;
     (block, p) \<leftarrow> loopBlock pb stopBlockUntil p;
     (_, p) \<leftarrow> expect TUntil (expectedMsg ''until'') p;
     (condition, p) \<leftarrow> pe Lowest p;
     addNode ((mkNode KindRepeat start (prevEnd p))\<lparr>nLeft := block, nRight := condition\<rparr>) p
   }"

text \<open>\<open>parseFor\<close>: the range of a numeric loop, the numeric loop, the names of a generic loop, the generic loop, and the
  method.\<close>

definition forRange :: "exprParser \<Rightarrow> Parser \<Rightarrow> (unit \<times> Parser) option" where
  "forRange pe p = do {
     (initExpr, p) \<leftarrow> pe Lowest p;
     let p = push initExpr p;
     (_, p) \<leftarrow> expect TComma (expectedMsg '','') p;
     (limitExpr, p) \<leftarrow> pe Lowest p;
     let p = push limitExpr p;
     if curKind p = TComma
     then do {
       (_, p) \<leftarrow> nextToken p;
       (stepExpr, p) \<leftarrow> pe Lowest p;
       let p = push stepExpr p;
       Some ((), p)
     }
     else Some ((), p)
   }"

definition forNum ::
  "exprParser \<Rightarrow> blockParser \<Rightarrow> nat \<Rightarrow> NodeID \<Rightarrow> Parser \<Rightarrow> (NodeID \<times> Parser) option" where
  "forNum pe pb start firstIdent p = do {
     (_, p) \<leftarrow> nextToken p;
     let stackStart = length (pListStack p);
     (_, p) \<leftarrow> forRange pe p;
     (_, p) \<leftarrow> expect TDo (expectedMsg ''do'') p;
     (block, p) \<leftarrow> loopBlock pb stopBlockEnd p;
     let end = curEnd p;
     (_, p) \<leftarrow> expect TEnd (expectedMsg ''end'') p;
     ((extraStart, count), p) \<leftarrow> flushListStack stackStart p;
     addNode ((mkNode KindForNum start end)
                \<lparr>nLeft := firstIdent, nRight := block, nExtra := extraStart, nCount := count\<rparr>) p
   }"

primrec forNamesLoop :: "nat \<Rightarrow> Parser \<Rightarrow> (unit \<times> Parser) option" where
  "forNamesLoop 0 p = None"
| "forNamesLoop (Suc n) p =
     (if curKind p = TComma
      then do {
        (_, p) \<leftarrow> nextToken p;
        if curKind p = TIdent
        then do {
          (ident, p) \<leftarrow> addNode (leaf KindIdent p) p;
          let p = push ident p;
          (_, p) \<leftarrow> nextToken p;
          forNamesLoop n p
        }
        else Some ((), parser_error ''expected identifier'' p)
      }
      else Some ((), p))"

definition forNames :: "NodeID \<Rightarrow> Parser \<Rightarrow> (NodeID \<times> Parser) option" where
  "forNames firstIdent p = do {
     let stackStart = length (pListStack p);
     let p = push firstIdent p;
     (_, p) \<leftarrow> forNamesLoop (loopFuel p) p;
     let count = length (pListStack p) - stackStart;
     (extraStartNames, p) \<leftarrow> moveList stackStart p;
     (firstNode, p) \<leftarrow> getNode firstIdent p;
     addNode ((mkNode KindNameList (nStart firstNode) (prevEnd p))
                \<lparr>nExtra := extraStartNames, nCount := count\<rparr>) p
   }"

definition forIn ::
  "exprParser \<Rightarrow> blockParser \<Rightarrow> nat \<Rightarrow> NodeID \<Rightarrow> Parser \<Rightarrow> (NodeID \<times> Parser) option" where
  "forIn pe pb start firstIdent p = do {
     (nameList, p) \<leftarrow> forNames firstIdent p;
     (_, p) \<leftarrow> expect TIn (expectedMsg ''in'') p;
     (exprList, p) \<leftarrow> parseExprList pe p;
     (_, p) \<leftarrow> expect TDo (expectedMsg ''do'') p;
     (block, p) \<leftarrow> loopBlock pb stopBlockEnd p;
     let end = curEnd p;
     (_, p) \<leftarrow> expect TEnd (expectedMsg ''end'') p;
     addNode ((mkNode KindForIn start end)
                \<lparr>nLeft := nameList, nRight := block, nExtra := exprList\<rparr>) p
   }"

definition parseFor :: "exprParser \<Rightarrow> blockParser \<Rightarrow> Parser \<Rightarrow> (NodeID \<times> Parser) option" where
  "parseFor pe pb p = do {
     let start = curStart p;
     (_, p) \<leftarrow> nextToken p;
     if curKind p \<noteq> TIdent
     then Some (InvalidNode, parser_error (''expected identifier after '' @ quoted ''for'') p)
     else do {
       (firstIdent, p) \<leftarrow> addNode (leaf KindIdent p) p;
       (_, p) \<leftarrow> nextToken p;
       if curKind p = TAssign then forNum pe pb start firstIdent p
       else forIn pe pb start firstIdent p
     }
   }"

text \<open>\<open>parseFunctionStmt\<close>: the loop over \<open>.name\<close>, the optional \<open>:name\<close>, the method.\<close>

primrec dotLoop :: "nat \<Rightarrow> NodeID \<Rightarrow> Parser \<Rightarrow> (NodeID \<times> Parser) option" where
  "dotLoop 0 nameNode p = None"
| "dotLoop (Suc n) nameNode p =
     (if curKind p = TDot
      then do {
        (_, p) \<leftarrow> nextToken p;
        if \<not> isIdentOrKeyword p then Some (nameNode, parser_error ''expected identifier'' p)
        else do {
          (right, p) \<leftarrow> addNode (leaf KindIdent p) p;
          (_, p) \<leftarrow> nextToken p;
          (name, p) \<leftarrow> getNode nameNode p;
          (nameNode, p) \<leftarrow>
            addNode ((mkNode KindMemberExpr (nStart name) (prevEnd p))
                       \<lparr>nLeft := nameNode, nRight := right\<rparr>) p;
          dotLoop n nameNode p
        }
      }
      else Some (nameNode, p))"

definition methodSuffix :: "NodeID \<Rightarrow> Parser \<Rightarrow> (NodeID \<times> Parser) option" where
  "methodSuffix nameNode p =
     (if curKind p = TColon
      then do {
        (_, p) \<leftarrow> nextToken p;
        if \<not> isIdentOrKeyword p then Some (nameNode, parser_error ''expected identifier'' p)
        else do {
          (right, p) \<leftarrow> addNode (leaf KindIdent p) p;
          (_, p) \<leftarrow> nextToken p;
          (name, p) \<leftarrow> getNode nameNode p;
          addNode ((mkNode KindMethodName (nStart name) (prevEnd p))
                     \<lparr>nLeft := nameNode, nRight := right\<rparr>) p
        }
      }
      else Some (nameNode, p))"

definition parseFunctionStmt :: "blockParser \<Rightarrow> Parser \<Rightarrow> (NodeID \<times> Parser) option" where
  "parseFunctionStmt pb p = do {
     let start = curStart p;
     (_, p) \<leftarrow> nextToken p;
     (nameNode, p) \<leftarrow> functionName p;
     (nameNode, p) \<leftarrow> dotLoop (loopFuel p) nameNode p;
     (nameNode, p) \<leftarrow> methodSuffix nameNode p;
     (funcBody, p) \<leftarrow> parseFunctionBody pb start p;
     (body, p) \<leftarrow> getNode funcBody p;
     addNode ((mkNode KindFunctionStmt start (nEnd body))\<lparr>nLeft := nameNode, nRight := funcBody\<rparr>) p
   }"

definition parseDo :: "blockParser \<Rightarrow> Parser \<Rightarrow> (NodeID \<times> Parser) option" where
  "parseDo pb p = do {
     let start = curStart p;
     (_, p) \<leftarrow> nextToken p;
     (block, p) \<leftarrow> pb stopBlockEnd p;
     let end = curEnd p;
     (_, p) \<leftarrow> expect TEnd (expectedMsg ''end'') p;
     addNode ((mkNode KindDo start end)\<lparr>nLeft := block\<rparr>) p
   }"

definition parseBreak :: "Parser \<Rightarrow> (NodeID \<times> Parser) option" where
  "parseBreak p = do {
     let start = curStart p;
     let end = curEnd p;
     let p = (if pLoopDepth p = 0
              then parser_error ''syntax error: <break> not inside a loop'' p else p);
     (_, p) \<leftarrow> nextToken p;
     addNode (mkNode KindBreak start end) p
   }"

text \<open>The optional identifier after \<open>goto\<close> and \<open>::\<close>.\<close>

definition labelName :: "string \<Rightarrow> Parser \<Rightarrow> (NodeID \<times> Parser) option" where
  "labelName msg p =
     (if curKind p = TIdent
      then do {
        (label, p) \<leftarrow> addNode (leaf KindIdent p) p;
        (_, p) \<leftarrow> nextToken p;
        Some (label, p)
      }
      else Some (InvalidNode, parser_error msg p))"

definition parseGoto :: "Parser \<Rightarrow> (NodeID \<times> Parser) option" where
  "parseGoto p = do {
     let start = curStart p;
     (_, p) \<leftarrow> nextToken p;
     (label, p) \<leftarrow> labelName (''expected label name after '' @ quoted ''goto'') p;
     addNode ((mkNode KindGoto start (prevEnd p))\<lparr>nLeft := label\<rparr>) p
   }"

definition parseLabel :: "Parser \<Rightarrow> (NodeID \<times> Parser) option" where
  "parseLabel p = do {
     let start = curStart p;
     (_, p) \<leftarrow> nextToken p;
     (name, p) \<leftarrow> labelName ''expected label name'' p;
     (_, p) \<leftarrow> expect TDoubleColon (expectedMsg ''::'') p;
     addNode ((mkNode KindLabel start (prevEnd p))\<lparr>nLeft := name\<rparr>) p
   }"

definition parseStatement ::
  "exprParser \<Rightarrow> blockParser \<Rightarrow> Parser \<Rightarrow> (NodeID \<times> Parser) option" where
  "parseStatement pe pb p =
     (case curKind p of
        TLocal \<Rightarrow> parseLocal pe pb p
      | TIf \<Rightarrow> parseIf pe pb p
      | TReturn \<Rightarrow> parseReturn pe p
      | TWhile \<Rightarrow> parseWhile pe pb p
      | TRepeat \<Rightarrow> parseRepeat pe pb p
      | TFor \<Rightarrow> parseFor pe pb p
      | TDo \<Rightarrow> parseDo pb p
      | TBreak \<Rightarrow> parseBreak p
      | TGoto \<Rightarrow> parseGoto p
      | TDoubleColon \<Rightarrow> parseLabel p
      | TFunction \<Rightarrow> parseFunctionStmt pb p
      | _ \<Rightarrow> parseAssignmentOrCall pe p)"

section \<open>Blocks and files\<close>

primrec skipBlock :: "nat \<Rightarrow> TokenSet \<Rightarrow> Parser \<Rightarrow> (unit \<times> Parser) option" where
  "skipBlock 0 stopTokens p = None"
| "skipBlock (Suc n) stopTokens p =
     (if curKind p \<noteq> TEOF \<and> \<not> isAt stopTokens p
      then do { (_, p) \<leftarrow> nextToken p; skipBlock n stopTokens p }
      else Some ((), p))"

text \<open>One statement of a block.\<close>

definition blockStep ::
  "exprParser \<Rightarrow> blockParser \<Rightarrow> TokenSet \<Rightarrow> Parser \<Rightarrow> (unit \<times> Parser) option" where
  "blockStep pe pb stopTokens p =
     (if curKind p = TSemicolon then nextToken p
      else do {
        (stmt, p) \<leftarrow> parseStatement pe pb p;
        if stmt \<noteq> InvalidNode
        then do {
          let p = push stmt p;
          (node, p) \<leftarrow> getNode stmt p;
          Some ((), if nKind node = KindReturn \<and> curKind p \<noteq> TEOF \<and> \<not> isAt stopTokens p
                    then parser_error (''syntax error: statements are not allowed after a '' @
                                       quoted ''return'') p
                    else p)
        }
        else sync p
      })"

primrec blockLoop ::
  "nat \<Rightarrow> exprParser \<Rightarrow> blockParser \<Rightarrow> TokenSet \<Rightarrow> Parser \<Rightarrow> (unit \<times> Parser) option" where
  "blockLoop 0 pe pb stopTokens p = None"
| "blockLoop (Suc n) pe pb stopTokens p =
     (if curKind p \<noteq> TEOF \<and> \<not> isAt stopTokens p
      then do {
        (_, p) \<leftarrow> blockStep pe pb stopTokens p;
        blockLoop n pe pb stopTokens p
      }
      else Some ((), p))"

text \<open>The body of \<open>parseBlock\<close>, with \<open>pe\<close> and \<open>pb\<close> for the recursive calls. The
  deferred function that restores \<open>blockDepth\<close> runs last.\<close>

definition maxBlockDepth :: nat where "maxBlockDepth = 200"

definition parseBlockBody ::
  "exprParser \<Rightarrow> blockParser \<Rightarrow> TokenSet \<Rightarrow> Parser \<Rightarrow> (NodeID \<times> Parser) option" where
  "parseBlockBody pe pb stopTokens p = do {
     let start = curStart p;
     if maxBlockDepth \<le> pBlockDepth p
     then do {
       let p = parser_error ''block nesting too deep (possible cyclic/malicious code)'' p;
       (_, p) \<leftarrow> skipBlock (loopFuel p) stopTokens p;
       addNode (mkNode KindBlock start start) p
     }
     else do {
       let p = p\<lparr>pBlockDepth := pBlockDepth p + 1\<rparr>;
       let stackStart = length (pListStack p);
       (_, p) \<leftarrow> blockLoop (loopFuel p) pe pb stopTokens p;
       ((extraStart, count), p) \<leftarrow> flushListStack stackStart p;
       (end, p) \<leftarrow>
         (if 0 < count
          then do {
            (lastID, p) \<leftarrow> getExtra (extraStart + (count - 1)) p;
            (lastNode, p) \<leftarrow> getNode lastID p;
            Some (nEnd lastNode, p)
          }
          else Some (start, p));
       (block, p) \<leftarrow>
         addNode ((mkNode KindBlock start end)\<lparr>nExtra := extraStart, nCount := count\<rparr>) p;
       Some (block, p\<lparr>pBlockDepth := pBlockDepth p - 1\<rparr>)
     }
   }"

text \<open>
  The mutual recursion, on the number of nested calls that may still be made. Each call of
  \<open>parseExpression\<close> raises \<open>depth\<close> and each call of \<open>parseBlock\<close> raises
  \<open>blockDepth\<close>, and both stop at 200: \<open>parseFuel\<close> nested calls are never needed.
\<close>

fun parseExpression :: "nat \<Rightarrow> exprParser" and parseBlock :: "nat \<Rightarrow> blockParser" where
  "parseExpression 0 precedence p = None"
| "parseExpression (Suc d) precedence p =
     parseExpressionBody (parseExpression d) (parseBlock d) precedence p"
| "parseBlock 0 stopTokens p = None"
| "parseBlock (Suc d) stopTokens p =
     parseBlockBody (parseExpression d) (parseBlock d) stopTokens p"

definition parseFuel :: nat where "parseFuel = maxDepth + maxBlockDepth + 1"

section \<open>Entry points\<close>

definition zeroToken :: Token where
  "zeroToken = \<lparr>tkKind = TIllegal, tkStart = 0, tkEnd = 0\<rparr>"

definition Parser_New :: "bytes \<Rightarrow> Tree \<Rightarrow> int \<Rightarrow> Parser option" where
  "Parser_New source tree maxErrors = do {
     let p = \<lparr>pLex = Lexer_New source, pTree = tree, pErrors = [], pMaxErrors = maxErrors,
              pPrev = zeroToken, pCurr = zeroToken, pPeek = zeroToken,
              pLoopDepth = 0, pDepth = 0, pBlockDepth = 0, pListStack = []\<rparr>;
     (_, p) \<leftarrow> nextToken p;
     (_, p) \<leftarrow> nextToken p;
     Some p
   }"

definition Parser_Reset :: "bytes \<Rightarrow> Tree \<Rightarrow> Parser \<Rightarrow> Parser option" where
  "Parser_Reset source tree p = do {
     let p = p\<lparr>pLex := Lexer_Reset source (pLex p), pTree := tree, pErrors := [], pListStack := [],
               pLoopDepth := 0, pDepth := 0, pBlockDepth := 0\<rparr>;
     (_, p) \<leftarrow> nextToken p;
     (_, p) \<leftarrow> nextToken p;
     Some p
   }"

text \<open>The capacities of the two buffers are arguments.\<close>

definition Parser_TrimOversized :: "nat \<Rightarrow> nat \<Rightarrow> nat \<Rightarrow> Parser \<Rightarrow> Parser" where
  "Parser_TrimOversized maxCap capErrors capListStack p =
     (let p = (if maxCap < capErrors then p\<lparr>pErrors := []\<rparr> else p)
      in if maxCap < capListStack then p\<lparr>pListStack := []\<rparr> else p)"

definition Parse :: "Parser \<Rightarrow> (NodeID \<times> Parser) option" where
  "Parse p = do {
     (block, p) \<leftarrow> parseBlock parseFuel stopBlockEOF p;
     (root, p) \<leftarrow>
       addNode ((mkNode KindFile 0 (length (Source (pTree p))))\<lparr>nLeft := block\<rparr>) p;
     Some (root, p\<lparr>pTree := (pTree p)\<lparr>Root := root\<rparr>\<rparr>)
   }"

end
