(* ===== verification/Parser_Rules.thy ===== *)
theory Parser_Rules
  imports Parser
begin

text \<open>
  The proof rules of the parser: the invariant of its state, the relation between the states a
  method passes through, and a total-correctness rule for every primitive operation.

  \<^item> \<open>wf_parser\<close> is the invariant of the parser state: the lexer stands behind the two
    tokens of lookahead, the tree is well formed, and every reported error and every
    node lies inside the source.
  \<^item> \<open>ext lo p0 p\<close> relates the state \<open>p0\<close> at the entry of a method to a state \<open>p\<close>
    it reaches: what was there before is unchanged but for parent links, the new nodes start at
    \<open>lo\<close> or later, and no token came back.
  \<^item> \<open>rem\<close> bounds the number of tokens to come and is the variant of every loop.
\<close>

section \<open>The state invariant\<close>

abbreviation src :: "Parser \<Rightarrow> bytes" where "src p \<equiv> Source (pTree p)"
abbreviation nn :: "Parser \<Rightarrow> nat" where "nn p \<equiv> length (Nodes (pTree p))"
abbreviation node :: "Parser \<Rightarrow> NodeID \<Rightarrow> Node" where "node p i \<equiv> Nodes (pTree p) ! i"
abbreviation extra :: "Parser \<Rightarrow> NodeID list" where "extra p \<equiv> ExtraList (pTree p)"

definition ctr :: "Parser \<Rightarrow> nat \<times> nat \<times> nat" where
  "ctr p = (pLoopDepth p, pDepth p, pBlockDepth p)"

text \<open>The tokens that are left: those in the rest of the source and those looked ahead.\<close>

definition rem :: "Parser \<Rightarrow> nat" where
  "rem p = (length (src p) - lCursor (pLex p))
           + (if tkKind (pPeek p) = TEOF then 0 else 1) + (if curKind p = TEOF then 0 else 1)"

text \<open>An end-of-file token stands at the end of the source or at a zero byte.\<close>

definition eof_at :: "bytes \<Rightarrow> Token \<Rightarrow> bool" where
  "eof_at s t \<longleftrightarrow> tkKind t \<noteq> TEOF \<or> tkEnd t = length s \<or> s ! tkEnd t = nul"

definition wf_tokens :: "Parser \<Rightarrow> bool" where
  "wf_tokens p \<longleftrightarrow>
     pLex p = lexAt (src p) (lCursor (pLex p)) \<and> lCursor (pLex p) \<le> length (src p) \<and>
     curStart p \<le> curEnd p \<and> curEnd p \<le> tkStart (pPeek p) \<and>
     tkStart (pPeek p) \<le> tkEnd (pPeek p) \<and> tkEnd (pPeek p) \<le> lCursor (pLex p) \<and>
     eof_at (src p) (pCurr p) \<and> eof_at (src p) (pPeek p)"

definition wf_errors :: "Parser \<Rightarrow> bool" where
  "wf_errors p \<longleftrightarrow>
     (\<forall>e \<in> set (pErrors p). peStart e \<le> peEnd e \<and> peEnd e \<le> length (src p)) \<and>
     (0 < pMaxErrors p \<longrightarrow> int (length (pErrors p)) \<le> pMaxErrors p)"

definition wf_parser :: "Parser \<Rightarrow> bool" where
  "wf_parser p \<longleftrightarrow>
     wf_tokens p \<and> wf_errors p \<and> wf_tree (pTree p) \<and>
     (\<forall>i \<in> set (pListStack p). i < nn p) \<and>
     (\<forall>i<nn p. 0 < i \<longrightarrow> nStart (node p i) \<le> curStart p)"

text \<open>A node without its parent link.\<close>

definition core :: "Node \<Rightarrow> Node" where
  "core n = n\<lparr>nParent := 0\<rparr>"

text \<open>The parser has moved past the token it stood at in \<open>p0\<close>, and fewer tokens are left
  unless that was the end of the source.\<close>

definition past :: "Parser \<Rightarrow> Parser \<Rightarrow> bool" where
  "past p0 p \<longleftrightarrow>
     curEnd p0 \<le> prevEnd p \<and> prevEnd p \<le> curStart p \<and> (curKind p0 \<noteq> TEOF \<longrightarrow> rem p < rem p0)"

definition ext :: "nat \<Rightarrow> Parser \<Rightarrow> Parser \<Rightarrow> bool" where
  "ext lo p0 p \<longleftrightarrow>
     wf_parser p \<and> src p = src p0 \<and> pMaxErrors p = pMaxErrors p0 \<and> ctr p = ctr p0 \<and>
     lo \<le> curStart p0 \<and> curStart p0 \<le> curEnd p0 \<and>
     (past p0 p \<or> pPrev p = pPrev p0 \<and> pCurr p = pCurr p0 \<and> rem p = rem p0) \<and>
     rem p \<le> rem p0 \<and> nn p0 \<le> nn p \<and>
     (\<forall>i<nn p0. core (node p i) = core (node p0 i)) \<and>
     (\<forall>i<nn p. nn p0 \<le> i \<longrightarrow> lo \<le> nStart (node p i)) \<and>
     prefix (extra p0) (extra p) \<and> prefix (pListStack p0) (pListStack p)"

lemma wf_parser_tree: "wf_parser p \<Longrightarrow> wf_tree (pTree p)"
  by (simp add: wf_parser_def)

lemma wf_parser_nodes: "wf_parser p \<Longrightarrow> 0 < nn p"
  by (auto simp: wf_parser_def wf_tree_def)

lemma wf_tokens_lex: "wf_tokens p \<Longrightarrow> lSource (pLex p) = src p"
  unfolding wf_tokens_def by (metis lexAt_simps(1))

lemma wf_parser_lex: "wf_parser p \<Longrightarrow> lSource (pLex p) = src p"
  by (simp add: wf_parser_def wf_tokens_lex)

lemma wf_parser_fuel: "wf_parser p \<Longrightarrow> rem p < loopFuel p"
  using wf_parser_lex [of p] by (auto simp: rem_def loopFuel_def)

lemma core_start: "core m = core n \<Longrightarrow> nStart m = nStart n"
  by (cases m; cases n) (simp add: core_def)

lemma core_eqD:
  "core m = core n \<Longrightarrow>
     nStart m = nStart n \<and> nEnd m = nEnd n \<and> nKind m = nKind n \<and> nExtra m = nExtra n \<and>
     nCount m = nCount n \<and> nLeft m = nLeft n \<and> nRight m = nRight n"
  by (cases m; cases n) (simp add: core_def)

lemma ext_refl: "wf_parser p \<Longrightarrow> lo \<le> curStart p \<Longrightarrow> ext lo p p"
  by (auto simp: ext_def wf_parser_def wf_tokens_def)

text \<open>What the relation gives.\<close>

lemma ext_wf: "ext lo p0 p \<Longrightarrow> wf_parser p"
  by (simp add: ext_def)

lemma ext_ctr: "ext lo p0 p \<Longrightarrow> ctr p = ctr p0"
  by (simp add: ext_def)

lemma ext_src: "ext lo p0 p \<Longrightarrow> src p = src p0"
  by (simp add: ext_def)

lemma ext_rem: "ext lo p0 p \<Longrightarrow> rem p \<le> rem p0"
  by (simp add: ext_def)

lemma ext_nn: "ext lo p0 p \<Longrightarrow> nn p0 \<le> nn p"
  by (simp add: ext_def)

lemma ext_stack: "ext lo p0 p \<Longrightarrow> prefix (pListStack p0) (pListStack p)"
  by (simp add: ext_def)

lemma ext_new: "ext lo p0 p \<Longrightarrow> nn p0 \<le> i \<Longrightarrow> i < nn p \<Longrightarrow> lo \<le> nStart (node p i)"
  by (simp add: ext_def)

lemma ext_old: "ext lo p0 p \<Longrightarrow> i < nn p0 \<Longrightarrow> core (node p i) = core (node p0 i)"
  by (simp add: ext_def)

lemma wf_tokensD:
  assumes "wf_parser p"
  shows "curStart p \<le> curEnd p" "curEnd p \<le> length (src p)" "curStart p \<le> length (src p)"
  using assms by (auto simp: wf_parser_def wf_tokens_def)

lemma ext_lo: "ext lo p0 p \<Longrightarrow> lo \<le> curStart p0"
  by (simp add: ext_def)

lemma ext_curStart: "ext lo p0 p \<Longrightarrow> curStart p0 \<le> curStart p"
  by (auto simp: ext_def past_def)

lemma ext_curEnd: "ext lo p0 p \<Longrightarrow> curEnd p0 \<le> curEnd p"
  by (auto simp: ext_def past_def dest: wf_tokensD)

lemma ext_past: "ext lo p0 p \<Longrightarrow> rem p < rem p0 \<Longrightarrow> past p0 p"
  by (auto simp: ext_def)

text \<open>The range of a node that starts at the entry and ends at the previous token.\<close>

lemma ext_prevEnd:
  assumes "ext lo p0 p" "rem p < rem p0"
  shows "curStart p0 \<le> prevEnd p" "prevEnd p \<le> length (src p)" "prevEnd p \<le> curStart p"
  using ext_past [OF assms] wf_tokensD [OF ext_wf [OF assms(1)]] assms(1)
  by (auto simp: past_def ext_def)

lemma past_ext: "past p0 p1 \<Longrightarrow> ext lo p0 p1 \<Longrightarrow> ext lo' p1 p2 \<Longrightarrow> past p0 p2"
  using ext_curEnd [of lo p0 p1] by (auto simp: ext_def past_def)

lemma ext_trans:
  assumes 1: "ext lo p0 p1" and 2: "ext lo' p1 p2" and lo: "lo \<le> lo'"
  shows "ext lo p0 p2"
proof -
  have "past p0 p2 \<or> pPrev p2 = pPrev p0 \<and> pCurr p2 = pCurr p0 \<and> rem p2 = rem p0"
    using 1 2 ext_curEnd [OF 1] by (auto simp: ext_def past_def)
  moreover have "lo \<le> nStart (node p2 i)" if i: "i < nn p2" "nn p0 \<le> i" for i
  proof (cases "i < nn p1")
    case True
    then show ?thesis
      using ext_new [OF 1 i(2) True] core_start [OF ext_old [OF 2 True]] by simp
  next
    case False
    then show ?thesis using ext_new [OF 2 _ i(1)] lo by simp
  qed
  moreover have "core (node p2 i) = core (node p0 i)" if "i < nn p0" for i
    using 1 2 that by (auto simp: ext_def)
  ultimately show ?thesis
    using 1 2 unfolding ext_def by (auto intro: prefix_order.trans)
qed


section \<open>Rules for the primitive operations\<close>

text \<open>
  Each rule moves a state that extends \<open>p0\<close> over one operation. The names of the facts about
  the new state \<open>p'\<close> are always the same: the tokens, the variant, the number of nodes and
  the list stack.
\<close>

definition keeps :: "Parser \<Rightarrow> Parser \<Rightarrow> bool" where
  "keeps p p' \<longleftrightarrow>
     pPrev p' = pPrev p \<and> pCurr p' = pCurr p \<and> pPeek p' = pPeek p \<and> rem p' = rem p"

lemma scans_eof: "scans s i t j \<Longrightarrow> eof_at s t"
  by (auto simp: scans_def eof_at_def split: if_splits)

lemma skipComments_spec:
  assumes "i \<le> length s" "length s - i + 1 < n" "tkEnd t = i" "tkStart t \<le> i" "eof_at s t"
  shows "\<exists>t' cs' j. skipComments n t cs (lexAt s i) = Some ((t', cs'), lexAt s j) \<and>
           tkStart t \<le> tkStart t' \<and> tkStart t' \<le> tkEnd t' \<and> tkEnd t' = j \<and> i \<le> j \<and> j \<le> length s \<and>
           tkKind t' \<noteq> TComment \<and> eof_at s t'"
  using assms
proof (induction n arbitrary: i t cs)
  case (Suc n)
  show ?case
  proof (cases "tkKind t = TComment")
    case True
    obtain u j where u: "Next (lexAt s i) = Some (u, lexAt s j)" "scans s i u j"
      using Next_lexAt [OF Suc.prems(1)] by blast
    show ?thesis
    proof (cases "tkKind u = TEOF")
      case True
      with u \<open>tkKind t = TComment\<close> Suc.prems scans_eof [OF u(2)] show ?thesis
        by (cases n) (auto simp: scans_def)
    next
      case False
      with u(2) Suc.prems have "j \<le> length s" "length s - j + 1 < n" "tkEnd u = j" "tkStart u \<le> j"
        "i < j" "i \<le> tkStart u"
        by (auto simp: scans_def)
      with Suc.IH [OF this(1-4) scans_eof [OF u(2)], of "cs @ [t]"] Suc.prems u(1) True show ?thesis by fastforce
    qed
  next
    case False
    with Suc.prems show ?thesis by auto
  qed
qed simp

lemma nextToken_spec:
  assumes wf: "wf_tokens p"
  shows "\<exists>t j cs. nextToken p = Some ((), p\<lparr>pPrev := pCurr p, pCurr := pPeek p,
             pLex := lexAt (src p) j, pPeek := t, pTree := (pTree p)\<lparr>Comments := cs\<rparr>\<rparr>) \<and>
           tkEnd (pPeek p) \<le> tkStart t \<and> tkStart t \<le> tkEnd t \<and> tkEnd t \<le> j \<and> j \<le> length (src p) \<and>
           lCursor (pLex p) \<le> j \<and> (tkKind t \<noteq> TEOF \<longrightarrow> lCursor (pLex p) < j) \<and> eof_at (src p) t"
proof -
  let ?s = "src p" and ?i = "lCursor (pLex p)"
  obtain t j where t: "Next (pLex p) = Some (t, lexAt ?s j)" "scans ?s ?i t j"
    using Next_lexAt [of ?i ?s] wf by (auto simp: wf_tokens_def)
  have fuel: "length ?s - j + 1 < loopFuel p"
    using wf_tokens_lex [OF wf] by (simp add: loopFuel_def)
  obtain t' cs' k where k: "skipComments (loopFuel p) t (Comments (pTree p)) (lexAt ?s j)
        = Some ((t', cs'), lexAt ?s k)" "tkStart t \<le> tkStart t'" "tkStart t' \<le> tkEnd t'"
      "tkEnd t' = k" "j \<le> k" "k \<le> length ?s" "eof_at ?s t'"
    using skipComments_spec [of j ?s "loopFuel p" t "Comments (pTree p)"] scans_eof [OF t(2)] t(2) fuel
    by (auto simp: scans_def)
  have "t' = t" if "tkKind t = TEOF"
    using k(1) that fuel by (cases "loopFuel p") auto
  then have "tkKind t' \<noteq> TEOF \<longrightarrow> ?i < k"
    using t(2) k(5) by (cases "tkKind t = TEOF") (auto simp: scans_def)
  moreover have "tkEnd (pPeek p) \<le> tkStart t'" "?i \<le> k"
    using t(2) k(2,5) wf by (auto simp: scans_def wf_tokens_def)
  ultimately show ?thesis
    using t(1) k by (auto simp: nextToken_def loopFuel_def intro!: exI [of _ t'] exI [of _ k] exI [of _ cs'])
qed


lemma wp_nextToken:
  assumes ext: "ext lo p0 p"
    and Q: "\<And>p'. ext lo p0 p' \<Longrightarrow> Nodes (pTree p') = Nodes (pTree p) \<Longrightarrow> extra p' = extra p \<Longrightarrow>
              src p' = src p \<Longrightarrow> pListStack p' = pListStack p \<Longrightarrow> rem p' \<le> rem p \<Longrightarrow>
              (curKind p \<noteq> TEOF \<longrightarrow> rem p' < rem p) \<Longrightarrow> pPrev p' = pCurr p \<Longrightarrow> pCurr p' = pPeek p \<Longrightarrow>
              past p0 p' \<Longrightarrow> Q () p'"
  shows "wp (nextToken p) Q"
proof -
  have wf: "wf_tokens p" using ext by (simp add: ext_def wf_parser_def)
  obtain t j cs where n: "nextToken p = Some ((), p\<lparr>pPrev := pCurr p, pCurr := pPeek p,
        pLex := lexAt (src p) j, pPeek := t, pTree := (pTree p)\<lparr>Comments := cs\<rparr>\<rparr>)"
    (is "_ = Some ((), ?p)")
    and t: "tkEnd (pPeek p) \<le> tkStart t" "tkStart t \<le> tkEnd t" "tkEnd t \<le> j" "j \<le> length (src p)"
      "lCursor (pLex p) \<le> j" "tkKind t \<noteq> TEOF \<longrightarrow> lCursor (pLex p) < j" "eof_at (src p) t"
    using nextToken_spec [OF wf] by blast
  have cs: "curEnd p \<le> tkStart (pPeek p)" "tkStart (pPeek p) \<le> tkEnd (pPeek p)" "curStart p \<le> curEnd p"
    using wf by (auto simp: wf_tokens_def)
  have rem: "rem ?p \<le> rem p" "curKind p \<noteq> TEOF \<longrightarrow> rem ?p < rem p"
    using t(4-6) by (auto simp: rem_def)
  have "wf_tokens ?p" using wf t by (auto simp: wf_tokens_def)
  moreover have "wf_errors ?p = wf_errors p" by (simp add: wf_errors_def)
  ultimately have "wf_parser ?p"
    using ext cs by (fastforce simp: ext_def wf_parser_def wf_tree_def)
  moreover have past: "past p0 ?p"
    using ext_curEnd [OF ext] cs rem ext by (auto simp: past_def ext_def)
  ultimately have "ext lo p0 ?p"
    using ext rem(1) by (simp add: ext_def ctr_def)
  with rem past show ?thesis unfolding n wp_Some by (intro Q) simp_all
qed

text \<open>Operations that leave the tokens alone.\<close>

lemma keeps_ext:
  assumes "ext lo p0 p" "keeps p p'" "wf_parser p'" "src p' = src p" "pMaxErrors p' = pMaxErrors p"
    "ctr p' = ctr p" "nn p \<le> nn p'" "prefix (extra p) (extra p')"
    "prefix (pListStack p0) (pListStack p')"
    "\<And>i. i < nn p \<Longrightarrow> core (node p' i) = core (node p i)"
    "\<And>i. nn p \<le> i \<Longrightarrow> i < nn p' \<Longrightarrow> lo \<le> nStart (node p' i)"
  shows "ext lo p0 p'"
proof -
  have "lo \<le> nStart (node p' i)" if "i < nn p'" "nn p0 \<le> i" for i
    using assms(11) [of i] ext_new [OF assms(1) that(2)] core_start [OF assms(10)] that
    by (cases "i < nn p") auto
  with assms show ?thesis
    unfolding ext_def keeps_def past_def by (auto intro: prefix_order.trans)
qed

lemma parser_error_simps [simp]:
  "pTree (parser_error m p) = pTree p" "pListStack (parser_error m p) = pListStack p"
  "pCurr (parser_error m p) = pCurr p" "pPrev (parser_error m p) = pPrev p"
  "pPeek (parser_error m p) = pPeek p" "pMaxErrors (parser_error m p) = pMaxErrors p"
  "pLex (parser_error m p) = pLex p" "ctr (parser_error m p) = ctr p"
  "rem (parser_error m p) = rem p"
  by (auto simp: parser_error_def ctr_def rem_def)

lemma errorAt_simps [simp]:
  "pTree (errorAt a b m p) = pTree p" "pListStack (errorAt a b m p) = pListStack p"
  "pCurr (errorAt a b m p) = pCurr p" "pPrev (errorAt a b m p) = pPrev p"
  "pPeek (errorAt a b m p) = pPeek p" "pMaxErrors (errorAt a b m p) = pMaxErrors p"
  "pLex (errorAt a b m p) = pLex p" "ctr (errorAt a b m p) = ctr p"
  "rem (errorAt a b m p) = rem p"
  by (auto simp: errorAt_def ctr_def rem_def)

lemma push_simps [simp]:
  "pTree (push i p) = pTree p" "pListStack (push i p) = pListStack p @ [i]"
  "pCurr (push i p) = pCurr p" "pPrev (push i p) = pPrev p"
  "pPeek (push i p) = pPeek p" "pMaxErrors (push i p) = pMaxErrors p" "pErrors (push i p) = pErrors p"
  "pLex (push i p) = pLex p" "ctr (push i p) = ctr p" "rem (push i p) = rem p"
  by (auto simp: push_def ctr_def rem_def)

lemma parser_error_errorAt: "parser_error m p = errorAt (curStart p) (curEnd p) m p"
  by (simp add: parser_error_def errorAt_def)

lemma wf_errors_errorAt:
  "wf_errors p \<Longrightarrow> a \<le> b \<Longrightarrow> b \<le> length (src p) \<Longrightarrow> wf_errors (errorAt a b m p)"
  by (auto simp: wf_errors_def errorAt_def)

lemma ext_errorAt:
  assumes "ext lo p0 p" "a \<le> b" "b \<le> length (src p)"
  shows "ext lo p0 (errorAt a b m p)"
  using assms wf_errors_errorAt [of p a b m]
  by (intro keeps_ext [OF assms(1)])
     (auto simp: keeps_def ext_def wf_parser_def wf_tokens_def)

lemma ext_error: "ext lo p0 p \<Longrightarrow> ext lo p0 (parser_error m p)"
  unfolding parser_error_errorAt by (rule ext_errorAt) (auto dest: ext_wf wf_tokensD)

lemma ext_push: "ext lo p0 p \<Longrightarrow> i < nn p \<Longrightarrow> ext lo p0 (push i p)"
  by (rule keeps_ext, assumption)
     (auto simp: keeps_def ext_def wf_parser_def wf_tokens_def wf_errors_def prefix_def)


definition new_node :: "nat \<Rightarrow> Parser \<Rightarrow> Node \<Rightarrow> bool" where
  "new_node lo p n \<longleftrightarrow>
     lo \<le> nStart n \<and> nStart n \<le> curStart p \<and> wf_node (length (src p)) (extra p) (nn p) n"

lemma core_nParent [simp]: "core (n\<lparr>nParent := i\<rparr>) = core n"
  by (simp add: core_def)

lemma linkParents_core:
  "i < length ns \<Longrightarrow> core (linkParents parent S ns ! i) = core (ns ! i)"
  by (simp add: nth_linkParents)

lemma wp_addNode:
  assumes ext: "ext lo p0 p"
    and Q: "\<And>p'. ext lo p0 p' \<Longrightarrow> nn p' = Suc (nn p) \<Longrightarrow> core (node p' (nn p)) = core n \<Longrightarrow>
              extra p' = extra p \<Longrightarrow> src p' = src p \<Longrightarrow> pListStack p' = pListStack p \<Longrightarrow> rem p' = rem p \<Longrightarrow>
              pPrev p' = pPrev p \<Longrightarrow> pCurr p' = pCurr p \<Longrightarrow> pPeek p' = pPeek p \<Longrightarrow> Q (nn p) p'"
    and n: "ext lo p0 p \<Longrightarrow> new_node lo p n"
  shows "wp (addNode n p) Q"
proof -
  let ?ns = "linkParents (nn p) (childSet (extra p) n) (Nodes (pTree p) @ [n\<lparr>nParent := InvalidNode\<rparr>])"
  let ?p = "p\<lparr>pTree := (pTree p)\<lparr>Nodes := ?ns\<rparr>\<rparr>"
  have wfn: "wf_node (length (src p)) (extra p) (nn p) n" and lo: "lo \<le> nStart n"
    and cs: "nStart n \<le> curStart p"
    using n [OF ext] by (auto simp: new_node_def)
  have add: "AddNode (pTree p) n = Some (nn p, pTree ?p)"
    using AddNode_eq [OF wfn] by simp
  have tree: "wf_tree (pTree ?p)"
    using AddNode_wf [OF _ wfn add] ext by (auto simp: ext_def wf_parser_def)
  have core: "core (node ?p i) = core (if i < nn p then node p i else n)" if "i \<le> nn p" for i
    using that by (simp add: linkParents_core nth_append)
  have start: "nStart (node ?p i) = nStart (if i < nn p then node p i else n)" if "i \<le> nn p" for i
    using core_start [OF core [OF that]] .
  have keeps: "keeps p ?p" by (simp add: keeps_def rem_def)
  have "wf_parser ?p"
    using ext tree start cs unfolding ext_def wf_parser_def wf_tokens_def wf_errors_def
    by (auto simp: less_Suc_eq)
  then have "ext lo p0 ?p"
    by (intro keeps_ext [OF ext keeps]) (use ext core start lo in \<open>auto simp: ctr_def ext_def\<close>)
  then have "Q (nn p) ?p"
    using core [of "nn p"] keeps by (intro Q) (auto simp: keeps_def)
  then show ?thesis by (simp add: addNode_def add)
qed

lemma wp_getNode: "i < nn p \<Longrightarrow> Q (node p i) p \<Longrightarrow> wp (getNode i p) Q"
  by (simp add: getNode_def)

lemma wp_getExtra: "k < length (extra p) \<Longrightarrow> Q (extra p ! k) p \<Longrightarrow> wp (getExtra k p) Q"
  by (simp add: getExtra_def)

text \<open>Changing a node that the method itself has made.\<close>

lemma wp_updNode:
  assumes ext: "ext lo p0 p" and i: "nn p0 \<le> i" "i < nn p"
    and f: "nParent (f (node p i)) = nParent (node p i)" "lo \<le> nStart (f (node p i))"
      "nStart (f (node p i)) \<le> curStart p" "wf_node (length (src p)) (extra p) i (f (node p i))"
    and Q: "\<And>p'. ext lo p0 p' \<Longrightarrow> nn p' = nn p \<Longrightarrow> Nodes (pTree p') = (Nodes (pTree p))[i := f (node p i)] \<Longrightarrow>
              extra p' = extra p \<Longrightarrow> src p' = src p \<Longrightarrow> pListStack p' = pListStack p \<Longrightarrow> rem p' = rem p \<Longrightarrow>
              pPrev p' = pPrev p \<Longrightarrow> pCurr p' = pCurr p \<Longrightarrow> pPeek p' = pPeek p \<Longrightarrow> Q () p'"
  shows "wp (updNode i f p) Q"
proof -
  let ?p = "p\<lparr>pTree := (pTree p)\<lparr>Nodes := (Nodes (pTree p))[i := f (node p i)]\<rparr>\<rparr>"
  have wf: "wf_parser p" using ext by (rule ext_wf)
  have i0: "0 < i"
    using f(4) by (auto simp: wf_node_def)
  have nodes: "(Nodes (pTree p))[i := f (node p i)] ! k = (if k = i then f (node p i) else node p k)" for k
    using i(2) by (auto simp: nth_list_update)
  have "wf_parent (nn p) i (node p i)"
    using wf i0 i(2) by (simp add: wf_parser_def wf_tree_def)
  then have par: "wf_parent (nn p) i (f (node p i))" by (simp add: wf_parent_def f(1))
  have "wf_tree (pTree ?p)"
    using wf i(2) i0 f(4) par unfolding wf_parser_def wf_tree_def by (auto simp: nth_list_update)
  then have "wf_parser ?p"
    using wf i(2) f(3) unfolding wf_parser_def wf_tokens_def wf_errors_def
    by (auto simp: nth_list_update)
  moreover have "\<forall>k<nn p. nn p0 \<le> k \<longrightarrow> lo \<le> nStart (node ?p k)"
    using ext f(2) by (auto simp: ext_def nodes)
  moreover have "\<forall>k<nn p0. core (node ?p k) = core (node p0 k)"
    using ext i(1) by (auto simp: ext_def nodes)
  ultimately have "ext lo p0 ?p"
    using ext unfolding ext_def by (auto simp: ctr_def past_def rem_def)
  then have "Q () ?p" by (rule Q) (simp_all add: rem_def)
  then show ?thesis using i(2) by (simp add: updNode_def)
qed


lemma wp_setParent:
  assumes ext: "ext lo p0 p" and i: "i < j" "j < nn p"
    and Q: "\<And>p'. ext lo p0 p' \<Longrightarrow> nn p' = nn p \<Longrightarrow> (\<forall>k<nn p. core (node p' k) = core (node p k)) \<Longrightarrow>
              pListStack p' = pListStack p \<Longrightarrow> rem p' = rem p \<Longrightarrow>
              pPrev p' = pPrev p \<Longrightarrow> pCurr p' = pCurr p \<Longrightarrow> pPeek p' = pPeek p \<Longrightarrow> Q () p'"
  shows "0 < i \<Longrightarrow> wp (updNode i (\<lambda>n. n\<lparr>nParent := j\<rparr>) p) Q"
proof -
  assume i0: "0 < i"
  let ?p = "p\<lparr>pTree := (pTree p)\<lparr>Nodes := (Nodes (pTree p))[i := (node p i)\<lparr>nParent := j\<rparr>]\<rparr>\<rparr>"
  have wf: "wf_parser p" using ext by (rule ext_wf)
  have nodes: "(Nodes (pTree p))[i := (node p i)\<lparr>nParent := j\<rparr>] ! k =
      (if k = i then (node p i)\<lparr>nParent := j\<rparr> else node p k)" for k
    using i by (auto simp: nth_list_update)
  have keeps: "keeps p ?p" by (simp add: keeps_def rem_def)
  have "wf_tree (pTree ?p)"
    using wf i i0 unfolding wf_parser_def wf_tree_def
    by (auto simp: nth_list_update wf_parent_def)
  then have "wf_parser ?p"
    using wf i unfolding wf_parser_def wf_tokens_def wf_errors_def by (auto simp: nth_list_update)
  then have "ext lo p0 ?p"
    by (intro keeps_ext [OF ext keeps]) (use ext in \<open>auto simp: ctr_def ext_def nodes\<close>)
  then have "Q () ?p"
    by (rule Q) (auto simp: rem_def nodes)
  then show ?thesis using i by (simp add: updNode_def)
qed

text \<open>A child list: \<open>c\<close> entries of \<open>ExtraList\<close> from \<open>e\<close> that name existing nodes.\<close>

definition children :: "Parser \<Rightarrow> nat \<Rightarrow> nat \<Rightarrow> bool" where
  "children p e c \<longleftrightarrow> (0 < c \<longrightarrow> e + c \<le> length (extra p)) \<and> (\<forall>k<c. extra p ! (e + k) < nn p)"

lemma wp_moveList:
  assumes ext: "ext lo p0 p" and s: "length (pListStack p0) \<le> s" "s \<le> length (pListStack p)"
    and Q: "\<And>e p'. ext lo p0 p' \<Longrightarrow> children p' e (length (pListStack p) - s) \<Longrightarrow>
              (\<forall>k < length (pListStack p) - s. extra p' ! (e + k) = pListStack p ! (s + k)) \<Longrightarrow>
              Nodes (pTree p') = Nodes (pTree p) \<Longrightarrow> src p' = src p \<Longrightarrow>
              pListStack p' = take s (pListStack p) \<Longrightarrow> rem p' = rem p \<Longrightarrow>
              pPrev p' = pPrev p \<Longrightarrow> pCurr p' = pCurr p \<Longrightarrow> pPeek p' = pPeek p \<Longrightarrow> Q e p'"
  shows "wp (moveList s p) Q"
proof -
  let ?p = "p\<lparr>pTree := (pTree p)\<lparr>ExtraList := extra p @ drop s (pListStack p)\<rparr>,
              pListStack := take s (pListStack p)\<rparr>"
  have wf: "wf_parser p" using ext by (rule ext_wf)
  have "wf_tree (pTree ?p)" using wf_tree_extra [of "pTree p"] wf by (simp add: wf_parser_def)
  then have wf': "wf_parser ?p"
    using wf unfolding wf_parser_def wf_tokens_def wf_errors_def by (auto dest: in_set_takeD)
  have "prefix (pListStack p0) (take s (pListStack p))"
    using ext_stack [OF ext] s(1) by (auto simp: prefix_def)
  then have "ext lo p0 ?p"
    by (intro keeps_ext [OF ext _ wf']) (use ext in \<open>auto simp: keeps_def rem_def ctr_def\<close>)
  moreover have "pListStack p ! k < nn p" if "k < length (pListStack p)" for k
    using wf that by (simp add: wf_parser_def)
  then have "children ?p (length (extra p)) (length (pListStack p) - s)"
    using s(2) by (auto simp: children_def nth_append)
  ultimately have "Q (length (extra p)) ?p"
    by (intro Q) (use s(2) in \<open>auto simp: rem_def nth_append\<close>)
  then show ?thesis using s(2) by (simp add: moveList_def)
qed

lemma wp_flushListStack:
  assumes ext: "ext lo p0 p" and s: "length (pListStack p0) \<le> s" "s \<le> length (pListStack p)"
    and Q: "\<And>e c p'. ext lo p0 p' \<Longrightarrow> children p' e c \<Longrightarrow> c = length (pListStack p) - s \<Longrightarrow>
              (\<forall>k<c. extra p' ! (e + k) = pListStack p ! (s + k)) \<Longrightarrow>
              Nodes (pTree p') = Nodes (pTree p) \<Longrightarrow> src p' = src p \<Longrightarrow>
              pListStack p' = take s (pListStack p) \<Longrightarrow> rem p' = rem p \<Longrightarrow>
              pPrev p' = pPrev p \<Longrightarrow> pCurr p' = pCurr p \<Longrightarrow> pPeek p' = pPeek p \<Longrightarrow> Q (e, c) p'"
  shows "wp (flushListStack s p) Q"
proof (cases "length (pListStack p) = s")
  case True
  with ext show ?thesis by (auto simp: flushListStack_def children_def intro!: Q)
next
  case False
  show ?thesis
    by (simp add: flushListStack_def False)
       (rule wp_moveList [OF ext s], auto intro!: Q)
qed


section \<open>Rules for the control structure\<close>

text \<open>How many nested calls the two limits still allow.\<close>

definition budget :: "Parser \<Rightarrow> nat" where
  "budget p = (maxDepth - pDepth p) + (maxBlockDepth - pBlockDepth p)"

lemma ext_budget: "ext lo p0 p \<Longrightarrow> budget p = budget p0"
  by (auto simp: ext_def ctr_def budget_def)

lemma wp_expect:
  assumes ext: "ext lo p0 p"
    and Q: "\<And>p'. ext lo p0 p' \<Longrightarrow> Nodes (pTree p') = Nodes (pTree p) \<Longrightarrow> extra p' = extra p \<Longrightarrow>
              src p' = src p \<Longrightarrow> pListStack p' = pListStack p \<Longrightarrow> rem p' \<le> rem p \<Longrightarrow>
              (curKind p = k \<and> k \<noteq> TEOF \<longrightarrow> rem p' < rem p) \<Longrightarrow>
              curStart p0 \<le> curEnd p \<Longrightarrow> curEnd p \<le> length (src p) \<Longrightarrow> Q () p'"
  shows "wp (expect k m p) Q"
  unfolding expect_def using ext_curStart [OF ext] wf_tokensD [OF ext_wf [OF ext]]
  by (auto intro!: wp_nextToken [OF ext] Q ext_error [OF ext])

lemma wp_let_if:
  "(c \<Longrightarrow> wp (Let x f) Q) \<Longrightarrow> (\<not> c \<Longrightarrow> wp (Let y f) Q) \<Longrightarrow> wp (Let (if c then x else y) f) Q"
  by simp

lemma wp_let_error:
  assumes "ext lo p0 p"
    and "\<And>p'. ext lo p0 p' \<Longrightarrow> Nodes (pTree p') = Nodes (pTree p) \<Longrightarrow> extra p' = extra p \<Longrightarrow>
              src p' = src p \<Longrightarrow> pListStack p' = pListStack p \<Longrightarrow> rem p' = rem p \<Longrightarrow>
              pPrev p' = pPrev p \<Longrightarrow> pCurr p' = pCurr p \<Longrightarrow> pPeek p' = pPeek p \<Longrightarrow> wp (f p') Q"
  shows "wp (Let (parser_error m p) f) Q"
  unfolding Let_def by (rule assms(2)) (use assms(1) ext_error in auto)

lemma wp_let_push:
  assumes "ext lo p0 p"
    and "\<And>p'. ext lo p0 p' \<Longrightarrow> Nodes (pTree p') = Nodes (pTree p) \<Longrightarrow> extra p' = extra p \<Longrightarrow>
              src p' = src p \<Longrightarrow> pListStack p' = pListStack p @ [i] \<Longrightarrow> rem p' = rem p \<Longrightarrow>
              pPrev p' = pPrev p \<Longrightarrow> pCurr p' = pCurr p \<Longrightarrow> pPeek p' = pPeek p \<Longrightarrow> wp (f p') Q"
    and "ext lo p0 p \<Longrightarrow> i < nn p"
  shows "wp (Let (push i p) f) Q"
  unfolding Let_def by (rule assms(2)) (use assms(1,3) ext_push in auto)

lemma wp_let: "wp (f x) Q \<Longrightarrow> wp (Let x f) Q"
  by simp

lemmas wp_unfold = wp_bind prod.case wp_Some

text \<open>The contract of a method that parses one construct from the state \<open>p\<close>.\<close>

definition parsed :: "nat \<Rightarrow> Parser \<Rightarrow> NodeID \<Rightarrow> Parser \<Rightarrow> bool" where
  "parsed lo p i p' \<longleftrightarrow>
     ext lo p p' \<and> pListStack p' = pListStack p \<and> i < nn p' \<and>
     (i \<noteq> InvalidNode \<longrightarrow> nn p \<le> i \<and> rem p' < rem p)"

text \<open>The contract of a method that always makes a node, possibly without reading a token.\<close>

definition made :: "nat \<Rightarrow> Parser \<Rightarrow> NodeID \<Rightarrow> Parser \<Rightarrow> bool" where
  "made lo p i p' \<longleftrightarrow>
     ext lo p p' \<and> pListStack p' = pListStack p \<and> i < nn p' \<and> nn p \<le> i"

lemma wp_parsed:
  assumes "ext lo p0 p" and "ext lo p0 p \<Longrightarrow> wf_parser p \<Longrightarrow> wp m (parsed (curStart p) p)"
    and "\<And>i p'. ext lo p0 p' \<Longrightarrow> nn p \<le> nn p' \<Longrightarrow> rem p' \<le> rem p \<Longrightarrow>
           pListStack p' = pListStack p \<Longrightarrow> i < nn p' \<Longrightarrow>
           (i \<noteq> InvalidNode \<longrightarrow> nn p \<le> i \<and> rem p' < rem p) \<Longrightarrow> Q i p'"
  shows "wp m Q"
  using assms(2) [OF assms(1) ext_wf [OF assms(1)]]
  by (rule wp_mono)
     (auto simp: parsed_def intro!: assms(3) ext_trans [OF assms(1)] dest: ext_nn ext_rem
       intro: order_trans [OF ext_lo [OF assms(1)] ext_curStart [OF assms(1)]])

lemma wp_made:
  assumes "ext lo p0 p" and "ext lo p0 p \<Longrightarrow> wf_parser p \<Longrightarrow> wp m (made (curStart p) p)"
    and "\<And>i p'. ext lo p0 p' \<Longrightarrow> nn p \<le> nn p' \<Longrightarrow> rem p' \<le> rem p \<Longrightarrow>
           pListStack p' = pListStack p \<Longrightarrow> i < nn p' \<Longrightarrow> nn p \<le> i \<Longrightarrow> Q i p'"
  shows "wp m Q"
  using assms(2) [OF assms(1) ext_wf [OF assms(1)]]
  by (rule wp_mono)
     (auto simp: made_def intro!: assms(3) ext_trans [OF assms(1)] dest: ext_nn ext_rem
       intro: order_trans [OF ext_lo [OF assms(1)] ext_curStart [OF assms(1)]])

text \<open>The same for a loop, which may leave new entries on the list stack.\<close>

lemma ext_stack_take:
  assumes "ext lo p0 p"
  shows "length (pListStack p0) \<le> length (pListStack p)"
    "take (length (pListStack p0)) (pListStack p) = pListStack p0"
  using ext_stack [OF assms] by (auto simp: prefix_def)

lemma wp_loop:
  assumes "ext lo p0 p" and "ext lo p0 p \<Longrightarrow> wf_parser p \<Longrightarrow> wp m (\<lambda>x p'. ext (curStart p) p p' \<and> R x p')"
    and "\<And>x p'. ext lo p0 p' \<Longrightarrow> nn p \<le> nn p' \<Longrightarrow> rem p' \<le> rem p \<Longrightarrow>
           length (pListStack p) \<le> length (pListStack p') \<Longrightarrow>
           take (length (pListStack p)) (pListStack p') = pListStack p \<Longrightarrow> R x p' \<Longrightarrow> Q x p'"
  shows "wp m Q"
  using assms(2) [OF assms(1) ext_wf [OF assms(1)]]
  by (rule wp_mono)
     (auto intro!: assms(3) ext_trans [OF assms(1)] dest: ext_nn ext_rem ext_stack_take
       intro: order_trans [OF ext_lo [OF assms(1)] ext_curStart [OF assms(1)]])

lemma ext_bounds:
  assumes "ext lo p0 p"
  shows "0 < nn p \<and> lo \<le> curStart p \<and> curStart p \<le> curEnd p \<and> curEnd p \<le> length (src p) \<and>
    curStart p0 \<le> curStart p \<and> lo \<le> curStart p0 \<and> curEnd p0 \<le> curEnd p \<and>
    curStart p0 \<le> curEnd p0 \<and> nn p0 \<le> nn p \<and> rem p \<le> rem p0 \<and> budget p = budget p0 \<and>
    (rem p < rem p0 \<longrightarrow> curStart p0 \<le> prevEnd p \<and> prevEnd p \<le> length (src p))"
  using wf_parser_nodes [OF ext_wf] wf_tokensD [OF ext_wf [OF assms]] ext_curStart [OF assms]
    ext_lo [OF assms] ext_curEnd [OF assms] ext_prevEnd [OF assms] ext_budget [OF assms] assms
  by (auto simp: ext_def)

lemma wp_bind_case: "wp m (\<lambda>a s. wp (g a s) Q) \<Longrightarrow> wp (Option.bind m (case_prod g)) Q"
  by simp


lemma children_0 [simp]: "children p e 0"
  by (simp add: children_def)

lemma new_node_iff:
  "new_node lo p n \<longleftrightarrow>
     lo \<le> nStart n \<and> nStart n \<le> curStart p \<and> nStart n \<le> nEnd n \<and> nEnd n \<le> length (src p) \<and>
     nLeft n < nn p \<and> nRight n < nn p \<and> (nKind n = KindForIn \<longrightarrow> nExtra n < nn p) \<and>
     children p (nExtra n) (nCount n)"
  by (auto simp: new_node_def wf_node_def children_def)

text \<open>The rules for the list stack in the form the methods use.\<close>

lemma wp_move:
  assumes "ext lo p0 p"
    and "\<And>e p'. ext lo p0 p' \<Longrightarrow> children p' e (length (pListStack p) - s) \<Longrightarrow>
              (\<forall>k < length (pListStack p) - s. extra p' ! (e + k) = pListStack p ! (s + k)) \<Longrightarrow>
              Nodes (pTree p') = Nodes (pTree p) \<Longrightarrow> src p' = src p \<Longrightarrow>
              pListStack p' = take s (pListStack p) \<Longrightarrow> rem p' = rem p \<Longrightarrow>
              pPrev p' = pPrev p \<Longrightarrow> pCurr p' = pCurr p \<Longrightarrow> pPeek p' = pPeek p \<Longrightarrow> Q e p'"
    and "ext lo p0 p \<Longrightarrow> length (pListStack p0) \<le> s \<and> s \<le> length (pListStack p)"
  shows "wp (moveList s p) Q"
  using assms by (intro wp_moveList [OF assms(1)]) auto

lemma wp_flush:
  assumes "ext lo p0 p"
    and "\<And>e c p'. ext lo p0 p' \<Longrightarrow> children p' e c \<Longrightarrow> c + s = length (pListStack p) \<Longrightarrow>
              (\<forall>k<c. extra p' ! (e + k) = pListStack p ! (s + k)) \<Longrightarrow>
              Nodes (pTree p') = Nodes (pTree p) \<Longrightarrow> src p' = src p \<Longrightarrow>
              pListStack p' = take s (pListStack p) \<Longrightarrow> rem p' = rem p \<Longrightarrow>
              pPrev p' = pPrev p \<Longrightarrow> pCurr p' = pCurr p \<Longrightarrow> pPeek p' = pPeek p \<Longrightarrow> wp (g e c p') Q"
    and "ext lo p0 p \<Longrightarrow> length (pListStack p0) \<le> s \<and> s \<le> length (pListStack p)"
  shows "wp (Option.bind (flushListStack s p) (\<lambda>((e, c), p'). g e c p')) Q"
  using assms by (auto intro!: wp_flushListStack [OF assms(1)])

lemma wp_parsedR:
  assumes "ext lo p0 p"
    and "ext lo p0 p \<Longrightarrow> wf_parser p \<Longrightarrow> wp m (\<lambda>i p'. parsed (curStart p) p i p' \<and> R i p')"
    and "\<And>i p'. ext lo p0 p' \<Longrightarrow> nn p \<le> nn p' \<Longrightarrow> rem p' \<le> rem p \<Longrightarrow>
           pListStack p' = pListStack p \<Longrightarrow> i < nn p' \<Longrightarrow>
           (i \<noteq> InvalidNode \<longrightarrow> nn p \<le> i \<and> rem p' < rem p) \<Longrightarrow> R i p' \<Longrightarrow> Q i p'"
  shows "wp m Q"
  using assms(2) [OF assms(1) ext_wf [OF assms(1)]]
  by (rule wp_mono)
     (auto simp: parsed_def intro!: assms(3) ext_trans [OF assms(1)] dest: ext_nn ext_rem
       intro: order_trans [OF ext_lo [OF assms(1)] ext_curStart [OF assms(1)]])

end
