(* ===== verification/Parser_Calls.thy ===== *)
theory Parser_Calls
  imports Parser_Rules
begin

text \<open>
  Total correctness of the parser methods for names, expression lists, table constructors, call
  arguments and function bodies.

  The locale \<open>sub_parsers\<close> is the contract that \<open>parseExpression\<close> and \<open>parseBlock\<close>
  offer to the other methods, up to a nesting budget. The methods that call them are verified
  inside the locale: here, in theory \<open>Parser_Expr\<close> (operators) and in theory
  \<open>Parser_Stmt\<close> (statements). Theory \<open>Parser_Correct\<close> shows by induction on the budget
  that the recursive functions are an instance.

  The proofs follow the structure of the code: \<open>ctl\<close> and \<open>ctl2\<close> split the control
  structure, \<open>ops\<close> holds one rule per call, and what is left are the ranges of the new nodes
  and the decrease of the loop variant.
\<close>

section \<open>Methods that do not recurse\<close>

named_theorems ops \<open>rules that move a state over one call, for \<open>erule\<close>\<close>
named_theorems leaf_simps \<open>what the remaining goals unfold\<close>

declare wp_move [ops] wp_flush [ops] wp_let_error [ops] wp_let_push [ops] wp_nextToken [ops] wp_expect [ops] wp_addNode [ops]
declare new_node_iff [leaf_simps] mkNode_def [leaf_simps] leaf_def [leaf_simps] parsed_def [leaf_simps] made_def [leaf_simps]
lemma wp_getNode_ext [ops]:
  assumes "ext lo p0 p"
    and "ext lo p0 p \<Longrightarrow> nStart (node p i) \<le> nEnd (node p i) \<Longrightarrow> nEnd (node p i) \<le> length (src p) \<Longrightarrow>
         nStart (node p i) \<le> curStart p \<Longrightarrow> (nn p0 \<le> i \<longrightarrow> lo \<le> nStart (node p i)) \<Longrightarrow>
         (i < nn p0 \<longrightarrow> nStart (node p i) = nStart (node p0 i)) \<Longrightarrow> Q (node p i) p"
    and "ext lo p0 p \<Longrightarrow> 0 < i \<and> i < nn p"
  shows "wp (getNode i p) Q"
proof (rule wp_getNode)
  have i: "0 < i" "i < nn p" using assms(3) [OF assms(1)] by auto
  then show "i < nn p" by simp
  have wf: "wf_parser p" using assms(1) by (rule ext_wf)
  with i show "Q (node p i) p"
    using wf_treeD(1) [OF wf_parser_tree [OF wf] i(2,1)] ext_new [OF assms(1) _ i(2)]
      core_start [OF ext_old [OF assms(1)]] assms(1)
    by (intro assms(2)) (auto simp: wf_node_def wf_parser_def)
qed

lemma wp_made_from:
  assumes "ext lo p0 p" and "ext lo p0 p \<Longrightarrow> wf_parser p \<Longrightarrow> wp m (made lo p)"
    and "\<And>i p'. ext lo p0 p' \<Longrightarrow> nn p \<le> nn p' \<Longrightarrow> rem p' \<le> rem p \<Longrightarrow>
           pListStack p' = pListStack p \<Longrightarrow> i < nn p' \<Longrightarrow> nn p \<le> i \<Longrightarrow> Q i p'"
  shows "wp m Q"
  using assms(2) [OF assms(1) ext_wf [OF assms(1)]]
  by (rule wp_mono)
     (auto simp: made_def intro!: assms(3) ext_trans [OF assms(1)] dest: ext_nn ext_rem)

lemma wp_SomeI: "Q a s \<Longrightarrow> wp (Some (a, s)) Q"
  by simp

text \<open>Changing fields, other than the parent, of a node that is not linked anywhere yet.\<close>

lemma wp_updLeaf:
  assumes "ext lo p0 p"
    and "\<And>p'. ext lo p0 p' \<Longrightarrow> nn p' = nn p \<Longrightarrow> Nodes (pTree p') = (Nodes (pTree p))[i := f (node p i)] \<Longrightarrow>
           extra p' = extra p \<Longrightarrow> src p' = src p \<Longrightarrow> pListStack p' = pListStack p \<Longrightarrow> rem p' = rem p \<Longrightarrow>
           pPrev p' = pPrev p \<Longrightarrow> pCurr p' = pCurr p \<Longrightarrow> pPeek p' = pPeek p \<Longrightarrow> Q () p'"
    and "ext lo p0 p \<Longrightarrow> nn p0 \<le> i \<and> 0 < i \<and> i < nn p \<and> nKind (f (node p i)) \<noteq> KindForIn \<and>
           nCount (node p i) = 0 \<and> (\<forall>m. nStart (f m) = nStart m \<and> nEnd (f m) = nEnd m \<and>
             nLeft (f m) = nLeft m \<and> nRight (f m) = nRight m \<and> nCount (f m) = nCount m \<and>
             nParent (f m) = nParent m)"
  shows "wp (updNode i f p) Q"
proof -
  note i = assms(3) [OF assms(1)]
  have wf: "wf_parser p" using assms(1) by (rule ext_wf)
  have "wf_node (length (src p)) (extra p) i (node p i)"
    using wf_treeD(1) [OF wf_parser_tree [OF wf]] i by blast
  then show ?thesis
    using i ext_new [OF assms(1)] wf
    by (intro wp_updNode [where Q = Q, OF assms(1)] assms(2)) (auto simp: wf_node_def wf_parser_def)
qed

lemmas ctl = wp_let_if wp_if wp_SomeI
lemmas ctl2 = wp_bind_case wp_let

lemma functionName_made:
  assumes "wf_parser p"
  shows "wp (functionName p) (made (curStart p) p)"
  using ext_refl [OF assms order_refl] unfolding functionName_def
  by - (assumption | rule ctl | erule ops | rule ctl2 | ((frule ext_bounds)?, auto simp: leaf_simps; fail))+

lemmas wp_functionName [ops] = wp_made [OF _ functionName_made]

lemma labelName_parsed:
  assumes "wf_parser p"
  shows "wp (labelName msg p) (parsed (curStart p) p)"
  using ext_refl [OF assms order_refl] unfolding labelName_def
  by - (assumption | rule ctl | erule ops | rule ctl2
      | ((frule ext_bounds)?, auto simp: leaf_simps intro: ext_error; fail))+

lemmas wp_labelName [ops] = wp_parsed [OF _ labelName_parsed]

lemma parseBreak_parsed:
  assumes "wf_parser p" "curKind p = TBreak"
  shows "wp (parseBreak p) (parsed (curStart p) p)"
  using ext_refl [OF assms(1) order_refl] assms(2) unfolding parseBreak_def
  by - (assumption | rule ctl | erule ops | rule ctl2 | ((frule ext_bounds)?, auto simp: leaf_simps; fail))+

lemma parseGoto_parsed:
  assumes "wf_parser p" "curKind p = TGoto"
  shows "wp (parseGoto p) (parsed (curStart p) p)"
  using ext_refl [OF assms(1) order_refl] assms(2) unfolding parseGoto_def
  by - (assumption | rule ctl | erule ops | rule ctl2 | ((frule ext_bounds)?, auto simp: leaf_simps; fail))+

lemma parseLabel_parsed:
  assumes "wf_parser p" "curKind p = TDoubleColon"
  shows "wp (parseLabel p) (parsed (curStart p) p)"
  using ext_refl [OF assms(1) order_refl] assms(2) unfolding parseLabel_def
  by - (assumption | rule ctl | erule ops | rule ctl2 | ((frule ext_bounds)?, auto simp: leaf_simps; fail))+

text \<open>The new entries of the list stack are nodes from \<open>b\<close> on.\<close>

definition fresh :: "NodeID \<Rightarrow> Parser \<Rightarrow> Parser \<Rightarrow> bool" where
  "fresh b p p' \<longleftrightarrow> (\<exists>xs. pListStack p' = pListStack p @ xs \<and> (\<forall>x\<in>set xs. b \<le> x))"

lemma fresh_same: "pListStack p' = pListStack p \<Longrightarrow> fresh b p p'"
  by (simp add: fresh_def)

lemma fresh_one: "pListStack p' = pListStack p @ [i] \<Longrightarrow> b \<le> i \<Longrightarrow> fresh b p p'"
  by (simp add: fresh_def)

lemma fresh_trans: "fresh b' p1 p' \<Longrightarrow> fresh b p p1 \<Longrightarrow> b \<le> b' \<Longrightarrow> fresh b p p'"
  by (fastforce simp: fresh_def)

lemma fresh_nth:
  "fresh b p p' \<Longrightarrow>
     take (length (pListStack p)) (pListStack p') = pListStack p \<and>
     length (pListStack p) \<le> length (pListStack p') \<and>
     (\<forall>k < length (pListStack p') - length (pListStack p). b \<le> pListStack p' ! (length (pListStack p) + k))"
  by (auto simp: fresh_def nth_append)

lemma syncLoop_ext:
  assumes "wf_parser p" "rem p < f"
  shows "wp (syncLoop f p) (\<lambda>_ p'. ext (curStart p) p p' \<and> pListStack p' = pListStack p)"
  using assms
proof (induction f arbitrary: p)
  case (Suc f)
  show ?case
    using ext_refl [OF Suc.prems(1) order_refl] Suc.prems(2) unfolding syncLoop.simps
    by - (assumption | rule ctl | erule ops | erule wp_loop, rule Suc.IH | rule ctl2
        | ((frule ext_bounds)?, auto simp: leaf_simps; fail))+
qed simp

lemma wp_sync [ops]:
  assumes "ext lo p0 p"
    and "\<And>p'. ext lo p0 p' \<Longrightarrow> nn p \<le> nn p' \<Longrightarrow> pListStack p' = pListStack p \<Longrightarrow> past p0 p' \<Longrightarrow> Q () p'"
  shows "wp (sync p) Q"
proof -
  have loop: "wp (syncLoop (loopFuel q) q) Q"
    if "ext lo p0 q" "past p0 q" "Nodes (pTree q) = Nodes (pTree p)" "pListStack q = pListStack p" for q
  proof (rule wp_mono [OF syncLoop_ext [OF ext_wf [OF that(1)] wf_parser_fuel [OF ext_wf [OF that(1)]]]])
    fix u p'
    assume q: "ext (curStart q) q p' \<and> pListStack p' = pListStack q"
    then show "Q u p'"
      using that past_ext [OF that(2,1)] ext_trans [OF that(1)] ext_nn [of _ q p'] ext_bounds [OF that(1)]
      by (auto intro!: assms(2))
  qed
  show ?thesis
    unfolding sync_def by (rule wp_bind_case, rule wp_nextToken [OF assms(1)], rule loop)
qed

lemma skipBlock_ext:
  assumes "wf_parser p" "rem p < f"
  shows "wp (skipBlock f stop p) (\<lambda>_ p'. ext (curStart p) p p' \<and> pListStack p' = pListStack p)"
  using assms
proof (induction f arbitrary: p)
  case (Suc f)
  show ?case
    using ext_refl [OF Suc.prems(1) order_refl] Suc.prems(2) unfolding skipBlock.simps
    by - (assumption | rule ctl | erule ops | erule wp_loop, rule Suc.IH | rule ctl2
        | ((frule ext_bounds)?, auto simp: leaf_simps; fail))+
qed simp


lemmas wp_skipBlock [ops] = wp_loop [OF _ skipBlock_ext [OF _ wf_parser_fuel]]

section \<open>The contract of the recursive calls\<close>

locale sub_parsers =
  fixes pe :: exprParser and pb :: blockParser and n :: nat
  assumes pe_parsed: "wf_parser p \<Longrightarrow> budget p < n \<Longrightarrow> wp (pe prec p) (parsed (curStart p) p)"
    and pb_made: "wf_parser p \<Longrightarrow> budget p < n \<Longrightarrow> wp (pb stop p) (made (curStart p) p)"
begin

lemma wp_pe:
  assumes "ext lo p0 p"
    and "\<And>i p'. ext lo p0 p' \<Longrightarrow> nn p \<le> nn p' \<Longrightarrow> rem p' \<le> rem p \<Longrightarrow>
           pListStack p' = pListStack p \<Longrightarrow> i < nn p' \<Longrightarrow>
           (i \<noteq> InvalidNode \<longrightarrow> nn p \<le> i \<and> rem p' < rem p) \<Longrightarrow> Q i p'"
    and "budget p0 < n"
  shows "wp (pe prec p) Q"
  using wp_parsed [OF assms(1) pe_parsed assms(2)] ext_budget [OF assms(1)] assms(3) by simp

lemma wp_pb:
  assumes "ext lo p0 p"
    and "\<And>i p'. ext lo p0 p' \<Longrightarrow> nn p \<le> nn p' \<Longrightarrow> rem p' \<le> rem p \<Longrightarrow>
           pListStack p' = pListStack p \<Longrightarrow> i < nn p' \<Longrightarrow> nn p \<le> i \<Longrightarrow> Q i p'"
    and "budget p0 < n"
  shows "wp (pb stop p) Q"
  using wp_made [OF assms(1) pb_made assms(2)] ext_budget [OF assms(1)] assms(3) by simp

declare wp_pe [ops] wp_pb [ops]

lemma exprListLoop_ext:
  assumes "wf_parser p" "budget p < n" "rem p < f"
  shows "wp (exprListLoop f pe p)
    (\<lambda>_ p'. ext (curStart p) p p' \<and> fresh (nn p) p p' \<and>
            (rem p' < rem p \<or> pListStack p' = pListStack p))"
  using assms
proof (induction f arbitrary: p)
  case (Suc f)
  show ?case
    using ext_refl [OF Suc.prems(1) order_refl] Suc.prems(2,3) unfolding exprListLoop.simps
    by - (assumption | rule ctl | erule ops | erule wp_loop, rule Suc.IH | rule ctl2
        | ((frule ext_bounds)?, auto simp: leaf_simps intro: fresh_same fresh_one elim: fresh_trans; fail))+
qed simp

lemmas wp_exprListLoop = wp_loop [OF _ exprListLoop_ext [OF _ _ wf_parser_fuel]]

text \<open>The entries of the list that \<open>parseExprList\<close> makes are nodes from \<open>b\<close> on.\<close>

definition listFrom :: "NodeID \<Rightarrow> NodeID \<Rightarrow> Parser \<Rightarrow> bool" where
  "listFrom b i p \<longleftrightarrow>
     (i \<noteq> InvalidNode \<longrightarrow>
        (\<forall>k < nCount (node p i). nExtra (node p i) + k < length (extra p) \<and>
           b \<le> extra p ! (nExtra (node p i) + k) \<and> extra p ! (nExtra (node p i) + k) < nn p))"

lemma parseExprList_list:
  assumes "wf_parser p" "budget p < n"
  shows "wp (parseExprList pe p) (\<lambda>i p'. parsed (curStart p) p i p' \<and> listFrom (nn p) i p')"
  using ext_refl [OF assms(1) order_refl] assms unfolding parseExprList_def
  by - (assumption | rule ctl | erule ops | erule wp_exprListLoop | rule ctl2
      | ((frule ext_bounds)?, auto simp: leaf_simps listFrom_def children_def dest!: core_eqD fresh_nth; fail))+

lemma parseExprList_parsed:
  "wf_parser p \<Longrightarrow> budget p < n \<Longrightarrow> wp (parseExprList pe p) (parsed (curStart p) p)"
  by (rule wp_mono [OF parseExprList_list]) auto

lemmas wp_parseExprList = wp_parsed [OF _ parseExprList_parsed]

lemma tableField_parsed:
  assumes "wf_parser p" "budget p < n"
  shows "wp (tableField pe p) (parsed (curStart p) p)"
  using ext_refl [OF assms(1) order_refl] assms(2) unfolding tableField_def
  by - (assumption | rule ctl | erule ops | rule ctl2
      | ((frule ext_bounds)?, auto simp: leaf_simps; fail))+

lemmas wp_tableField = wp_parsed [OF _ tableField_parsed]

lemma tableLoop_ext:
  assumes "wf_parser p" "budget p < n" "rem p < f"
  shows "wp (tableLoop f pe p) (\<lambda>_ p'. ext (curStart p) p p' \<and> True)"
  using assms
proof (induction f arbitrary: p)
  case (Suc f)
  show ?case
    using ext_refl [OF Suc.prems(1) order_refl] Suc.prems(2,3) unfolding tableLoop.simps
    by - (assumption | rule ctl | erule ops | erule wp_tableField | erule wp_loop, rule Suc.IH | rule ctl2
        | ((frule ext_bounds)?, auto simp: leaf_simps; fail))+
qed simp

lemmas wp_tableLoop = wp_loop [OF _ tableLoop_ext [OF _ _ wf_parser_fuel]]

lemma parseTableConstructor_parsed:
  assumes "wf_parser p" "budget p < n" "curKind p = TLBrace"
  shows "wp (parseTableConstructor pe p)
           (\<lambda>i p'. parsed (curStart p) p i p' \<and> i \<noteq> InvalidNode)"
  using ext_refl [OF assms(1) order_refl] wf_parser_nodes [OF assms(1)] assms(2,3)
  unfolding parseTableConstructor_def
  by - (assumption | rule ctl | erule ops | erule wp_tableLoop | rule ctl2
      | ((frule ext_bounds)?, auto simp: leaf_simps; fail))+

lemmas wp_parseTableConstructor = wp_parsedR [OF _ parseTableConstructor_parsed]

lemma argsLoop_ext:
  assumes "wf_parser p" "budget p < n" "rem p < f"
  shows "wp (argsLoop f pe p) (\<lambda>_ p'. ext (curStart p) p p' \<and> True)"
  using assms
proof (induction f arbitrary: p)
  case (Suc f)
  show ?case
    using ext_refl [OF Suc.prems(1) order_refl] Suc.prems(2,3) unfolding argsLoop.simps
    by - (assumption | rule ctl | erule ops | erule wp_loop, rule Suc.IH | rule ctl2
        | ((frule ext_bounds)?, auto simp: leaf_simps; fail))+
qed simp

lemmas wp_argsLoop = wp_loop [OF _ argsLoop_ext [OF _ _ wf_parser_fuel]]

lemma callArgs_ext:
  assumes "wf_parser p" "budget p < n" "curKind p \<in> callKinds"
  shows "wp (callArgs pe (curKind p) p)
           (\<lambda>e p'. ext (curStart p) p p' \<and> rem p' < rem p \<and> curStart p \<le> e \<and> e \<le> length (src p'))"
  using ext_refl [OF assms(1) order_refl] assms(2,3) unfolding callArgs_def callKinds_def
  by - (assumption | rule ctl | erule ops | erule wp_argsLoop wp_parseTableConstructor | rule ctl2
      | ((frule ext_bounds)?, auto simp: leaf_simps; fail))+

lemmas wp_callArgs = wp_loop [OF _ callArgs_ext]

lemma parseCallArgs_parsed:
  assumes "wf_parser p" "budget p < n" "curKind p \<in> callKinds" "0 < left" "left < nn p"
  shows "wp (parseCallArgs pe left (curKind p) p)
           (\<lambda>i p'. parsed (nStart (node p left)) p i p' \<and> i \<noteq> InvalidNode \<and>
                   nStart (node p' i) = nStart (node p left) \<and> nLeft (node p' i) = left \<and> nn p' = Suc i)"
proof -
  have "nStart (node p left) \<le> curStart p" using assms(1,4,5) by (simp add: wf_parser_def)
  from ext_refl [OF assms(1) this] show ?thesis
    using wf_parser_nodes [OF assms(1)] assms(2-5)
    unfolding parseCallArgs_def
    by - (assumption | rule ctl | erule ops | erule wp_callArgs | rule ctl2
        | ((frule ext_bounds)?, auto simp: leaf_simps dest!: core_eqD; fail))+
qed


lemma paramsLoop_ext:
  assumes "wf_parser p" "rem p < f"
  shows "wp (paramsLoop f p) (\<lambda>_ p'. ext (curStart p) p p' \<and> True)"
  using assms
proof (induction f arbitrary: p)
  case (Suc f)
  show ?case
    using ext_refl [OF Suc.prems(1) order_refl] wf_parser_nodes [OF Suc.prems(1)] Suc.prems(2)
    unfolding paramsLoop.simps
    by - (assumption | rule ctl | erule ops | erule wp_updLeaf | erule wp_loop, rule Suc.IH | rule ctl2
        | ((frule ext_bounds)?, auto simp: leaf_simps dest!: core_eqD intro: ext_error; fail))+
qed simp

lemmas wp_paramsLoop = wp_loop [OF _ paramsLoop_ext [OF _ wf_parser_fuel]]

lemma parseFunctionBody_made:
  assumes "wf_parser p" "budget p < n" "start \<le> curStart p"
  shows "wp (parseFunctionBody pb start p) (made start p)"
  using ext_refl [OF assms(1,3)] assms(2) unfolding parseFunctionBody_def
  by - (assumption | rule ctl | erule ops | erule wp_paramsLoop | rule ctl2
      | ((frule ext_bounds)?, auto simp: leaf_simps; fail))+

end

end
