(* ===== verification/Parser_Expr.thy ===== *)
theory Parser_Expr
  imports Parser_Calls
begin

text \<open>
  Total correctness of the operator methods of the parser: \<open>parsePrefix\<close>, \<open>parseInfix\<close>
  with its groups of operators, the precedence loop, and the body of \<open>parseExpression\<close>.
\<close>

context sub_parsers
begin

declare wp_pe [ops] wp_pb [ops]

lemma wp_parseFunctionBody:
  assumes "ext lo p0 p"
    and "\<And>i p'. ext lo p0 p' \<Longrightarrow> nn p \<le> nn p' \<Longrightarrow> rem p' \<le> rem p \<Longrightarrow>
           pListStack p' = pListStack p \<Longrightarrow> i < nn p' \<Longrightarrow> nn p \<le> i \<Longrightarrow> Q i p'"
    and "budget p0 < n"
  shows "wp (parseFunctionBody pb lo p) Q"
  using ext_bounds [OF assms(1)] assms(3)
  by (intro wp_made_from [OF assms(1) parseFunctionBody_made assms(2)]) auto

lemma parsePrefix_parsed:
  assumes "wf_parser p" "budget p < n"
  shows "wp (parsePrefix pe pb p) (parsed (curStart p) p)"
proof (cases "leafKind (curKind p)")
  case None
  show ?thesis
    using ext_refl [OF assms(1) order_refl] assms(2) unfolding parsePrefix_def None option.case
    by - (assumption | rule ctl | erule ops | erule wp_parseFunctionBody wp_parseTableConstructor
        | rule ctl2 | ((frule ext_bounds)?, auto simp: leaf_simps intro: ext_error; fail))+
next
  case (Some k)
  then have "curKind p \<noteq> TEOF" "k \<noteq> KindForIn" by (auto simp: leafKind_def split: if_splits)
  then show ?thesis
    using ext_refl [OF assms(1) order_refl] assms(2) unfolding parsePrefix_def Some option.case
    by - (assumption | rule ctl | erule ops | rule ctl2
        | ((frule ext_bounds)?, auto simp: leaf_simps; fail))+
qed

lemmas wp_parsePrefix = wp_parsed [OF _ parsePrefix_parsed]

text \<open>
  The contract of an infix operator applied to the node \<open>left\<close>: it gives \<open>left\<close> back or a
  new node with the same start, and reads the operator.
\<close>

definition infixed :: "NodeID \<Rightarrow> Parser \<Rightarrow> NodeID \<Rightarrow> Parser \<Rightarrow> bool" where
  "infixed left p i p' \<longleftrightarrow>
     ext (nStart (node p left)) p p' \<and> pListStack p' = pListStack p \<and>
     i < nn p' \<and> (i = left \<or> nn p \<le> i) \<and> nStart (node p' i) = nStart (node p left) \<and> rem p' < rem p"

lemma left_ext:
  assumes "wf_parser p" "0 < left" "left < nn p"
  shows "ext (nStart (node p left)) p p"
  using assms by (intro ext_refl) (auto simp: wf_parser_def)

lemma infixBinary_infixed:
  assumes "wf_parser p" "budget p < n" "0 < left" "left < nn p" "curKind p \<noteq> TEOF"
  shows "wp (infixBinary pe left (nStart (node p left)) p) (infixed left p)"
  using left_ext [OF assms(1,3,4)] assms(2-5) unfolding infixBinary_def
  by - (assumption | rule ctl | erule ops | rule ctl2
      | ((frule ext_bounds)?, auto simp: leaf_simps infixed_def dest!: core_eqD; fail))+

lemma infixMember_infixed:
  assumes "wf_parser p" "0 < left" "left < nn p" "curKind p = TDot"
  shows "wp (infixMember left (nStart (node p left)) p) (infixed left p)"
  using left_ext [OF assms(1-3)] assms(2-4) unfolding infixMember_def
  by - (assumption | rule ctl | erule ops | rule ctl2
      | ((frule ext_bounds)?, auto simp: leaf_simps infixed_def dest!: core_eqD intro: ext_error; fail))+

lemma infixIndex_infixed:
  assumes "wf_parser p" "budget p < n" "0 < left" "left < nn p" "curKind p = TLBrack"
  shows "wp (infixIndex pe left (nStart (node p left)) p) (infixed left p)"
  using left_ext [OF assms(1,3,4)] assms(2-5) unfolding infixIndex_def
  by - (assumption | rule ctl | erule ops | rule ctl2
      | ((frule ext_bounds)?, auto simp: leaf_simps infixed_def dest!: core_eqD; fail))+

lemma wp_parseCallArgs:
  assumes ext: "ext lo p0 p"
    and Q: "\<And>i p'. ext lo p0 p' \<Longrightarrow> nn p \<le> i \<Longrightarrow> nn p' = Suc i \<Longrightarrow> rem p' < rem p \<Longrightarrow>
           pListStack p' = pListStack p \<Longrightarrow> nStart (node p' i) = nStart (node p left) \<Longrightarrow> Q i p'"
    and left: "ext lo p0 p \<Longrightarrow> budget p0 < n \<and> curKind p \<in> callKinds \<and> 0 < left \<and> left < nn p \<and>
                 (nn p0 \<le> left \<or> lo \<le> nStart (node p left))"
  shows "wp (parseCallArgs pe left (curKind p) p) Q"
proof -
  note l = left [OF ext]
  have "budget p < n" using ext_budget [OF ext] l by simp
  note parseCallArgs_parsed [OF ext_wf [OF ext] this, of left]
  then show ?thesis
    using l ext_new [OF ext, of left] by - (rule wp_mono, blast, auto simp: parsed_def intro!: Q ext_trans [OF ext])
qed

text \<open>A method call takes over the node of the call: its kind, its left and right
  children and its start change.\<close>

lemma wp_toMethodCall:
  assumes ext: "ext lo p0 p"
    and Q: "\<And>p'. ext lo p0 p' \<Longrightarrow> nn p' = nn p \<Longrightarrow> nStart (node p' i) = lo \<Longrightarrow>
              pListStack p' = pListStack p \<Longrightarrow> rem p' = rem p \<Longrightarrow>
              pPrev p' = pPrev p \<Longrightarrow> pCurr p' = pCurr p \<Longrightarrow> pPeek p' = pPeek p \<Longrightarrow> Q () p'"
    and i: "ext lo p0 p \<Longrightarrow> nn p0 \<le> i \<and> 0 < i \<and> i < nn p \<and> left < i \<and> name < i"
  shows "wp (updNode i (\<lambda>m. m\<lparr>nKind := KindMethodCall, nLeft := left, nRight := name, nStart := lo\<rparr>) p) Q"
proof -
  note i = i [OF ext]
  have wf: "wf_parser p" using ext by (rule ext_wf)
  have "wf_node (length (src p)) (extra p) i (node p i)"
    using wf_treeD(1) [OF wf_parser_tree [OF wf]] i by blast
  then show ?thesis
    using i ext_new [OF ext, of i] ext_bounds [OF ext]
    by (intro wp_updNode [where Q = Q, OF ext] Q) (auto simp: wf_node_def)
qed

lemma ext_old_start: "ext lo p0 p \<Longrightarrow> i < nn p0 \<Longrightarrow> nStart (node p i) = nStart (node p0 i)"
  by (rule core_start) (rule ext_old)

lemma wp_link:
  assumes "ext lo p0 p"
    and "\<And>p'. ext lo p0 p' \<Longrightarrow> nn p' = nn p \<Longrightarrow> nStart (node p' j) = nStart (node p j) \<Longrightarrow>
              pListStack p' = pListStack p \<Longrightarrow> rem p' = rem p \<Longrightarrow> Q () p'"
    and "ext lo p0 p \<Longrightarrow> 0 < i \<and> i < j \<and> j < nn p"
  shows "wp (updNode i (\<lambda>n. n\<lparr>nParent := j\<rparr>) p) Q"
  using assms(3) [OF assms(1)]
  by (intro wp_setParent [OF assms(1)] assms(2)) (auto intro: core_start)

lemma infixed_left:
  "ext (nStart (node p left)) p p' \<Longrightarrow> left < nn p \<Longrightarrow> pListStack p' = pListStack p \<Longrightarrow> rem p' < rem p \<Longrightarrow>
   infixed left p left (parser_error m p')"
  by (auto simp: infixed_def ext_old_start intro: ext_error dest: ext_nn)

lemma infixMethod_infixed:
  assumes "wf_parser p" "budget p < n" "0 < left" "left < nn p" "curKind p = TColon"
  shows "wp (infixMethod pe left (nStart (node p left)) p) (infixed left p)"
  using left_ext [OF assms(1,3,4)] assms(2-5) unfolding infixMethod_def
  by - (assumption | rule ctl | erule ops
      | erule wp_parseCallArgs wp_toMethodCall wp_link infixed_left | rule ctl2
      | ((frule ext_bounds)?, auto simp: leaf_simps infixed_def dest!: core_eqD; fail))+

lemma infix_kinds:
  "0 < precedences k \<Longrightarrow>
     k \<in> binaryKinds \<and> k \<noteq> TEOF \<or> k = TDot \<or> k = TLBrack \<or> k \<in> callKinds \<or> k = TColon"
  by (cases k) (simp_all add: precedences_def binaryKinds_def callKinds_def)

lemma parseInfix_infixed:
  assumes "wf_parser p" "budget p < n" "0 < left" "left < nn p" "0 < precedences (curKind p)"
  shows "wp (parseInfix pe left p) (infixed left p)"
proof -
  consider "curKind p \<in> binaryKinds" "curKind p \<noteq> TEOF" | "curKind p = TDot" | "curKind p = TLBrack"
    | "curKind p \<in> callKinds" | "curKind p = TColon"
    using infix_kinds [OF assms(5)] by blast
  then show ?thesis
  proof cases
    case 1
    with infixBinary_infixed [OF assms(1-4)] assms(4) show ?thesis
      by (auto simp: parseInfix_def getNode_def)
  next
    case 2
    with infixMember_infixed [OF assms(1,3,4)] assms(4) show ?thesis
      by (auto simp: parseInfix_def getNode_def binaryKinds_def)
  next
    case 3
    with infixIndex_infixed [OF assms(1-4)] assms(4) show ?thesis
      by (auto simp: parseInfix_def getNode_def binaryKinds_def)
  next
    case 4
    have "wp (parseCallArgs pe left (curKind p) p) (infixed left p)"
      by (rule wp_parseCallArgs [OF left_ext [OF assms(1,3,4)]])
         (use 4 assms in \<open>auto simp: infixed_def\<close>)
    with 4 assms(4) show ?thesis
      by (auto simp: parseInfix_def getNode_def binaryKinds_def callKinds_def)
  next
    case 5
    with infixMethod_infixed [OF assms(1-4)] assms(4) show ?thesis
      by (auto simp: parseInfix_def getNode_def binaryKinds_def callKinds_def)
  qed
qed

lemma infixLoop_parsed:
  assumes "ext lo p0 p" "budget p0 < n" "nn p0 \<le> left" "0 < left" "left < nn p" "rem p < f"
    "pListStack p = pListStack p0" "rem p < rem p0"
  shows "wp (infixLoop f pe prec left p) (parsed lo p0)"
  using assms
proof (induction f arbitrary: p left)
  case (Suc f)
  show ?case
  proof (cases "prec < precedences (curKind p)")
    case True
    have "budget p < n" using Suc.prems ext_budget by simp
    then have "wp (parseInfix pe left p) (infixed left p)"
      using True Suc.prems by (intro parseInfix_infixed ext_wf) auto
    moreover have "wp (infixLoop f pe prec i p') (parsed lo p0)" if "infixed left p i p'" for i p'
    proof (rule Suc.IH)
      have "lo \<le> nStart (node p left)" using ext_new [OF Suc.prems(1,3)] Suc.prems by simp
      with that show "ext lo p0 p'"
        using ext_trans [OF Suc.prems(1)] by (auto simp: infixed_def)
    qed (use that Suc.prems ext_nn [OF Suc.prems(1)] in \<open>auto simp: infixed_def\<close>)
    ultimately show ?thesis
      using True by (auto intro: wp_mono)
  next
    case False
    with Suc.prems show ?thesis by (simp add: parsed_def)
  qed
qed simp

text \<open>The counters \<open>depth\<close>, \<open>blockDepth\<close> and \<open>loopDepth\<close> around a call.\<close>

lemma counter_simps [simp]:
  "wf_parser (p\<lparr>pDepth := d\<rparr>) = wf_parser p" "rem (p\<lparr>pDepth := d\<rparr>) = rem p"
  "wf_parser (p\<lparr>pBlockDepth := d\<rparr>) = wf_parser p" "rem (p\<lparr>pBlockDepth := d\<rparr>) = rem p"
  "wf_parser (p\<lparr>pLoopDepth := d\<rparr>) = wf_parser p" "rem (p\<lparr>pLoopDepth := d\<rparr>) = rem p"
  by (simp_all add: wf_parser_def wf_tokens_def wf_errors_def rem_def)

lemma ext_restore_depth:
  "ext lo (p\<lparr>pDepth := d\<rparr>) p' \<Longrightarrow> ext lo p (p'\<lparr>pDepth := pDepth p\<rparr>)"
  by (simp add: ext_def ctr_def past_def)

lemma parsed_restore_depth:
  assumes "parsed lo (p\<lparr>pDepth := pDepth p + 1\<rparr>) i p'"
  shows "parsed lo p i (p'\<lparr>pDepth := pDepth p' - 1\<rparr>)"
proof -
  have "pDepth p' = pDepth p + 1" using assms by (auto simp: parsed_def ext_def ctr_def)
  with assms ext_restore_depth [where d = "pDepth p + 1" and p = p and p' = p' and lo = lo] show ?thesis
    by (simp add: parsed_def)
qed

lemma parseExpressionBody_parsed:
  assumes "wf_parser p" "budget p < Suc n"
  shows "wp (parseExpressionBody pe pb prec p) (parsed (curStart p) p)"
proof (cases "pDepth p < maxDepth")
  case True
  let ?p = "p\<lparr>pDepth := pDepth p + 1\<rparr>"
  have budget: "budget ?p < n" using assms(2) True by (auto simp: budget_def)
  have "wp (infixLoop (loopFuel p') pe prec i p') (parsed (curStart ?p) ?p)"
    if i: "parsed (curStart ?p) ?p i p'" "i \<noteq> InvalidNode" for i p'
    using i wf_parser_fuel [of p'] budget
    by (intro infixLoop_parsed) (auto simp: parsed_def dest: ext_wf)
  then have loop: "wp (infixLoop (loopFuel p') pe prec i p')
      (\<lambda>i p'. parsed (curStart p) p i (p'\<lparr>pDepth := pDepth p' - 1\<rparr>))"
    if "parsed (curStart ?p) ?p i p'" "i \<noteq> InvalidNode" for i p'
    by (rule wp_mono [OF _ parsed_restore_depth]) (use that in simp_all)
  have "wp (parsePrefix pe pb ?p) (parsed (curStart ?p) ?p)"
    by (rule parsePrefix_parsed) (use assms(1) budget in simp_all)
  then show ?thesis
    using True parsed_restore_depth [of "curStart p" p] loop
    by (auto simp: parseExpressionBody_def elim!: wp_mono)
next
  case False
  have "ext (curStart p) p (parser_error m p)" for m
    by (rule ext_error) (rule ext_refl [OF assms(1) order_refl])
  moreover have "(parser_error m (p\<lparr>pDepth := Suc (pDepth p)\<rparr>))\<lparr>pDepth := pDepth p\<rparr> = parser_error m p" for m
    by (simp add: parser_error_def)
  moreover have "pDepth (parser_error m q) = pDepth q" for m q by (simp add: parser_error_def)
  ultimately show ?thesis
    using False ext_refl [OF assms(1) order_refl] wf_parser_nodes [OF assms(1)]
    by (auto simp: parseExpressionBody_def parsed_def Let_def)
qed

end

end
