(* ===== verification/Parser_Stmt.thy ===== *)
theory Parser_Stmt
  imports Parser_Expr
begin

text \<open>
  Total correctness of the statement methods of the parser and of the body of
  \<open>parseBlock\<close>.
\<close>

section \<open>Loops over names\<close>

lemma Token_Text_Some:
  assumes "wf_parser p"
  shows "\<exists>w. Token_Text (pCurr p) (src p) = Some w"
  using wf_tokensD [OF assms] by (auto simp: Token_Text_def)

lemma wp_bind_text: "m = Some w \<Longrightarrow> wp (f w) Q \<Longrightarrow> wp (Option.bind m f) Q"
  by simp

lemma parseAttr_ext:
  assumes "wf_parser p"
  shows "wp (parseAttr p) (\<lambda>_ p'. ext (curStart p) p p' \<and> Nodes (pTree p') = Nodes (pTree p) \<and>
           extra p' = extra p \<and> src p' = src p \<and> pListStack p' = pListStack p)"
proof -
  have word: "wp (Option.bind (Token_Text (pCurr q) (src q)) f) Q"
    if "ext lo p0 q" "\<And>w. wp (f w) Q" for lo p0 q and f :: "string \<Rightarrow> (Attr \<times> Parser) option" and Q
    using Token_Text_Some [OF ext_wf [OF that(1)]] that(2) by auto
  show ?thesis
    using ext_refl [OF assms order_refl] unfolding parseAttr_def
    by - (assumption | rule ctl | erule ops | rule word, assumption | rule ctl2
        | ((frule ext_bounds)?, auto simp: leaf_simps; fail))+
qed

lemmas wp_parseAttr = wp_loop [OF _ parseAttr_ext]

lemma localName_ext:
  assumes "wf_parser p" "curKind p = TIdent"
  shows "wp (localName p) (\<lambda>_ p'. ext (curStart p) p p' \<and> pListStack p' = pListStack p @ [nn p] \<and>
           nn p' = Suc (nn p) \<and> nStart (node p' (nn p)) = curStart p \<and> rem p' < rem p)"
  using ext_refl [OF assms(1) order_refl] wf_parser_nodes [OF assms(1)] assms(2)
  unfolding localName_def
  by - (assumption | rule ctl | erule ops | erule wp_parseAttr wp_updLeaf | rule ctl2
      | ((frule ext_bounds)?, auto simp: leaf_simps dest!: core_eqD intro!: ext_push; fail))+

text \<open>The first name of a name list starts where the list starts.\<close>

definition firstName :: "nat \<Rightarrow> Parser \<Rightarrow> Parser \<Rightarrow> bool" where
  "firstName s p p' \<longleftrightarrow>
     (length (pListStack p) < length (pListStack p') \<longrightarrow>
        nStart (node p' (pListStack p' ! length (pListStack p))) = s)"

lemma localLoop_ext:
  assumes "wf_parser p" "rem p < f"
  shows "wp (localLoop f p) (\<lambda>_ p'. ext (curStart p) p p' \<and> fresh (nn p) p p' \<and> firstName (curStart p) p p')"
  using assms
proof (induction f arbitrary: p)
  case (Suc f)
  have refl: "ext (curStart p) p p" using ext_refl [OF Suc.prems(1) order_refl] .
  show ?case
  proof (cases "curKind p = TIdent")
    case False
    with ext_error [OF refl] show ?thesis by (simp add: fresh_same firstName_def)
  next
    case True
    have step: "ext (curStart p) p p'" "fresh (nn p) p p'" "firstName (curStart p) p p'"
      if 1: "ext (curStart p) p p1" "pListStack p1 = pListStack p @ [nn p]" "nn p1 = Suc (nn p)"
        "nStart (node p1 (nn p)) = curStart p" and 2: "ext lo p1 p'" "curStart p \<le> lo" "fresh (nn p1) p1 p'"
      for p1 p' lo
    proof -
      show "ext (curStart p) p p'" using ext_trans [OF 1(1) 2(1,2)] .
      show "fresh (nn p) p p'"
        by (rule fresh_trans [OF 2(3)]) (use 1 in \<open>auto simp: fresh_def\<close>)
      have "pListStack p' ! length (pListStack p) = nn p"
        using 2(3) 1(2) by (auto simp: fresh_def nth_append)
      with core_start [OF ext_old [OF 2(1)], of "nn p"] 1 show "firstName (curStart p) p p'"
        by (simp add: firstName_def)
    qed
    have loop: "wp (localLoop f p2) (\<lambda>_ p'. ext (curStart p) p p' \<and> fresh (nn p) p p' \<and> firstName (curStart p) p p')"
      if 1: "ext (curStart p) p p1" "pListStack p1 = pListStack p @ [nn p]" "nn p1 = Suc (nn p)"
        "nStart (node p1 (nn p)) = curStart p" "rem p1 < rem p"
        and 2: "ext (curStart p1) p1 p2" "Nodes (pTree p2) = Nodes (pTree p1)" "pListStack p2 = pListStack p1"
      for p1 p2
    proof -
      have "rem p2 < f" using 1(5) ext_rem [OF 2(1)] Suc.prems(2) by simp
      then show ?thesis
        using 1 2 ext_curStart [OF 1(1)] ext_curStart [OF 2(1)]
        by (auto intro!: wp_mono [OF Suc.IH [OF ext_wf [OF 2(1)]]] step [of p2] ext_trans [OF 1(1) 2(1)])
    qed
    have "curKind s \<noteq> TComma \<Longrightarrow> fresh (nn p) p s \<and> firstName (curStart p) p s"
      if "ext (curStart p) p s" "pListStack s = pListStack p @ [nn p]" "nn s = Suc (nn p)"
        "nStart (node s (nn p)) = curStart p" for s
      using step [OF that ext_refl [OF ext_wf [OF that(1)] order_refl]] ext_curStart [OF that(1)]
      by (simp add: fresh_same)
    moreover have "wp (nextToken s) (\<lambda>_ s. wp (localLoop f s)
        (\<lambda>_ p'. ext (curStart p) p p' \<and> fresh (nn p) p p' \<and> firstName (curStart p) p p'))"
      if "ext (curStart p) p s" "pListStack s = pListStack p @ [nn p]" "nn s = Suc (nn p)"
        "nStart (node s (nn p)) = curStart p" "rem s < rem p" for s
      by (rule wp_nextToken [OF ext_refl [OF ext_wf [OF that(1)] order_refl]]) (rule loop [OF that])
    ultimately show ?thesis
      using True wp_mono [OF localName_ext [OF Suc.prems(1) True]] by simp
  qed
qed simp

lemmas wp_localLoop = wp_loop [OF _ localLoop_ext [OF _ wf_parser_fuel]]

text \<open>The first and the last entry of a list that has just been moved to \<open>ExtraList\<close>.\<close>

lemma wp_getEntry:
  assumes "fresh b p0 p" "0 < b" "children q e c" "c + length (pListStack p0) = length (pListStack p)"
    "\<forall>k<c. extra q ! (e + k) = pListStack p ! (length (pListStack p0) + k)" "k < c"
    and "\<And>i. i = pListStack p ! (length (pListStack p0) + k) \<Longrightarrow> b \<le> i \<Longrightarrow> 0 < i \<Longrightarrow> i < nn q \<Longrightarrow> Q i q"
  shows "wp (getExtra (e + k) q) Q"
proof (rule wp_getExtra)
  have len: "length (pListStack p) - length (pListStack p0) = c" using assms(4) by simp
  have "b \<le> pListStack p ! (length (pListStack p0) + k)"
    using fresh_nth [OF assms(1)] assms(6) unfolding len by blast
  with assms show "Q (extra q ! (e + k)) q" "e + k < length (extra q)"
    by (auto simp: children_def)
qed

lemma wp_getFirst:
  assumes "fresh b p0 p" "0 < b" "children q e c" "c + length (pListStack p0) = length (pListStack p)"
    "\<forall>k<c. extra q ! (e + k) = pListStack p ! (length (pListStack p0) + k)" "0 < c"
    and "\<And>i. i = pListStack p ! length (pListStack p0) \<Longrightarrow> b \<le> i \<Longrightarrow> 0 < i \<Longrightarrow> i < nn q \<Longrightarrow> Q i q"
  shows "wp (getExtra e q) Q"
  using wp_getEntry [OF assms(1-6), of Q] assms(7) by simp

lemma wp_getLast:
  assumes "fresh b p0 p" "0 < b" "children q e c" "c + length (pListStack p0) = length (pListStack p)"
    "\<forall>k<c. extra q ! (e + k) = pListStack p ! (length (pListStack p0) + k)" "0 < c"
    and "\<And>i. b \<le> i \<Longrightarrow> 0 < i \<Longrightarrow> i < nn q \<Longrightarrow> Q i q"
  shows "wp (getExtra (e + (c - 1)) q) Q"
  using assms by (intro wp_getEntry [OF assms(1-5)]) auto

lemma localNames_made:
  assumes "wf_parser p"
  shows "wp (localNames p) (made (curStart p) p)"
  using ext_refl [OF assms order_refl] wf_parser_nodes [OF assms] unfolding localNames_def
  by - (assumption | erule conjE | rule ctl | erule ops | erule wp_localLoop
      | rule wp_getFirst wp_getLast, assumption+ | rule ctl2 | simp only: prod.case
      | ((frule ext_bounds)?, auto simp: leaf_simps firstName_def dest!: core_eqD; fail))+

lemmas wp_localNames [ops] = wp_made [OF _ localNames_made]

lemma forNamesLoop_ext:
  assumes "wf_parser p" "rem p < f"
  shows "wp (forNamesLoop f p) (\<lambda>_ p'. ext (curStart p) p p' \<and> True)"
  using assms
proof (induction f arbitrary: p)
  case (Suc f)
  show ?case
    using ext_refl [OF Suc.prems(1) order_refl] Suc.prems(2) unfolding forNamesLoop.simps
    by - (assumption | rule ctl | erule ops | erule wp_loop, rule Suc.IH | rule ctl2
        | ((frule ext_bounds)?, auto simp: leaf_simps intro: ext_error; fail))+
qed simp

text \<open>What a step of the parser does not change or move back.\<close>

lemma wp_loop_from:
  assumes "ext lo p0 p" and "ext lo p0 p \<Longrightarrow> wf_parser p \<Longrightarrow> wp m (\<lambda>x p'. ext lo p p' \<and> R x p')"
    and "\<And>x p'. ext lo p0 p' \<Longrightarrow> nn p \<le> nn p' \<Longrightarrow> rem p' \<le> rem p \<Longrightarrow> R x p' \<Longrightarrow> Q x p'"
  shows "wp m Q"
  using assms(2) [OF assms(1) ext_wf [OF assms(1)]]
  by (rule wp_mono) (auto intro!: assms(3) ext_trans [OF assms(1)] dest: ext_nn ext_rem)

definition stable :: "Parser \<Rightarrow> Parser \<Rightarrow> bool" where
  "stable p p' \<longleftrightarrow>
     (\<forall>i<nn p. nStart (node p' i) = nStart (node p i)) \<and>
     (prevEnd p \<le> curStart p \<longrightarrow> prevEnd p \<le> prevEnd p' \<and> prevEnd p' \<le> curStart p')"

lemma ext_stable: "ext lo p p' \<Longrightarrow> stable p p'"
  by (auto simp: stable_def ext_def past_def dest: core_start)

lemma take_snoc_take:
  "length xs \<le> length zs \<Longrightarrow> take (length xs) zs = xs \<Longrightarrow> xs = ys @ [i] \<Longrightarrow>
     take (length ys) zs = ys \<and> length ys \<le> length zs"
  by (metis (no_types, lifting) append_eq_conv_conj length_append_singleton Suc_leD
      append_take_drop_id append_assoc)

lemma wp_forNamesLoop:
  assumes "ext lo p0 p"
    and "\<And>x p'. ext lo p0 p' \<Longrightarrow> nn p \<le> nn p' \<Longrightarrow> rem p' \<le> rem p \<Longrightarrow>
           (\<forall>ys i. pListStack p = ys @ [i] \<longrightarrow>
              take (length ys) (pListStack p') = ys \<and> length ys \<le> length (pListStack p')) \<Longrightarrow>
           stable p p' \<Longrightarrow> Q x p'"
  shows "wp (forNamesLoop (loopFuel p) p) Q"
proof (rule wp_loop [OF assms(1)])
  assume "wf_parser p"
  from forNamesLoop_ext [OF this wf_parser_fuel [OF this]]
  show "wp (forNamesLoop (loopFuel p) p) (\<lambda>_ p'. ext (curStart p) p p' \<and> stable p p')"
    by (rule wp_mono) (auto intro: ext_stable)
next
  fix x p'
  assume a: "ext lo p0 p'" "nn p \<le> nn p'" "rem p' \<le> rem p" "length (pListStack p) \<le> length (pListStack p')"
    "take (length (pListStack p)) (pListStack p') = pListStack p" "stable p p'"
  then show "Q x p'"
    using take_snoc_take [OF a(4,5)] by (intro assms(2)) simp_all
qed

text \<open>The names of a generic loop: the first one has been read already.\<close>

lemma forNames_ext:
  assumes ext: "ext lo p0 p" and i: "rem p < rem p0" "0 < i" "nn p0 \<le> i" "i < nn p"
    "nStart (node p i) \<le> prevEnd p"
  shows "wp (forNames i p) (\<lambda>j p'. ext lo p0 p' \<and> pListStack p' = pListStack p \<and> j < nn p' \<and>
           nn p \<le> nn p' \<and> rem p' \<le> rem p)"
proof -
  have "prevEnd p \<le> curStart p" "lo \<le> nStart (node p i)"
    using ext_prevEnd [OF ext] ext_new [OF ext] i by auto
  then show ?thesis
    using ext i ext_stack_take(1) [OF ext] unfolding forNames_def
    by - (assumption | rule ctl | erule ops | erule wp_forNamesLoop | rule ctl2
        | ((frule ext_bounds)?, auto simp: leaf_simps stable_def dest!: core_eqD; fail))+
qed

lemma dotLoop_ext:
  assumes "wf_parser p" "rem p < f" "0 < i" "i < nn p" "lo = nStart (node p i)"
  shows "wp (dotLoop f i p) (\<lambda>j p'. ext lo p p' \<and> pListStack p' = pListStack p \<and>
    j < nn p' \<and> 0 < j \<and> (j = i \<or> nn p \<le> j))"
  using assms
proof (induction f arbitrary: p i)
  case (Suc f)
  have "ext lo p p" using Suc.prems by (intro ext_refl) (auto simp: wf_parser_def)
  then show ?case
    using Suc.prems(2-5) unfolding dotLoop.simps
    by - (assumption | rule ctl | erule ops | erule wp_loop_from, rule Suc.IH | rule ctl2
        | ((frule ext_bounds)?, auto simp: leaf_simps dest!: core_eqD intro: ext_error; fail))+
qed simp

lemma methodSuffix_ext:
  assumes "wf_parser p" "0 < i" "i < nn p"
  shows "wp (methodSuffix i p) (\<lambda>j p'. ext (nStart (node p i)) p p' \<and> pListStack p' = pListStack p \<and>
    j < nn p')"
proof -
  have "ext (nStart (node p i)) p p" using assms by (intro ext_refl) (auto simp: wf_parser_def)
  then show ?thesis
    using assms(2,3) unfolding methodSuffix_def
    by - (assumption | rule ctl | erule ops | rule ctl2
        | ((frule ext_bounds)?, auto simp: leaf_simps intro: ext_error; fail))+
qed

text \<open>The name of a function statement: an identifier, its fields, and a method.\<close>

lemma wp_dotLoop:
  assumes ext: "ext lo p0 p"
    and Q: "\<And>j p'. ext lo p0 p' \<Longrightarrow> pListStack p' = pListStack p \<Longrightarrow> j < nn p' \<Longrightarrow> 0 < j \<Longrightarrow>
              nn p0 \<le> j \<Longrightarrow> nn p \<le> nn p' \<Longrightarrow> rem p' \<le> rem p \<Longrightarrow> Q j p'"
    and i: "ext lo p0 p \<Longrightarrow> 0 < i \<and> nn p0 \<le> i \<and> i < nn p"
  shows "wp (dotLoop (loopFuel p) i p) Q"
proof -
  note i = i [OF ext] and wf = ext_wf [OF ext]
  show ?thesis
  proof (rule wp_mono [OF dotLoop_ext [OF wf wf_parser_fuel [OF wf] _ _ refl, of i]])
    fix j p'
    assume "ext (nStart (node p i)) p p' \<and> pListStack p' = pListStack p \<and> j < nn p' \<and> 0 < j \<and> (j = i \<or> nn p \<le> j)"
    then show "Q j p'"
      using i ext_new [OF ext, of i] ext_nn [OF ext] ext_nn [of _ p p'] ext_rem [of _ p p']
      by (intro Q ext_trans [OF ext]) auto
  qed (use i in auto)
qed

lemma wp_methodSuffix:
  assumes ext: "ext lo p0 p"
    and Q: "\<And>j p'. ext lo p0 p' \<Longrightarrow> pListStack p' = pListStack p \<Longrightarrow> j < nn p' \<Longrightarrow>
              nn p \<le> nn p' \<Longrightarrow> rem p' \<le> rem p \<Longrightarrow> Q j p'"
    and i: "ext lo p0 p \<Longrightarrow> 0 < i \<and> nn p0 \<le> i \<and> i < nn p"
  shows "wp (methodSuffix i p) Q"
proof -
  note i = i [OF ext]
  show ?thesis
  proof (rule wp_mono [OF methodSuffix_ext [OF ext_wf [OF ext], of i]])
    fix j p'
    assume "ext (nStart (node p i)) p p' \<and> pListStack p' = pListStack p \<and> j < nn p'"
    then show "Q j p'"
      using i ext_new [OF ext, of i] ext_nn [of _ p p'] ext_rem [of _ p p']
      by (intro Q ext_trans [OF ext]) auto
  qed (use i in auto)
qed

lemma wp_forNames:
  assumes ext: "ext lo p0 p"
    and Q: "\<And>j p'. ext lo p0 p' \<Longrightarrow> pListStack p' = pListStack p \<Longrightarrow> j < nn p' \<Longrightarrow>
           nn p \<le> nn p' \<Longrightarrow> rem p' \<le> rem p \<Longrightarrow> Q j p'"
    and i: "ext lo p0 p \<Longrightarrow> rem p < rem p0 \<and> 0 < i \<and> nn p0 \<le> i \<and> i < nn p \<and> nEnd (node p i) \<le> prevEnd p"
  shows "wp (forNames i p) Q"
proof -
  note i = i [OF ext]
  have "nStart (node p i) \<le> nEnd (node p i)"
    using wf_treeD(1) [OF wf_parser_tree [OF ext_wf [OF ext]]] i by (auto simp: wf_node_def)
  then show ?thesis
    by (intro wp_mono [OF forNames_ext [OF ext, of i]]) (use i Q in auto)
qed

section \<open>Statements\<close>

context sub_parsers
begin

lemma elseIfLoop_ext:
  assumes "wf_parser p" "budget p < n" "rem p < f"
  shows "wp (elseIfLoop f pe pb p) (\<lambda>_ p'. ext (curStart p) p p' \<and> True)"
  using assms
proof (induction f arbitrary: p)
  case (Suc f)
  show ?case
    using ext_refl [OF Suc.prems(1) order_refl] Suc.prems(2,3) unfolding elseIfLoop.simps
    by - (assumption | rule ctl | erule ops | erule wp_pe wp_pb | erule wp_loop, rule Suc.IH | rule ctl2
        | ((frule ext_bounds)?, auto simp: leaf_simps; fail))+
qed simp

lemmas wp_elseIfLoop = wp_loop [OF _ elseIfLoop_ext [OF _ _ wf_parser_fuel]]

lemma elseBranch_parsed:
  assumes "wf_parser p" "budget p < n"
  shows "wp (elseBranch pb p) (parsed (curStart p) p)"
  using ext_refl [OF assms(1) order_refl] assms(2) unfolding elseBranch_def
  by - (assumption | rule ctl | erule ops | erule wp_pe wp_pb | rule ctl2
      | ((frule ext_bounds)?, auto simp: leaf_simps; fail))+

lemmas wp_elseBranch = wp_parsed [OF _ elseBranch_parsed]

lemma parseIf_parsed:
  assumes "wf_parser p" "budget p < n" "curKind p = TIf"
  shows "wp (parseIf pe pb p) (parsed (curStart p) p)"
  using ext_refl [OF assms(1) order_refl] assms(2,3) unfolding parseIf_def
  by - (assumption | rule ctl | erule ops | erule wp_pe wp_pb wp_elseIfLoop wp_elseBranch | rule ctl2
      | ((frule ext_bounds)?, auto simp: leaf_simps; fail))+


lemma parseReturn_parsed:
  assumes "wf_parser p" "budget p < n" "curKind p = TReturn"
  shows "wp (parseReturn pe p) (parsed (curStart p) p)"
  using ext_refl [OF assms(1) order_refl] assms(2,3) unfolding parseReturn_def
  by - (assumption | rule ctl | erule ops | erule wp_parseExprList | rule ctl2
      | ((frule ext_bounds)?, auto simp: leaf_simps; fail))+

lemma ext_restore_loop:
  "ext lo (p\<lparr>pLoopDepth := d\<rparr>) p' \<Longrightarrow> ext lo p (p'\<lparr>pLoopDepth := pLoopDepth p\<rparr>)"
  by (simp add: ext_def ctr_def past_def)

lemma loopBlock_made:
  assumes "wf_parser p" "budget p < n"
  shows "wp (loopBlock pb stop p) (made (curStart p) p)"
proof -
  let ?p = "p\<lparr>pLoopDepth := pLoopDepth p + 1\<rparr>"
  have "made (curStart p) p i (p'\<lparr>pLoopDepth := pLoopDepth p' - 1\<rparr>)"
    if "made (curStart ?p) ?p i p'" for i p'
  proof -
    have "pLoopDepth p' = pLoopDepth p + 1" using that by (auto simp: made_def ext_def ctr_def)
    with that ext_restore_loop [where d = "pLoopDepth p + 1" and p = p and p' = p' and lo = "curStart p"]
    show ?thesis by (simp add: made_def)
  qed
  moreover have "wp (pb stop ?p) (made (curStart ?p) ?p)"
    by (rule pb_made) (use assms in \<open>simp_all add: budget_def\<close>)
  ultimately show ?thesis by (auto simp: loopBlock_def elim!: wp_mono)
qed

lemmas wp_loopBlock = wp_made [OF _ loopBlock_made]

lemma parseWhile_parsed:
  assumes "wf_parser p" "budget p < n" "curKind p = TWhile"
  shows "wp (parseWhile pe pb p) (parsed (curStart p) p)"
  using ext_refl [OF assms(1) order_refl] assms(2,3) unfolding parseWhile_def
  by - (assumption | rule ctl | erule ops | erule wp_pe wp_loopBlock | rule ctl2
      | ((frule ext_bounds)?, auto simp: leaf_simps; fail))+

lemma parseRepeat_parsed:
  assumes "wf_parser p" "budget p < n" "curKind p = TRepeat"
  shows "wp (parseRepeat pe pb p) (parsed (curStart p) p)"
  using ext_refl [OF assms(1) order_refl] assms(2,3) unfolding parseRepeat_def
  by - (assumption | rule ctl | erule ops | erule wp_pe wp_loopBlock | rule ctl2
      | ((frule ext_bounds)?, auto simp: leaf_simps; fail))+

lemma parseDo_parsed:
  assumes "wf_parser p" "budget p < n" "curKind p = TDo"
  shows "wp (parseDo pb p) (parsed (curStart p) p)"
  using ext_refl [OF assms(1) order_refl] assms(2,3) unfolding parseDo_def
  by - (assumption | rule ctl | erule ops | erule wp_pb | rule ctl2
      | ((frule ext_bounds)?, auto simp: leaf_simps; fail))+

lemma parseFunctionStmt_parsed:
  assumes "wf_parser p" "budget p < n" "curKind p = TFunction"
  shows "wp (parseFunctionStmt pb p) (parsed (curStart p) p)"
  using ext_refl [OF assms(1) order_refl] wf_parser_nodes [OF assms(1)] assms(2,3)
  unfolding parseFunctionStmt_def
  by - (assumption | rule ctl | erule ops | erule wp_parseFunctionBody wp_dotLoop wp_methodSuffix | rule ctl2
      | ((frule ext_bounds)?, auto simp: leaf_simps simp del: length_greater_0_conv; fail))+

lemma wp_localFunction:
  assumes ext: "ext lo p0 p" and lo: "lo = curStart p0"
    and Q: "\<And>i p'. ext lo p0 p' \<Longrightarrow> pListStack p' = pListStack p \<Longrightarrow> i < nn p' \<Longrightarrow> nn p0 \<le> i \<Longrightarrow>
              rem p' \<le> rem p \<Longrightarrow> Q i p'"
    and b: "budget p0 < n \<and> 0 < nn p0 \<and> nn p0 \<le> nn p"
  shows "wp (localFunction pb lo p) Q"
  using ext b unfolding localFunction_def
  by - (assumption | rule ctl | erule ops | erule wp_parseFunctionBody | rule ctl2
      | rule Q | ((frule ext_bounds)?, auto simp: leaf_simps simp del: length_greater_0_conv; fail))+

lemma parseLocal_parsed:
  assumes "wf_parser p" "budget p < n" "curKind p = TLocal"
  shows "wp (parseLocal pe pb p) (parsed (curStart p) p)"
  using ext_refl [OF assms(1) order_refl] wf_parser_nodes [OF assms(1)] assms(2,3)
  unfolding parseLocal_def
  by - (assumption | rule ctl | erule ops | erule wp_parseExprList wp_localFunction | rule ctl2 | rule refl
      | ((frule ext_bounds)?, auto simp: leaf_simps simp del: length_greater_0_conv; fail))+

lemma forRange_ext:
  assumes "wf_parser p" "budget p < n"
  shows "wp (forRange pe p) (\<lambda>_ p'. ext (curStart p) p p' \<and> True)"
  using ext_refl [OF assms(1) order_refl] assms(2) unfolding forRange_def
  by - (assumption | rule ctl | erule ops | erule wp_pe | rule ctl2
      | ((frule ext_bounds)?, auto simp: leaf_simps; fail))+

lemmas wp_forRange = wp_loop [OF _ forRange_ext]

lemma wp_forNum:
  assumes ext: "ext lo p0 p" and lo: "lo = curStart p0"
    and Q: "\<And>i p'. ext lo p0 p' \<Longrightarrow> pListStack p' = pListStack p \<Longrightarrow> i < nn p' \<Longrightarrow> nn p \<le> i \<Longrightarrow>
              rem p' \<le> rem p \<Longrightarrow> Q i p'"
    and b: "budget p0 < n \<and> i < nn p \<and> length (pListStack p0) \<le> length (pListStack p)"
  shows "wp (forNum pe pb lo i p) Q"
  using ext b unfolding forNum_def lo
  by - (assumption | rule ctl | erule ops | erule wp_forRange wp_loopBlock | rule ctl2
      | rule Q [unfolded lo] | ((frule ext_bounds)?, auto simp: leaf_simps; fail))+

lemma wp_forIn:
  assumes ext: "ext lo p0 p" and lo: "lo = curStart p0"
    and Q: "\<And>i p'. ext lo p0 p' \<Longrightarrow> pListStack p' = pListStack p \<Longrightarrow> i < nn p' \<Longrightarrow> nn p \<le> i \<Longrightarrow>
              rem p' \<le> rem p \<Longrightarrow> Q i p'"
    and b: "budget p0 < n \<and> rem p < rem p0 \<and> 0 < i \<and> nn p0 \<le> i \<and> i < nn p \<and> nEnd (node p i) \<le> prevEnd p"
  shows "wp (forIn pe pb lo i p) Q"
  using ext b unfolding forIn_def lo
  by - (assumption | rule ctl | erule ops | erule wp_forNames wp_parseExprList wp_loopBlock | rule ctl2
      | rule Q [unfolded lo] | ((frule ext_bounds)?, auto simp: leaf_simps; fail))+

lemma parseFor_parsed:
  assumes "wf_parser p" "budget p < n" "curKind p = TFor"
  shows "wp (parseFor pe pb p) (parsed (curStart p) p)"
  using ext_refl [OF assms(1) order_refl] wf_parser_nodes [OF assms(1)] assms(2,3)
  unfolding parseFor_def
  by - (assumption | rule ctl | erule ops | erule wp_forNum wp_forIn | rule ctl2 | rule refl
      | ((frule ext_bounds)?, auto simp: leaf_simps dest!: core_eqD intro: ext_error
          simp del: length_greater_0_conv; fail))+

lemma validateLHS_ext:
  assumes "ext lo p0 p" "listFrom b i p" "0 < b" "i \<noteq> InvalidNode" "i < nn p"
  shows "wp (validateLHS i p) (\<lambda>_ p'. ext lo p0 p' \<and> keeps p p' \<and> pTree p' = pTree p \<and>
           pListStack p' = pListStack p)"
proof -
  let ?f = "\<lambda>k q. Option.bind (getExtra (nExtra (node p i) + k) q) (\<lambda>(exprID, q).
      Option.bind (getNode exprID q) (\<lambda>(m, q).
        Some (if nKind m \<noteq> KindIdent \<and> nKind m \<noteq> KindIndexExpr \<and> nKind m \<noteq> KindMemberExpr
              then errorAt (nStart m) (nEnd m) ''syntax error: cannot assign to expression'' q else q)))"
  let ?I = "\<lambda>q. ext lo p0 q \<and> keeps p q \<and> pTree q = pTree p \<and> pListStack q = pListStack p"
  have "\<exists>q'. forM [0..<nCount (node p i)] ?f p = Some q' \<and> ?I q'"
  proof (rule forM_invariant)
    show "?I p" using assms(1) by (simp add: keeps_def)
    fix k q
    assume k: "k \<in> set [0..<nCount (node p i)]" and q: "?I q"
    define e where "e = extra p ! (nExtra (node p i) + k)"
    have e: "nExtra (node p i) + k < length (extra p)" "0 < e" "e < nn p"
      using assms(2-4) k by (auto simp: listFrom_def e_def)
    have "wf_node (length (src q)) (extra q) e (node q e)"
      using wf_treeD(1) [OF wf_parser_tree [OF ext_wf [of lo p0 q]]] q e by auto
    then have "nStart (node p e) \<le> nEnd (node p e)" "nEnd (node p e) \<le> length (src q)"
      using q by (auto simp: wf_node_def)
    then show "\<exists>q'. ?f k q = Some q' \<and> ?I q'"
      using e q by (auto simp: getExtra_def getNode_def e_def [symmetric] keeps_def intro!: ext_errorAt)
  qed
  then obtain q' where "forM [0..<nCount (node p i)] ?f p = Some q'" "?I q'" by blast
  then show ?thesis
    using assms(4,5) by (simp add: validateLHS_def getNode_def)
qed

lemma wp_validateLHS:
  assumes "ext lo p0 p"
    and "\<And>p'. ext lo p0 p' \<Longrightarrow> Nodes (pTree p') = Nodes (pTree p) \<Longrightarrow> pListStack p' = pListStack p \<Longrightarrow>
           rem p' = rem p \<Longrightarrow> Q () p'"
    and "ext lo p0 p \<Longrightarrow> listFrom (nn p0) i p \<and> 0 < nn p0 \<and> i \<noteq> InvalidNode \<and> i < nn p"
  shows "wp (validateLHS i p) Q"
proof -
  have "wp (validateLHS i p) (\<lambda>_ p'. ext lo p0 p' \<and> keeps p p' \<and> pTree p' = pTree p \<and>
           pListStack p' = pListStack p)"
    using assms(3) [OF assms(1)] by (intro validateLHS_ext [OF assms(1)]) auto
  then show ?thesis by (rule wp_mono) (auto simp: keeps_def intro!: assms(2))
qed

lemmas wp_parseExprList_list = wp_parsedR [OF _ parseExprList_list]

lemma parseAssignmentOrCall_parsed:
  assumes "wf_parser p" "budget p < n"
  shows "wp (parseAssignmentOrCall pe p) (parsed (curStart p) p)"
proof -
  have call: "wp (Option.bind (getNode i p') (\<lambda>(lhsNode, p).
       Option.bind (if nCount lhsNode = 1
          then Option.bind (getExtra (nExtra lhsNode) p) (\<lambda>(firstExpr, p).
            Option.bind (getNode firstExpr p) (\<lambda>(exprNode, p).
            Some (if nKind exprNode = KindCallExpr \<or> nKind exprNode = KindMethodCall
                  then Some firstExpr else None, p)))
          else Some (None, p)) (\<lambda>(call, p).
       case call of
         Some firstExpr \<Rightarrow> Some (firstExpr, p)
       | None \<Rightarrow> Some (InvalidNode, errorAt (nStart lhsNode) (nEnd lhsNode) msg p))))
     (parsed (curStart p) p)"
    if "ext (curStart p) p p'" "rem p' < rem p" "pListStack p' = pListStack p" "i \<noteq> InvalidNode"
      "nn p \<le> i" "i < nn p'" "listFrom (nn p) i p'" for i p' msg
  proof -
    let ?n = "node p' i" and ?e = "extra p' ! nExtra (node p' i)"
    have "wf_node (length (src p')) (extra p') i ?n"
      using wf_treeD(1) [OF wf_parser_tree [OF ext_wf [OF that(1)]]] that by auto
    then have err: "ext (curStart p) p (errorAt (nStart ?n) (nEnd ?n) msg p')"
      by (intro ext_errorAt [OF that(1)]) (auto simp: wf_node_def)
    have first: "nExtra ?n < length (extra p')" "nn p \<le> ?e" "?e < nn p'" if "nCount ?n = 1"
      using \<open>listFrom (nn p) i p'\<close> \<open>i \<noteq> InvalidNode\<close> that by (auto simp: listFrom_def)
    show ?thesis
      using that first err by (cases "nCount ?n = 1") (auto simp: getNode_def getExtra_def parsed_def)
  qed
  show ?thesis
    using ext_refl [OF assms(1) order_refl] wf_parser_nodes [OF assms(1)] assms(2)
    unfolding parseAssignmentOrCall_def
    by - (assumption | rule call | rule ctl | erule ops | erule wp_parseExprList_list
        | erule wp_validateLHS | erule wp_parseExprList | rule ctl2
        | ((frule ext_bounds)?, auto simp: leaf_simps listFrom_def; fail))+
qed

lemma parseStatement_parsed:
  assumes "wf_parser p" "budget p < n"
  shows "wp (parseStatement pe pb p) (parsed (curStart p) p)"
  unfolding parseStatement_def
  using parseLocal_parsed [OF assms] parseIf_parsed [OF assms] parseReturn_parsed [OF assms]
    parseWhile_parsed [OF assms] parseRepeat_parsed [OF assms] parseFor_parsed [OF assms]
    parseDo_parsed [OF assms] parseBreak_parsed [OF assms(1)] parseGoto_parsed [OF assms(1)]
    parseLabel_parsed [OF assms(1)] parseFunctionStmt_parsed [OF assms]
    parseAssignmentOrCall_parsed [OF assms]
  by (cases "curKind p") simp_all

lemmas wp_parseStatement = wp_parsed [OF _ parseStatement_parsed]

section \<open>Blocks\<close>

lemma blockStep_ext:
  assumes "wf_parser p" "budget p < n" "curKind p \<noteq> TEOF"
  shows "wp (blockStep pe pb stop p)
    (\<lambda>_ p'. ext (curStart p) p p' \<and> fresh (nn p) p p' \<and> rem p' < rem p)"
  using ext_refl [OF assms(1) order_refl] assms(2,3) unfolding blockStep_def
  by - (assumption | rule ctl | erule ops | erule wp_parseStatement | rule ctl2
      | ((frule ext_bounds)?, auto simp: leaf_simps past_def intro: ext_error fresh_same fresh_one; fail))+

lemmas wp_blockStep = wp_loop [OF _ blockStep_ext]

lemma blockLoop_ext:
  assumes "wf_parser p" "budget p < n" "rem p < f"
  shows "wp (blockLoop f pe pb stop p) (\<lambda>_ p'. ext (curStart p) p p' \<and> fresh (nn p) p p')"
  using assms
proof (induction f arbitrary: p)
  case (Suc f)
  show ?case
    using ext_refl [OF Suc.prems(1) order_refl] Suc.prems(2,3) unfolding blockLoop.simps
    by - (assumption | rule ctl | erule ops | erule wp_blockStep | erule wp_loop, rule Suc.IH | rule ctl2
        | ((frule ext_bounds)?, auto simp: leaf_simps intro: fresh_same elim: fresh_trans; fail))+
qed simp

lemmas wp_blockLoop = wp_loop [OF _ blockLoop_ext [OF _ _ wf_parser_fuel]]

lemma ext_restore_block:
  "ext lo (p\<lparr>pBlockDepth := d\<rparr>) p' \<Longrightarrow> ext lo p (p'\<lparr>pBlockDepth := pBlockDepth p\<rparr>)"
  by (simp add: ext_def ctr_def past_def)

lemma made_restore_block:
  assumes "made lo (p\<lparr>pBlockDepth := pBlockDepth p + 1\<rparr>) i p'"
  shows "made lo p i (p'\<lparr>pBlockDepth := pBlockDepth p' - 1\<rparr>)"
proof -
  have "pBlockDepth p' = pBlockDepth p + 1" using assms by (auto simp: made_def ext_def ctr_def)
  with assms ext_restore_block [where d = "pBlockDepth p + 1" and p = p and p' = p' and lo = lo]
  show ?thesis by (simp add: made_def)
qed

text \<open>The block between the two changes of the counter.\<close>

lemma block_made:
  assumes "wf_parser p" "budget p < n" "start = curStart p"
  shows "wp (Option.bind (blockLoop (loopFuel p) pe pb stop p) (\<lambda>(_, q).
      Option.bind (flushListStack (length (pListStack p)) q) (\<lambda>((extraStart, count), q).
      Option.bind (if 0 < count
          then Option.bind (getExtra (extraStart + (count - 1)) q) (\<lambda>(lastID, q).
               Option.bind (getNode lastID q) (\<lambda>(lastNode, q). Some (nEnd lastNode, q)))
          else Some (start, q)) (\<lambda>(end, q).
      addNode ((mkNode KindBlock start end)\<lparr>nExtra := extraStart, nCount := count\<rparr>) q))))
    (made (curStart p) p)"
  using ext_refl [OF assms(1) order_refl] wf_parser_nodes [OF assms(1)] assms(2) unfolding assms(3)
  by - (assumption | erule conjE | rule ctl | erule ops | erule wp_blockLoop
      | rule wp_getLast, assumption+ | rule ctl2
      | ((frule ext_bounds)?, auto simp: leaf_simps; fail))+

lemma parseBlockBody_made:
  assumes "wf_parser p" "budget p < Suc n"
  shows "wp (parseBlockBody pe pb stop p) (made (curStart p) p)"
proof (cases "maxBlockDepth \<le> pBlockDepth p")
  case True
  show ?thesis
    using ext_refl [OF assms(1) order_refl] True unfolding parseBlockBody_def
    by - (assumption | rule ctl | erule ops | rule ctl2
        | ((frule ext_bounds)?, auto simp: leaf_simps; fail))+
next
  case False
  let ?p = "p\<lparr>pBlockDepth := pBlockDepth p + 1\<rparr>"
  have "wp (Option.bind (Option.bind (blockLoop (loopFuel ?p) pe pb stop ?p) (\<lambda>(_, q).
      Option.bind (flushListStack (length (pListStack ?p)) q) (\<lambda>((extraStart, count), q).
      Option.bind (if 0 < count
          then Option.bind (getExtra (extraStart + (count - 1)) q) (\<lambda>(lastID, q).
               Option.bind (getNode lastID q) (\<lambda>(lastNode, q). Some (nEnd lastNode, q)))
          else Some (curStart p, q)) (\<lambda>(end, q).
      addNode ((mkNode KindBlock (curStart p) end)\<lparr>nExtra := extraStart, nCount := count\<rparr>) q))))
      (\<lambda>(i, p'). Some (i, p'\<lparr>pBlockDepth := pBlockDepth p' - 1\<rparr>))) (made (curStart p) p)"
    apply (rule wp_bind_case, rule wp_mono [OF block_made])
    using assms False made_restore_block [of "curStart p" p]
    by (auto simp: budget_def)
  then show ?thesis
    using False by (simp add: parseBlockBody_def Let_def split_def)
qed

end

end
