(* ===== verification/Parser_Correct.thy ===== *)
theory Parser_Correct
  imports Parser_Stmt
begin

text \<open>
  The recursive parser and its entry points: \<open>parseExpression\<close> and \<open>parseBlock\<close> are an
  instance of the contract \<open>sub_parsers\<close> for every nesting budget, so a constant number of
  nested calls is enough for every source; \<open>New\<close>, \<open>Reset\<close> and \<open>Parse\<close> always deliver
  a well-formed tree.
\<close>

section \<open>Tying the knot\<close>

lemma sub_parsers_Suc:
  assumes "sub_parsers (parseExpression d) (parseBlock d) d"
  shows "sub_parsers (parseExpression (Suc d)) (parseBlock (Suc d)) (Suc d)"
  by unfold_locales
     (simp_all add: sub_parsers.parseExpressionBody_parsed [OF assms]
        sub_parsers.parseBlockBody_made [OF assms])

lemma sub_parsers_parse: "sub_parsers (parseExpression d) (parseBlock d) d"
proof (induction d)
  case 0
  show ?case by unfold_locales simp_all
next
  case (Suc d)
  then show ?case by (rule sub_parsers_Suc)
qed

interpretation parse: sub_parsers "parseExpression d" "parseBlock d" d for d
  by (rule sub_parsers_parse)

lemma budget_le: "budget p < parseFuel"
  by (simp add: budget_def parseFuel_def)

lemmas parseBlock_made = parse.pb_made [OF _ budget_le]

section \<open>Where a block ends\<close>

lemma addNode_curr: "addNode m p = Some (i, p') \<Longrightarrow> pCurr p' = pCurr p"
  by (auto simp: addNode_def bind_eq_Some_conv)

lemma flushListStack_curr: "flushListStack s p = Some (ec, p') \<Longrightarrow> pCurr p' = pCurr p"
  by (auto simp: flushListStack_def moveList_def bind_eq_Some_conv split: if_splits)

lemma getNode_state: "getNode i p = Some (m, p') \<Longrightarrow> p' = p"
  by (auto simp: getNode_def)

lemma getExtra_state: "getExtra k p = Some (i, p') \<Longrightarrow> p' = p"
  by (auto simp: getExtra_def)

lemma blockLoop_stops:
  "blockLoop f pe pb stop p = Some (u, p') \<Longrightarrow> curKind p' = TEOF \<or> isAt stop p'"
  by (induction f arbitrary: p) (auto simp: bind_eq_Some_conv split: if_splits)

lemma skipBlock_stops:
  "skipBlock f stop p = Some (u, p') \<Longrightarrow> curKind p' = TEOF \<or> isAt stop p'"
  by (induction f arbitrary: p) (auto simp: bind_eq_Some_conv split: if_splits)

lemma parseBlock_stops:
  assumes "parseBlock d stop p = Some (i, p')"
  shows "curKind p' = TEOF \<or> isAt stop p'"
proof (cases d)
  case (Suc e)
  with assms have "parseBlockBody (parseExpression e) (parseBlock e) stop p = Some (i, p')" by simp
  then show ?thesis
    unfolding parseBlockBody_def Let_def
    by (auto simp: bind_eq_Some_conv isAt_def split: if_splits
        dest!: addNode_curr flushListStack_curr getNode_state getExtra_state blockLoop_stops skipBlock_stops)
qed (use assms in simp)

section \<open>Starting the parser\<close>

lemma nextToken_lex:
  assumes lex: "pLex p = lexAt (src p) i" "i \<le> length (src p)"
  shows "\<exists>t j cs. nextToken p = Some ((), p\<lparr>pPrev := pCurr p, pCurr := pPeek p,
             pLex := lexAt (src p) j, pPeek := t, pTree := (pTree p)\<lparr>Comments := cs\<rparr>\<rparr>) \<and>
           i \<le> tkStart t \<and> tkStart t \<le> tkEnd t \<and> tkEnd t \<le> j \<and> j \<le> length (src p) \<and> eof_at (src p) t"
proof -
  let ?s = "src p"
  obtain t j where t: "Next (pLex p) = Some (t, lexAt ?s j)" "scans ?s i t j"
    using Next_lexAt [OF lex(2)] lex(1) by auto
  have fuel: "length ?s - j + 1 < loopFuel p" by (simp add: loopFuel_def lex(1))
  obtain t' cs' k where "skipComments (loopFuel p) t (Comments (pTree p)) (lexAt ?s j)
        = Some ((t', cs'), lexAt ?s k)" "tkStart t \<le> tkStart t'" "tkStart t' \<le> tkEnd t'"
      "tkEnd t' = k" "k \<le> length ?s" "eof_at ?s t'"
    using skipComments_spec [of j ?s "loopFuel p" t "Comments (pTree p)"] scans_eof [OF t(2)] t(2) fuel
    by (auto simp: scans_def)
  with t show ?thesis
    by (auto simp: nextToken_def loopFuel_def scans_def
        intro!: exI [of _ t'] exI [of _ k] exI [of _ cs'])
qed

text \<open>A tree that holds nothing yet but the invalid node.\<close>

definition fresh_tree :: "bytes \<Rightarrow> Tree \<Rightarrow> bool" where
  "fresh_tree source t \<longleftrightarrow>
     Source t = source \<and> Nodes t = [invalidNode] \<and> ExtraList t = [] \<and> Comments t = []"

text \<open>A parser that is ready to parse \<open>source\<close>.\<close>

definition ready :: "bytes \<Rightarrow> int \<Rightarrow> Parser \<Rightarrow> bool" where
  "ready source maxErrors p \<longleftrightarrow>
     wf_parser p \<and> src p = source \<and> pMaxErrors p = maxErrors \<and> ctr p = (0, 0, 0) \<and>
     pListStack p = [] \<and> pErrors p = []"

lemma two_tokens_ready:
  assumes "pLex p = lexAt source i" "i \<le> length source" "fresh_tree source (pTree p)"
    "pErrors p = []" "pListStack p = []" "ctr p = (0, 0, 0)"
  shows "\<exists>p1 p2. nextToken p = Some ((), p1) \<and> nextToken p1 = Some ((), p2) \<and>
           ready source (pMaxErrors p) p2"
proof -
  have src: "src p = source" using assms(3) by (simp add: fresh_tree_def)
  obtain t j cs where 1: "nextToken p = Some ((), p\<lparr>pPrev := pCurr p, pCurr := pPeek p,
        pLex := lexAt source j, pPeek := t, pTree := (pTree p)\<lparr>Comments := cs\<rparr>\<rparr>)"
      (is "_ = Some ((), ?p1)")
    and t: "i \<le> tkStart t" "tkStart t \<le> tkEnd t" "tkEnd t \<le> j" "j \<le> length source" "eof_at source t"
    using nextToken_lex [of p i] assms(1,2) src by auto
  obtain u k ds where 2: "nextToken ?p1 = Some ((), ?p1\<lparr>pPrev := pCurr ?p1, pCurr := pPeek ?p1,
        pLex := lexAt source k, pPeek := u, pTree := (pTree ?p1)\<lparr>Comments := ds\<rparr>\<rparr>)"
      (is "_ = Some ((), ?p2)")
    and u: "j \<le> tkStart u" "tkStart u \<le> tkEnd u" "tkEnd u \<le> k" "k \<le> length source" "eof_at source u"
    using nextToken_lex [of ?p1 j] t(4) src by auto
  have "wf_tokens ?p2" using t u src by (simp add: wf_tokens_def)
  moreover have "wf_tree (pTree ?p2)" using assms(3) by (simp add: fresh_tree_def wf_tree_def)
  ultimately have "ready source (pMaxErrors p) ?p2"
    using assms(3-6) src
    by (simp add: ready_def wf_parser_def wf_errors_def fresh_tree_def ctr_def)
  with 1 2 show ?thesis by blast
qed

lemma Parser_New_ready:
  assumes "fresh_tree source tree"
  shows "\<exists>p. Parser_New source tree maxErrors = Some p \<and> ready source maxErrors p"
proof -
  let ?p = "\<lparr>pLex = Lexer_New source, pTree = tree, pErrors = [], pMaxErrors = maxErrors,
              pPrev = zeroToken, pCurr = zeroToken, pPeek = zeroToken,
              pLoopDepth = 0, pDepth = 0, pBlockDepth = 0, pListStack = []\<rparr>"
  obtain i where "i \<le> length source" "Lexer_New source = lexAt source i"
    using Lexer_Reset_lexAt by (metis Lexer_New_def)
  then show ?thesis
    using two_tokens_ready [of ?p source i] assms by (auto simp: Parser_New_def ctr_def)
qed

lemma Parser_Reset_ready:
  assumes "fresh_tree source tree"
  shows "\<exists>p'. Parser_Reset source tree p = Some p' \<and> ready source (pMaxErrors p) p'"
proof -
  let ?p = "p\<lparr>pLex := Lexer_Reset source (pLex p), pTree := tree, pErrors := [], pListStack := [],
              pLoopDepth := 0, pDepth := 0, pBlockDepth := 0\<rparr>"
  obtain i where "i \<le> length source" "Lexer_Reset source (pLex p) = lexAt source i"
    using Lexer_Reset_lexAt by blast
  then show ?thesis
    using two_tokens_ready [of ?p source i] assms by (auto simp: Parser_Reset_def ctr_def)
qed

text \<open>What a finished parse has produced.\<close>

definition parse_result :: "bytes \<Rightarrow> int \<Rightarrow> NodeID \<Rightarrow> Parser \<Rightarrow> bool" where
  "parse_result source maxErrors root p \<longleftrightarrow>
     wf_tree (pTree p) \<and> src p = source \<and> Root (pTree p) = root \<and>
     0 < root \<and> Suc root = nn p \<and> nKind (node p root) = KindFile \<and>
     nStart (node p root) = 0 \<and> nEnd (node p root) = length source \<and>
     curKind p = TEOF \<and> (curEnd p = length source \<or> source ! curEnd p = nul) \<and>
     pListStack p = [] \<and> ctr p = (0, 0, 0) \<and> wf_errors p \<and> pMaxErrors p = maxErrors"


lemma isAt_EOF: "isAt stopBlockEOF p \<longleftrightarrow> curKind p = TEOF"
  by (simp add: isAt_def stopBlockEOF_def Contains_set)

lemma Parse_ready:
  assumes "ready source maxErrors p"
  shows "\<exists>root p'. Parse p = Some (root, p') \<and> parse_result source maxErrors root p'"
proof -
  have p: "wf_parser p" "src p = source" "pListStack p = []" "ctr p = (0, 0, 0)"
    "pMaxErrors p = maxErrors"
    using assms by (auto simp: ready_def)
  obtain block p1 where 1: "parseBlock parseFuel stopBlockEOF p = Some (block, p1)"
    and made: "made (curStart p) p block p1"
    using parseBlock_made [OF p(1), of stopBlockEOF] by (auto simp: wp_iff)
  have ext: "ext 0 p p1"
    using ext_trans [OF ext_refl [OF p(1)]] made by (auto simp: made_def)
  have stop: "curKind p1 = TEOF" using parseBlock_stops [OF 1] by (simp add: isAt_EOF)
  let ?n = "(mkNode KindFile 0 (length (src p1)))\<lparr>nLeft := block\<rparr>"
  have "wp (addNode ?n p1) (\<lambda>i p2. ext 0 p p2 \<and> i = nn p1 \<and> nn p2 = Suc (nn p1) \<and>
      core (node p2 i) = core ?n \<and> pCurr p2 = pCurr p1 \<and> pListStack p2 = pListStack p1)"
    by (rule wp_addNode [OF ext])
       (use made in \<open>auto simp: made_def new_node_iff mkNode_def dest: ext_bounds\<close>)
  then obtain p2 where 2: "addNode ?n p1 = Some (nn p1, p2)" "ext 0 p p2" "nn p2 = Suc (nn p1)"
    "core (node p2 (nn p1)) = core ?n" "pCurr p2 = pCurr p1" "pListStack p2 = pListStack p1"
    by (auto simp: wp_iff)
  let ?p = "p2\<lparr>pTree := (pTree p2)\<lparr>Root := nn p1\<rparr>\<rparr>"
  have "Parse p = Some (nn p1, ?p)" using 1 2(1) by (simp add: Parse_def)
  moreover have "parse_result source maxErrors (nn p1) ?p"
    unfolding parse_result_def
  proof (intro conjI)
    have wf: "wf_parser p2" using 2(2) by (rule ext_wf)
    show "wf_tree (pTree ?p)" using wf_parser_tree [OF wf] by (simp add: wf_tree_def)
    show "wf_errors ?p" using wf by (simp add: wf_parser_def wf_errors_def)
    show "src ?p = source" "pMaxErrors ?p = maxErrors" "ctr ?p = (0, 0, 0)"
      using 2(2) p by (simp_all add: ext_def ctr_def)
    show "0 < nn p1" using ext_bounds [OF ext] by simp
    show "nKind (node ?p (nn p1)) = KindFile" "nStart (node ?p (nn p1)) = 0"
      using core_eqD [OF 2(4)] by (simp_all add: mkNode_def)
    show "nEnd (node ?p (nn p1)) = length source"
      using core_eqD [OF 2(4)] ext_src [OF ext] p(2) by (simp add: mkNode_def)
    show "curEnd ?p = length source \<or> source ! curEnd ?p = nul"
      using ext_wf [OF ext] stop 2(5) ext_src [OF ext] p(2)
      by (auto simp: wf_parser_def wf_tokens_def eof_at_def)
    show "curKind ?p = TEOF" "pListStack ?p = []" "Suc (nn p1) = nn ?p" "Root (pTree ?p) = nn p1"
      using 2 stop made p(3) by (simp_all add: made_def)
  qed
  ultimately show ?thesis by blast
qed

lemma Parser_New_NewTree:
  "\<exists>p. Parser_New source (NewTree source) maxErrors = Some p \<and> ready source maxErrors p"
  by (rule Parser_New_ready) (simp add: fresh_tree_def NewTree_def)

lemma New_Parse_result:
  assumes "Parser_New source (NewTree source) maxErrors = Some p" "Parse p = Some (root, p')"
  shows "parse_result source maxErrors root p'"
  using Parser_New_NewTree [of source maxErrors] Parse_ready [of source maxErrors p] assms by auto

lemma New_Parse_exists:
  "\<exists>p root p'. Parser_New source (NewTree source) maxErrors = Some p \<and> Parse p = Some (root, p')"
  using Parser_New_NewTree Parse_ready by blast

section \<open>Properties of the parser\<close>

text \<open>
  C1. Parsing is total: for every byte string, valid Lua or not, and every error limit,
  \<open>New\<close> followed by \<open>Parse\<close> terminates without a run-time panic. The recursion never
  nests deeper than the 401 calls of \<open>parseFuel\<close>, whatever the source. The parser then stands at
  an end-of-file token at the end of the source, or at a zero byte, where the lexer ends
  the source too, and the list stack and the three depth counters are back at their initial values.
\<close>

theorem Parse_total:
  "\<exists>p root p'. Parser_New source (NewTree source) maxErrors = Some p \<and> Parse p = Some (root, p') \<and>
     curKind p' = TEOF \<and> (curEnd p' = length source \<or> source ! curEnd p' = nul) \<and>
     pListStack p' = [] \<and> pLoopDepth p' = 0 \<and> pDepth p' = 0 \<and> pBlockDepth p' = 0"
proof -
  obtain p root p' where
    "Parser_New source (NewTree source) maxErrors = Some p" "Parse p = Some (root, p')"
    using New_Parse_exists by blast
  with New_Parse_result [OF this] show ?thesis by (auto simp: parse_result_def ctr_def)
qed

text \<open>
  C2. The tree of a parse is well formed: whatever the source, every node covers a range of the
  source, all child references go to smaller node numbers and stay inside the arrays, parent
  references go to larger ones, and the root is a file node that covers the whole source.
\<close>

theorem Parse_wf_tree:
  assumes "Parser_New source (NewTree source) maxErrors = Some p" and "Parse p = Some (root, p')"
  shows "wf_tree (pTree p') \<and> Source (pTree p') = source \<and> Root (pTree p') = root \<and> 0 < root \<and>
           root < length (Nodes (pTree p')) \<and> nKind (Nodes (pTree p') ! root) = KindFile \<and>
           nStart (Nodes (pTree p') ! root) = 0 \<and> nEnd (Nodes (pTree p') ! root) = length source"
  using New_Parse_result [OF assms] by (auto simp: parse_result_def)

theorem Parse_wf_tree_witness:
  "\<exists>p root p'. Parser_New ''f('' (NewTree ''f('') 10 = Some p \<and> Parse p = Some (root, p') \<and>
     wf_tree (pTree p') \<and> 0 < root \<and> root < length (Nodes (pTree p'))"
proof -
  obtain p root p' where
    "Parser_New ''f('' (NewTree ''f('') 10 = Some p" "Parse p = Some (root, p')"
    using New_Parse_exists by blast
  with Parse_wf_tree [OF this] show ?thesis by blast
qed

text \<open>
  C3. Error reports: every reported syntax error has a range inside the source, and with a
  positive limit no more errors than the limit are reported.
\<close>

theorem Parse_errors:
  assumes "Parser_New source (NewTree source) maxErrors = Some p" and "Parse p = Some (root, p')"
  shows "(\<forall>e \<in> set (pErrors p'). peStart e \<le> peEnd e \<and> peEnd e \<le> length source) \<and>
         (0 < maxErrors \<longrightarrow> int (length (pErrors p')) \<le> maxErrors)"
  using New_Parse_result [OF assms] by (auto simp: parse_result_def wf_errors_def)

theorem Parse_errors_witness:
  "\<exists>p root p'. Parser_New ''f('' (NewTree ''f('') 1 = Some p \<and> Parse p = Some (root, p') \<and>
     int (length (pErrors p')) \<le> 1"
proof -
  obtain p root p' where
    "Parser_New ''f('' (NewTree ''f('') 1 = Some p" "Parse p = Some (root, p')"
    using New_Parse_exists by blast
  with Parse_errors [OF this] show ?thesis by auto
qed

text \<open>
  A parser and a tree can be used again: after any use, \<open>Tree.Reset\<close> and
  \<open>Parser.Reset\<close> with a new source make \<open>Parse\<close> succeed on it with a well-formed
  tree, whatever tokens, errors and counters the previous use has left behind.
\<close>

lemma Parser_Reset_reusable:
  assumes "wf_tree t" and "LineOffsets t \<noteq> []" and "LineOffsets t ! 0 = 0"
  shows "\<exists>q root q'. Parser_Reset source (Tree_Reset capNodes source t) p = Some q \<and>
           Parse q = Some (root, q') \<and> wf_tree (pTree q') \<and> Source (pTree q') = source \<and>
           (0 < pMaxErrors p \<longrightarrow> int (length (pErrors q')) \<le> pMaxErrors p)"
proof -
  have "fresh_tree source (Tree_Reset capNodes source t)"
    using assms by (auto simp: fresh_tree_def Tree_Reset_def Let_def wf_tree_def neq_Nil_conv)
  then obtain q where "Parser_Reset source (Tree_Reset capNodes source t) p = Some q"
    "ready source (pMaxErrors p) q"
    using Parser_Reset_ready by blast
  with Parse_ready [of source "pMaxErrors p" q] show ?thesis
    by (fastforce simp: parse_result_def wf_errors_def)
qed

lemma Parser_Reset_reusable_witness:
  "\<exists>p q root q'. Parser_New ''f('' (NewTree ''f('') 1 = Some p \<and>
     Parser_Reset ''x'' (Tree_Reset 16 ''x'' (NewTree ''f('')) p = Some q \<and>
     Parse q = Some (root, q') \<and> wf_tree (pTree q') \<and> Source (pTree q') = ''x''"
proof -
  obtain p where p: "Parser_New ''f('' (NewTree ''f('') 1 = Some p"
    using Parser_New_NewTree by blast
  have "LineOffsets (NewTree ''f('') = [0]"
    by (simp add: NewTree_def computeLineOffsets_def computeLineOffsets_from.simps)
  then have "LineOffsets (NewTree ''f('') \<noteq> []" "LineOffsets (NewTree ''f('') ! 0 = 0" by simp_all
  from Parser_Reset_reusable [OF wf_NewTree this, of "''x''" 16 p] p show ?thesis by blast
qed

end
