(* ===== verification/Resolver.thy ===== *)
theory Resolver
  imports Ast
begin

text \<open>
  Package \<open>semantic\<close> (\<open>src/semantic/resolver.go\<close>): the walk over the tree that links
  every name to its definition. A method is a function from the resolver state to an optional
  new state; \<open>None\<close> is a run-time panic or a lack of fuel.

  \<open>visit\<close> is the only recursive method on the tree. Its cases take the recursive call as the
  argument \<open>v\<close>, and the recursion itself runs on fuel; the fuel of \<open>Resolve\<close> is the number of
  nodes, since a visit goes from a node to nodes with smaller numbers. Go's byte slices
  that point into the name arena are modelled by their contents: the arena only grows
  between two calls of \<open>Reset\<close>, so the bytes behind a slice never change.
\<close>

section \<open>State\<close>

record FieldDef =
  fdReceiverName :: bytes
  fdReceiverHash :: u64
  fdPropHash :: u64
  fdReceiverDef :: NodeID
  fdNodeID :: NodeID

record FieldRef =
  frPropNodeID :: NodeID
  frReceiverDef :: NodeID
  frReceiverHash :: u64
  frReceiverName :: bytes
  frPropHash :: u64

record ShadowPair =
  spShadowing :: NodeID
  spShadowed :: NodeID

record FieldKey =
  fkRecDef :: NodeID
  fkRecHash :: u64
  fkPropHash :: u64

record Reassignment =
  raNameHash :: u64
  raDefID :: NodeID
  raValID :: NodeID

record Resolver =
  rTree :: Tree
  rReferences :: "NodeID list"
  rGlobalRefs :: "NodeID list"
  rGlobalDefs :: "NodeID list"
  rFieldDefs :: "FieldDef list"
  rFieldMap :: "FieldKey \<rightharpoonup> NodeID"
  rPendingFields :: "FieldRef list"
  rScopeStack :: "NodeID list"
  rScopeStarts :: "nat list"
  rSelfStack :: "NodeID list"
  rDuplicateLocals :: "NodeID list"
  rLocalDefs :: "NodeID list"
  rShadowedOuter :: "ShadowPair list"
  rReassignments :: "Reassignment list"
  rNameArena :: bytes

type_synonym visitor = "NodeID \<Rightarrow> Resolver \<Rightarrow> Resolver option"

definition Resolver_New :: "Tree \<Rightarrow> Resolver" where
  "Resolver_New tree =
     \<lparr>rTree = tree, rReferences = replicate (length (Nodes tree)) 0, rGlobalRefs = [], rGlobalDefs = [],
      rFieldDefs = [], rFieldMap = Map.empty, rPendingFields = [], rScopeStack = [], rScopeStarts = [],
      rSelfStack = [], rDuplicateLocals = [], rLocalDefs = [], rShadowedOuter = [],
      rReassignments = [], rNameArena = []\<rparr>"

text \<open>
  \<open>Reset\<close>. The capacity of \<open>References\<close> is an argument; if it is large enough the array is
  resliced, which keeps whatever the backing array \<open>backing\<close> holds, and then cleared.
\<close>

definition Resolver_Reset :: "NodeID list \<Rightarrow> Resolver \<Rightarrow> Resolver" where
  "Resolver_Reset backing r =
     (let nodeCount = length (Nodes (rTree r));
          refs = (if nodeCount \<le> length backing
                  then map (\<lambda>_. 0) (take nodeCount backing)
                  else replicate nodeCount 0)
      in r\<lparr>rReferences := refs, rGlobalDefs := [], rGlobalRefs := [], rFieldDefs := [],
           rFieldMap := Map.empty, rPendingFields := [], rScopeStack := [], rScopeStarts := [],
           rSelfStack := [], rDuplicateLocals := [], rLocalDefs := [], rShadowedOuter := [],
           rReassignments := [], rNameArena := []\<rparr>)"

text \<open>\<open>TrimOversized\<close>: \<open>big f\<close> says that the capacity of field number \<open>f\<close> exceeds the limit;
  \<open>slices.Clone\<close> makes an exact copy.\<close>

definition Resolver_TrimOversized :: "(nat \<Rightarrow> bool) \<Rightarrow> Resolver \<Rightarrow> Resolver" where
  "Resolver_TrimOversized big r =
     (let clone = (\<lambda>xs. take (length xs) xs);
          r = (if big 0 then r\<lparr>rReferences := clone (rReferences r)\<rparr> else r);
          r = (if big 1 then r\<lparr>rGlobalRefs := clone (rGlobalRefs r)\<rparr> else r);
          r = (if big 2 then r\<lparr>rGlobalDefs := clone (rGlobalDefs r)\<rparr> else r);
          r = (if big 3 then r\<lparr>rFieldDefs := take (length (rFieldDefs r)) (rFieldDefs r)\<rparr> else r);
          r = (if big 4 then r\<lparr>rPendingFields := take (length (rPendingFields r)) (rPendingFields r)\<rparr> else r);
          r = (if big 5 then r\<lparr>rDuplicateLocals := clone (rDuplicateLocals r)\<rparr> else r);
          r = (if big 6 then r\<lparr>rLocalDefs := clone (rLocalDefs r)\<rparr> else r);
          r = (if big 7 then r\<lparr>rShadowedOuter := take (length (rShadowedOuter r)) (rShadowedOuter r)\<rparr> else r)
      in if big 8 then r\<lparr>rReassignments := take (length (rReassignments r)) (rReassignments r)\<rparr> else r)"

definition Resolver_Cleanup :: "Resolver \<Rightarrow> Resolver" where
  "Resolver_Cleanup r =
     r\<lparr>rFieldMap := Map.empty, rScopeStack := [], rScopeStarts := [], rSelfStack := []\<rparr>"

section \<open>Access to the tree\<close>

definition rNode :: "NodeID \<Rightarrow> Resolver \<Rightarrow> Node option" where
  "rNode i r = nth_opt (Nodes (rTree r)) i"

definition rExtra :: "nat \<Rightarrow> Resolver \<Rightarrow> NodeID option" where
  "rExtra k r = nth_opt (ExtraList (rTree r)) k"

definition setReference :: "NodeID \<Rightarrow> NodeID \<Rightarrow> Resolver \<Rightarrow> Resolver option" where
  "setReference i d r = do {
     refs \<leftarrow> upd_opt (rReferences r) i (\<lambda>_. d);
     Some (r\<lparr>rReferences := refs\<rparr>)
   }"

definition source :: "Resolver \<Rightarrow> NodeID \<Rightarrow> bytes" where
  "source r i =
     (if i < length (Nodes (rTree r))
      then let n = Nodes (rTree r) ! i
           in if nStart n \<le> nEnd n \<and> nEnd n \<le> length (Source (rTree r))
              then slice (Source (rTree r)) (nStart n) (nEnd n) else []
      else [])"

section \<open>Scopes\<close>

definition pushScope :: "Resolver \<Rightarrow> nat \<times> Resolver" where
  "pushScope r =
     (let startScope = length (rScopeStack r)
      in (startScope, r\<lparr>rScopeStarts := rScopeStarts r @ [startScope]\<rparr>))"

definition popScope :: "nat \<Rightarrow> Resolver \<Rightarrow> Resolver" where
  "popScope startScope r =
     (let r = (if rScopeStarts r \<noteq> [] then r\<lparr>rScopeStarts := butlast (rScopeStarts r)\<rparr> else r)
      in if startScope \<le> length (rScopeStack r)
         then r\<lparr>rScopeStack := take startScope (rScopeStack r)\<rparr> else r)"

text \<open>
  The loop \<open>for i := len(r.scopeStack) - 1; i >= 0; i--\<close> of \<open>declare\<close> and
  \<open>resolveReference\<close>: the innermost entry below position \<open>i\<close> that spells \<open>name\<close>. It compares
  lengths first and then slices the source.
\<close>

primrec searchScope :: "Resolver \<Rightarrow> bytes \<Rightarrow> nat \<Rightarrow> (nat \<times> NodeID) option option" where
  "searchScope r name 0 = Some None"
| "searchScope r name (Suc i) = do {
     defID \<leftarrow> nth_opt (rScopeStack r) i;
     defNode \<leftarrow> rNode defID r;
     if nEnd defNode - nStart defNode = length name
     then do {
       text \<leftarrow> slice_opt (Source (rTree r)) (nStart defNode) (nEnd defNode);
       if text = name then Some (Some (i, defID)) else searchScope r name i
     }
     else searchScope r name i
   }"

definition isPlainName :: "bytes \<Rightarrow> bool" where
  "isPlainName name \<longleftrightarrow>
     0 < length name \<and> name ! 0 \<noteq> CHR ''_'' \<and>
     \<not> (2 < length name \<and> name ! 0 = CHR ''.'' \<and> name ! 1 = CHR ''.'' \<and> name ! 2 = CHR ''.'')"

definition declare_ident :: "NodeID \<Rightarrow> Resolver \<Rightarrow> Resolver option" where
  "declare_ident identID r =
     (if identID = InvalidNode then Some r
      else do {
        r \<leftarrow> setReference identID identID r;
        let r = r\<lparr>rLocalDefs := rLocalDefs r @ [identID]\<rparr>;
        let name = source r identID;
        r \<leftarrow>
          (if isPlainName name
           then do {
             let scopeStart = (if rScopeStarts r \<noteq> [] then last (rScopeStarts r) else 0);
             found \<leftarrow> searchScope r name (length (rScopeStack r));
             Some (case found of
                     None \<Rightarrow> r
                   | Some (i, defID) \<Rightarrow>
                       if scopeStart \<le> i
                       then r\<lparr>rDuplicateLocals := rDuplicateLocals r @ [identID]\<rparr>
                       else r\<lparr>rShadowedOuter := rShadowedOuter r @
                                [\<lparr>spShadowing = identID, spShadowed = defID\<rparr>]\<rparr>)
           }
           else Some r);
        Some (r\<lparr>rScopeStack := rScopeStack r @ [identID]\<rparr>)
      })"

definition resolveReference :: "NodeID \<Rightarrow> bool \<Rightarrow> Resolver \<Rightarrow> Resolver option" where
  "resolveReference identID isDef r =
     (if identID = InvalidNode then Some r
      else do {
        targetNode \<leftarrow> rNode identID r;
        if nEnd targetNode \<le> nStart targetNode \<or> length (Source (rTree r)) < nEnd targetNode
        then Some r
        else do {
          targetSrc \<leftarrow> slice_opt (Source (rTree r)) (nStart targetNode) (nEnd targetNode);
          found \<leftarrow> searchScope r targetSrc (length (rScopeStack r));
          case found of
            Some (i, defID) \<Rightarrow> setReference identID defID r
          | None \<Rightarrow>
              if targetSrc = ''self''
              then if rSelfStack r \<noteq> []
                   then setReference identID (last (rSelfStack r)) r
                   else Some r
              else if isDef then Some (r\<lparr>rGlobalDefs := rGlobalDefs r @ [identID]\<rparr>)
              else Some (r\<lparr>rGlobalRefs := rGlobalRefs r @ [identID]\<rparr>)
        }
      })"

section \<open>Fields\<close>

text \<open>The name of a member chain, and the loop that finds its root; the fuel is the number of the
  node, since both go to the children.\<close>

fun buildMemberName :: "nat \<Rightarrow> NodeID \<Rightarrow> Resolver \<Rightarrow> bytes \<Rightarrow> bytes option" where
  "buildMemberName n i r buf =
     (if i = InvalidNode then Some buf
      else case n of
        0 \<Rightarrow> None
      | Suc m \<Rightarrow> do {
          node \<leftarrow> rNode i r;
          if nKind node = KindIdent then Some (buf @ source r i)
          else if nKind node = KindMemberExpr
          then do {
            buf \<leftarrow> buildMemberName m (nLeft node) r buf;
            buildMemberName m (nRight node) r (buf @ ''.'')
          }
          else Some buf
        })"

text \<open>\<open>None\<close> inside the option is the early return of the loop.\<close>

fun receiverRoot :: "nat \<Rightarrow> NodeID \<Rightarrow> Resolver \<Rightarrow> NodeID option option" where
  "receiverRoot n i r =
     (if i = InvalidNode then Some (Some InvalidNode)
      else case n of
        0 \<Rightarrow> None
      | Suc m \<Rightarrow> do {
          node \<leftarrow> rNode i r;
          if nKind node = KindIdent
          then do { d \<leftarrow> nth_opt (rReferences r) i; Some (Some d) }
          else if nKind node = KindMemberExpr then receiverRoot m (nLeft node) r
          else Some None
        })"

definition GetReceiverContext :: "NodeID \<Rightarrow> Resolver \<Rightarrow> (NodeID \<times> u64 \<times> bytes) option" where
  "GetReceiverContext recID r =
     (if recID = InvalidNode then Some (InvalidNode, 0, [])
      else do {
        root \<leftarrow> receiverRoot recID recID r;
        case root of
          None \<Rightarrow> Some (InvalidNode, 0, [])
        | Some rootDef \<Rightarrow> do {
            recBytes \<leftarrow> buildMemberName recID recID r [];
            Some (rootDef, HashBytes recBytes, recBytes)
          }
      })"

definition getReceiverContextArena ::
  "NodeID \<Rightarrow> Resolver \<Rightarrow> ((NodeID \<times> u64 \<times> bytes) \<times> Resolver) option" where
  "getReceiverContextArena recID r =
     (if recID = InvalidNode then Some ((InvalidNode, 0, []), r)
      else do {
        root \<leftarrow> receiverRoot recID recID r;
        case root of
          None \<Rightarrow> Some ((InvalidNode, 0, []), r)
        | Some rootDef \<Rightarrow> do {
            let startIdx = length (rNameArena r);
            arena \<leftarrow> buildMemberName recID recID r (rNameArena r);
            let r = r\<lparr>rNameArena := arena\<rparr>;
            let recBytes = drop startIdx arena;
            Some ((rootDef, HashBytes recBytes, recBytes), r)
          }
      })"

definition defineField :: "NodeID \<Rightarrow> Resolver \<Rightarrow> Resolver option" where
  "defineField memberNodeID r = do {
     node \<leftarrow> rNode memberNodeID r;
     if nRight node = InvalidNode then Some r
     else do {
       right \<leftarrow> rNode (nRight node) r;
       if nKind right \<noteq> KindIdent \<or> nStart right = nEnd right then Some r
       else do {
         ((recDef, recHash, recName), r) \<leftarrow> getReceiverContextArena (nLeft node) r;
         if recName = [] then Some r
         else do {
           let propHash = HashBytes (source r (nRight node));
           let fk = \<lparr>fkRecDef = recDef, fkRecHash = recHash, fkPropHash = propHash\<rparr>;
           case rFieldMap r fk of
             Some existingID \<Rightarrow> setReference (nRight node) existingID r
           | None \<Rightarrow> do {
               let r = r\<lparr>rFieldDefs := rFieldDefs r @
                          [\<lparr>fdReceiverName = recName, fdReceiverHash = recHash, fdPropHash = propHash,
                            fdReceiverDef = recDef, fdNodeID = nRight node\<rparr>],
                         rFieldMap := (rFieldMap r)(fk \<mapsto> nRight node)\<rparr>;
               setReference (nRight node) (nRight node) r
             }
         }
       }
     }
   }"

text \<open>
  The receiver of a table constructor: the left-hand side it is assigned to, or the path of
  record fields above it. It climbs to parents, whose numbers grow, so the fuel is the number of
  nodes above it.
\<close>

definition assignTarget :: "NodeID \<Rightarrow> NodeID \<Rightarrow> Node \<Rightarrow> Resolver \<Rightarrow> ((NodeID \<times> bytes) \<times> Resolver) option" where
  "assignTarget i parentID parentNode r =
     (if nParent parentNode = InvalidNode then Some ((InvalidNode, []), r)
      else do {
        grandParentNode \<leftarrow> rNode (nParent parentNode) r;
        if (nKind grandParentNode \<noteq> KindAssign \<and> nKind grandParentNode \<noteq> KindLocalAssign)
           \<or> nRight grandParentNode \<noteq> parentID
        then Some ((InvalidNode, []), r)
        else do {
          idx \<leftarrow> IndexOfExtra (rTree r) parentID i;
          if idx = - 1 then Some ((InvalidNode, []), r)
          else do {
            lhsNode \<leftarrow> rNode (nLeft grandParentNode) r;
            if nCount lhsNode \<le> nat idx then Some ((InvalidNode, []), r)
            else do {
              leftID \<leftarrow> rExtra (nExtra lhsNode + nat idx) r;
              if nKind grandParentNode = KindLocalAssign then Some ((leftID, source r leftID), r)
              else do {
                leftNode \<leftarrow> rNode leftID r;
                if nKind leftNode = KindIdent
                then do { d \<leftarrow> nth_opt (rReferences r) leftID; Some ((d, source r leftID), r) }
                else if nKind leftNode = KindMemberExpr
                then do {
                  ((defID, _, recBytes), r) \<leftarrow> getReceiverContextArena leftID r;
                  Some ((defID, recBytes), r)
                }
                else Some ((InvalidNode, []), r)
              }
            }
          }
        }
      })"

primrec getTableReceiver :: "nat \<Rightarrow> NodeID \<Rightarrow> Resolver \<Rightarrow> ((NodeID \<times> bytes) \<times> Resolver) option" where
  "getTableReceiver 0 i r = None"
| "getTableReceiver (Suc n) i r = do {
     node \<leftarrow> rNode i r;
     if nParent node = InvalidNode then Some ((InvalidNode, []), r)
     else do {
       parentNode \<leftarrow> rNode (nParent node) r;
       if nKind parentNode = KindExprList then assignTarget i (nParent node) parentNode r
       else if nKind parentNode = KindRecordField \<and> nParent parentNode \<noteq> InvalidNode
       then do {
         grandParentNode \<leftarrow> rNode (nParent parentNode) r;
         if nKind grandParentNode = KindTableExpr
         then do {
           ((parentDef, parentRec), r) \<leftarrow> getTableReceiver n (nParent parentNode) r;
           if parentRec \<noteq> []
           then do {
             let name = parentRec @ ''.'' @ source r (nLeft parentNode);
             Some ((parentDef, name), r\<lparr>rNameArena := rNameArena r @ name\<rparr>)
           }
           else Some ((InvalidNode, []), r)
         }
         else Some ((InvalidNode, []), r)
       }
       else Some ((InvalidNode, []), r)
     }
   }"

section \<open>The walk\<close>

text \<open>\<open>visitArgs\<close>, and every loop \<open>for i < count { r.visit(ExtraList[extra+i]) }\<close>.\<close>

definition visitArgs :: "visitor \<Rightarrow> nat \<Rightarrow> nat \<Rightarrow> Resolver \<Rightarrow> Resolver option" where
  "visitArgs v extraStart count =
     forM [0..<count] (\<lambda>i r. do {
       x \<leftarrow> rExtra (extraStart + i) r;
       v x r
     })"

definition declareAll :: "Node \<Rightarrow> Resolver \<Rightarrow> Resolver option" where
  "declareAll nameList =
     forM [0..<nCount nameList] (\<lambda>i r. do {
       x \<leftarrow> rExtra (nExtra nameList + i) r;
       declare_ident x r
     })"

definition visitBoth :: "visitor \<Rightarrow> Node \<Rightarrow> Resolver \<Rightarrow> Resolver option" where
  "visitBoth v node r = do { r \<leftarrow> v (nLeft node) r; v (nRight node) r }"

definition visitBlock :: "visitor \<Rightarrow> Node \<Rightarrow> Resolver \<Rightarrow> Resolver option" where
  "visitBlock v node r = do {
     let (startScope, r) = pushScope r;
     r \<leftarrow> visitArgs v (nExtra node) (nCount node) r;
     Some (popScope startScope r)
   }"

definition visitLocalAssign :: "visitor \<Rightarrow> Node \<Rightarrow> Resolver \<Rightarrow> Resolver option" where
  "visitLocalAssign v node r = do {
     r \<leftarrow> v (nRight node) r;
     nameList \<leftarrow> rNode (nLeft node) r;
     declareAll nameList r
   }"

definition visitForNum :: "visitor \<Rightarrow> Node \<Rightarrow> Resolver \<Rightarrow> Resolver option" where
  "visitForNum v node r = do {
     r \<leftarrow> visitArgs v (nExtra node) (nCount node) r;
     let (startScope, r) = pushScope r;
     r \<leftarrow> declare_ident (nLeft node) r;
     r \<leftarrow> v (nRight node) r;
     Some (popScope startScope r)
   }"

definition visitForIn :: "visitor \<Rightarrow> Node \<Rightarrow> Resolver \<Rightarrow> Resolver option" where
  "visitForIn v node r = do {
     r \<leftarrow> v (nExtra node) r;
     let (startScope, r) = pushScope r;
     nameList \<leftarrow> rNode (nLeft node) r;
     r \<leftarrow> declareAll nameList r;
     r \<leftarrow> v (nRight node) r;
     Some (popScope startScope r)
   }"

text \<open>One target of an assignment, with the value at the same position.\<close>

definition assignValue :: "Node \<Rightarrow> nat \<Rightarrow> Resolver \<Rightarrow> NodeID option" where
  "assignValue node i r =
     (if nRight node \<noteq> InvalidNode
      then do {
        rhsNode \<leftarrow> rNode (nRight node) r;
        if i < nCount rhsNode then rExtra (nExtra rhsNode + i) r else Some InvalidNode
      }
      else Some InvalidNode)"

definition assignOne :: "visitor \<Rightarrow> Node \<Rightarrow> Node \<Rightarrow> nat \<Rightarrow> Resolver \<Rightarrow> Resolver option" where
  "assignOne v node listNode i r = do {
     exprID \<leftarrow> rExtra (nExtra listNode + i) r;
     exprNode \<leftarrow> rNode exprID r;
     if nKind exprNode = KindIdent
     then do {
       r \<leftarrow> resolveReference exprID True r;
       defID \<leftarrow> nth_opt (rReferences r) exprID;
       valID \<leftarrow> assignValue node i r;
       let nameHash = (if defID = InvalidNode then HashBytes (source r exprID) else 0);
       Some (r\<lparr>rReassignments := rReassignments r @
                [\<lparr>raNameHash = nameHash, raDefID = defID, raValID = valID\<rparr>]\<rparr>)
     }
     else if nKind exprNode = KindMemberExpr \<or> nKind exprNode = KindIndexExpr
     then do {
       r \<leftarrow> v (nLeft exprNode) r;
       if nKind exprNode = KindMemberExpr then defineField exprID r
       else v (nRight exprNode) r
     }
     else v exprID r
   }"

definition visitAssign :: "visitor \<Rightarrow> Node \<Rightarrow> Resolver \<Rightarrow> Resolver option" where
  "visitAssign v node r = do {
     listNode \<leftarrow> rNode (nLeft node) r;
     r \<leftarrow> forM [0..<nCount listNode] (assignOne v node listNode) r;
     v (nRight node) r
   }"

definition visitMember :: "visitor \<Rightarrow> Node \<Rightarrow> Resolver \<Rightarrow> Resolver option" where
  "visitMember v node r = do {
     r \<leftarrow> v (nLeft node) r;
     r \<leftarrow>
       (if nRight node = InvalidNode then Some r
        else do {
          right \<leftarrow> rNode (nRight node) r;
          if nKind right = KindIdent \<and> nStart right < nEnd right
          then do {
            ((recDef, recHash, recName), r) \<leftarrow> getReceiverContextArena (nLeft node) r;
            Some (if recName \<noteq> []
                  then r\<lparr>rPendingFields := rPendingFields r @
                          [\<lparr>frPropNodeID = nRight node, frReceiverDef = recDef, frReceiverHash = recHash,
                            frReceiverName = recName, frPropHash = HashBytes (source r (nRight node))\<rparr>]\<rparr>
                  else r)
          }
          else Some r
        });
     if nKind node = KindMethodCall then visitArgs v (nExtra node) (nCount node) r else Some r
   }"

definition tableEntry ::
  "visitor \<Rightarrow> Node \<Rightarrow> NodeID \<Rightarrow> u64 \<Rightarrow> bytes \<Rightarrow> nat \<Rightarrow> Resolver \<Rightarrow> Resolver option" where
  "tableEntry v node recDef recHash recBytes i r = do {
     fieldID \<leftarrow> rExtra (nExtra node + i) r;
     fieldNode \<leftarrow> rNode fieldID r;
     if nKind fieldNode = KindRecordField
     then do {
       r \<leftarrow>
         (if recBytes = [] then Some r
          else do {
            key \<leftarrow> rNode (nLeft fieldNode) r;
            if nKind key = KindIdent \<and> nStart key < nEnd key
            then do {
              let r = r\<lparr>rFieldDefs := rFieldDefs r @
                        [\<lparr>fdReceiverName = recBytes, fdReceiverHash = recHash,
                          fdPropHash = HashBytes (source r (nLeft fieldNode)),
                          fdReceiverDef = recDef, fdNodeID = nLeft fieldNode\<rparr>]\<rparr>;
              setReference (nLeft fieldNode) (nLeft fieldNode) r
            }
            else Some r
          });
       v (nRight fieldNode) r
     }
     else if nKind fieldNode = KindIndexField then visitBoth v fieldNode r
     else v fieldID r
   }"

definition visitTable :: "visitor \<Rightarrow> NodeID \<Rightarrow> Node \<Rightarrow> Resolver \<Rightarrow> Resolver option" where
  "visitTable v i node r = do {
     ((recDef, recBytes), r) \<leftarrow> getTableReceiver (length (Nodes (rTree r))) i r;
     let recHash = (if recBytes \<noteq> [] then HashBytes recBytes else 0);
     forM [0..<nCount node] (tableEntry v node recDef recHash recBytes) r
   }"

definition visitFunctionName :: "visitor \<Rightarrow> Node \<Rightarrow> Resolver \<Rightarrow> Resolver option" where
  "visitFunctionName v node r = do {
     leftNode \<leftarrow> rNode (nLeft node) r;
     if nKind leftNode = KindIdent then resolveReference (nLeft node) True r
     else if nKind leftNode = KindMethodName \<or> nKind leftNode = KindMemberExpr
     then do {
       r \<leftarrow> v (nLeft leftNode) r;
       r \<leftarrow> defineField (nLeft node) r;
       Some (if nKind leftNode = KindMethodName then r\<lparr>rSelfStack := rSelfStack r @ [nLeft node]\<rparr> else r)
     }
     else v (nLeft node) r
   }"

definition visitFunction :: "visitor \<Rightarrow> Node \<Rightarrow> Resolver \<Rightarrow> Resolver option" where
  "visitFunction v node r = do {
     let (startScope, r) = pushScope r;
     let selfStackStart = length (rSelfStack r);
     r \<leftarrow> (if nKind node = KindFunctionExpr then declareAll node r else visitFunctionName v node r);
     r \<leftarrow> v (nRight node) r;
     selfs \<leftarrow> slice_opt (rSelfStack r) 0 selfStackStart;
     Some (popScope startScope (r\<lparr>rSelfStack := selfs\<rparr>))
   }"

definition visitRepeat :: "visitor \<Rightarrow> Node \<Rightarrow> Resolver \<Rightarrow> Resolver option" where
  "visitRepeat v node r = do {
     let (startScope, r) = pushScope r;
     blockNode \<leftarrow> rNode (nLeft node) r;
     r \<leftarrow> visitArgs v (nExtra blockNode) (nCount blockNode) r;
     r \<leftarrow> v (nRight node) r;
     Some (popScope startScope r)
   }"

definition visitIf :: "visitor \<Rightarrow> Node \<Rightarrow> Resolver \<Rightarrow> Resolver option" where
  "visitIf v node r = do {
     r \<leftarrow> visitBoth v node r;
     visitArgs v (nExtra node) (nCount node) r
   }"

definition visitBody :: "visitor \<Rightarrow> NodeID \<Rightarrow> Resolver \<Rightarrow> Resolver option" where
  "visitBody v i r =
     (if i = InvalidNode then Some r
      else do {
        node \<leftarrow> rNode i r;
        case nKind node of
          KindFile \<Rightarrow> visitBoth v node r
        | KindDo \<Rightarrow> visitBoth v node r
        | KindWhile \<Rightarrow> visitBoth v node r
        | KindElseIf \<Rightarrow> visitBoth v node r
        | KindElse \<Rightarrow> visitBoth v node r
        | KindBlock \<Rightarrow> visitBlock v node r
        | KindLocalAssign \<Rightarrow> visitLocalAssign v node r
        | KindLocalFunction \<Rightarrow> do { r \<leftarrow> declare_ident (nLeft node) r; v (nRight node) r }
        | KindForNum \<Rightarrow> visitForNum v node r
        | KindForIn \<Rightarrow> visitForIn v node r
        | KindIdent \<Rightarrow> resolveReference i False r
        | KindVararg \<Rightarrow> resolveReference i False r
        | KindAssign \<Rightarrow> visitAssign v node r
        | KindBinaryExpr \<Rightarrow> visitBoth v node r
        | KindUnaryExpr \<Rightarrow> visitBoth v node r
        | KindParenExpr \<Rightarrow> visitBoth v node r
        | KindIndexExpr \<Rightarrow> visitBoth v node r
        | KindReturn \<Rightarrow> visitBoth v node r
        | KindMemberExpr \<Rightarrow> visitMember v node r
        | KindMethodCall \<Rightarrow> visitMember v node r
        | KindMethodName \<Rightarrow> v (nLeft node) r
        | KindCallExpr \<Rightarrow> do {
            r \<leftarrow> v (nLeft node) r;
            visitArgs v (nExtra node) (nCount node) r
          }
        | KindTableExpr \<Rightarrow> visitTable v i node r
        | KindFunctionExpr \<Rightarrow> visitFunction v node r
        | KindFunctionStmt \<Rightarrow> visitFunction v node r
        | KindRepeat \<Rightarrow> visitRepeat v node r
        | KindExprList \<Rightarrow> visitArgs v (nExtra node) (nCount node) r
        | KindIf \<Rightarrow> visitIf v node r
        | _ \<Rightarrow> Some r
      })"

primrec visit :: "nat \<Rightarrow> visitor" where
  "visit 0 i r = None"
| "visit (Suc n) i r = visitBody (visit n) i r"

text \<open>The loop over the pending fields at the end of \<open>Resolve\<close>.\<close>

definition linkField :: "FieldRef \<Rightarrow> Resolver \<Rightarrow> Resolver option" where
  "linkField pref r =
     (case rFieldMap r \<lparr>fkRecDef = frReceiverDef pref, fkRecHash = frReceiverHash pref,
                        fkPropHash = frPropHash pref\<rparr> of
        Some defID \<Rightarrow> setReference (frPropNodeID pref) defID r
      | None \<Rightarrow> Some r)"

definition Resolve :: "NodeID \<Rightarrow> Resolver \<Rightarrow> Resolver option" where
  "Resolve root r = do {
     r \<leftarrow> visit (Suc (length (Nodes (rTree r)))) root r;
     forM (rPendingFields r) linkField r
   }"

end
