(* ===== verification/Resolver_Rules.thy ===== *)
theory Resolver_Rules
  imports Resolver
begin

text \<open>
  The invariant of the resolver and the contract of its operations. \<open>wf_resolver\<close> collects what
  holds of the resolver between any two steps of the walk; \<open>grows r r'\<close> says how a step may
  change the state; \<open>runs r0 m\<close> says that \<open>m\<close> neither panics nor runs out of fuel, and that
  its result keeps the invariant and grows from \<open>r0\<close>. The operations on scopes and fields are
  shown to meet the contract.
\<close>

named_theorems run_ops \<open>operations that meet the contract of the resolver\<close>

section \<open>The invariant\<close>

abbreviation nodes :: "Resolver \<Rightarrow> Node list" where
  "nodes r \<equiv> Nodes (rTree r)"

text \<open>The text of a node.\<close>

definition nodeText :: "Tree \<Rightarrow> NodeID \<Rightarrow> bytes" where
  "nodeText t i = slice (Source t) (nStart (Nodes t ! i)) (nEnd (Nodes t ! i))"

definition node_id :: "Tree \<Rightarrow> NodeID \<Rightarrow> bool" where
  "node_id t i \<longleftrightarrow> 0 < i \<and> i < length (Nodes t)"

text \<open>A field definition: the hashes are those of the receiver's name and of the field's name.\<close>

definition field_ok :: "Tree \<Rightarrow> FieldDef \<Rightarrow> bool" where
  "field_ok t f \<longleftrightarrow>
     node_id t (fdNodeID f) \<and> fdReceiverName f \<noteq> [] \<and>
     fdReceiverHash f = HashBytes (fdReceiverName f) \<and>
     fdPropHash f = HashBytes (nodeText t (fdNodeID f))"

definition pending_ok :: "Tree \<Rightarrow> FieldRef \<Rightarrow> bool" where
  "pending_ok t f \<longleftrightarrow>
     node_id t (frPropNodeID f) \<and> frReceiverHash f = HashBytes (frReceiverName f) \<and>
     frPropHash f = HashBytes (nodeText t (frPropNodeID f))"

text \<open>
  Why node \<open>i\<close> may refer to \<open>d\<close>: a local declaration with the same text; or \<open>i\<close> reads
  \<open>self\<close> and \<open>d\<close> is the name of a method; or \<open>d\<close> is a recorded field and the names of both
  have the same hash.
\<close>

definition justified :: "Resolver \<Rightarrow> NodeID \<Rightarrow> NodeID \<Rightarrow> bool" where
  "justified r i d \<longleftrightarrow>
     (d \<in> set (rLocalDefs r) \<and> nodeText (rTree r) d = nodeText (rTree r) i) \<or>
     (nodeText (rTree r) i = ''self'' \<and> node_id (rTree r) d \<and> nKind (nodes r ! d) = KindMethodName) \<or>
     (\<exists>f \<in> set (rFieldDefs r). fdNodeID f = d \<and> fdPropHash f = HashBytes (nodeText (rTree r) i))"

definition wf_scopes :: "Resolver \<Rightarrow> bool" where
  "wf_scopes r \<longleftrightarrow>
     (\<forall>d \<in> set (rLocalDefs r). node_id (rTree r) d) \<and>
     set (rScopeStack r) \<subseteq> set (rLocalDefs r) \<and>
     (\<forall>d \<in> set (rSelfStack r). node_id (rTree r) d \<and> nKind (nodes r ! d) = KindMethodName) \<and>
     sorted (rScopeStarts r @ [length (rScopeStack r)])"

definition wf_shadows :: "Resolver \<Rightarrow> bool" where
  "wf_shadows r \<longleftrightarrow>
     set (rDuplicateLocals r) \<subseteq> set (rLocalDefs r) \<and>
     (\<forall>s \<in> set (rShadowedOuter r).
        spShadowing s \<in> set (rLocalDefs r) \<and> spShadowed s \<in> set (rLocalDefs r) \<and>
        nodeText (rTree r) (spShadowing s) = nodeText (rTree r) (spShadowed s))"

definition fieldKey :: "FieldDef \<Rightarrow> FieldKey" where
  "fieldKey f = \<lparr>fkRecDef = fdReceiverDef f, fkRecHash = fdReceiverHash f, fkPropHash = fdPropHash f\<rparr>"

definition wf_fields :: "Resolver \<Rightarrow> bool" where
  "wf_fields r \<longleftrightarrow>
     (\<forall>f \<in> set (rFieldDefs r). field_ok (rTree r) f) \<and>
     (\<forall>k d. rFieldMap r k = Some d \<longrightarrow> (\<exists>f \<in> set (rFieldDefs r). fieldKey f = k \<and> fdNodeID f = d)) \<and>
     (\<forall>p \<in> set (rPendingFields r). pending_ok (rTree r) p)"

definition wf_links :: "Resolver \<Rightarrow> bool" where
  "wf_links r \<longleftrightarrow>
     length (rReferences r) = length (nodes r) \<and>
     (\<forall>i < length (nodes r). rReferences r ! i \<noteq> InvalidNode \<longrightarrow> justified r i (rReferences r ! i)) \<and>
     (\<forall>i \<in> set (rGlobalDefs r) \<union> set (rGlobalRefs r). node_id (rTree r) i \<and> nodeText (rTree r) i \<noteq> [])"

definition wf_resolver :: "Resolver \<Rightarrow> bool" where
  "wf_resolver r \<longleftrightarrow> wf_tree (rTree r) \<and> wf_scopes r \<and> wf_shadows r \<and> wf_fields r \<and> wf_links r"

lemmas wf_resolver_defs = wf_resolver_def wf_scopes_def wf_shadows_def wf_fields_def wf_links_def

text \<open>The parts of the invariant look at different fields.\<close>

lemma justified_upd [simp]:
  "justified (r\<lparr>rReferences := ids\<rparr>) = justified r"
  "justified (r\<lparr>rGlobalDefs := ids\<rparr>) = justified r"
  "justified (r\<lparr>rGlobalRefs := ids\<rparr>) = justified r"
  "justified (r\<lparr>rPendingFields := fs\<rparr>) = justified r"
  "justified (r\<lparr>rDuplicateLocals := ids\<rparr>) = justified r"
  "justified (r\<lparr>rShadowedOuter := ss\<rparr>) = justified r"
  "justified (r\<lparr>rReassignments := rs\<rparr>) = justified r"
  "justified (r\<lparr>rNameArena := a\<rparr>) = justified r"
  "justified (r\<lparr>rScopeStack := ids\<rparr>) = justified r"
  "justified (r\<lparr>rScopeStarts := ns\<rparr>) = justified r"
  "justified (r\<lparr>rSelfStack := ids\<rparr>) = justified r"
  by (simp_all add: justified_def fun_eq_iff)

lemma wf_parts_upd [simp]:
  "wf_scopes (r\<lparr>rReferences := ids\<rparr>) = wf_scopes r" "wf_scopes (r\<lparr>rGlobalDefs := ids\<rparr>) = wf_scopes r"
  "wf_scopes (r\<lparr>rGlobalRefs := ids\<rparr>) = wf_scopes r" "wf_scopes (r\<lparr>rPendingFields := fs\<rparr>) = wf_scopes r"
  "wf_scopes (r\<lparr>rDuplicateLocals := ids\<rparr>) = wf_scopes r" "wf_scopes (r\<lparr>rShadowedOuter := ss\<rparr>) = wf_scopes r"
  "wf_scopes (r\<lparr>rReassignments := rs\<rparr>) = wf_scopes r" "wf_scopes (r\<lparr>rNameArena := a\<rparr>) = wf_scopes r"
  "wf_shadows (r\<lparr>rReferences := ids\<rparr>) = wf_shadows r" "wf_shadows (r\<lparr>rGlobalDefs := ids\<rparr>) = wf_shadows r"
  "wf_shadows (r\<lparr>rGlobalRefs := ids\<rparr>) = wf_shadows r" "wf_shadows (r\<lparr>rPendingFields := fs\<rparr>) = wf_shadows r"
  "wf_shadows (r\<lparr>rReassignments := rs\<rparr>) = wf_shadows r" "wf_shadows (r\<lparr>rNameArena := a\<rparr>) = wf_shadows r"
  "wf_fields (r\<lparr>rReferences := ids\<rparr>) = wf_fields r" "wf_fields (r\<lparr>rGlobalDefs := ids\<rparr>) = wf_fields r"
  "wf_fields (r\<lparr>rGlobalRefs := ids\<rparr>) = wf_fields r" "wf_fields (r\<lparr>rDuplicateLocals := ids\<rparr>) = wf_fields r"
  "wf_fields (r\<lparr>rShadowedOuter := ss\<rparr>) = wf_fields r" "wf_fields (r\<lparr>rReassignments := rs\<rparr>) = wf_fields r"
  "wf_fields (r\<lparr>rNameArena := a\<rparr>) = wf_fields r"
  "wf_links (r\<lparr>rPendingFields := fs\<rparr>) = wf_links r" "wf_links (r\<lparr>rDuplicateLocals := ids\<rparr>) = wf_links r"
  "wf_links (r\<lparr>rShadowedOuter := ss\<rparr>) = wf_links r" "wf_links (r\<lparr>rReassignments := rs\<rparr>) = wf_links r"
  "wf_links (r\<lparr>rNameArena := a\<rparr>) = wf_links r"
  "wf_shadows (r\<lparr>rScopeStack := ids\<rparr>) = wf_shadows r" "wf_shadows (r\<lparr>rScopeStarts := ns\<rparr>) = wf_shadows r"
  "wf_shadows (r\<lparr>rSelfStack := ids\<rparr>) = wf_shadows r"
  "wf_fields (r\<lparr>rScopeStack := ids\<rparr>) = wf_fields r" "wf_fields (r\<lparr>rScopeStarts := ns\<rparr>) = wf_fields r"
  "wf_fields (r\<lparr>rSelfStack := ids\<rparr>) = wf_fields r"
  "wf_links (r\<lparr>rScopeStack := ids\<rparr>) = wf_links r" "wf_links (r\<lparr>rScopeStarts := ns\<rparr>) = wf_links r"
  "wf_links (r\<lparr>rSelfStack := ids\<rparr>) = wf_links r"
  by (simp_all add: wf_scopes_def wf_shadows_def wf_fields_def wf_links_def)

text \<open>How a visit changes the state: the tree, the scope starts and the receivers of methods
  are as before, and everything else only grows.\<close>

definition grows :: "Resolver \<Rightarrow> Resolver \<Rightarrow> bool" where
  "grows r r' \<longleftrightarrow>
     rTree r' = rTree r \<and> rScopeStarts r' = rScopeStarts r \<and> rSelfStack r' = rSelfStack r \<and>
     prefix (rScopeStack r) (rScopeStack r') \<and> prefix (rLocalDefs r) (rLocalDefs r') \<and>
     prefix (rFieldDefs r) (rFieldDefs r') \<and> rFieldMap r \<subseteq>\<^sub>m rFieldMap r' \<and>
     prefix (rNameArena r) (rNameArena r')"

definition good :: "Resolver \<Rightarrow> Resolver \<Rightarrow> bool" where
  "good r0 r \<longleftrightarrow> wf_resolver r0 \<and> wf_resolver r \<and> grows r0 r"

definition runs :: "Resolver \<Rightarrow> Resolver option \<Rightarrow> bool" where
  "runs r0 m \<longleftrightarrow> (\<exists>r. m = Some r \<and> good r0 r)"

lemma grows_refl: "grows r r"
  by (simp add: grows_def)

lemma good_refl: "wf_resolver r \<Longrightarrow> good r r"
  by (simp add: good_def grows_refl)

lemma good_trans: "good r0 r1 \<Longrightarrow> good r1 r2 \<Longrightarrow> good r0 r2"
  by (auto simp: good_def grows_def intro: prefix_order.trans map_le_trans)

lemma good_step: "good r0 r \<Longrightarrow> wf_resolver r' \<Longrightarrow> grows r r' \<Longrightarrow> good r0 r'"
  using good_trans [of r0 r r'] by (simp add: good_def)

lemma goodD:
  assumes "good r0 r"
  shows "wf_resolver r" "wf_tree (rTree r)" "rTree r = rTree r0"
    "length (rReferences r) = length (nodes r)"
proof -
  show wf: "wf_resolver r" and tree: "rTree r = rTree r0"
    using assms by (simp_all add: good_def grows_def)
  from wf show "wf_tree (rTree r)" by (simp add: wf_resolver_def)
  from wf have "wf_links r" by (simp add: wf_resolver_def)
  then show "length (rReferences r) = length (nodes r)" unfolding wf_links_def by blast
qed

lemma runs_Some [simp]: "runs r0 (Some r) \<longleftrightarrow> good r0 r"
  by (simp add: runs_def)

lemma runs_bind: "runs r0 m \<Longrightarrow> (\<And>r. good r0 r \<Longrightarrow> runs r0 (f r)) \<Longrightarrow> runs r0 (Option.bind m f)"
  by (auto simp: runs_def)

lemma runs_trans: "good r0 r \<Longrightarrow> runs r m \<Longrightarrow> runs r0 m"
  by (auto simp: runs_def intro: good_trans)

lemma runs_forM:
  assumes "good r0 r" and "\<And>x r. x \<in> set xs \<Longrightarrow> good r0 r \<Longrightarrow> runs r0 (f x r)"
  shows "runs r0 (forM xs f r)"
  using forM_invariant [of "good r0" r xs f] assms by (auto simp: runs_def)

section \<open>The tree\<close>

lemma rNode_Some [simp]: "i < length (nodes r) \<Longrightarrow> rNode i r = Some (nodes r ! i)"
  by (simp add: rNode_def)

lemma rExtra_Some [simp]: "k < length (ExtraList (rTree r)) \<Longrightarrow> rExtra k r = Some (ExtraList (rTree r) ! k)"
  by (simp add: rExtra_def)

lemma wf_tree_range:
  assumes "wf_tree t" "node_id t i"
  shows "nStart (Nodes t ! i) \<le> nEnd (Nodes t ! i)" "nEnd (Nodes t ! i) \<le> length (Source t)"
  using wf_treeD(1) [OF assms(1)] assms(2) by (auto simp: node_id_def wf_node_def)

lemma source_nodeText: "wf_tree (rTree r) \<Longrightarrow> node_id (rTree r) i \<Longrightarrow> source r i = nodeText (rTree r) i"
  using wf_tree_range [of "rTree r" i] by (simp add: source_def nodeText_def node_id_def Let_def)

lemma length_nodeText:
  "wf_tree t \<Longrightarrow> node_id t i \<Longrightarrow> length (nodeText t i) = nEnd (Nodes t ! i) - nStart (Nodes t ! i)"
  using wf_tree_range [of t i] by (simp add: nodeText_def length_slice)

text \<open>The name arena is the only field that \<open>getReceiverContextArena\<close> changes.\<close>

lemma source_cong: "rTree r = rTree r' \<Longrightarrow> source r = source r'"
  by (simp add: source_def fun_eq_iff Let_def)

section \<open>References and declarations\<close>

lemma justified_mono:
  "justified r i d \<Longrightarrow> rTree r' = rTree r \<Longrightarrow> set (rLocalDefs r) \<subseteq> set (rLocalDefs r') \<Longrightarrow>
   set (rFieldDefs r) \<subseteq> set (rFieldDefs r') \<Longrightarrow> justified r' i d"
  unfolding justified_def by (auto 4 3)

lemma runs_setReference [run_ops]:
  assumes g: "good r0 r" and i: "node_id (rTree r) i" and d: "d \<noteq> InvalidNode \<longrightarrow> justified r i d"
  shows "runs r0 (setReference i d r)"
proof -
  let ?r = "r\<lparr>rReferences := (rReferences r)[i := d]\<rparr>"
  have len: "i < length (rReferences r)" using goodD [OF g] i by (simp add: node_id_def)
  have "wf_links ?r"
    using goodD(1) [OF g] d len
    unfolding wf_resolver_def wf_links_def
    by (simp add: nth_list_update)
  then have "wf_resolver ?r" using goodD(1) [OF g] by (simp add: wf_resolver_def)
  then have "good r0 ?r" by (rule good_step [OF g]) (simp add: grows_def)
  with len show ?thesis by (simp add: setReference_def)
qed

lemma scope_entry:
  assumes "wf_resolver r" "i < length (rScopeStack r)"
  shows "node_id (rTree r) (rScopeStack r ! i)" "rScopeStack r ! i \<in> set (rLocalDefs r)"
  using assms(1) nth_mem [OF assms(2)] by (auto simp: wf_resolver_def wf_scopes_def)

text \<open>The loop over the scope stack finds the innermost entry with the name.\<close>

definition innermost :: "Resolver \<Rightarrow> bytes \<Rightarrow> nat \<Rightarrow> (nat \<times> NodeID) option \<Rightarrow> bool" where
  "innermost r name n found \<longleftrightarrow>
     (case found of
        None \<Rightarrow> \<forall>j<n. nodeText (rTree r) (rScopeStack r ! j) \<noteq> name
      | Some (i, d) \<Rightarrow> i < n \<and> rScopeStack r ! i = d \<and> nodeText (rTree r) d = name \<and>
          (\<forall>j<n. i < j \<longrightarrow> nodeText (rTree r) (rScopeStack r ! j) \<noteq> name))"

lemma searchScope_innermost:
  assumes wf: "wf_resolver r" and "n \<le> length (rScopeStack r)"
  shows "\<exists>found. searchScope r name n = Some found \<and> innermost r name n found"
  using assms(2)
proof (induction n)
  case 0
  show ?case by (simp add: innermost_def)
next
  case (Suc n)
  let ?d = "rScopeStack r ! n"
  have tree: "wf_tree (rTree r)" using wf by (simp add: wf_resolver_def)
  have d: "node_id (rTree r) ?d" using scope_entry(1) [OF wf] Suc.prems by simp
  obtain found where rest: "searchScope r name n = Some found" "innermost r name n found"
    using Suc by auto
  have len: "length (nodeText (rTree r) ?d) = nEnd (nodes r ! ?d) - nStart (nodes r ! ?d)"
    by (rule length_nodeText [OF tree d])
  show ?case
  proof (cases "nodeText (rTree r) ?d = name")
    case True
    then have "searchScope r name (Suc n) = Some (Some (n, ?d))"
      using Suc.prems d len wf_tree_range [OF tree d] by (simp add: node_id_def nodeText_def)
    with True show ?thesis by (simp add: innermost_def)
  next
    case False
    then have "searchScope r name (Suc n) = Some found"
      using Suc.prems d rest(1) wf_tree_range [OF tree d] by (simp add: node_id_def nodeText_def)
    with rest(2) False show ?thesis
      by (auto simp: innermost_def less_Suc_eq split: option.splits)
  qed
qed

lemma innermost_last:
  assumes "innermost r name (length (rScopeStack r)) found"
  shows "map_option snd found =
     (let ds = filter (\<lambda>d. nodeText (rTree r) d = name) (rScopeStack r) in if ds = [] then None else Some (last ds))"
proof (cases found)
  case None
  with assms show ?thesis by (auto simp: innermost_def filter_empty_conv in_set_conv_nth)
next
  case (Some x)
  obtain i d where x: "x = (i, d)" by (cases x)
  let ?xs = "rScopeStack r" and ?P = "\<lambda>d. nodeText (rTree r) d = name"
  have i: "i < length ?xs" "?xs ! i = d" "?P d" "\<And>j. j < length ?xs \<Longrightarrow> i < j \<Longrightarrow> \<not> ?P (?xs ! j)"
    using assms Some x by (auto simp: innermost_def)
  have "\<not> ?P y" if "y \<in> set (drop (Suc i) ?xs)" for y
  proof -
    from that obtain k where "k < length ?xs - Suc i" "y = ?xs ! (Suc i + k)"
      by (auto simp: in_set_conv_nth)
    with i(4) [of "Suc i + k"] show ?thesis by simp
  qed
  then have "filter ?P (drop (Suc i) ?xs) = []" by (simp add: filter_empty_conv)
  then have "filter ?P ?xs = filter ?P (take i ?xs) @ [d]"
    using i(2,3) by (subst id_take_nth_drop [OF i(1)]) simp
  with Some x show ?thesis by simp
qed

lemma innermost_inner:
  assumes "innermost r name (length (rScopeStack r)) (Some (j, d))"
  shows "filter (\<lambda>d. nodeText (rTree r) d = name) (drop s (rScopeStack r)) \<noteq> [] \<longleftrightarrow> s \<le> j"
proof
  assume "filter (\<lambda>d. nodeText (rTree r) d = name) (drop s (rScopeStack r)) \<noteq> []"
  then obtain x where "x \<in> set (drop s (rScopeStack r))" "nodeText (rTree r) x = name"
    by (auto simp: filter_empty_conv)
  then obtain k where "k < length (rScopeStack r) - s" "rScopeStack r ! (s + k) = x"
    by (auto simp: in_set_conv_nth)
  with \<open>nodeText (rTree r) x = name\<close>
  have "s + k < length (rScopeStack r)" "nodeText (rTree r) (rScopeStack r ! (s + k)) = name" by simp_all
  with assms have "\<not> j < s + k" by (auto simp: innermost_def)
  then show "s \<le> j" by simp
next
  assume "s \<le> j"
  then have "d \<in> set (drop s (rScopeStack r))"
    using assms by (auto simp: innermost_def in_set_conv_nth intro!: exI [of _ "j - s"])
  with assms show "filter (\<lambda>d. nodeText (rTree r) d = name) (drop s (rScopeStack r)) \<noteq> []"
    by (auto simp: filter_empty_conv innermost_def)
qed

text \<open>What \<open>resolveReference\<close> does with the outcome of the search.\<close>

definition resolveWith :: "NodeID \<Rightarrow> bool \<Rightarrow> (nat \<times> NodeID) option \<Rightarrow> Resolver \<Rightarrow> Resolver option" where
  "resolveWith i isDef found r =
     (case found of
        Some (j, d) \<Rightarrow> setReference i d r
      | None \<Rightarrow> if nodeText (rTree r) i = ''self''
                then if rSelfStack r \<noteq> [] then setReference i (last (rSelfStack r)) r else Some r
                else if isDef then Some (r\<lparr>rGlobalDefs := rGlobalDefs r @ [i]\<rparr>)
                else Some (r\<lparr>rGlobalRefs := rGlobalRefs r @ [i]\<rparr>))"

lemma resolveReference_eq:
  assumes wf: "wf_resolver r" and nid: "node_id (rTree r) i" and src: "nodeText (rTree r) i \<noteq> []"
  shows "\<exists>found. innermost r (nodeText (rTree r) i) (length (rScopeStack r)) found \<and>
           resolveReference i isDef r = resolveWith i isDef found r"
proof -
  let ?src = "nodeText (rTree r) i"
  have tree: "wf_tree (rTree r)" using wf by (simp add: wf_resolver_def)
  obtain found where f: "searchScope r ?src (length (rScopeStack r)) = Some found"
    "innermost r ?src (length (rScopeStack r)) found"
    using searchScope_innermost [OF wf order_refl] by blast
  have "nStart (nodes r ! i) < nEnd (nodes r ! i)"
    using src length_nodeText [OF tree nid] by (metis length_greater_0_conv zero_less_diff)
  then have "resolveReference i isDef r = resolveWith i isDef found r"
    using f(1) nid wf_tree_range [OF tree nid]
    by (simp add: resolveReference_def resolveWith_def node_id_def nodeText_def split: prod.splits)
  with f(2) show ?thesis by blast
qed

lemma runs_resolveReference [run_ops]:
  assumes g: "good r0 r" and i: "i < length (nodes r)"
  shows "runs r0 (resolveReference i isDef r)"
proof (cases "i = InvalidNode \<or> nodeText (rTree r) i = []")
  case True
  have "nEnd (nodes r ! i) \<le> nStart (nodes r ! i)" if "i \<noteq> InvalidNode"
    using True that i length_nodeText [OF goodD(2) [OF g], of i] by (simp add: node_id_def)
  with i g show ?thesis by (auto simp: resolveReference_def)
next
  case False
  let ?src = "nodeText (rTree r) i"
  have wf: "wf_resolver r" "wf_tree (rTree r)" using goodD [OF g] by simp_all
  have nid: "node_id (rTree r) i" using False i by (simp add: node_id_def)
  have src: "?src \<noteq> []" using False by simp
  obtain found where f: "innermost r ?src (length (rScopeStack r)) found"
    "resolveReference i isDef r = resolveWith i isDef found r"
    using resolveReference_eq [OF wf(1) nid src] by blast
  note eq = f(2) [unfolded resolveWith_def]
  show ?thesis
  proof (cases found)
    case None
    have "justified r i (last (rSelfStack r))" if "?src = ''self''" "rSelfStack r \<noteq> []"
      using wf(1) that last_in_set [OF that(2)] by (auto simp: wf_resolver_defs justified_def)
    moreover have "good r0 (r\<lparr>rGlobalDefs := rGlobalDefs r @ [i]\<rparr>)"
        "good r0 (r\<lparr>rGlobalRefs := rGlobalRefs r @ [i]\<rparr>)"
      using wf(1) nid src
      by (auto intro!: good_step [OF g] simp: grows_def wf_resolver_def wf_links_def)
    ultimately show ?thesis using eq None g runs_setReference [OF g nid] by auto
  next
    case (Some x)
    obtain j d where x: "x = (j, d)" by (cases x)
    have "justified r i d" using f(1) Some x scope_entry [OF wf(1)] by (auto simp: innermost_def justified_def)
    then show ?thesis using eq Some x runs_setReference [OF g nid] by simp
  qed
qed

text \<open>What a declaration records: a duplicate when the name is in the current scope already, a
  shadowing pair when the innermost entry belongs to an outer scope.\<close>

definition scopeStart :: "Resolver \<Rightarrow> nat" where
  "scopeStart r = (if rScopeStarts r \<noteq> [] then last (rScopeStarts r) else 0)"

definition recordName :: "NodeID \<Rightarrow> (nat \<times> NodeID) option \<Rightarrow> Resolver \<Rightarrow> Resolver" where
  "recordName identID found r =
     (case found of
        None \<Rightarrow> r
      | Some (i, defID) \<Rightarrow>
          if scopeStart r \<le> i then r\<lparr>rDuplicateLocals := rDuplicateLocals r @ [identID]\<rparr>
          else r\<lparr>rShadowedOuter := rShadowedOuter r @ [\<lparr>spShadowing = identID, spShadowed = defID\<rparr>]\<rparr>)"

lemma declare_ident_eq:
  assumes wf: "wf_resolver r" and i: "node_id (rTree r) i"
  shows "\<exists>found. innermost r (nodeText (rTree r) i) (length (rScopeStack r)) found \<and>
     declare_ident i r = Some (recordName i (if isPlainName (nodeText (rTree r) i) then found else None)
       (r\<lparr>rReferences := (rReferences r)[i := i], rLocalDefs := rLocalDefs r @ [i],
          rScopeStack := rScopeStack r @ [i]\<rparr>))"
proof -
  let ?r = "r\<lparr>rReferences := (rReferences r)[i := i], rLocalDefs := rLocalDefs r @ [i]\<rparr>"
  have len: "i < length (rReferences r)" using wf i by (simp add: wf_resolver_defs node_id_def)
  have tree: "wf_tree (rTree r)" using wf by (simp add: wf_resolver_def)
  obtain found where f: "searchScope r (nodeText (rTree r) i) (length (rScopeStack r)) = Some found"
    "innermost r (nodeText (rTree r) i) (length (rScopeStack r)) found"
    using searchScope_innermost [OF wf order_refl] by blast
  have search: "searchScope ?r name n = searchScope r name n" for name n
    by (induction n) (simp_all add: rNode_def cong: if_cong)
  have src: "source ?r i = nodeText (rTree r) i"
    using source_cong [of ?r r] source_nodeText [OF tree i] by simp
  have "declare_ident i r = Some (recordName i (if isPlainName (nodeText (rTree r) i) then found else None)
       (r\<lparr>rReferences := (rReferences r)[i := i], rLocalDefs := rLocalDefs r @ [i],
          rScopeStack := rScopeStack r @ [i]\<rparr>))"
    using len i f(1) search src
    by (auto simp: declare_ident_def setReference_def node_id_def recordName_def scopeStart_def Let_def
        split: option.splits)
  with f(2) show ?thesis by blast
qed

lemma declared_good:
  assumes g: "good r0 r" and i: "node_id (rTree r) i"
  shows "good r0 (r\<lparr>rReferences := (rReferences r)[i := i], rLocalDefs := rLocalDefs r @ [i],
            rScopeStack := rScopeStack r @ [i]\<rparr>)" (is "good r0 ?r")
proof (rule good_step [OF g])
  have wf: "wf_resolver r" by (rule goodD(1) [OF g])
  have len: "i < length (rReferences r)" using goodD [OF g] i by (simp add: node_id_def)
  have just: "justified ?r j d" if "justified r j d" for j d
    using that by (rule justified_mono) auto
  have self: "justified ?r i i" by (simp add: justified_def)
  have "wf_links ?r"
    using wf len self just unfolding wf_resolver_def wf_links_def by (simp add: nth_list_update)
  moreover have "wf_scopes ?r"
    using wf i unfolding wf_resolver_def wf_scopes_def by (auto simp: sorted_append)
  ultimately show "wf_resolver ?r"
    using wf unfolding wf_resolver_def wf_shadows_def wf_fields_def by auto
qed (simp add: grows_def)

lemma runs_declare [run_ops]:
  assumes g: "good r0 r" and i: "i < length (nodes r)"
  shows "runs r0 (declare_ident i r)"
proof (cases "i = InvalidNode")
  case True
  with g show ?thesis by (simp add: declare_ident_def)
next
  case False
  let ?r = "r\<lparr>rReferences := (rReferences r)[i := i], rLocalDefs := rLocalDefs r @ [i],
              rScopeStack := rScopeStack r @ [i]\<rparr>"
  have wf: "wf_resolver r" by (rule goodD(1) [OF g])
  have nid: "node_id (rTree r) i" using False i by (simp add: node_id_def)
  obtain found where f: "innermost r (nodeText (rTree r) i) (length (rScopeStack r)) found"
    "declare_ident i r = Some (recordName i (if isPlainName (nodeText (rTree r) i) then found else None) ?r)"
    using declare_ident_eq [OF wf nid] by blast
  have g': "good r0 ?r" by (rule declared_good [OF g nid])
  have wf': "wf_resolver ?r" by (rule goodD(1) [OF g'])
  have dup: "good r0 (?r\<lparr>rDuplicateLocals := rDuplicateLocals ?r @ [i]\<rparr>)"
    using wf' by (intro good_step [OF g'])
      (simp_all add: grows_def wf_resolver_def wf_shadows_def)
  have shadow: "good r0 (?r\<lparr>rShadowedOuter := rShadowedOuter ?r @ [\<lparr>spShadowing = i, spShadowed = d\<rparr>]\<rparr>)"
    if "innermost r (nodeText (rTree r) i) (length (rScopeStack r)) (Some (j, d))" for j d
    using wf' that scope_entry(2) [OF wf, of j] by (intro good_step [OF g'])
      (auto simp: grows_def wf_resolver_def wf_shadows_def innermost_def)
  show ?thesis
    using f g' dup shadow by (auto simp: recordName_def split: option.splits)
qed

section \<open>Fields and receivers\<close>

declare buildMemberName.simps [simp del] receiverRoot.simps [simp del]

lemma buildMemberName_total:
  assumes "wf_tree (rTree r)" "i \<le> n" "i < length (nodes r)"
  shows "\<exists>name. buildMemberName n i r buf = Some (buf @ name)"
  using assms(2,3)
proof (induction n arbitrary: i buf)
  case (Suc n)
  show ?case
  proof (cases "i = InvalidNode")
    case False
    have "wf_node (length (Source (rTree r))) (ExtraList (rTree r)) i (nodes r ! i)"
      using wf_treeD(1) [OF assms(1) Suc.prems(2)] False by simp
    then have ch: "nLeft (nodes r ! i) < i" "nRight (nodes r ! i) < i" by (auto simp: wf_node_def)
    obtain a where a: "buildMemberName n (nLeft (nodes r ! i)) r buf = Some (buf @ a)"
      using Suc.IH [of "nLeft (nodes r ! i)" buf] ch Suc.prems by auto
    obtain b where b: "buildMemberName n (nRight (nodes r ! i)) r ((buf @ a) @ ''.'') = Some (((buf @ a) @ ''.'') @ b)"
      using Suc.IH [of "nRight (nodes r ! i)" "(buf @ a) @ ''.''"] ch Suc.prems by auto
    show ?thesis
      using False Suc.prems a b by (simp add: buildMemberName.simps [of "Suc n"])
  qed (simp add: buildMemberName.simps)
qed (simp add: buildMemberName.simps)

lemma receiverRoot_total:
  assumes "wf_tree (rTree r)" "length (rReferences r) = length (nodes r)" "i \<le> n" "i < length (nodes r)"
  shows "\<exists>root. receiverRoot n i r = Some root"
  using assms(3,4)
proof (induction n arbitrary: i)
  case (Suc n)
  then show ?case
    using wf_treeD(1) [OF assms(1), of i] Suc.IH [of "nLeft (nodes r ! i)"] assms(2)
    by (cases "i = InvalidNode") (auto simp: wf_node_def receiverRoot.simps [of "Suc n"])
qed (simp add: receiverRoot.simps)

lemma source_arena [simp]: "source (r\<lparr>rNameArena := a\<rparr>) = source r"
  by (rule source_cong) simp

lemma good_arena: "good r0 r \<Longrightarrow> good r0 (r\<lparr>rNameArena := rNameArena r @ a\<rparr>)"
  by (rule good_step [of r0 r]) (simp_all add: grows_def wf_resolver_def goodD(1) [of r0, unfolded wf_resolver_def])

text \<open>The receiver's context: only the arena grows, and the hash is that of the name.\<close>

lemma getReceiverContextArena_good:
  assumes g: "good r0 r" and i: "i < length (nodes r)"
  obtains recDef recHash recName r' where
    "getReceiverContextArena i r = Some ((recDef, recHash, recName), r')"
    "good r0 r'" "rTree r' = rTree r" "recName \<noteq> [] \<Longrightarrow> recHash = HashBytes recName"
proof -
  have wf: "wf_tree (rTree r)" "length (rReferences r) = length (nodes r)"
    using goodD [OF g] by simp_all
  obtain root where root: "receiverRoot i i r = Some root"
    using receiverRoot_total [OF wf order_refl i] by blast
  obtain name where name: "buildMemberName i i r (rNameArena r) = Some (rNameArena r @ name)"
    using buildMemberName_total [OF wf(1) order_refl i] by blast
  show thesis
  proof (cases "i = InvalidNode \<or> root = None")
    case True
    then show ?thesis using that [of InvalidNode 0 "[]" r] g root
      by (auto simp: getReceiverContextArena_def)
  next
    case False
    then show ?thesis
      using that [of "the root" "HashBytes name" name "r\<lparr>rNameArena := rNameArena r @ name\<rparr>"]
        good_arena [OF g] root name
      by (auto simp: getReceiverContextArena_def Let_def)
  qed
qed

text \<open>A new field definition.\<close>

lemma good_field:
  assumes g: "good r0 r" and f: "field_ok (rTree r) f"
    and m: "m = rFieldMap r \<or> (rFieldMap r (fieldKey f) = None \<and> m = (rFieldMap r)(fieldKey f \<mapsto> fdNodeID f))"
  shows "good r0 (r\<lparr>rFieldDefs := rFieldDefs r @ [f], rFieldMap := m\<rparr>)" (is "good r0 ?r")
proof (rule good_step [OF g])
  have wf: "wf_resolver r" by (rule goodD(1) [OF g])
  have just: "justified ?r i d" if "justified r i d" for i d
    using that by (rule justified_mono) auto
  have "wf_fields ?r"
    using m
  proof
    assume "m = rFieldMap r"
    then show ?thesis using wf f unfolding wf_resolver_def wf_fields_def by auto
  next
    assume "rFieldMap r (fieldKey f) = None \<and> m = (rFieldMap r)(fieldKey f \<mapsto> fdNodeID f)"
    then have "\<exists>g \<in> insert f (set (rFieldDefs r)). fieldKey g = k \<and> fdNodeID g = d" if "m k = Some d" for k d
      using wf that unfolding wf_resolver_def wf_fields_def
      by (cases "k = fieldKey f") auto
    then show ?thesis using wf f unfolding wf_resolver_def wf_fields_def by simp
  qed
  moreover have "wf_links ?r"
    using wf just unfolding wf_resolver_def wf_links_def by simp
  ultimately show "wf_resolver ?r"
    using wf by (simp add: wf_resolver_def wf_scopes_def wf_shadows_def)
  show "grows r ?r" using m by (auto simp: grows_def map_le_def)
qed

lemma runs_field:
  assumes g: "good r0 r" and f: "field_ok (rTree r) f"
    and m: "m = rFieldMap r \<or> (rFieldMap r (fieldKey f) = None \<and> m = (rFieldMap r)(fieldKey f \<mapsto> fdNodeID f))"
  shows "runs r0 (setReference (fdNodeID f) (fdNodeID f)
           (r\<lparr>rFieldDefs := rFieldDefs r @ [f], rFieldMap := m\<rparr>))"
  by (rule runs_setReference [OF good_field [OF assms]])
     (use f in \<open>auto simp: field_ok_def justified_def\<close>)

lemma runs_defineField [run_ops]:
  assumes g: "good r0 r" and i: "i < length (nodes r)"
  shows "runs r0 (defineField i r)"
proof -
  let ?n = "nodes r ! i"
  have tree: "wf_tree (rTree r)" by (rule goodD(2) [OF g])
  have ch: "nLeft ?n < length (nodes r)" "nRight ?n < length (nodes r)"
    using wf_tree_children [OF tree i] by simp_all
  obtain recDef recHash recName r' where rc:
    "getReceiverContextArena (nLeft ?n) r = Some ((recDef, recHash, recName), r')"
    "good r0 r'" "rTree r' = rTree r" "recName \<noteq> [] \<Longrightarrow> recHash = HashBytes recName"
    using getReceiverContextArena_good [OF g ch(1)] by blast
  show ?thesis
  proof (cases "nRight ?n = InvalidNode \<or> nKind (nodes r ! nRight ?n) \<noteq> KindIdent \<or>
      nStart (nodes r ! nRight ?n) = nEnd (nodes r ! nRight ?n) \<or> recName = []")
    case True
    then show ?thesis using i ch g rc by (auto simp: defineField_def)
  next
    case False
    let ?f = "\<lparr>fdReceiverName = recName, fdReceiverHash = recHash,
        fdPropHash = HashBytes (source r' (nRight ?n)), fdReceiverDef = recDef, fdNodeID = nRight ?n\<rparr>"
    have nid: "node_id (rTree r') (nRight ?n)" using False ch rc(3) by (simp add: node_id_def)
    have src: "source r' (nRight ?n) = nodeText (rTree r') (nRight ?n)"
      by (rule source_nodeText [OF _ nid]) (use tree rc(3) in simp)
    have f: "field_ok (rTree r') ?f" using False nid src rc(4) by (simp add: field_ok_def)
    have key: "fieldKey ?f = \<lparr>fkRecDef = recDef, fkRecHash = recHash,
        fkPropHash = HashBytes (source r' (nRight ?n))\<rparr>" by (simp add: fieldKey_def)
    show ?thesis
    proof (cases "rFieldMap r' (fieldKey ?f)")
      case None
      then have "runs r0 (setReference (nRight ?n) (nRight ?n)
          (r'\<lparr>rFieldDefs := rFieldDefs r' @ [?f], rFieldMap := (rFieldMap r')(fieldKey ?f \<mapsto> nRight ?n)\<rparr>))"
        using runs_field [OF rc(2) f, of "(rFieldMap r')(fieldKey ?f \<mapsto> nRight ?n)"] by simp
      with None False i ch rc(1) key show ?thesis by (simp add: defineField_def Let_def)
    next
      case (Some d)
      have "justified r' (nRight ?n) d"
        using Some goodD(1) [OF rc(2)] src
        by (fastforce simp: wf_resolver_def wf_fields_def justified_def fieldKey_def)
      then have "runs r0 (setReference (nRight ?n) d r')" using runs_setReference [OF rc(2) nid] by simp
      with Some False i ch rc(1) key show ?thesis by (simp add: defineField_def Let_def)
    qed
  qed
qed

end
