(* ===== verification/Resolver_Correct.thy ===== *)
theory Resolver_Correct
  imports Resolver_Rules
begin

text \<open>
  The walk of the resolver. The locale \<open>visitor\<close> states what the cases of \<open>visit\<close> rely on from
  the recursive call: on any node below a bound it runs to the end and keeps the contract of
  \<open>Resolver_Rules\<close>. Each case is proved once inside the locale; \<open>visit\<close> is an instance of it
  for every fuel, which closes the recursion.
\<close>

section \<open>Table receivers\<close>

lemma wf_tree_parent:
  "wf_tree t \<Longrightarrow> i < length (Nodes t) \<Longrightarrow>
   nParent (Nodes t ! i) = InvalidNode \<or> (i < nParent (Nodes t ! i) \<and> nParent (Nodes t ! i) < length (Nodes t))"
  using wf_treeD(2) [of t i] wf_tree_node0 [of t] by (cases "i = 0") (auto simp: wf_parent_def)

text \<open>A computation that delivers a receiver.\<close>

definition receives :: "Resolver \<Rightarrow> ((NodeID \<times> bytes) \<times> Resolver) option \<Rightarrow> bool" where
  "receives r0 m \<longleftrightarrow> (\<exists>d name r. m = Some ((d, name), r) \<and> good r0 r)"

lemma receives_Some [simp]: "receives r0 (Some ((d, name), r)) \<longleftrightarrow> good r0 r"
  by (simp add: receives_def)

lemma receives_assignTarget:
  assumes g: "good r0 r" and p: "p < length (nodes r)" "node = nodes r ! p"
  shows "receives r0 (assignTarget i p node r)"
proof (cases "nParent node = InvalidNode")
  case True
  with g show ?thesis by (simp add: assignTarget_def)
next
  case False
  have tree: "wf_tree (rTree r)" by (rule goodD(2) [OF g])
  let ?g = "nodes r ! nParent node"
  have gp: "nParent node < length (nodes r)" using wf_tree_parent [OF tree p(1)] False p(2) by simp
  have left: "nLeft ?g < length (nodes r)" using wf_tree_children [OF tree gp] by simp
  let ?l = "nodes r ! nLeft ?g"
  show ?thesis
  proof (rule IndexOfExtra_cases [OF tree, of p i])
    assume "IndexOfExtra (rTree r) p i = Some (- 1)"
    then show ?thesis using False gp g by (simp add: assignTarget_def)
  next
    fix k
    assume k: "IndexOfExtra (rTree r) p i = Some (int k)"
    show ?thesis
    proof (cases "k < nCount ?l")
      case True
      let ?id = "ExtraList (rTree r) ! (nExtra ?l + k)"
      have e: "nExtra ?l + k < length (ExtraList (rTree r))" "?id < length (nodes r)"
        using wf_tree_children(5,6) [OF tree left True] left by simp_all
      obtain recDef recHash recName r' where
        "getReceiverContextArena ?id r = Some ((recDef, recHash, recName), r')" "good r0 r'"
        by (metis getReceiverContextArena_good [OF g e(2)])
      then show ?thesis
        using False gp left True e k g goodD(4) [OF g] by (simp add: assignTarget_def)
    qed (use False gp left k g in \<open>simp add: assignTarget_def\<close>)
  qed
qed

lemma receives_getTableReceiver:
  assumes "good r0 r" and "i < length (nodes r)" and "length (nodes r) \<le> n + i"
  shows "receives r0 (getTableReceiver n i r)"
  using assms
proof (induction n arbitrary: i)
  case (Suc n)
  have tree: "wf_tree (rTree r)" by (rule goodD(2) [OF Suc.prems(1)])
  let ?n = "nodes r ! i"
  show ?case
  proof (cases "nParent ?n = InvalidNode")
    case False
    then have p: "i < nParent ?n" "nParent ?n < length (nodes r)"
      using wf_tree_parent [OF tree Suc.prems(2)] by auto
    let ?p = "nodes r ! nParent ?n"
    have assign: "receives r0 (assignTarget i (nParent ?n) ?p r)"
      by (rule receives_assignTarget [OF Suc.prems(1) p(2) refl])
    have rec: "receives r0 (getTableReceiver n (nParent ?p) r) \<and> nParent ?p < length (nodes r)"
      if "nParent ?p \<noteq> InvalidNode"
      using wf_tree_parent [OF tree p(2)] that Suc.IH [of "nParent ?p"] Suc.prems p by auto
    show ?thesis
      using False Suc.prems p assign rec good_arena [of r0]
      by (auto simp: receives_def Let_def split: if_splits)
  qed (use Suc.prems in simp)
qed simp

section \<open>The cases of the walk\<close>

lemma runs_declareAll [run_ops]:
  assumes g: "good r0 r" and i: "i < length (nodes r)" and n: "n = nodes r ! i"
  shows "runs r0 (declareAll n r)"
  unfolding declareAll_def
proof (rule runs_forM [OF g])
  fix k r'
  assume k: "k \<in> set [0..<nCount n]" and g': "good r0 r'"
  have tree: "rTree r' = rTree r" using goodD(3) [OF g] goodD(3) [OF g'] by simp
  have "nExtra n + k < length (ExtraList (rTree r))" "ExtraList (rTree r) ! (nExtra n + k) < i"
    using wf_tree_children(5,6) [OF goodD(2) [OF g] i, of k] k n by simp_all
  then show "runs r0 (rExtra (nExtra n + k) r' \<bind> (\<lambda>x. declare_ident x r'))"
    using runs_declare [OF g'] i by (simp add: tree)
qed

lemma runs_source_pending:
  assumes g: "good r0 r" and i: "i < length (nodes r)" and p: "node_id (rTree r) p"
  shows "runs r0 (do {
            ((recDef, recHash, recName), r) \<leftarrow> getReceiverContextArena i r;
            Some (if recName \<noteq> []
                  then r\<lparr>rPendingFields := rPendingFields r @
                          [\<lparr>frPropNodeID = p, frReceiverDef = recDef, frReceiverHash = recHash,
                            frReceiverName = recName, frPropHash = HashBytes (source r p)\<rparr>]\<rparr>
                  else r)
          })"
proof -
  obtain recDef recHash recName r' where rc:
    "getReceiverContextArena i r = Some ((recDef, recHash, recName), r')"
    "good r0 r'" "rTree r' = rTree r" "recName \<noteq> [] \<Longrightarrow> recHash = HashBytes recName"
    using getReceiverContextArena_good [OF g i] by blast
  have "source r' p = nodeText (rTree r') p"
    using source_nodeText [of r' p] goodD(2) [OF rc(2)] p rc(3) by simp
  then have "good r0 (r'\<lparr>rPendingFields := rPendingFields r' @
      [\<lparr>frPropNodeID = p, frReceiverDef = recDef, frReceiverHash = recHash,
        frReceiverName = recName, frPropHash = HashBytes (source r' p)\<rparr>]\<rparr>)" if "recName \<noteq> []"
    using goodD(1) [OF rc(2)] rc(3,4) p that
    by (intro good_step [OF rc(2)]) (auto simp: wf_resolver_def wf_fields_def pending_ok_def grows_def)
  with rc(1,2) show ?thesis by simp
qed

text \<open>Scopes: what runs between \<open>pushScope\<close> and \<open>popScope\<close> leaves the stack as it was.\<close>

definition inScope :: "(Resolver \<Rightarrow> Resolver option) \<Rightarrow> Resolver \<Rightarrow> Resolver option" where
  "inScope m r = do {
     r' \<leftarrow> m (snd (pushScope r));
     Some (popScope (fst (pushScope r)) r')
   }"

lemma runs_inScope:
  assumes g: "good r0 r" and m: "\<And>p. good p p \<Longrightarrow> rTree p = rTree r \<Longrightarrow> runs p (m p)"
  shows "runs r0 (inScope m r)"
proof -
  let ?p = "snd (pushScope r)"
  have wf: "wf_resolver r" by (rule goodD(1) [OF g])
  have push: "?p = r\<lparr>rScopeStarts := rScopeStarts r @ [length (rScopeStack r)]\<rparr>"
    "fst (pushScope r) = length (rScopeStack r)"
    by (simp_all add: pushScope_def Let_def)
  have "wf_resolver ?p"
    using wf unfolding push by (simp add: wf_resolver_def wf_scopes_def sorted_append)
  from m [OF good_refl [OF this]] push obtain r' where r': "m ?p = Some r'" "good ?p r'" by (auto simp: runs_def)
  let ?q = "popScope (length (rScopeStack r)) r'"
  have grow: "rTree r' = rTree r" "rScopeStarts r' = rScopeStarts r @ [length (rScopeStack r)]"
    "prefix (rScopeStack r) (rScopeStack r')"
    using r'(2) by (simp_all add: good_def grows_def push)
  then have pop: "?q = r'\<lparr>rScopeStarts := rScopeStarts r, rScopeStack := rScopeStack r\<rparr>"
    by (auto simp: popScope_def prefix_def)
  have "wf_scopes ?q"
  proof -
    have "wf_scopes r" "wf_scopes r'" using wf goodD(1) [OF r'(2)] by (simp_all add: wf_resolver_def)
    moreover have "set (rLocalDefs r) \<subseteq> set (rLocalDefs r')"
      using r'(2) by (auto simp: good_def grows_def push prefix_def)
    ultimately show ?thesis unfolding pop wf_scopes_def by auto
  qed
  then have "wf_resolver ?q"
    using goodD(1) [OF r'(2)] unfolding pop by (simp add: wf_resolver_def)
  moreover have "grows r ?q"
    using r'(2) unfolding pop by (simp add: good_def grows_def push)
  ultimately show ?thesis
    using good_step [OF g] r'(1) push(2) by (simp add: inScope_def)
qed

lemma visit_inScope:
  "visitBlock v node = inScope (visitArgs v (nExtra node) (nCount node))"
  "visitForNum v node r = do {
     r \<leftarrow> visitArgs v (nExtra node) (nCount node) r;
     inScope (\<lambda>r. do { r \<leftarrow> declare_ident (nLeft node) r; v (nRight node) r }) r
   }"
  "visitForIn v node r = do {
     r \<leftarrow> v (nExtra node) r;
     inScope (\<lambda>r. do {
       nameList \<leftarrow> rNode (nLeft node) r;
       r \<leftarrow> declareAll nameList r;
       v (nRight node) r }) r
   }"
  "visitRepeat v node = inScope (\<lambda>r. do {
     blockNode \<leftarrow> rNode (nLeft node) r;
     r \<leftarrow> visitArgs v (nExtra blockNode) (nCount blockNode) r;
     v (nRight node) r })"
  "visitFunction v node = inScope (\<lambda>r. do {
     let selfStackStart = length (rSelfStack r);
     r \<leftarrow> (if nKind node = KindFunctionExpr then declareAll node r else visitFunctionName v node r);
     r \<leftarrow> v (nRight node) r;
     selfs \<leftarrow> slice_opt (rSelfStack r) 0 selfStackStart;
     Some (r\<lparr>rSelfStack := selfs\<rparr>) })"
  unfolding visitBlock_def visitForNum_def visitForIn_def visitRepeat_def visitFunction_def inScope_def
    Let_def
  by (simp_all add: fun_eq_iff case_prod_beta Option.bind_assoc)

section \<open>The contract of the recursive call\<close>

text \<open>A node number below a bound, and the rules that move the contract through one step.\<close>

definition below :: "Tree \<Rightarrow> nat \<Rightarrow> NodeID \<Rightarrow> bool" where
  "below t n i \<longleftrightarrow> i < n \<and> i < length (Nodes t)"

definition args_below :: "Tree \<Rightarrow> nat \<Rightarrow> nat \<Rightarrow> nat \<Rightarrow> bool" where
  "args_below t n start count \<longleftrightarrow>
     (\<forall>k<count. start + k < length (ExtraList t) \<and> below t n (ExtraList t ! (start + k)))"

lemma below_length: "below t n i \<Longrightarrow> i < length (Nodes t)"
  by (simp add: below_def)

lemma below_kids:
  assumes "wf_tree t" "i < length (Nodes t)" "0 < i" "i \<le> n"
  shows "below t n (nLeft (Nodes t ! i))" "below t n (nRight (Nodes t ! i))"
    "args_below t n (nExtra (Nodes t ! i)) (nCount (Nodes t ! i))"
    "nKind (Nodes t ! i) = KindForIn \<Longrightarrow> below t n (nExtra (Nodes t ! i))"
  using wf_treeD(1) [OF assms(1-3)] assms wf_tree_children(5) [OF assms(1,2)]
  by (auto simp: below_def args_below_def wf_node_def)

lemma below_grandkids:
  assumes "wf_tree t" "below t n i"
  shows "below t n (nLeft (Nodes t ! i))" "below t n (nRight (Nodes t ! i))"
    "args_below t n (nExtra (Nodes t ! i)) (nCount (Nodes t ! i))"
  using wf_tree_children [OF assms(1), of i] wf_tree_children(5,6) [OF assms(1), of i] assms(2)
  by (fastforce simp: below_def args_below_def)+

lemma args_belowD: "args_below t n start count \<Longrightarrow> k < count \<Longrightarrow> below t n (ExtraList t ! (start + k))"
  by (simp add: args_below_def)

lemma runs_if: "(b \<Longrightarrow> runs r0 m) \<Longrightarrow> (\<not> b \<Longrightarrow> runs r0 m') \<Longrightarrow> runs r0 (if b then m else m')"
  by simp

lemma runs_rNode:
  "good r0 r \<Longrightarrow> i < length (nodes r0) \<Longrightarrow> runs r0 (f (nodes r0 ! i)) \<Longrightarrow> runs r0 (rNode i r \<bind> f)"
  using goodD(3) [of r0 r] by simp

lemma runs_rExtra:
  "good r0 r \<Longrightarrow> args_below (rTree r0) n start count \<Longrightarrow> k < count \<Longrightarrow>
   runs r0 (f (ExtraList (rTree r0) ! (start + k))) \<Longrightarrow> runs r0 (rExtra (start + k) r \<bind> f)"
  using goodD(3) [of r0 r] by (simp add: args_below_def)

lemma runs_reference:
  "good r0 r \<Longrightarrow> i < length (nodes r0) \<Longrightarrow> (\<And>d. runs r0 (f d)) \<Longrightarrow>
   runs r0 (nth_opt (rReferences r) i \<bind> f)"
  using goodD(3,4) [of r0 r] by simp

lemma runs_assignValue:
  assumes "good r0 r" "nRight node < length (nodes r0)" "\<And>d. runs r0 (f d)"
  shows "runs r0 (assignValue node i r \<bind> f)"
proof -
  let ?n = "nodes r ! nRight node"
  have "nRight node < length (nodes r)" "wf_tree (rTree r)"
    using assms(1,2) goodD(2,3) [of r0 r] by simp_all
  then have "\<exists>d. assignValue node i r = Some d"
    using wf_tree_children(5) [of "rTree r" "nRight node" i]
    by (cases "nRight node = InvalidNode"; cases "i < nCount ?n") (simp_all add: assignValue_def)
  with assms(3) show ?thesis by auto
qed

lemma good_reassign: "good r0 r \<Longrightarrow> good r0 (r\<lparr>rReassignments := x\<rparr>)"
  by (rule good_step [of r0 r], assumption, drule goodD(1)) (simp_all add: wf_resolver_def grows_def)

lemma runs_at:
  assumes "good r0 r" "i < length (nodes r0)"
  shows "runs r0 (resolveReference i b r)" "runs r0 (declare_ident i r)" "runs r0 (defineField i r)"
    "runs r0 (declareAll (nodes r0 ! i) r)"
proof -
  have tree: "rTree r = rTree r0" by (rule goodD(3) [OF assms(1)])
  then have i: "i < length (nodes r)" using assms(2) by simp
  show "runs r0 (resolveReference i b r)" "runs r0 (declare_ident i r)" "runs r0 (defineField i r)"
    by (rule runs_resolveReference [OF assms(1) i] runs_declare [OF assms(1) i]
        runs_defineField [OF assms(1) i])+
  show "runs r0 (declareAll (nodes r0 ! i) r)"
    by (rule runs_declareAll [OF assms(1) i]) (simp add: tree)
qed

lemmas run_ctl = runs_bind runs_forM runs_if runs_rNode runs_rExtra runs_reference runs_at good_reassign

locale visitor =
  fixes v :: visitor and n :: nat
  assumes v_runs: "good r0 r \<Longrightarrow> below (rTree r0) n i \<Longrightarrow> runs r0 (v i r)"
begin

lemma runs_visitArgs:
  assumes "good r0 r" "args_below (rTree r0) n start count"
  shows "runs r0 (visitArgs v start count r)"
  unfolding visitArgs_def
  by (rule runs_forM [OF assms(1)])
     (auto intro!: runs_rExtra [OF _ assms(2)] v_runs args_belowD [OF assms(2)])

lemma runs_visitBoth:
  "good r0 r \<Longrightarrow> below (rTree r0) n (nLeft node) \<Longrightarrow> below (rTree r0) n (nRight node) \<Longrightarrow>
   runs r0 (visitBoth v node r)"
  unfolding visitBoth_def by (intro runs_bind v_runs)

lemmas run_visit = v_runs runs_visitArgs runs_visitBoth

lemma runs_assignOne:
  assumes g: "good r0 r" and kids: "below (rTree r0) n (nLeft node)" "below (rTree r0) n (nRight node)"
    and list: "listNode = nodes r0 ! nLeft node" and k: "k < nCount listNode"
  shows "runs r0 (assignOne v node listNode k r)"
proof -
  have tree: "wf_tree (rTree r0)" using goodD [OF g] by simp
  have args: "args_below (rTree r0) n (nExtra listNode) (nCount listNode)"
    using below_grandkids(3) [OF tree kids(1)] list by simp
  note e = args_belowD [OF args k]
  show ?thesis
    unfolding assignOne_def Let_def
    by (rule runs_rExtra [OF g args k] runs_rNode [OF g below_length [OF e]])+
       (intro run_ctl run_visit runs_assignValue g e kids below_length [OF e] below_length [OF kids(2)]
          below_grandkids [OF tree e] | simp add: good_reassign)+
qed

lemma runs_visitAssign:
  assumes g: "good r0 r" and kids: "below (rTree r0) n (nLeft node)" "below (rTree r0) n (nRight node)"
  shows "runs r0 (visitAssign v node r)"
  unfolding visitAssign_def
  by (intro runs_rNode [OF g below_length [OF kids(1)]] runs_bind runs_forM g v_runs
      runs_assignOne kids refl) auto

lemma runs_visitMember:
  assumes g: "good r0 r" and kids: "below (rTree r0) n (nLeft node)" "below (rTree r0) n (nRight node)"
    "args_below (rTree r0) n (nExtra node) (nCount node)"
  shows "runs r0 (visitMember v node r)"
proof -
  have pend: "runs r0 (do {
      ((recDef, recHash, recName), r) \<leftarrow> getReceiverContextArena (nLeft node) r;
      Some (if recName \<noteq> []
            then r\<lparr>rPendingFields := rPendingFields r @
                    [\<lparr>frPropNodeID = nRight node, frReceiverDef = recDef, frReceiverHash = recHash,
                      frReceiverName = recName, frPropHash = HashBytes (source r (nRight node))\<rparr>]\<rparr>
            else r) })" if "good r0 r" "nRight node \<noteq> InvalidNode" for r
    by (rule runs_source_pending [OF that(1)])
       (use kids that goodD(3) [OF that(1)] in \<open>auto simp: below_def node_id_def\<close>)
  show ?thesis
    unfolding visitMember_def
    by (intro runs_bind runs_if v_runs g kids runs_visitArgs runs_rNode below_length [OF kids(2)] pend)
       simp_all
qed

lemma runs_recordField:
  assumes g: "good r0 r" and l: "below (rTree r0) n l" and rec: "recBytes \<noteq> [] \<longrightarrow> recHash = HashBytes recBytes"
    and rf: "nStart (nodes r0 ! l) < nEnd (nodes r0 ! l)" "recBytes \<noteq> []" "l \<noteq> InvalidNode"
  shows "runs r0 (setReference l l (r\<lparr>rFieldDefs := rFieldDefs r @
            [\<lparr>fdReceiverName = recBytes, fdReceiverHash = recHash, fdPropHash = HashBytes (source r l),
              fdReceiverDef = recDef, fdNodeID = l\<rparr>]\<rparr>))"
proof -
  let ?f = "\<lparr>fdReceiverName = recBytes, fdReceiverHash = recHash, fdPropHash = HashBytes (source r l),
              fdReceiverDef = recDef, fdNodeID = l\<rparr>"
  have nid: "node_id (rTree r) l" using l rf goodD(3) [OF g] by (simp add: below_def node_id_def)
  then have "field_ok (rTree r) ?f"
    using rf rec source_nodeText [OF goodD(2) [OF g] nid] by (simp add: field_ok_def)
  from runs_field [OF g this, of "rFieldMap r"] show ?thesis by simp
qed

lemma runs_tableEntry:
  assumes g: "good r0 r" and args: "args_below (rTree r0) n (nExtra node) (nCount node)"
    and k: "k < nCount node" and rec: "recBytes \<noteq> [] \<longrightarrow> recHash = HashBytes recBytes"
  shows "runs r0 (tableEntry v node recDef recHash recBytes k r)"
proof -
  have tree: "wf_tree (rTree r0)" using goodD [OF g] by simp
  note e = args_belowD [OF args k]
  note kids = below_grandkids [OF tree e]
  have inv: "nKind (nodes r0 ! l) = KindIdent \<Longrightarrow> l \<noteq> InvalidNode" for l
    using wf_tree_node0 [OF tree] by (cases "l = 0") auto
  show ?thesis
    unfolding tableEntry_def Let_def
    by (rule runs_rExtra [OF g args k] runs_rNode [OF g below_length [OF e]])+
       (intro runs_if runs_bind run_visit g e kids runs_rNode below_length [OF kids(1)]
          runs_recordField [OF _ _ rec] inv | simp add: g)+
qed

lemma runs_visitTable:
  assumes g: "good r0 r" and i: "i < length (nodes r0)"
    and args: "args_below (rTree r0) n (nExtra node) (nCount node)"
  shows "runs r0 (visitTable v i node r)"
proof -
  have "receives r0 (getTableReceiver (length (nodes r)) i r)"
    by (rule receives_getTableReceiver [OF g]) (use i goodD(3) [OF g] in simp_all)
  then obtain d name r' where "getTableReceiver (length (nodes r)) i r = Some ((d, name), r')" "good r0 r'"
    by (auto simp: receives_def)
  then show ?thesis
    unfolding visitTable_def by (auto intro!: runs_forM runs_tableEntry [OF _ args])
qed

text \<open>Functions: the header may push the receiver of a method, which the end of the body removes.\<close>

lemma runs_body:
  assumes g: "good r0 r" and c: "below (rTree r0) n c"
    and ds: "\<And>d. d \<in> set ds \<Longrightarrow> node_id (rTree r0) d \<and> nKind (nodes r0 ! d) = KindMethodName"
  shows "runs r0 (v c (r\<lparr>rSelfStack := rSelfStack r @ ds\<rparr>) \<bind> (\<lambda>r.
           slice_opt (rSelfStack r) 0 (length (rSelfStack r0)) \<bind> (\<lambda>selfs. Some (r\<lparr>rSelfStack := selfs\<rparr>))))"
proof -
  let ?p = "r\<lparr>rSelfStack := rSelfStack r @ ds\<rparr>"
  have tree: "rTree r = rTree r0" by (rule goodD(3) [OF g])
  have wf: "wf_resolver r" "wf_resolver r0" using g by (simp_all add: good_def)
  have "wf_scopes ?p" using wf(1) ds tree unfolding wf_resolver_def wf_scopes_def by auto
  then have "good ?p ?p" using wf(1) by (intro good_refl) (simp add: wf_resolver_def)
  then obtain r' where r': "v c ?p = Some r'" "good ?p r'"
    using v_runs [of ?p ?p c] c tree by (auto simp: runs_def)
  have wf': "wf_resolver r'" by (rule goodD(1) [OF r'(2)])
  have self: "rSelfStack r' = rSelfStack r0 @ ds" "rTree r' = rTree r0"
    using r'(2) g by (simp_all add: good_def grows_def)
  have "wf_scopes (r'\<lparr>rSelfStack := rSelfStack r0\<rparr>)"
    using wf(2) wf' self unfolding wf_resolver_def wf_scopes_def by auto
  then have "wf_resolver (r'\<lparr>rSelfStack := rSelfStack r0\<rparr>)" using wf' by (simp add: wf_resolver_def)
  moreover have "grows r0 (r'\<lparr>rSelfStack := rSelfStack r0\<rparr>)"
    using r'(2) g by (auto simp: good_def grows_def intro: prefix_order.trans map_le_trans)
  ultimately have "good r0 (r'\<lparr>rSelfStack := rSelfStack r0\<rparr>)" using wf by (simp add: good_def)
  with r'(1) self show ?thesis by (simp add: slice_def)
qed

lemmas runs_body0 = runs_body [where ds = "[]", simplified]

lemma visitFunctionName_cases:
  assumes g: "good r0 r" and l: "below (rTree r0) n (nLeft node)"
  obtains r' where "visitFunctionName v node r = Some r'" "good r0 r'"
  | r' where "visitFunctionName v node r = Some (r'\<lparr>rSelfStack := rSelfStack r' @ [nLeft node]\<rparr>)" "good r0 r'"
      "node_id (rTree r0) (nLeft node)" "nKind (nodes r0 ! nLeft node) = KindMethodName"
proof -
  let ?l = "nodes r0 ! nLeft node"
  have tree: "wf_tree (rTree r0)" "rTree r = rTree r0" using goodD [OF g] by simp_all
  have len: "nLeft node < length (nodes r0)" by (rule below_length [OF l])
  have field: "runs r0 (v (nLeft ?l) r \<bind> defineField (nLeft node))"
    by (intro runs_bind v_runs g below_grandkids(1) [OF tree(1) l] runs_at len)
  have plain: "runs r0 (v (nLeft node) r)" "runs r0 (resolveReference (nLeft node) True r)"
    by (intro v_runs runs_at g l len)+
  have nid: "node_id (rTree r0) (nLeft node)" if "nKind ?l = KindMethodName"
    using that len wf_tree_node0 [OF tree(1)] by (cases "nLeft node = 0") (auto simp: node_id_def)
  show thesis
  proof (cases "nKind ?l = KindMethodName \<or> nKind ?l = KindMemberExpr")
    case True
    obtain r1 r2 where "v (nLeft ?l) r = Some r1" "defineField (nLeft node) r1 = Some r2" "good r0 r2"
      using field by (auto simp: runs_def bind_eq_Some_conv)
    with True that nid len tree(2) show ?thesis by (auto simp: visitFunctionName_def)
  next
    case False
    with plain len tree(2) have "runs r0 (visitFunctionName v node r)"
      by (simp add: visitFunctionName_def)
    with that(1) show ?thesis by (auto simp: runs_def)
  qed
qed

lemma runs_visitFunction:
  assumes g: "good r0 r" and i: "i < length (nodes r0)" "node = nodes r0 ! i"
    and kids: "below (rTree r0) n (nLeft node)" "below (rTree r0) n (nRight node)"
  shows "runs r0 (visitFunction v node r)"
  unfolding visit_inScope(5) Let_def
proof (rule runs_inScope [OF g])
  fix p
  assume p: "good p p" "rTree p = rTree r"
  then have tree: "rTree p = rTree r0" using goodD(3) [OF g] by simp
  let ?rest = "\<lambda>r1. v (nRight node) r1 \<bind> (\<lambda>r. slice_opt (rSelfStack r) 0 (length (rSelfStack p)) \<bind>
       (\<lambda>selfs. Some (r\<lparr>rSelfStack := selfs\<rparr>)))"
  have rest: "runs p (?rest r1)" if "good p r1" for r1
    using runs_body0 [OF that] kids(2) tree by simp
  show "runs p ((if nKind node = KindFunctionExpr then declareAll node p else visitFunctionName v node p) \<bind> ?rest)"
  proof (cases "nKind node = KindFunctionExpr")
    case True
    have "runs p (declareAll node p)" using runs_at(4) [OF p(1), of i] i tree by simp
    then show ?thesis using True rest by (auto intro: runs_bind)
  next
    case False
    have l: "below (rTree p) n (nLeft node)" using kids(1) tree by simp
    show ?thesis
    proof (rule visitFunctionName_cases [OF p(1) l])
      fix r'
      assume "visitFunctionName v node p = Some r'" "good p r'"
      with False rest show ?thesis by simp
    next
      fix r'
      assume r': "visitFunctionName v node p = Some (r'\<lparr>rSelfStack := rSelfStack r' @ [nLeft node]\<rparr>)" "good p r'"
        "node_id (rTree p) (nLeft node)" "nKind (nodes p ! nLeft node) = KindMethodName"
      have "runs p (?rest (r'\<lparr>rSelfStack := rSelfStack r' @ [nLeft node]\<rparr>))"
        by (rule runs_body [OF r'(2)]) (use kids(2) tree r'(3,4) in auto)
      with False r'(1) show ?thesis by simp
    qed
  qed
qed

lemma runs_visitForIn:
  assumes g: "good r0 r" and kids: "below (rTree r0) n (nLeft node)" "below (rTree r0) n (nRight node)"
    "below (rTree r0) n (nExtra node)"
  shows "runs r0 (visitForIn v node r)"
  unfolding visit_inScope(3)
proof (rule runs_bind [OF v_runs [OF g kids(3)]], rule runs_inScope, assumption)
  fix r p
  assume g': "good r0 r" and p: "good p p" "rTree p = rTree r"
  have tree: "rTree p = rTree r0" using goodD(3) [OF g'] p(2) by simp
  show "runs p (rNode (nLeft node) p \<bind> (\<lambda>nameList. declareAll nameList p \<bind> v (nRight node)))"
    by (intro runs_rNode runs_bind runs_at v_runs p(1)) (use kids tree in \<open>auto dest: below_length\<close>)
qed

lemma runs_visitForNum:
  assumes g: "good r0 r" and kids: "below (rTree r0) n (nLeft node)" "below (rTree r0) n (nRight node)"
    "args_below (rTree r0) n (nExtra node) (nCount node)"
  shows "runs r0 (visitForNum v node r)"
  unfolding visit_inScope(2)
proof (rule runs_bind [OF runs_visitArgs [OF g kids(3)]], rule runs_inScope, assumption)
  fix r p
  assume g': "good r0 r" and p: "good p p" "rTree p = rTree r"
  have tree: "rTree p = rTree r0" using goodD(3) [OF g'] p(2) by simp
  show "runs p (declare_ident (nLeft node) p \<bind> v (nRight node))"
    by (intro runs_bind runs_at v_runs p(1)) (use kids tree in \<open>auto dest: below_length\<close>)
qed

lemma runs_visitRepeat:
  assumes g: "good r0 r" and kids: "below (rTree r0) n (nLeft node)" "below (rTree r0) n (nRight node)"
  shows "runs r0 (visitRepeat v node r)"
  unfolding visit_inScope(4)
proof (rule runs_inScope [OF g])
  fix p
  assume p: "good p p" "rTree p = rTree r"
  then have tree: "rTree p = rTree r0" "wf_tree (rTree p)" using goodD [OF g] by simp_all
  show "runs p (rNode (nLeft node) p \<bind> (\<lambda>block. visitArgs v (nExtra block) (nCount block) p \<bind> v (nRight node)))"
    by (intro runs_rNode runs_bind runs_visitArgs v_runs p(1) below_grandkids(3) [OF tree(2)])
       (use kids tree in \<open>auto dest: below_length\<close>)
qed

lemma runs_visitBlock:
  assumes g: "good r0 r" and args: "args_below (rTree r0) n (nExtra node) (nCount node)"
  shows "runs r0 (visitBlock v node r)"
  unfolding visit_inScope(1)
  by (rule runs_inScope [OF g], rule runs_visitArgs) (use args goodD(3) [OF g] in auto)

text \<open>The whole body of \<open>visit\<close>, one level up.\<close>

lemma runs_visitBody:
  assumes g: "good r0 r" and i: "below (rTree r0) (Suc n) i"
  shows "runs r0 (visitBody v i r)"
proof (cases "i = InvalidNode")
  case False
  let ?n = "nodes r0 ! i"
  have tree: "wf_tree (rTree r0)" using goodD [OF g] by simp
  have len: "i < length (nodes r0)" by (rule below_length [OF i])
  have kids: "below (rTree r0) n (nLeft ?n)" "below (rTree r0) n (nRight ?n)"
    "args_below (rTree r0) n (nExtra ?n) (nCount ?n)"
    "nKind ?n = KindForIn \<Longrightarrow> below (rTree r0) n (nExtra ?n)"
    using below_kids [OF tree len, of n] False i by (simp_all add: below_def)
  have names: "runs r0 (visitLocalAssign v ?n r)"
    unfolding visitLocalAssign_def
    by (intro runs_bind runs_rNode v_runs runs_at g kids below_length [OF kids(1)])
  have local: "runs r0 (declare_ident (nLeft ?n) r \<bind> v (nRight ?n))"
    by (intro runs_bind v_runs runs_at g kids below_length [OF kids(1)])
  have calls: "runs r0 (v (nLeft ?n) r \<bind> visitArgs v (nExtra ?n) (nCount ?n))"
    by (intro runs_bind run_visit g kids(1-3))
  have ifs: "runs r0 (visitIf v ?n r)"
    unfolding visitIf_def by (rule runs_bind) (auto intro: run_visit g kids(1-3))
  have func: "runs r0 (visitFunction v ?n r)"
    by (rule runs_visitFunction [OF g len refl kids(1,2)])
  note cases = run_visit runs_visitBlock runs_visitForNum runs_visitForIn runs_visitAssign
    runs_visitMember runs_visitTable runs_visitRepeat runs_at
  have "runs r0 (rNode i r \<bind> (\<lambda>n. visitBody v i r))"
    using False
    unfolding visitBody_def
    by (intro runs_rNode [OF g len])
       (cases "nKind ?n"; simp add: cases g kids len names local calls ifs func goodD(3) [OF g])
  then show ?thesis using len goodD(3) [OF g] by simp
qed (use g in \<open>simp add: visitBody_def\<close>)

end

section \<open>The walk as a whole\<close>

lemma visitor_visit: "visitor (visit n) n"
proof (induction n)
  case 0
  show ?case by unfold_locales (simp add: below_def)
next
  case (Suc n)
  then show ?case by unfold_locales (simp add: visitor.runs_visitBody)
qed

interpretation walk: visitor "visit n" n for n
  by (rule visitor_visit)

lemma wf_Resolver_New: "wf_tree t \<Longrightarrow> wf_resolver (Resolver_New t)"
  by (simp add: Resolver_New_def wf_resolver_defs)

lemma runs_linkField:
  assumes g: "good r0 r" and p: "pending_ok (rTree r0) p"
  shows "runs r0 (linkField p r)"
proof (cases "rFieldMap r \<lparr>fkRecDef = frReceiverDef p, fkRecHash = frReceiverHash p, fkPropHash = frPropHash p\<rparr>")
  case (Some d)
  have tree: "rTree r = rTree r0" by (rule goodD(3) [OF g])
  have "wf_fields r" using goodD(1) [OF g] by (simp add: wf_resolver_def)
  with Some obtain f where "f \<in> set (rFieldDefs r)" "fdNodeID f = d" "fdPropHash f = frPropHash p"
    unfolding wf_fields_def by (fastforce simp: fieldKey_def)
  then have "justified r (frPropNodeID p) d" using p tree by (auto simp: justified_def pending_ok_def)
  with Some p show ?thesis
    using runs_setReference [OF g] tree by (simp add: linkField_def pending_ok_def)
qed (use g in \<open>simp add: linkField_def\<close>)

lemma Resolve_good:
  assumes wf: "wf_resolver r" and root: "root < length (nodes r)"
  obtains r1 r2 where "visit (Suc (length (nodes r))) root r = Some r1" "good r r1"
    "forM (rPendingFields r1) linkField r1 = Some r2" "Resolve root r = Some r2" "good r1 r2" "good r r2"
proof -
  have "runs r (visit (Suc (length (nodes r))) root r)"
    by (rule walk.v_runs [OF good_refl [OF wf]]) (use root in \<open>simp add: below_def\<close>)
  then obtain r1 where 1: "visit (Suc (length (nodes r))) root r = Some r1" "good r r1"
    by (auto simp: runs_def)
  have wf1: "wf_resolver r1" by (rule goodD(1) [OF 1(2)])
  then have pend: "pending_ok (rTree r1) p" if "p \<in> set (rPendingFields r1)" for p
    using that by (simp add: wf_resolver_def wf_fields_def)
  have "runs r1 (forM (rPendingFields r1) linkField r1)"
    by (rule runs_forM [OF good_refl [OF wf1]], rule runs_linkField) (simp_all add: pend)
  then obtain r2 where 2: "forM (rPendingFields r1) linkField r1 = Some r2" "good r1 r2"
    by (auto simp: runs_def)
  have "Resolve root r = Some r2" using 1(1) 2(1) by (simp add: Resolve_def)
  with 1 2 that show thesis using good_trans by blast
qed

lemma New_Resolve_good:
  assumes "wf_tree t" and "root < length (Nodes t)"
  obtains r where "Resolve root (Resolver_New t) = Some r" "good (Resolver_New t) r" "rTree r = t"
proof (rule Resolve_good [OF wf_Resolver_New [OF assms(1)], of root])
  show "root < length (nodes (Resolver_New t))" using assms(2) by (simp add: Resolver_New_def)
next
  fix r1 r2
  assume r: "Resolve root (Resolver_New t) = Some r2" "good (Resolver_New t) r2"
  from goodD(3) [OF r(2)] have "rTree r2 = t" by (simp add: Resolver_New_def)
  with r show thesis by (rule that)
qed

section \<open>Properties of the resolver\<close>

text \<open>
  C5. Resolution is total: on every well-formed tree and from every root, a new resolver's
  \<open>Resolve\<close> terminates without a run-time panic (no index or slice out of range in any table),
  with the fuel of one visit per node number; the tree is unchanged, the table of references
  keeps the size of the tree, and the scope and receiver bookkeeping is balanced.
\<close>

theorem Resolve_total:
  assumes "wf_tree t" and "root < length (Nodes t)"
  shows "\<exists>r. Resolve root (Resolver_New t) = Some r \<and> rTree r = t \<and>
           length (rReferences r) = length (Nodes t) \<and> rScopeStarts r = [] \<and> rSelfStack r = []"
proof -
  obtain r where "Resolve root (Resolver_New t) = Some r" "good (Resolver_New t) r" "rTree r = t"
    by (rule New_Resolve_good [OF assms])
  then show ?thesis
    using goodD(4) [of "Resolver_New t" r] by (simp add: good_def grows_def Resolver_New_def)
qed

text \<open>A tree for \<open>local x\<close> and a use of \<open>x\<close>: nodes 1 and 2 are the two identifiers.\<close>

definition sampleUse :: Tree where
  "sampleUse = (NewTree ''x x'')\<lparr>Nodes := [invalidNode, mkNode KindIdent 0 1, mkNode KindIdent 2 3,
     (mkNode KindNameList 0 1)\<lparr>nCount := 1, nExtra := 0\<rparr>,
     (mkNode KindLocalAssign 0 1)\<lparr>nLeft := 3\<rparr>,
     (mkNode KindBlock 0 3)\<lparr>nCount := 2, nExtra := 1\<rparr>], ExtraList := [1, 4, 2], Root := 5\<rparr>"

lemma wf_sampleUse: "wf_tree sampleUse"
  by (simp add: sampleUse_def NewTree_def wf_tree_def wf_node_def wf_parent_def mkNode_def
      All_less_Suc numeral_nat)

theorem Resolve_total_witness:
  "\<exists>r. Resolve 5 (Resolver_New sampleUse) = Some r \<and> rTree r = sampleUse \<and> length (rReferences r) = 6"
  using Resolve_total [OF wf_sampleUse, of 5] by (auto simp: sampleUse_def)

text \<open>
  C6. References are sound: after \<open>Resolve\<close> on a well-formed tree, every node that refers to
  something refers to a node of the tree for one of three reasons: a declared local with exactly
  the same text; a use of \<open>self\<close> that refers to the name of a method; or a recorded field
  definition whose name has the hash of the node's own text.
\<close>

theorem Resolve_references_sound:
  assumes "wf_tree t" and "root < length (Nodes t)" and "Resolve root (Resolver_New t) = Some r"
    and "i < length (Nodes t)" and "rReferences r ! i \<noteq> InvalidNode"
  shows "rReferences r ! i < length (Nodes t) \<and> justified r i (rReferences r ! i)"
proof -
  obtain r' where "Resolve root (Resolver_New t) = Some r'" "good (Resolver_New t) r'" "rTree r' = t"
    by (rule New_Resolve_good [OF assms(1,2)])
  then have wf: "wf_resolver r" and tree: "rTree r = t"
    using goodD(1) [of "Resolver_New t" r'] assms(3) by simp_all
  have just: "justified r i (rReferences r ! i)"
    using wf assms(4,5) tree by (simp add: wf_resolver_def wf_links_def)
  then have "node_id t (rReferences r ! i)"
    using wf tree unfolding justified_def wf_resolver_def wf_scopes_def wf_fields_def
    by (auto simp: field_ok_def)
  with just show ?thesis by (simp add: node_id_def)
qed

lemma sampleUse_resolved: "map_option rReferences (Resolve 5 (Resolver_New sampleUse)) = Some [0, 1, 1, 0, 0, 0]"
  by (simp add: sampleUse_def Resolver_New_def NewTree_def Resolve_def visitBody_def visitBlock_def
      visitArgs_def visitLocalAssign_def declareAll_def declare_ident_def resolveReference_def
      setReference_def source_def rNode_def rExtra_def pushScope_def popScope_def mkNode_def Let_def
      numeral_nat isPlainName_def slice_def slice_opt_def nth_opt_def upd_opt_def)

theorem Resolve_references_sound_witness:
  "\<exists>r. Resolve 5 (Resolver_New sampleUse) = Some r \<and> rReferences r ! 2 = 1 \<and> justified r 2 1"
proof -
  obtain r where r: "Resolve 5 (Resolver_New sampleUse) = Some r" "rReferences r = [0, 1, 1, 0, 0, 0]"
    using sampleUse_resolved by auto
  then show ?thesis
    using Resolve_references_sound [OF wf_sampleUse _ r(1), of 2] by (simp add: sampleUse_def)
qed

text \<open>
  C7. A name refers to the innermost declaration: \<open>resolveReference\<close> links a non-empty name to
  the last entry of the scope stack that spells it, whatever comes before. Only when there is
  none does it fall back: \<open>self\<close> goes to the innermost enclosing method, and any other name is
  recorded as a global definition or a global use.
\<close>

theorem resolveReference_innermost:
  assumes "wf_resolver r" and "node_id (rTree r) i" and "nodeText (rTree r) i \<noteq> []"
  shows "resolveReference i isDef r =
     (case filter (\<lambda>d. nodeText (rTree r) d = nodeText (rTree r) i) (rScopeStack r) of
        [] \<Rightarrow> Some (if nodeText (rTree r) i = ''self''
                   then (if rSelfStack r = [] then r
                         else r\<lparr>rReferences := (rReferences r)[i := last (rSelfStack r)]\<rparr>)
                   else if isDef then r\<lparr>rGlobalDefs := rGlobalDefs r @ [i]\<rparr>
                   else r\<lparr>rGlobalRefs := rGlobalRefs r @ [i]\<rparr>)
      | d # ds \<Rightarrow> Some (r\<lparr>rReferences := (rReferences r)[i := last (d # ds)]\<rparr>))"
proof -
  obtain found where f: "innermost r (nodeText (rTree r) i) (length (rScopeStack r)) found"
    "resolveReference i isDef r = resolveWith i isDef found r"
    using resolveReference_eq [OF assms] by blast
  have "i < length (rReferences r)" using assms(1,2) by (simp add: wf_resolver_def wf_links_def node_id_def)
  then show ?thesis
    unfolding f(2) using innermost_last [OF f(1)]
    by (auto simp: resolveWith_def setReference_def Let_def split: list.splits option.splits if_splits)
qed

text \<open>The declaration of \<open>x\<close> is in scope and the second \<open>x\<close> is looked up.\<close>

definition sampleScope :: Resolver where
  "sampleScope = (Resolver_New sampleUse)\<lparr>rLocalDefs := [1], rScopeStack := [1]\<rparr>"

lemma sampleScope_wf:
  "wf_resolver sampleScope" "node_id (rTree sampleScope) 2" "nodeText (rTree sampleScope) 2 = ''x''"
  "nodeText (rTree sampleScope) 1 = ''x''"
proof -
  have "node_id sampleUse 1" by (simp add: sampleUse_def node_id_def)
  then show "wf_resolver sampleScope"
    by (simp add: sampleScope_def Resolver_New_def wf_resolver_defs wf_sampleUse)
qed (simp_all add: sampleScope_def Resolver_New_def sampleUse_def node_id_def nodeText_def mkNode_def
      NewTree_def slice_def)

theorem resolveReference_innermost_witness:
  "resolveReference 2 False sampleScope = Some (sampleScope\<lparr>rReferences := (rReferences sampleScope)[2 := 1]\<rparr>)"
  using resolveReference_innermost [OF sampleScope_wf(1,2), of False] sampleScope_wf(3,4)
  by (simp add: sampleScope_def)

lemma isPlainName_iff:
  "isPlainName name \<longleftrightarrow> name \<noteq> [] \<and> hd name \<noteq> CHR ''_'' \<and> \<not> prefix ''...'' name"
proof -
  have "prefix ''...'' name \<longleftrightarrow> 2 < length name \<and> name ! 0 = CHR ''.'' \<and> name ! 1 = CHR ''.'' \<and> name ! 2 = CHR ''.''"
    by (cases name; cases "tl name"; cases "tl (tl name)") auto
  then show ?thesis by (auto simp: isPlainName_def hd_conv_nth)
qed

text \<open>
  C8. What a declaration records: the name is added to the innermost scope and to the local
  definitions, and refers to itself. A name that the current scope already declares is reported as a
  duplicate; one that only outer scopes declare is reported as shadowing the innermost of these
  declarations; any other name is reported in neither list, and so is, whatever is in scope, a name
  that is empty or starts with an underscore or with three dots.
\<close>

theorem declare_classifies:
  assumes "wf_resolver r" and "node_id (rTree r) i"
  shows "\<exists>r'. declare_ident i r = Some r' \<and> rScopeStack r' = rScopeStack r @ [i] \<and>
     rLocalDefs r' = rLocalDefs r @ [i] \<and> rReferences r' ! i = i \<and>
     (let name = nodeText (rTree r) i;
          checked = (name \<noteq> [] \<and> hd name \<noteq> CHR ''_'' \<and> \<not> prefix ''...'' name);
          same = filter (\<lambda>d. nodeText (rTree r) d = name);
          inner = same (drop (scopeStart r) (rScopeStack r));
          outer = same (take (scopeStart r) (rScopeStack r))
      in rDuplicateLocals r' = rDuplicateLocals r @ (if checked \<and> inner \<noteq> [] then [i] else []) \<and>
         rShadowedOuter r' = rShadowedOuter r @
           (if checked \<and> inner = [] \<and> outer \<noteq> [] then [\<lparr>spShadowing = i, spShadowed = last outer\<rparr>] else []))"
proof -
  let ?same = "filter (\<lambda>d. nodeText (rTree r) d = nodeText (rTree r) i)"
  let ?r = "r\<lparr>rReferences := (rReferences r)[i := i], rLocalDefs := rLocalDefs r @ [i],
          rScopeStack := rScopeStack r @ [i]\<rparr>"
  note plain = isPlainName_iff [of "nodeText (rTree r) i"]
  obtain found where f: "innermost r (nodeText (rTree r) i) (length (rScopeStack r)) found"
    "declare_ident i r = Some (recordName i (if isPlainName (nodeText (rTree r) i) then found else None) ?r)"
    using declare_ident_eq [OF assms(1,2)] by auto
  have len: "i < length (rReferences r)"
    using assms(1,2) by (simp add: wf_resolver_def wf_links_def node_id_def)
  have start: "scopeStart ?r = scopeStart r" by (simp add: scopeStart_def)
  have all: "?same (rScopeStack r) = ?same (take (scopeStart r) (rScopeStack r)) @ ?same (drop (scopeStart r) (rScopeStack r))"
    by (simp flip: filter_append)
  show ?thesis
  proof (cases "isPlainName (nodeText (rTree r) i)")
    case False
    note skipped = False [unfolded plain]
    from False f(2) len skipped show ?thesis by (auto simp: recordName_def Let_def)
  next
    case True
    note f = f [unfolded if_P [OF True]] and plain = plain [THEN iffD1, OF True]
    show ?thesis
    proof (cases found)
      case None
      with innermost_last [OF f(1)] have "?same (rScopeStack r) = []" by (auto simp: Let_def split: if_splits)
      with None f(2) all len show ?thesis by (simp add: recordName_def Let_def)
    next
      case (Some x)
      obtain j d where x: "x = (j, d)" by (cases x)
      have last: "?same (rScopeStack r) \<noteq> []" "last (?same (rScopeStack r)) = d"
        using innermost_last [OF f(1)] Some x by (auto simp: Let_def split: if_splits)
      have inner: "?same (drop (scopeStart r) (rScopeStack r)) \<noteq> [] \<longleftrightarrow> scopeStart r \<le> j"
        using innermost_inner [of r _ j d] f(1) Some x by blast
      show ?thesis
        using f(2) Some x last all inner len start plain by (auto simp: recordName_def Let_def)
    qed
  qed
qed

theorem declare_classifies_witness:
  "\<exists>r'. declare_ident 2 sampleScope = Some r' \<and> rScopeStack r' = [1, 2] \<and> rDuplicateLocals r' = [2] \<and>
     rShadowedOuter r' = []"
proof -
  have "rScopeStack sampleScope = [1]" "scopeStart sampleScope = 0"
    "rDuplicateLocals sampleScope = []" "rShadowedOuter sampleScope = []"
    by (simp_all add: sampleScope_def Resolver_New_def scopeStart_def)
  then show ?thesis
    using declare_classifies [OF sampleScope_wf(1,2)] sampleScope_wf(3,4) by (auto simp: Let_def)
qed

text \<open>
  C9. Scopes are restored: whatever a block, a function or a repeat loop declares inside, the walk
  leaves the scope stack, the scope starts and the stack of method receivers exactly as they were
  before, so nothing declared inside is visible after it.
\<close>

theorem visit_restores_scope:
  assumes "wf_resolver r" and "i < length (Nodes (rTree r))" and "i < n"
    and "nKind (Nodes (rTree r) ! i) \<in> {KindBlock, KindFunctionExpr, KindFunctionStmt, KindRepeat}"
  shows "\<exists>r'. visit n i r = Some r' \<and> rScopeStack r' = rScopeStack r \<and>
           rScopeStarts r' = rScopeStarts r \<and> rSelfStack r' = rSelfStack r"
proof -
  obtain r' where r': "visit n i r = Some r'" "good r r'"
    using walk.v_runs [OF good_refl [OF assms(1)], of n i] assms(2,3) by (auto simp: runs_def below_def)
  have i: "i \<noteq> InvalidNode"
    using assms(1,4) wf_tree_node0 [of "rTree r"] by (cases "i = 0") (auto simp: wf_resolver_def)
  obtain m where n: "n = Suc m" using assms(3) by (cases n) auto
  have "\<exists>body. visit n i r = inScope body r"
    using assms(2,4) i unfolding n by (auto simp: visitBody_def visit_inScope)
  then obtain body where "inScope body r = Some r'" using r'(1) by auto
  then obtain p where "r' = popScope (length (rScopeStack r)) p"
    by (auto simp: inScope_def bind_eq_Some_conv pushScope_def Let_def)
  then have "length (rScopeStack r') \<le> length (rScopeStack r)" by (simp add: popScope_def Let_def)
  moreover have "prefix (rScopeStack r) (rScopeStack r')" using r'(2) by (simp add: good_def grows_def)
  ultimately have "rScopeStack r' = rScopeStack r" by (auto simp: prefix_def)
  with r' show ?thesis by (simp add: good_def grows_def)
qed

theorem visit_restores_scope_witness:
  "\<exists>r'. visit 6 5 sampleScope = Some r' \<and> rScopeStack r' = [1]"
  using visit_restores_scope [OF sampleScope_wf(1), of 5 6]
  by (auto simp: sampleScope_def Resolver_New_def sampleUse_def mkNode_def)

section \<open>Fields across the file\<close>

lemma linkField_Some:
  assumes "linkField p r = Some r'"
  shows "rFieldMap r' = rFieldMap r" "rPendingFields r' = rPendingFields r"
    "length (rReferences r') = length (rReferences r)"
    "i \<noteq> frPropNodeID p \<Longrightarrow> rReferences r' ! i = rReferences r ! i"
  using assms
  by (auto simp: linkField_def setReference_def bind_eq_Some_conv upd_opt_eq_Some_iff split: option.splits)

lemma forM_linkField_map:
  "forM ps linkField r = Some r' \<Longrightarrow> rFieldMap r' = rFieldMap r \<and> rPendingFields r' = rPendingFields r"
proof (induction ps arbitrary: r)
  case (Cons p ps)
  then obtain r1 where "linkField p r = Some r1" "forM ps linkField r1 = Some r'"
    by (auto simp: bind_eq_Some_conv)
  with Cons.IH [of r1] linkField_Some [of p r r1] show ?case by auto
qed simp

lemma forM_linkField_stays:
  "forM qs linkField r = Some r' \<Longrightarrow>
     \<forall>q \<in> set qs. frPropNodeID q = i \<longrightarrow>
       rFieldMap r \<lparr>fkRecDef = frReceiverDef q, fkRecHash = frReceiverHash q, fkPropHash = frPropHash q\<rparr> \<in> {None, Some d} \<Longrightarrow>
     rReferences r ! i = d \<Longrightarrow> rReferences r' ! i = d"
proof (induction qs arbitrary: r)
  case (Cons q qs)
  then obtain r1 where r1: "linkField q r = Some r1" "forM qs linkField r1 = Some r'"
    by (auto simp: bind_eq_Some_conv)
  have "rReferences r1 ! i = d"
  proof (cases "i = frPropNodeID q")
    case True
    with r1(1) Cons.prems(2,3) show ?thesis
      by (auto simp: linkField_def setReference_def bind_eq_Some_conv upd_opt_eq_Some_iff split: option.splits)
  qed (use linkField_Some(4) [OF r1(1)] Cons.prems(3) in simp)
  then show ?case
    using Cons.IH [OF r1(2)] Cons.prems(2) linkField_Some(1) [OF r1(1)] by simp
qed simp

text \<open>
  C10. Field uses are linked after the walk, so the order of definition and use does not matter: if
  the receiver and the field of a recorded use are a key of the field map at the end of the walk,
  the use refers to the definition the map gives, wherever in the file it stands, unless the same
  node was recorded again later with a key that the map gives another definition; and the node it
  refers to is recorded as a field definition of that receiver and field. The keys of the map are the
  fields of assignments and of function names; the fields of table constructors are recorded as
  definitions only, and uses are not linked to them.
\<close>

theorem Resolve_links_fields:
  assumes "wf_tree t" and "root < length (Nodes t)" and "Resolve root (Resolver_New t) = Some r"
    and "rPendingFields r = ps @ p # qs"
    and "rFieldMap r \<lparr>fkRecDef = frReceiverDef p, fkRecHash = frReceiverHash p, fkPropHash = frPropHash p\<rparr> = Some d"
    and "\<forall>q \<in> set qs. frPropNodeID q = frPropNodeID p \<longrightarrow>
           rFieldMap r \<lparr>fkRecDef = frReceiverDef q, fkRecHash = frReceiverHash q, fkPropHash = frPropHash q\<rparr> \<in> {None, Some d}"
  shows "rReferences r ! frPropNodeID p = d \<and>
         (\<exists>f \<in> set (rFieldDefs r). fdNodeID f = d \<and> fdReceiverDef f = frReceiverDef p \<and>
            fdReceiverHash f = frReceiverHash p \<and> fdPropHash f = frPropHash p)"
proof -
  have root: "root < length (nodes (Resolver_New t))" using assms(2) by (simp add: Resolver_New_def)
  obtain r1 where r1: "forM (rPendingFields r1) linkField r1 = Some r" "good (Resolver_New t) r"
    by (rule Resolve_good [OF wf_Resolver_New [OF assms(1)] root]) (use assms(3) in auto)
  then have ps: "rPendingFields r1 = ps @ p # qs" "rFieldMap r1 = rFieldMap r"
    using forM_linkField_map [OF r1(1)] assms(4) by simp_all
  then obtain s s' where s: "forM ps linkField r1 = Some s" "linkField p s = Some s'"
    "forM qs linkField s' = Some r"
    using r1(1) by (auto simp: forM_append bind_eq_Some_conv)
  have "rFieldMap s = rFieldMap r" using forM_linkField_map [OF s(1)] ps(2) by simp
  with s(2) assms(5) have "rReferences s' ! frPropNodeID p = d"
    by (auto simp: linkField_def setReference_def bind_eq_Some_conv upd_opt_eq_Some_iff)
  then have "rReferences r ! frPropNodeID p = d"
    using forM_linkField_stays [OF s(3)] forM_linkField_map [OF s(3)] assms(6) by simp
  moreover have "wf_fields r" using goodD(1) [OF r1(2)] by (simp add: wf_resolver_def)
  ultimately show ?thesis
    using assms(5) unfolding wf_fields_def by (fastforce simp: fieldKey_def)
qed

text \<open>The tree of \<open>a.b=a.b\<close>.\<close>

definition sampleField :: Tree where
  "sampleField = (NewTree ''a.b=a.b'')\<lparr>Nodes := [invalidNode,
     mkNode KindIdent 0 1, mkNode KindIdent 2 3, (mkNode KindMemberExpr 0 3)\<lparr>nLeft := 1, nRight := 2\<rparr>,
     (mkNode KindExprList 0 3)\<lparr>nCount := 1, nExtra := 0\<rparr>,
     mkNode KindIdent 4 5, mkNode KindIdent 6 7, (mkNode KindMemberExpr 4 7)\<lparr>nLeft := 5, nRight := 6\<rparr>,
     (mkNode KindExprList 4 7)\<lparr>nCount := 1, nExtra := 1\<rparr>,
     (mkNode KindAssign 0 7)\<lparr>nLeft := 4, nRight := 8\<rparr>], ExtraList := [3, 7], Root := 9\<rparr>"

lemma wf_sampleField: "wf_tree sampleField"
  by (simp add: sampleField_def NewTree_def wf_tree_def wf_node_def wf_parent_def mkNode_def
      All_less_Suc numeral_nat)

lemma sampleField_resolved:
  "map_option (\<lambda>r. (rPendingFields r, rFieldMap r \<lparr>fkRecDef = 0, fkRecHash = HashBytes ''a'', fkPropHash = HashBytes ''b''\<rparr>))
     (Resolve 9 (Resolver_New sampleField)) =
   Some ([\<lparr>frPropNodeID = 6, frReceiverDef = 0, frReceiverHash = HashBytes ''a'', frReceiverName = ''a'',
           frPropHash = HashBytes ''b''\<rparr>], Some 2)"
  by (simp add: sampleField_def Resolver_New_def NewTree_def Resolve_def visitBody_def visitAssign_def
      visitArgs_def assignOne_def visitMember_def defineField_def getReceiverContextArena_def
      receiverRoot.simps buildMemberName.simps resolveReference_def linkField_def
      setReference_def source_def rNode_def rExtra_def mkNode_def Let_def
      numeral_nat slice_def slice_opt_def nth_opt_def upd_opt_def)

theorem Resolve_links_fields_witness:
  "\<exists>r. Resolve 9 (Resolver_New sampleField) = Some r \<and> rReferences r ! 6 = 2"
proof -
  obtain r where r: "Resolve 9 (Resolver_New sampleField) = Some r"
    "rPendingFields r = [] @ [\<lparr>frPropNodeID = 6, frReceiverDef = 0, frReceiverHash = HashBytes ''a'',
       frReceiverName = ''a'', frPropHash = HashBytes ''b''\<rparr>]"
    "rFieldMap r \<lparr>fkRecDef = 0, fkRecHash = HashBytes ''a'', fkPropHash = HashBytes ''b''\<rparr> = Some 2"
    using sampleField_resolved by auto
  have "9 < length (Nodes sampleField)" by (simp add: sampleField_def)
  from Resolve_links_fields [OF wf_sampleField this r(1,2)] r(1,3) show ?thesis by simp
qed

text \<open>A resolver can be used again: \<open>Reset\<close> makes any resolver equal to a new one for its
  tree, so the next \<open>Resolve\<close> has the same outcome, whatever the old tables held and whether
  or not the backing array of the references is large enough to be kept.
\<close>

lemma Resolver_Reset_eq_New: "Resolver_Reset backing r = Resolver_New (rTree r)"
proof -
  have "map (\<lambda>_. 0) xs = replicate (length xs) (0::nat)" for xs :: "nat list"
    by (induction xs) simp_all
  then show ?thesis
    by (cases r) (simp add: Resolver_Reset_def Resolver_New_def Let_def)
qed

end
