(* ===== verification/Dep_Graph.thy ===== *)
theory Dep_Graph
  imports Prelude "HOL-Library.Char_ord" "HOL-Library.List_Lexorder"
begin

text \<open>
  The dependency graph of FiveM resources (type \<open>DependencyGraph\<close> of
  \<open>src/lsp/global_index.go\<close>): the two adjacency maps and their maintenance, the depth-first
  search for cycles, and Kahn's algorithm for the order in which resources are indexed.

  A Go map is a partial function with a finite domain, and a \<open>map[K]struct{}\<close> used as a set is a
  set; where the code iterates over a map and then sorts, the model takes the sorted list of the
  domain at once. Strings are ordered byte by byte, as in Go.
\<close>

type_synonym ResourceURI = string

record DependencyGraph =
  Dependencies :: "ResourceURI \<rightharpoonup> ResourceURI set"
  Dependents :: "ResourceURI \<rightharpoonup> ResourceURI set"

section \<open>Maintenance\<close>

definition NewDependencyGraph :: DependencyGraph where
  "NewDependencyGraph = \<lparr>Dependencies = Map.empty, Dependents = Map.empty\<rparr>"

text \<open>Reading a missing key of a map of sets gives the nil map, which is empty.\<close>

definition setAt :: "(ResourceURI \<rightharpoonup> ResourceURI set) \<Rightarrow> ResourceURI \<Rightarrow> ResourceURI set" where
  "setAt m u = (case m u of None \<Rightarrow> {} | Some S \<Rightarrow> S)"

definition AddResource :: "ResourceURI \<Rightarrow> DependencyGraph \<Rightarrow> DependencyGraph" where
  "AddResource uri g =
     (if uri = '''' then g
      else let g = (if Dependencies g uri = None
                    then g\<lparr>Dependencies := (Dependencies g)(uri \<mapsto> {})\<rparr> else g)
           in if Dependents g uri = None
              then g\<lparr>Dependents := (Dependents g)(uri \<mapsto> {})\<rparr> else g)"

text \<open>The first loop of \<open>SetDependencies\<close> removes \<open>uri\<close> from the dependents of each of its old
  dependencies; deleting from a missing map does nothing.\<close>

definition dropDependent :: "ResourceURI \<Rightarrow> ResourceURI set \<Rightarrow> (ResourceURI \<rightharpoonup> ResourceURI set) \<Rightarrow>
    (ResourceURI \<rightharpoonup> ResourceURI set)" where
  "dropDependent uri deps m = (\<lambda>d. if d \<in> deps then map_option (\<lambda>S. S - {uri}) (m d) else m d)"

definition addDependency :: "ResourceURI \<Rightarrow> ResourceURI \<Rightarrow> DependencyGraph \<Rightarrow> DependencyGraph" where
  "addDependency uri dep g =
     (if dep = '''' \<or> dep = uri then g
      else let g = AddResource dep g
           in g\<lparr>Dependencies := (Dependencies g)(uri \<mapsto> insert dep (setAt (Dependencies g) uri)),
                Dependents := (Dependents g)(dep \<mapsto> insert uri (setAt (Dependents g) dep))\<rparr>)"

definition SetDependencies :: "ResourceURI \<Rightarrow> ResourceURI list \<Rightarrow> DependencyGraph \<Rightarrow> DependencyGraph" where
  "SetDependencies uri deps g =
     (if uri = '''' then g
      else let g = AddResource uri g;
               g = g\<lparr>Dependents := dropDependent uri (setAt (Dependencies g) uri) (Dependents g)\<rparr>;
               g = g\<lparr>Dependencies := (Dependencies g)(uri \<mapsto> {})\<rparr>
           in fold (addDependency uri) deps g)"

definition DependencyList :: "ResourceURI \<Rightarrow> DependencyGraph \<Rightarrow> ResourceURI list" where
  "DependencyList uri g = sorted_list_of_set (setAt (Dependencies g) uri)"

definition DependentList :: "ResourceURI \<Rightarrow> DependencyGraph \<Rightarrow> ResourceURI list" where
  "DependentList uri g = sorted_list_of_set (setAt (Dependents g) uri)"

section \<open>The search for cycles\<close>

datatype VisitState = Unvisited | Visiting | Visited

record CycleSearch =
  csState :: "ResourceURI \<Rightarrow> VisitState"
  csStack :: "ResourceURI list"
  csCycles :: "ResourceURI list list"

text \<open>The loop that copies the stack from its top down to the dependency: the stack is given with
  its top first.\<close>

primrec copyUntil :: "ResourceURI \<Rightarrow> ResourceURI list \<Rightarrow> ResourceURI list" where
  "copyUntil dep [] = []"
| "copyUntil dep (u # stack) = u # (if u = dep then [] else copyUntil dep stack)"

definition foundCycle :: "ResourceURI \<Rightarrow> CycleSearch \<Rightarrow> CycleSearch" where
  "foundCycle dep s =
     s\<lparr>csCycles := csCycles s @ [rev (dep # copyUntil dep (rev (csStack s)))]\<rparr>"

text \<open>The closure \<open>visit\<close>, with fuel for its recursion; each nested call marks one more resource.\<close>

primrec visitResource :: "nat \<Rightarrow> DependencyGraph \<Rightarrow> ResourceURI \<Rightarrow> CycleSearch \<Rightarrow> CycleSearch option" where
  "visitResource 0 g uri s = None"
| "visitResource (Suc n) g uri s = do {
     let s = s\<lparr>csState := (csState s)(uri := Visiting), csStack := csStack s @ [uri]\<rparr>;
     s \<leftarrow> forM (DependencyList uri g) (\<lambda>dep s.
            case csState s dep of
              Unvisited \<Rightarrow> visitResource n g dep s
            | Visiting \<Rightarrow> Some (foundCycle dep s)
            | Visited \<Rightarrow> Some s) s;
     Some (s\<lparr>csStack := butlast (csStack s), csState := (csState s)(uri := Visited)\<rparr>)
   }"

definition detectCycles :: "DependencyGraph \<Rightarrow> ResourceURI list list option" where
  "detectCycles g = do {
     let resources = sorted_list_of_set (dom (Dependencies g));
     s \<leftarrow> forM resources (\<lambda>uri s.
            if csState s uri = Unvisited then visitResource (length resources) g uri s else Some s)
          \<lparr>csState = \<lambda>_. Unvisited, csStack = [], csCycles = []\<rparr>;
     Some (csCycles s)
   }"

section \<open>The topological order\<close>

type_synonym counts = "ResourceURI \<rightharpoonup> int"

text \<open>The loop over the dependents of a finished resource.\<close>

definition releaseOne :: "ResourceURI \<Rightarrow> counts \<times> ResourceURI list \<Rightarrow> counts \<times> ResourceURI list" where
  "releaseOne dependent = (\<lambda>(remaining, ready).
     let c = (case remaining dependent of None \<Rightarrow> 0 | Some k \<Rightarrow> k) - 1;
         remaining = remaining(dependent \<mapsto> c)
     in (remaining, if c = 0 then sort (ready @ [dependent]) else ready))"

partial_function (option) topoLoop ::
  "DependencyGraph \<Rightarrow> counts \<Rightarrow> ResourceURI list \<Rightarrow> ResourceURI list \<Rightarrow> (counts \<times> ResourceURI list) option" where
  "topoLoop g remaining ready ordered =
     (case ready of
        [] \<Rightarrow> Some (remaining, ordered)
      | uri # ready \<Rightarrow>
          (let (remaining, ready) = fold releaseOne (DependentList uri g) (remaining, ready)
           in topoLoop g remaining ready (ordered @ [uri])))"

definition joinStrings :: "string \<Rightarrow> string list \<Rightarrow> string" where
  "joinStrings sep parts = (case parts of [] \<Rightarrow> [] | p # ps \<Rightarrow> p @ concat (map (\<lambda>q. sep @ q) ps))"

record Diagnostic =
  dSeverity :: nat
  dCode :: string
  dMessage :: string

definition SeverityWarning :: nat where
  "SeverityWarning = 2"

definition cycleDiagnostics :: "ResourceURI list list \<Rightarrow> Diagnostic list" where
  "cycleDiagnostics cycles =
     map (\<lambda>cycle. \<lparr>dSeverity = SeverityWarning, dCode = ''fivem-circular-dependency'',
        dMessage = ''Circular FiveM resource dependency detected; indexing will continue with the cycle broken: ''
                   @ joinStrings '' -> '' cycle\<rparr>) cycles"

definition TopologicalSort :: "DependencyGraph \<Rightarrow> (ResourceURI list \<times> Diagnostic list) option" where
  "TopologicalSort g = do {
     cycles \<leftarrow> detectCycles g;
     let remaining = map_option (int \<circ> card) \<circ> Dependencies g;
     let ready = sorted_list_of_set {u \<in> dom remaining. remaining u = Some 0};
     (remaining, ordered) \<leftarrow> topoLoop g remaining ready [];
     let ordered = (if length ordered < card (dom remaining)
                    then ordered @ sorted_list_of_set (dom remaining - set ordered) else ordered);
     Some (ordered, cycleDiagnostics cycles)
   }"

section \<open>The invariant of the graph\<close>

abbreviation edges :: "DependencyGraph \<Rightarrow> ResourceURI \<Rightarrow> ResourceURI set" where
  "edges g \<equiv> setAt (Dependencies g)"

definition edgeRel :: "DependencyGraph \<Rightarrow> (ResourceURI \<times> ResourceURI) set" where
  "edgeRel g = {(u, v). v \<in> edges g u}"

text \<open>The two maps have the same finite set of keys, are converse to each other, and no resource
  depends on itself.\<close>

definition wf_graph :: "DependencyGraph \<Rightarrow> bool" where
  "wf_graph g \<longleftrightarrow>
     finite (dom (Dependencies g)) \<and> dom (Dependents g) = dom (Dependencies g) \<and>
     '''' \<notin> dom (Dependencies g) \<and>
     (\<forall>u v. v \<in> edges g u \<longleftrightarrow> u \<in> setAt (Dependents g) v) \<and> (\<forall>u. u \<notin> edges g u)"

lemma setAt_upd [simp]: "setAt (m(u \<mapsto> S)) v = (if v = u then S else setAt m v)"
  by (simp add: setAt_def)

lemma setAt_empty [simp]: "setAt Map.empty u = {}"
  by (simp add: setAt_def)

lemma setAt_dom: "v \<in> setAt m u \<Longrightarrow> u \<in> dom m"
  by (auto simp: setAt_def split: option.splits)

lemma setAt_None: "m u = None \<Longrightarrow> setAt m u = {}"
  by (simp add: setAt_def)

lemma setAt_dropDependent [simp]:
  "setAt (dropDependent uri deps m) d = (if d \<in> deps then setAt m d - {uri} else setAt m d)"
  by (auto simp: setAt_def dropDependent_def split: option.splits)

lemma dom_dropDependent [simp]: "dom (dropDependent uri deps m) = dom m"
  by (auto simp: dropDependent_def dom_def)

lemma wf_graphD:
  assumes "wf_graph g"
  shows "finite (dom (Dependencies g))" "dom (Dependents g) = dom (Dependencies g)"
    "v \<in> edges g u \<longleftrightarrow> u \<in> setAt (Dependents g) v" "u \<notin> edges g u"
    "edges g u \<subseteq> dom (Dependencies g)" "finite (edges g u)"
    "setAt (Dependents g) u \<subseteq> dom (Dependencies g)" "finite (setAt (Dependents g) u)"
proof -
  show 1: "finite (dom (Dependencies g))" "dom (Dependents g) = dom (Dependencies g)"
    "v \<in> edges g u \<longleftrightarrow> u \<in> setAt (Dependents g) v" "u \<notin> edges g u" for u v
    using assms unfolding wf_graph_def by blast+
  show 2: "edges g u \<subseteq> dom (Dependencies g)" "setAt (Dependents g) u \<subseteq> dom (Dependencies g)"
    using 1(2,3) setAt_dom by (metis subsetI)+
  show "finite (edges g u)" "finite (setAt (Dependents g) u)"
    using 1(1) 2 finite_subset by blast+
qed

lemma AddResource_simps [simp]:
  "edges (AddResource uri g) = edges g" "setAt (Dependents (AddResource uri g)) = setAt (Dependents g)"
  "dom (Dependencies (AddResource uri g)) = dom (Dependencies g) \<union> (if uri = '''' then {} else {uri})"
  "dom (Dependents (AddResource uri g)) = dom (Dependents g) \<union> (if uri = '''' then {} else {uri})"
  by (auto simp: AddResource_def Let_def setAt_def fun_eq_iff domIff split: option.splits)

lemma wf_AddResource: "wf_graph g \<Longrightarrow> wf_graph (AddResource uri g)"
  unfolding wf_graph_def by auto

lemma addDependency_wf:
  assumes "wf_graph g" "uri \<in> dom (Dependencies g)"
  shows "wf_graph (addDependency uri dep g)"
    "edges (addDependency uri dep g) =
       (edges g)(uri := edges g uri \<union> (if dep = '''' \<or> dep = uri then {} else {dep}))"
    "dom (Dependencies (addDependency uri dep g)) =
       dom (Dependencies g) \<union> (if dep = '''' \<or> dep = uri then {} else {dep})"
proof -
  show "edges (addDependency uri dep g) =
       (edges g)(uri := edges g uri \<union> (if dep = '''' \<or> dep = uri then {} else {dep}))"
    by (auto simp: addDependency_def Let_def fun_eq_iff)
  show dom: "dom (Dependencies (addDependency uri dep g)) =
       dom (Dependencies g) \<union> (if dep = '''' \<or> dep = uri then {} else {dep})"
    using assms(2) by (auto simp: addDependency_def Let_def)
  show "wf_graph (addDependency uri dep g)"
    using assms unfolding wf_graph_def by (auto simp: addDependency_def Let_def)
qed

lemma fold_addDependency:
  assumes "wf_graph g" "uri \<in> dom (Dependencies g)"
  shows "wf_graph (fold (addDependency uri) deps g) \<and>
     edges (fold (addDependency uri) deps g) = (edges g)(uri := edges g uri \<union> (set deps - {'''', uri})) \<and>
     dom (Dependencies (fold (addDependency uri) deps g)) = dom (Dependencies g) \<union> (set deps - {''''})"
  using assms
proof (induction deps arbitrary: g)
  case (Cons dep deps)
  note a = addDependency_wf [OF Cons.prems]
  have "uri \<in> dom (Dependencies (addDependency uri dep g))" using a(3) Cons.prems(2) by simp
  from Cons.IH [OF a(1) this] show ?case using a(2,3) Cons.prems(2) by (auto simp: fun_eq_iff)
qed auto

lemma SetDependencies_spec:
  assumes "wf_graph g" and "uri \<noteq> ''''"
  shows "wf_graph (SetDependencies uri deps g) \<and>
     edges (SetDependencies uri deps g) = (edges g)(uri := set deps - {'''', uri}) \<and>
     dom (Dependencies (SetDependencies uri deps g)) = dom (Dependencies g) \<union> {uri} \<union> (set deps - {''''})"
proof -
  let ?a = "AddResource uri g"
  let ?b = "?a\<lparr>Dependents := dropDependent uri (edges ?a uri) (Dependents ?a),
               Dependencies := (Dependencies ?a)(uri \<mapsto> {})\<rparr>"
  have b: "wf_graph ?b" "uri \<in> dom (Dependencies ?b)"
    using assms wf_AddResource [OF assms(1), of uri] unfolding wf_graph_def by auto
  have "SetDependencies uri deps g = fold (addDependency uri) deps ?b"
    using assms(2) by (simp add: SetDependencies_def Let_def)
  with fold_addDependency [OF b, of deps] assms(2) show ?thesis by (auto simp: fun_eq_iff)
qed

text \<open>
  The dependency graph stays consistent: \<open>SetDependencies\<close> keeps the two adjacency maps
  converse to each other over one set of keys; the resource then depends exactly on the listed
  names, without the empty name and itself, and the dependencies of every other resource are
  unchanged.
\<close>

lemma SetDependencies_correct:
  assumes "wf_graph g" and "uri \<noteq> ''''"
  shows "wf_graph (SetDependencies uri deps g) \<and>
     edges (SetDependencies uri deps g) = (edges g)(uri := set deps - {'''', uri}) \<and>
     dom (Dependencies (SetDependencies uri deps g)) = dom (Dependencies g) \<union> {uri} \<union> (set deps - {''''})"
  by (rule SetDependencies_spec [OF assms])

lemma wf_NewDependencyGraph: "wf_graph NewDependencyGraph"
  by (simp add: wf_graph_def NewDependencyGraph_def)

lemma SetDependencies_correct_witness:
  "wf_graph (SetDependencies ''a'' [''b'', ''a'', ''''] NewDependencyGraph) \<and>
   edges (SetDependencies ''a'' [''b'', ''a'', ''''] NewDependencyGraph) ''a'' = {''b''}"
  using SetDependencies_correct [OF wf_NewDependencyGraph, of "''a''" "[''b'', ''a'', '''']"] by auto

section \<open>The search finds the cycles\<close>

definition is_path :: "DependencyGraph \<Rightarrow> ResourceURI list \<Rightarrow> bool" where
  "is_path g us \<longleftrightarrow> (\<forall>i. Suc i < length us \<longrightarrow> us ! Suc i \<in> edges g (us ! i))"

text \<open>A closed walk along dependency edges, written with its first resource at both ends.\<close>

definition is_cycle :: "DependencyGraph \<Rightarrow> ResourceURI list \<Rightarrow> bool" where
  "is_cycle g us \<longleftrightarrow> 2 \<le> length us \<and> hd us = last us \<and> is_path g us"

lemma is_path_snoc:
  "is_path g us \<Longrightarrow> us = [] \<or> v \<in> edges g (last us) \<Longrightarrow> is_path g (us @ [v])"
  unfolding is_path_def
proof (intro allI impI)
  fix i
  assume p: "\<forall>i. Suc i < length us \<longrightarrow> us ! Suc i \<in> edges g (us ! i)"
    and v: "us = [] \<or> v \<in> edges g (last us)" and i: "Suc i < length (us @ [v])"
  show "(us @ [v]) ! Suc i \<in> edges g ((us @ [v]) ! i)"
  proof (cases "Suc i = length us")
    case True
    then have "last us = us ! i" by (metis diff_Suc_1 last_conv_nth length_0_conv nat.distinct(1))
    with True v show ?thesis by (auto simp: nth_append)
  next
    case False
    with p i show ?thesis by (auto simp: nth_append)
  qed
qed

lemma is_path_append1: "is_path g (us @ vs) \<Longrightarrow> is_path g us"
  unfolding is_path_def
proof (intro allI impI)
  fix i
  assume p: "\<forall>i. Suc i < length (us @ vs) \<longrightarrow> (us @ vs) ! Suc i \<in> edges g ((us @ vs) ! i)"
    and i: "Suc i < length us"
  from p [rule_format, of i] i show "us ! Suc i \<in> edges g (us ! i)" by (simp add: nth_append)
qed

lemma is_path_append2: "is_path g (us @ vs) \<Longrightarrow> is_path g vs"
  unfolding is_path_def
proof (intro allI impI)
  fix i
  assume p: "\<forall>i. Suc i < length (us @ vs) \<longrightarrow> (us @ vs) ! Suc i \<in> edges g ((us @ vs) ! i)"
    and i: "Suc i < length vs"
  from p [rule_format, of "length us + i"] i show "vs ! Suc i \<in> edges g (vs ! i)"
    by (simp add: nth_append)
qed

lemma is_path_trancl: "is_path g us \<Longrightarrow> i < j \<Longrightarrow> j < length us \<Longrightarrow> (us ! i, us ! j) \<in> (edgeRel g)\<^sup>+"
proof (induction j)
  case (Suc j)
  have step: "(us ! j, us ! Suc j) \<in> edgeRel g" using Suc.prems by (simp add: is_path_def edgeRel_def)
  show ?case
  proof (cases "i = j")
    case False
    then have "(us ! i, us ! j) \<in> (edgeRel g)\<^sup>+" using Suc by simp
    then show ?thesis using step by (rule trancl_into_trancl)
  qed (use step in auto)
qed simp

lemma is_cycle_cyclic: "is_cycle g us \<Longrightarrow> \<not> acyclic (edgeRel g)"
proof -
  assume c: "is_cycle g us"
  then have "us \<noteq> []" "(us ! 0, us ! (length us - 1)) \<in> (edgeRel g)\<^sup>+"
    using is_path_trancl [of g us 0 "length us - 1"] by (auto simp: is_cycle_def)
  with c show ?thesis by (auto simp: is_cycle_def acyclic_def hd_conv_nth last_conv_nth)
qed

lemma copyUntil_rev:
  assumes "dep \<in> set stack" "distinct stack"
  shows "\<exists>us vs. stack = us @ dep # vs \<and> rev (copyUntil dep (rev stack)) = dep # vs"
proof -
  from assms(1) obtain us vs where s: "stack = us @ dep # vs" by (meson split_list)
  with assms(2) have "dep \<notin> set vs" by simp
  then have "copyUntil dep (rev vs @ dep # rev us) = rev vs @ [dep]"
    by (induction vs rule: rev_induct) auto
  with s show ?thesis by simp
qed

text \<open>
  The state of the search: the stack is a path of dependencies and holds exactly the resources
  under way; every reported cycle is one; and as long as none is reported, the finished resources
  depend on finished ones only, without a cycle among them.
\<close>

definition finishedRel :: "DependencyGraph \<Rightarrow> CycleSearch \<Rightarrow> (ResourceURI \<times> ResourceURI) set" where
  "finishedRel g s = {(u, v). csState s u = Visited \<and> v \<in> edges g u}"

definition search_ok :: "DependencyGraph \<Rightarrow> CycleSearch \<Rightarrow> bool" where
  "search_ok g s \<longleftrightarrow>
     distinct (csStack s) \<and> set (csStack s) = {u. csState s u = Visiting} \<and> is_path g (csStack s) \<and>
     (\<forall>c \<in> set (csCycles s). is_cycle g c) \<and>
     (csCycles s = [] \<longrightarrow>
        (\<forall>u v. csState s u = Visited \<and> v \<in> edges g u \<longrightarrow> csState s v = Visited) \<and>
        acyclic (finishedRel g s))"

lemma search_okD:
  assumes "search_ok g s"
  shows "distinct (csStack s)" "u \<in> set (csStack s) \<longleftrightarrow> csState s u = Visiting" "is_path g (csStack s)"
    "c \<in> set (csCycles s) \<Longrightarrow> is_cycle g c"
    "csCycles s = [] \<Longrightarrow> csState s u = Visited \<Longrightarrow> v \<in> edges g u \<Longrightarrow> csState s v = Visited"
    "csCycles s = [] \<Longrightarrow> acyclic (finishedRel g s)"
  using assms unfolding search_ok_def by blast+

lemma search_okI:
  assumes "distinct (csStack s)" "\<And>u. u \<in> set (csStack s) \<longleftrightarrow> csState s u = Visiting" "is_path g (csStack s)"
    "\<And>c. c \<in> set (csCycles s) \<Longrightarrow> is_cycle g c"
    "\<And>u v. csCycles s = [] \<Longrightarrow> csState s u = Visited \<Longrightarrow> v \<in> edges g u \<Longrightarrow> csState s v = Visited"
    "csCycles s = [] \<Longrightarrow> acyclic (finishedRel g s)"
  shows "search_ok g s"
  using assms unfolding search_ok_def by blast

lemma foundCycle_ok:
  assumes "search_ok g s" "csStack s = st @ [uri]" "dep \<in> edges g uri" "csState s dep = Visiting"
  shows "search_ok g (foundCycle dep s)"
proof -
  have "dep \<in> set (csStack s)" "distinct (csStack s)" using assms(1,4) by (simp_all add: search_ok_def)
  from copyUntil_rev [OF this] obtain us vs where
    c: "csStack s = us @ dep # vs" "rev (copyUntil dep (rev (csStack s))) = dep # vs" by blast
  have "last (dep # vs) = uri" using c(1) assms(2) by (metis last_appendR last_snoc list.distinct(1))
  moreover have "is_path g (dep # vs)" using assms(1) c(1) is_path_append2 by (auto simp: search_ok_def)
  ultimately have "is_path g ((dep # vs) @ [dep])" using assms(3) by (intro is_path_snoc) simp_all
  then have "is_cycle g (rev (dep # copyUntil dep (rev (csStack s))))"
    using c(2) by (simp add: is_cycle_def)
  then show ?thesis using assms(1) by (auto simp: search_ok_def foundCycle_def)
qed

text \<open>Finishing a resource whose dependencies are all finished.\<close>

lemma acyclic_add_source:
  assumes "acyclic r" "\<And>x. (x, a) \<notin> r" "a \<notin> S"
  shows "acyclic (r \<union> {a} \<times> S)"
proof -
  have "(x, y) \<in> r\<^sup>+" if "(x, y) \<in> (r \<union> {a} \<times> S)\<^sup>+" "x \<noteq> a" for x y
    using that
  proof (induction rule: trancl_induct)
    case (base y)
    then show ?case by auto
  next
    case (step y z)
    have "y \<noteq> a" using step(1) assms(2,3) by (metis UnE mem_Sigma_iff tranclD2)
    with step show ?case by (auto intro: trancl_into_trancl)
  qed
  moreover have "x \<noteq> a" if "(y, x) \<in> (r \<union> {a} \<times> S)\<^sup>+" for x y
    using that assms(2,3) by (metis UnE mem_Sigma_iff tranclD2)
  ultimately show ?thesis using assms(1) unfolding acyclic_def by blast
qed

text \<open>How the search state changes during a call.\<close>

definition visits :: "DependencyGraph \<Rightarrow> CycleSearch \<Rightarrow> CycleSearch \<Rightarrow> bool" where
  "visits g s s' \<longleftrightarrow>
     search_ok g s' \<and> csStack s' = csStack s \<and>
     (\<forall>u. csState s u = Visited \<longrightarrow> csState s' u = Visited) \<and>
     (\<forall>u. csState s u = Visiting \<longrightarrow> csState s' u = Visiting) \<and>
     (csCycles s' = [] \<longrightarrow> csCycles s = [])"

definition unvisited :: "DependencyGraph \<Rightarrow> CycleSearch \<Rightarrow> ResourceURI set" where
  "unvisited g s = {u \<in> dom (Dependencies g). csState s u = Unvisited}"

lemma visits_refl: "search_ok g s \<Longrightarrow> visits g s s"
  by (simp add: visits_def)

lemma visits_trans: "visits g s s' \<Longrightarrow> visits g s' s'' \<Longrightarrow> visits g s s''"
  by (auto simp: visits_def)

lemma unvisited_mono: "visits g s s' \<Longrightarrow> unvisited g s' \<subseteq> unvisited g s"
proof
  fix u
  assume "visits g s s'" "u \<in> unvisited g s'"
  then show "u \<in> unvisited g s" by (cases "csState s u") (auto simp: visits_def unvisited_def)
qed

lemma enter_ok:
  assumes "search_ok g s" "csState s uri = Unvisited" "csStack s = [] \<or> uri \<in> edges g (last (csStack s))"
  shows "search_ok g (s\<lparr>csState := (csState s)(uri := Visiting), csStack := csStack s @ [uri]\<rparr>)"
    (is "search_ok g ?s")
proof -
  note ok = search_okD [OF assms(1)]
  have rel: "finishedRel g ?s = finishedRel g s" using assms(2) by (auto simp: finishedRel_def split: if_splits)
  have "uri \<notin> set (csStack s)" using ok(2) assms(2) by simp
  then show ?thesis
  proof (intro search_okI, goal_cases)
    case (5 u v)
    then have "csState s u = Visited" by (simp split: if_splits)
    with ok(5) [of u v] 5 assms(2) show ?case by auto
  qed (use ok rel is_path_snoc assms(3) in \<open>auto simp: rel\<close>)
qed

lemma leave_ok:
  assumes wf: "wf_graph g" and ok: "search_ok g s" and st: "csStack s = st @ [uri]"
    and deps: "csCycles s = [] \<Longrightarrow> \<forall>v \<in> edges g uri. csState s v = Visited"
  shows "search_ok g (s\<lparr>csStack := butlast (csStack s), csState := (csState s)(uri := Visited)\<rparr>)"
    (is "search_ok g ?s")
proof -
  note okD = search_okD [OF ok]
  have uri: "csState s uri = Visiting" "uri \<notin> set st" using okD(1) okD(2) [of uri] st by auto
  have rel: "finishedRel g ?s = finishedRel g s \<union> {uri} \<times> edges g uri"
    using uri(1) by (auto simp: finishedRel_def split: if_splits)
  show ?thesis
  proof (intro search_okI, goal_cases)
    case (2 u)
    show ?case using okD(2) [of u] st uri(2) by auto
  next
    case (3)
    show ?case using okD(3) st is_path_append1 [of g st "[uri]"] by simp
  next
    case (5 u v)
    then show ?case using okD(5) [of u v] deps by (cases "u = uri") auto
  next
    case 6
    then have none: "csCycles s = []" by simp
    have "(x, uri) \<notin> finishedRel g s" for x
      using okD(5) [OF none, of x uri] uri(1) by (auto simp: finishedRel_def)
    then show ?case unfolding rel using okD(6) [OF none] wf_graphD(4) [OF wf] by (intro acyclic_add_source)
  qed (use okD(1,4) st in auto)
qed

lemma visitResource_ok:
  assumes wf: "wf_graph g" and "search_ok g s" and "csState s uri = Unvisited" and "uri \<in> dom (Dependencies g)"
    and "csStack s = [] \<or> uri \<in> edges g (last (csStack s))" and "card (unvisited g s) \<le> n"
  shows "\<exists>s'. visitResource n g uri s = Some s' \<and> visits g s s' \<and> csState s' uri = Visited"
  using assms(2-)
proof (induction n arbitrary: s uri)
  case 0
  have "finite (unvisited g s)" "uri \<in> unvisited g s"
    using wf_graphD(1) [OF wf] 0 by (auto simp: unvisited_def)
  with 0 show ?case by auto
next
  case (Suc n)
  define s1 where "s1 = s\<lparr>csState := (csState s)(uri := Visiting), csStack := csStack s @ [uri]\<rparr>"
  let ?step = "\<lambda>dep s. case csState s dep of Unvisited \<Rightarrow> visitResource n g dep s
                 | Visiting \<Rightarrow> Some (foundCycle dep s) | Visited \<Rightarrow> Some s"
  have ok1: "search_ok g s1" unfolding s1_def by (rule enter_ok [OF Suc.prems(1,2,4)])
  have fin: "finite (unvisited g x)" for x using wf_graphD(1) [OF wf] by (simp add: unvisited_def)
  have "unvisited g s1 = unvisited g s - {uri}" by (auto simp: unvisited_def s1_def)
  then have card1: "card (unvisited g s1) \<le> n"
    using Suc.prems(2,3,5) fin [of s] by (simp add: unvisited_def)
  have loop: "\<exists>s3. forM deps ?step s2 = Some s3 \<and> visits g s2 s3 \<and>
      (csCycles s3 = [] \<longrightarrow> (\<forall>d \<in> set deps. csState s3 d = Visited))"
    if "visits g s1 s2" "set deps \<subseteq> edges g uri" for deps s2
    using that
  proof (induction deps arbitrary: s2)
    case Nil
    then have "search_ok g s2" by (simp add: visits_def)
    then show ?case by (simp add: visits_refl)
  next
    case (Cons dep deps)
    have st: "csStack s2 = csStack s @ [uri]" "search_ok g s2"
      using Cons.prems(1) by (simp_all add: visits_def s1_def)
    have "card (unvisited g s2) \<le> n"
      using card_mono [OF fin unvisited_mono [OF Cons.prems(1)]] card1 by simp
    then have "\<exists>s'. visitResource n g dep s2 = Some s' \<and> visits g s2 s' \<and> csState s' dep = Visited"
      if "csState s2 dep = Unvisited"
      using Suc.IH [of s2 dep] that st Cons.prems(2) wf_graphD(5) [OF wf, of uri] by auto
    moreover have "visits g s2 (foundCycle dep s2) \<and> csCycles (foundCycle dep s2) \<noteq> []" if "csState s2 dep = Visiting"
      using foundCycle_ok [OF st(2,1) _ that] Cons.prems(2) by (simp add: visits_def foundCycle_def)
    ultimately obtain s' where s': "?step dep s2 = Some s'" "visits g s2 s'"
        "csCycles s' = [] \<longrightarrow> csState s' dep = Visited"
      using visits_refl [OF st(2)] by (cases "csState s2 dep") auto
    from Cons.IH [OF visits_trans [OF Cons.prems(1) s'(2)]] Cons.prems(2) obtain s3 where
      s3: "forM deps ?step s' = Some s3" "visits g s' s3"
        "csCycles s3 = [] \<longrightarrow> (\<forall>d \<in> set deps. csState s3 d = Visited)" by auto
    from visits_trans [OF s'(2) s3(2)] s' s3 show ?case by (auto simp: visits_def)
  qed
  have deps: "set (DependencyList uri g) = edges g uri"
    using wf_graphD(6) [OF wf] by (simp add: DependencyList_def)
  from loop [OF visits_refl [OF ok1], of "DependencyList uri g"] deps obtain s3 where
    s3: "forM (DependencyList uri g) ?step s1 = Some s3" "visits g s1 s3"
      "csCycles s3 = [] \<longrightarrow> (\<forall>d \<in> edges g uri. csState s3 d = Visited)" by auto
  let ?s4 = "s3\<lparr>csStack := butlast (csStack s3), csState := (csState s3)(uri := Visited)\<rparr>"
  have st3: "csStack s3 = csStack s @ [uri]" "search_ok g s3"
    using s3(2) by (simp_all add: visits_def s1_def)
  have "search_ok g ?s4" using leave_ok [OF wf st3(2,1)] s3(3) by blast
  moreover have "csState s3 u = Visited" if "csState s u = Visited" for u
    using s3(2) that Suc.prems(2) by (cases "u = uri") (auto simp: visits_def s1_def)
  moreover have "csState s3 u = Visiting" "u \<noteq> uri" if "csState s u = Visiting" for u
    using s3(2) that Suc.prems(2) by (auto simp: visits_def s1_def)
  ultimately have "visits g s ?s4" using s3(2) st3(1) by (auto simp: visits_def s1_def)
  moreover have "visitResource (Suc n) g uri s = Some ?s4"
    using s3(1) by (simp add: s1_def)
  ultimately show ?case by auto
qed

lemma detectCycles_cycles:
  assumes wf: "wf_graph g"
  shows "\<exists>cycles. detectCycles g = Some cycles \<and> (\<forall>c \<in> set cycles. is_cycle g c) \<and>
           (cycles = [] \<longleftrightarrow> acyclic (edgeRel g))"
proof -
  let ?rs = "sorted_list_of_set (dom (Dependencies g))"
  let ?s0 = "\<lparr>csState = \<lambda>_. Unvisited, csStack = [], csCycles = []\<rparr>"
  let ?step = "\<lambda>uri s. if csState s uri = Unvisited then visitResource (length ?rs) g uri s else Some s"
  have fin: "finite (dom (Dependencies g))" by (rule wf_graphD(1) [OF wf])
  have ok0: "search_ok g ?s0" by (simp add: search_ok_def is_path_def finishedRel_def acyclic_def)
  have loop: "\<exists>s'. forM us ?step s = Some s' \<and> visits g s s' \<and> (\<forall>u \<in> set us. csState s' u = Visited)"
    if "search_ok g s" "csStack s = []" "set us \<subseteq> dom (Dependencies g)" for us s
    using that
  proof (induction us arbitrary: s)
    case Nil
    then show ?case by (simp add: visits_refl)
  next
    case (Cons u us)
    have "card (unvisited g s) \<le> length ?rs"
      using fin by (simp add: unvisited_def card_mono)
    then have "\<exists>s'. ?step u s = Some s' \<and> visits g s s' \<and> csState s' u = Visited"
      using visitResource_ok [OF wf Cons.prems(1), of u "length ?rs"] Cons.prems visits_refl [OF Cons.prems(1)]
      by (cases "csState s u") (auto simp: search_ok_def)
    then obtain s1 where s1: "?step u s = Some s1" "visits g s s1" "csState s1 u = Visited" by blast
    then obtain s' where s': "forM us ?step s1 = Some s'" "visits g s1 s'" "\<forall>u \<in> set us. csState s' u = Visited"
      using Cons.IH [of s1] Cons.prems by (auto simp: visits_def)
    with s1 visits_trans [OF s1(2) s'(2)] show ?case by (auto simp: visits_def)
  qed
  obtain s where s: "forM ?rs ?step ?s0 = Some s" "visits g ?s0 s" "\<forall>u \<in> dom (Dependencies g). csState s u = Visited"
    using loop [OF ok0, of ?rs] fin by auto
  have "acyclic (edgeRel g)" if "csCycles s = []"
  proof -
    have "acyclic (finishedRel g s)" using s(2) that search_okD(6) by (simp add: visits_def)
    moreover have "edgeRel g \<subseteq> finishedRel g s"
    proof
      fix e
      assume "e \<in> edgeRel g"
      then obtain u v where "e = (u, v)" "v \<in> edges g u" by (auto simp: edgeRel_def)
      with s(3) setAt_dom [of v "Dependencies g" u] show "e \<in> finishedRel g s" by (simp add: finishedRel_def)
    qed
    ultimately show ?thesis by (rule acyclic_subset)
  qed
  moreover have cyc: "is_cycle g c" if "c \<in> set (csCycles s)" for c
    using s(2) that search_okD(4) [of g s c] by (simp add: visits_def)
  moreover have "csCycles s = []" if "acyclic (edgeRel g)"
  proof (rule ccontr)
    assume "csCycles s \<noteq> []"
    then have "is_cycle g (hd (csCycles s))" by (intro cyc) simp
    with that show False using is_cycle_cyclic by blast
  qed
  moreover have "detectCycles g = Some (csCycles s)" using s(1) by (simp add: detectCycles_def)
  ultimately show ?thesis by blast
qed

text \<open>
  C23. The search for cycles is exact: on a consistent graph \<open>detectCycles\<close> terminates, with one
  nested call per resource at most; every cycle it reports is a closed walk along dependency
  edges; and it reports none exactly when the dependencies are acyclic.
\<close>

theorem detectCycles_exact:
  assumes "wf_graph g"
  shows "\<exists>cycles. detectCycles g = Some cycles \<and> (\<forall>c \<in> set cycles. is_cycle g c) \<and>
           (cycles = [] \<longleftrightarrow> acyclic (edgeRel g))"
  by (rule detectCycles_cycles [OF assms])

theorem detectCycles_exact_witness:
  "\<exists>cycles. detectCycles (SetDependencies ''b'' [''a''] (SetDependencies ''a'' [''b''] NewDependencyGraph)) = Some cycles \<and>
     cycles \<noteq> []"
proof -
  let ?g = "SetDependencies ''b'' [''a''] (SetDependencies ''a'' [''b''] NewDependencyGraph)"
  have 1: "wf_graph (SetDependencies ''a'' [''b''] NewDependencyGraph)"
    using SetDependencies_spec [OF wf_NewDependencyGraph, of "''a''" "[''b'']"] by simp
  have g: "wf_graph ?g" "edges ?g ''a'' = {''b''}" "edges ?g ''b'' = {''a''}"
    using SetDependencies_spec [OF 1, of "''b''" "[''a'']"]
      SetDependencies_spec [OF wf_NewDependencyGraph, of "''a''" "[''b'']"] by simp_all
  have "is_cycle ?g [''a'', ''b'', ''a'']"
    using g(2,3) by (auto simp: is_cycle_def is_path_def less_Suc_eq nth_Cons')
  then have "\<not> acyclic (edgeRel ?g)" by (rule is_cycle_cyclic)
  with detectCycles_exact [OF g(1)] show ?thesis by blast
qed

section \<open>The order respects the dependencies\<close>

text \<open>Releasing a list of dependents decrements each count once; those that reach zero join the
  list of ready resources.\<close>

lemma fold_releaseOne:
  assumes "distinct ds" "distinct ready" "\<And>d. d \<in> set ds \<Longrightarrow> d \<notin> set ready \<and> remaining d \<noteq> None"
    "fold releaseOne ds (remaining, ready) = (remaining', ready')"
  shows "remaining' u = (if u \<in> set ds then map_option (\<lambda>k. k - 1) (remaining u) else remaining u)"
    "set ready' = set ready \<union> {d \<in> set ds. remaining d = Some 1}" "distinct ready'"
proof -
  have "(\<forall>u. remaining' u = (if u \<in> set ds then map_option (\<lambda>k. k - 1) (remaining u) else remaining u)) \<and>
      set ready' = set ready \<union> {d \<in> set ds. remaining d = Some 1} \<and> distinct ready'"
    using assms
  proof (induction ds arbitrary: remaining ready)
    case (Cons d ds)
    obtain k where k: "remaining d = Some k" using Cons.prems(3) [of d] by auto
    define rem rdy where "rem = remaining(d \<mapsto> k - 1)" and "rdy = (if k = 1 then sort (ready @ [d]) else ready)"
    have step: "releaseOne d (remaining, ready) = (rem, rdy)"
      using k by (simp add: releaseOne_def Let_def rem_def rdy_def)
    have d: "d \<notin> set ds" "d \<notin> set ready" using Cons.prems(1,3) by auto
    have 1: "distinct ds" using Cons.prems(1) by simp
    have 2: "distinct rdy" using Cons.prems(2) d(2) by (simp add: rdy_def)
    have 3: "x \<notin> set rdy \<and> rem x \<noteq> None" if "x \<in> set ds" for x
      using Cons.prems(3) [of x] that d(1) by (auto simp: rem_def rdy_def)
    have 4: "fold releaseOne ds (rem, rdy) = (remaining', ready')" using Cons.prems(4) step by simp
    note all = Cons.IH [OF 1 2 3 4]
    note IH = all [THEN conjunct1, rule_format] all [THEN conjunct2, THEN conjunct1]
      all [THEN conjunct2, THEN conjunct2]
    have "set ready' = set ready \<union> {x \<in> set (d # ds). remaining x = Some 1}"
    proof -
      have "set rdy = set ready \<union> (if k = 1 then {d} else {})" by (simp add: rdy_def)
      moreover have "{x \<in> set ds. rem x = Some 1} = {x \<in> set ds. remaining x = Some 1}"
        using d(1) by (auto simp: rem_def)
      moreover have "{x \<in> set (d # ds). remaining x = Some 1} =
          (if k = 1 then {d} else {}) \<union> {x \<in> set ds. remaining x = Some 1}" using k by auto
      ultimately show ?thesis using IH(2) by (simp only: Un_assoc)
    qed
    with IH(1,3) d k show ?case by (simp add: rem_def)
  qed simp
  then show "remaining' u = (if u \<in> set ds then map_option (\<lambda>k. k - 1) (remaining u) else remaining u)"
    "set ready' = set ready \<union> {d \<in> set ds. remaining d = Some 1}" "distinct ready'" by blast+
qed

text \<open>The invariant of Kahn's loop.\<close>

definition ordered_ok :: "DependencyGraph \<Rightarrow> ResourceURI list \<Rightarrow> bool" where
  "ordered_ok g ordered \<longleftrightarrow> (\<forall>i<length ordered. edges g (ordered ! i) \<subseteq> set (take i ordered))"

definition kahn_ok :: "DependencyGraph \<Rightarrow> counts \<Rightarrow> ResourceURI list \<Rightarrow> ResourceURI list \<Rightarrow> bool" where
  "kahn_ok g remaining ready ordered \<longleftrightarrow>
     distinct (ordered @ ready) \<and> dom remaining = dom (Dependencies g) \<and>
     (\<forall>u \<in> dom (Dependencies g). remaining u = Some (int (card (edges g u - set ordered)))) \<and>
     set (ordered @ ready) = {u \<in> dom (Dependencies g). edges g u \<subseteq> set ordered} \<and>
     ordered_ok g ordered"

lemma ordered_ok_snoc:
  "ordered_ok g ordered \<Longrightarrow> edges g u \<subseteq> set ordered \<Longrightarrow> ordered_ok g (ordered @ [u])"
  by (auto simp: ordered_ok_def nth_append less_Suc_eq)

lemma kahn_step:
  assumes wf: "wf_graph g" and k: "kahn_ok g remaining (uri # ready) ordered"
    and f: "fold releaseOne (DependentList uri g) (remaining, ready) = (remaining', ready')"
  shows "kahn_ok g remaining' ready' (ordered @ [uri])"
proof -
  let ?D = "dom (Dependencies g)" and ?ds = "DependentList uri g"
  have ds: "set ?ds = {d. uri \<in> edges g d}" "distinct ?ds"
    using wf_graphD(3,8) [OF wf] by (auto simp: DependentList_def)
  have ok: "distinct (ordered @ uri # ready)" "dom remaining = ?D"
    "\<And>u. u \<in> ?D \<Longrightarrow> remaining u = Some (int (card (edges g u - set ordered)))"
    "\<And>u. u \<in> set (ordered @ uri # ready) \<longleftrightarrow> u \<in> ?D \<and> edges g u \<subseteq> set ordered" "ordered_ok g ordered"
    using k unfolding kahn_ok_def by blast+
  have new: "uri \<notin> set ordered" using ok(1) by simp
  have dD: "d \<in> ?D" if "d \<in> set ?ds" for d using that ds(1) setAt_dom by fastforce
  have not_done: "d \<notin> set (ordered @ uri # ready)" if "d \<in> set ?ds" for d
    using that ok(4) [of d] new ds(1) by auto
  have not_ready: "d \<notin> set ready \<and> remaining d \<noteq> None" if "d \<in> set ?ds" for d
    using that ok(3) [OF dD [OF that]] not_done [OF that] by auto
  note r = fold_releaseOne [OF ds(2) _ not_ready f]
  have ready: "set ready' = set ready \<union> {d \<in> set ?ds. remaining d = Some 1}" "distinct ready'"
    using r(2,3) ok(1) by simp_all
  have fin: "finite (edges g u)" for u by (rule wf_graphD(6) [OF wf])
  have count: "card (edges g u - set (ordered @ [uri])) =
      (if u \<in> set ?ds then card (edges g u - set ordered) - 1 else card (edges g u - set ordered))" for u
  proof -
    have "edges g u - set (ordered @ [uri]) = (edges g u - set ordered) - {uri}" by auto
    with new fin ds(1) show ?thesis by simp
  qed
  have pos: "0 < card (edges g u - set ordered)" if "u \<in> set ?ds" for u
    using that new fin [of u] ds(1) by (auto simp: card_gt_0_iff)
  have one: "edges g u \<subseteq> set (ordered @ [uri]) \<longleftrightarrow> remaining u = Some 1" if "u \<in> set ?ds" for u
  proof -
    have "edges g u \<subseteq> set (ordered @ [uri]) \<longleftrightarrow> card (edges g u - set (ordered @ [uri])) = 0"
      using fin [of u] by (auto simp: card_eq_0_iff)
    with count [of u] pos [OF that] ok(3) [OF dD [OF that]] that show ?thesis by auto
  qed
  have other: "edges g u \<subseteq> set (ordered @ [uri]) \<longleftrightarrow> edges g u \<subseteq> set ordered" if "u \<notin> set ?ds" for u
    using that ds(1) by auto
  have rem: "remaining' u = Some (int (card (edges g u - set (ordered @ [uri]))))" if "u \<in> ?D" for u
    using r(1) [of u] ok(1) ok(3) [OF that] count [of u] pos [of u] by (auto simp: of_nat_diff)
  have members: "u \<in> set ((ordered @ [uri]) @ ready') \<longleftrightarrow> u \<in> ?D \<and> edges g u \<subseteq> set (ordered @ [uri])" for u
  proof (cases "u \<in> set ?ds")
    case True
    then show ?thesis using one [OF True] dD [OF True] ready(1) not_ready [OF True] ok(4) [of u] new ds(1) by auto
  next
    case False
    then show ?thesis using other [OF False] ready(1) ok(4) [of u] by auto
  qed
  have "dom remaining' = ?D"
    using r(1) ok(1,2) dD by (auto simp: dom_def split: if_splits)
  moreover have "distinct ((ordered @ [uri]) @ ready')"
    using ok(1) ready not_done by auto
  moreover have "ordered_ok g (ordered @ [uri])"
    using ok(4) [of uri] by (intro ordered_ok_snoc [OF ok(5)]) simp
  ultimately show ?thesis unfolding kahn_ok_def using rem members by blast
qed

lemma topoLoop_ok:
  assumes wf: "wf_graph g" and "kahn_ok g remaining ready ordered"
  shows "\<exists>remaining' ordered'. topoLoop g remaining ready ordered = Some (remaining', ordered') \<and>
           kahn_ok g remaining' [] ordered'"
  using assms(2)
proof (induction "card (dom (Dependencies g)) - length ordered" arbitrary: remaining ready ordered
    rule: less_induct)
  case less
  show ?case
  proof (cases ready)
    case Nil
    with less.prems show ?thesis by (simp add: topoLoop.simps)
  next
    case (Cons uri rest)
    obtain remaining' ready' where f: "fold releaseOne (DependentList uri g) (remaining, rest) = (remaining', ready')"
      by force
    have k: "kahn_ok g remaining' ready' (ordered @ [uri])"
      using kahn_step [OF wf _ f] less.prems Cons by blast
    have "set (ordered @ [uri]) \<subseteq> dom (Dependencies g)" "distinct (ordered @ [uri])"
      using k unfolding kahn_ok_def by auto
    then have "length (ordered @ [uri]) \<le> card (dom (Dependencies g))"
      using wf_graphD(1) [OF wf] by (metis card_mono distinct_card)
    then have "card (dom (Dependencies g)) - length (ordered @ [uri]) < card (dom (Dependencies g)) - length ordered"
      by simp
    from less.hyps [OF this k] show ?thesis using Cons f by (simp add: topoLoop.simps [of g remaining])
  qed
qed

lemma kahn_start:
  assumes wf: "wf_graph g"
  defines "remaining \<equiv> map_option (int \<circ> card) \<circ> Dependencies g"
  shows "kahn_ok g remaining (sorted_list_of_set {u \<in> dom remaining. remaining u = Some 0}) []"
proof -
  have dom: "dom remaining = dom (Dependencies g)" by (auto simp: remaining_def dom_def)
  have rem: "remaining u = Some (int (card (edges g u)))" if "u \<in> dom (Dependencies g)" for u
    using that by (auto simp: remaining_def setAt_def)
  have "remaining u = Some 0 \<longleftrightarrow> edges g u = {}" if "u \<in> dom (Dependencies g)" for u
    using rem [OF that] wf_graphD(6) [OF wf, of u] by simp
  then have ready: "{u \<in> dom remaining. remaining u = Some 0} = {u \<in> dom (Dependencies g). edges g u \<subseteq> {}}"
    using dom by blast
  have "finite {u \<in> dom (Dependencies g). edges g u \<subseteq> {}}" using wf_graphD(1) [OF wf] by simp
  then show ?thesis
    unfolding kahn_ok_def ready using dom rem by (simp add: ordered_ok_def)
qed

text \<open>
  C22. The order in which resources are indexed: on a consistent graph \<open>TopologicalSort\<close>
  terminates and lists every resource exactly once, whether or not there are cycles. When the
  dependencies are acyclic, each resource comes after all it depends on; and a diagnostic is
  reported exactly when they are not.
\<close>

theorem TopologicalSort_correct:
  assumes "wf_graph g"
  shows "\<exists>ordered diagnostics. TopologicalSort g = Some (ordered, diagnostics) \<and> distinct ordered \<and>
     set ordered = dom (Dependencies g) \<and> (diagnostics = [] \<longleftrightarrow> acyclic (edgeRel g)) \<and>
     (acyclic (edgeRel g) \<longrightarrow> (\<forall>i<length ordered. edges g (ordered ! i) \<subseteq> set (take i ordered)))"
proof -
  let ?D = "dom (Dependencies g)"
  obtain cycles where c: "detectCycles g = Some cycles" "cycles = [] \<longleftrightarrow> acyclic (edgeRel g)"
    using detectCycles_cycles [OF assms] by blast
  obtain remaining ordered where t: "topoLoop g (map_option (int \<circ> card) \<circ> Dependencies g)
      (sorted_list_of_set {u \<in> dom (map_option (int \<circ> card) \<circ> Dependencies g).
         (map_option (int \<circ> card) \<circ> Dependencies g) u = Some 0}) [] = Some (remaining, ordered)"
    and k: "kahn_ok g remaining [] ordered"
    using topoLoop_ok [OF assms kahn_start [OF assms]] by blast
  have ok: "distinct ordered" "dom remaining = ?D" "ordered_ok g ordered"
    "set ordered = {u \<in> ?D. edges g u \<subseteq> set ordered}"
    using k by (simp_all add: kahn_ok_def)
  have fin: "finite ?D" by (rule wf_graphD(1) [OF assms])
  have sub: "set ordered \<subseteq> ?D" using ok(4) by auto
  let ?out = "if length ordered < card ?D then ordered @ sorted_list_of_set (?D - set ordered) else ordered"
  have full: "set ordered = ?D" if "\<not> length ordered < card ?D"
    using that sub fin ok(1) by (metis card_seteq distinct_card not_less)
  have out: "distinct ?out" "set ?out = ?D"
    using ok(1) sub fin full by auto
  have "?D \<subseteq> set ordered" if "acyclic (edgeRel g)"
  proof (rule ccontr)
    assume "\<not> ?D \<subseteq> set ordered"
    then obtain x where "x \<in> ?D - set ordered" by blast
    moreover have "finite (edgeRel g)"
    proof (rule finite_subset)
      show "edgeRel g \<subseteq> ?D \<times> ?D"
        unfolding edgeRel_def using wf_graphD(5) [OF assms] setAt_dom by fast
    qed (simp add: fin)
    then have "wf ((edgeRel g)\<inverse>)" using that by (rule finite_acyclic_wf_converse)
    ultimately obtain z where z: "z \<in> ?D - set ordered" "\<And>y. (y, z) \<in> (edgeRel g)\<inverse> \<Longrightarrow> y \<notin> ?D - set ordered"
      by (metis wfE_min)
    then have "edges g z \<subseteq> set ordered" using wf_graphD(5) [OF assms, of z] by (auto simp: edgeRel_def)
    with z(1) ok(4) show False by blast
  qed
  then have "card ?D \<le> length ordered" if "acyclic (edgeRel g)"
    using that card_mono [of "set ordered" ?D] distinct_card [OF ok(1)] by simp
  then have "?out = ordered" if "acyclic (edgeRel g)" using that by simp
  then have "\<forall>i<length ?out. edges g (?out ! i) \<subseteq> set (take i ?out)" if "acyclic (edgeRel g)"
    using ok(3) that by (simp add: ordered_ok_def)
  moreover have "TopologicalSort g = Some (?out, cycleDiagnostics cycles)"
    using c(1) t ok(2) by (simp add: TopologicalSort_def Let_def)
  moreover have "cycleDiagnostics cycles = [] \<longleftrightarrow> acyclic (edgeRel g)" using c(2) by (simp add: cycleDiagnostics_def)
  ultimately show ?thesis using out by blast
qed

theorem TopologicalSort_correct_witness:
  "\<exists>ordered diagnostics.
     TopologicalSort (SetDependencies ''a'' [''b''] NewDependencyGraph) = Some (ordered, diagnostics) \<and>
     distinct ordered \<and> set ordered = {''a'', ''b''}"
proof -
  have g: "wf_graph (SetDependencies ''a'' [''b''] NewDependencyGraph)"
    "dom (Dependencies (SetDependencies ''a'' [''b''] NewDependencyGraph)) = {''a'', ''b''}"
    using SetDependencies_spec [OF wf_NewDependencyGraph, of "''a''" "[''b'']"]
    by (auto simp: NewDependencyGraph_def)
  from TopologicalSort_correct [OF g(1)] g(2) show ?thesis by metis
qed

end
