(* ===== verification/Lsp_Text.thy ===== *)
theory Lsp_Text
  imports Ast
begin

text \<open>
  The text routines of the language server (\<open>src/lsp/utils.go\<close> and the matching functions of
  \<open>src/lsp/global_index.go\<close>): bounded edit distance, case-insensitive search, glob patterns,
  white space and fuzzy matching. Each optimised routine is compared with a declarative
  description of what it decides.
\<close>

section \<open>Bounded edit distance\<close>

text \<open>
  \<open>levenshteinFast\<close> keeps two rows of 64 entries. \<open>levCell\<close> is the body of the inner loop,
  \<open>levRow\<close> the inner loop, \<open>levRows\<close> the outer loop with its early return; the rows are
  swapped by exchanging the arguments.
\<close>

definition levCell :: "bytes \<Rightarrow> byte \<Rightarrow> int list \<Rightarrow> nat \<Rightarrow> int list \<times> int \<Rightarrow> (int list \<times> int) option" where
  "levCell str1 c prevRow j = (\<lambda>(currRow, minDistForRow). do {
     s \<leftarrow> nth_opt str1 j;
     let cost = (if c = s then 0 else 1);
     del \<leftarrow> nth_opt currRow j;
     ins \<leftarrow> nth_opt prevRow (j + 1);
     sub \<leftarrow> nth_opt prevRow j;
     let minCost = min (min (sub + cost) (ins + 1)) (del + 1);
     currRow \<leftarrow> upd_opt currRow (j + 1) (\<lambda>_. minCost);
     Some (currRow, if minCost < minDistForRow then minCost else minDistForRow)
   })"

definition levRow :: "bytes \<Rightarrow> bytes \<Rightarrow> nat \<Rightarrow> int list \<Rightarrow> int list \<Rightarrow> (int list \<times> int) option" where
  "levRow str1 str2 i prevRow currRow = do {
     c \<leftarrow> nth_opt str2 i;
     currRow \<leftarrow> upd_opt currRow 0 (\<lambda>_. int i + 1);
     forM [0..<length str1] (levCell str1 c prevRow) (currRow, int i + 1)
   }"

primrec levRows :: "bytes \<Rightarrow> bytes \<Rightarrow> int \<Rightarrow> nat list \<Rightarrow> int list \<Rightarrow> int list \<Rightarrow> int option" where
  "levRows str1 str2 maxDist [] prevRow currRow = nth_opt prevRow (length str1)"
| "levRows str1 str2 maxDist (i # is) prevRow currRow = do {
     (currRow, minDistForRow) \<leftarrow> levRow str1 str2 i prevRow currRow;
     if maxDist < minDistForRow then Some (maxDist + 1)
     else levRows str1 str2 maxDist is currRow prevRow
   }"

definition levenshteinFast :: "bytes \<Rightarrow> bytes \<Rightarrow> int \<Rightarrow> int option" where
  "levenshteinFast str1 str2 maxDist =
     (let (str1, str2) = (if length str2 < length str1 then (str2, str1) else (str1, str2));
          len1 = length str1; len2 = length str2
      in if len1 = 0 then Some (int len2)
         else if maxDist < int len2 - int len1 \<or> 63 < len2 then Some (maxDist + 1)
         else do {
           row0 \<leftarrow> forM [0..<len1 + 1] (\<lambda>i row. upd_opt row i (\<lambda>_. int i)) (replicate 64 0);
           levRows str1 str2 maxDist [0..<len2] row0 (replicate 64 0)
         })"

section \<open>Search and patterns\<close>

definition foldByte :: "byte \<Rightarrow> byte" where
  "foldByte c = (if byte_val CHR ''A'' \<le> byte_val c \<and> byte_val c \<le> byte_val CHR ''Z''
                 then char_of (byte_val c + 32) else c)"

text \<open>The comparison inside \<open>containsFold\<close>; dots and colons are interchangeable.\<close>

definition sameFold :: "byte \<Rightarrow> byte \<Rightarrow> bool" where
  "sameFold charText charQuery \<longleftrightarrow>
     foldByte charText = charQuery \<or>
     (foldByte charText = CHR ''.'' \<and> charQuery = CHR '':'') \<or>
     (foldByte charText = CHR '':'' \<and> charQuery = CHR ''.'')"

definition containsFold :: "bytes \<Rightarrow> bytes \<Rightarrow> bool" where
  "containsFold str queryLower \<longleftrightarrow>
     (if length queryLower = 0 then True
      else if length str < length queryLower then False
      else list_ex (\<lambda>i. list_all (\<lambda>j. sameFold (str ! (i + j)) (queryLower ! j)) [0..<length queryLower])
             [0..<length str - length queryLower + 1])"

definition hasPrefixFold :: "bytes \<Rightarrow> bytes \<Rightarrow> bool" where
  "hasPrefixFold str pre \<longleftrightarrow>
     (if length str < length pre then False
      else list_all (\<lambda>i. foldByte (str ! i) = foldByte (pre ! i)) [0..<length pre])"

primrec fuzzyLoop :: "bytes \<Rightarrow> bytes \<Rightarrow> nat \<Rightarrow> nat" where
  "fuzzyLoop [] query idx = idx"
| "fuzzyLoop (c # name) query idx =
     (if idx < length query then fuzzyLoop name query (if c = query ! idx then idx + 1 else idx) else idx)"

definition fuzzyMatch :: "bytes \<Rightarrow> bytes \<Rightarrow> bool" where
  "fuzzyMatch name query \<longleftrightarrow> (if query = [] then True else fuzzyLoop name query 0 = length query)"

definition workspaceSymbolScore :: "bytes \<Rightarrow> bytes \<Rightarrow> nat \<times> bool" where
  "workspaceSymbolScore name query =
     (if query = [] then (0, True)
      else if name = query then (0, True)
      else if prefix query name then (1, True)
      else if sublist query name then (2, True)
      else if fuzzyMatch name query then (3, True)
      else (0, False))"

text \<open>
  \<open>matchGlob\<close>. Both indices only move forward, so they are represented by the remaining
  pattern and the remaining path; the recursive call of the code is on the same remainders.
\<close>

definition isSep :: "byte \<Rightarrow> bool" where
  "isSep c \<longleftrightarrow> c = CHR ''/'' \<or> c = CHR 0x5C"

definition globByte :: "byte \<Rightarrow> byte" where
  "globByte c = (let c = foldByte c in if c = CHR 0x5C then CHR ''/'' else c)"

text \<open>The positions at which a single star may stop: up to and including the first separator.\<close>

primrec starStops :: "bytes \<Rightarrow> bytes list" where
  "starStops [] = [[]]"
| "starStops (c # path) = (c # path) # (if isSep c then [] else starStops path)"

function matchGlob :: "bytes \<Rightarrow> bytes \<Rightarrow> bool" where
  "matchGlob pattern path =
     (case pattern of
        [] \<Rightarrow> path = []
      | p # pattern' \<Rightarrow>
          if p = CHR ''*''
          then if pattern' \<noteq> [] \<and> hd pattern' = CHR ''*''
               then if tl pattern' = [] then True
                    else list_ex (\<lambda>path'. matchGlob (tl pattern') path') (suffixes path)
               else if pattern' = [] then list_all (\<lambda>c. \<not> isSep c) path
               else list_ex (\<lambda>path'. matchGlob pattern' path') (starStops path)
          else case path of
                 [] \<Rightarrow> False
               | c # path' \<Rightarrow>
                   if p = CHR ''?'' then matchGlob pattern' path'
                   else if globByte p \<noteq> globByte c then False
                   else matchGlob pattern' path')"
  by pat_completeness auto
termination
  by (relation "measure (\<lambda>(pattern, path). length pattern)") (auto simp: neq_Nil_conv)

declare matchGlob.simps [simp del]

section \<open>White space\<close>

definition trimRight :: "bytes \<Rightarrow> bytes \<Rightarrow> bytes" where
  "trimRight cutset s = rev (dropWhile (\<lambda>c. c \<in> set cutset) (rev s))"

definition lineBlanks :: bytes where
  "lineBlanks = [CHR '' '', CHR 0x09, CHR 0x0D]"

function trimTrailingWhitespace :: "bytes \<Rightarrow> bytes" where
  "trimTrailingWhitespace str =
     (if str = [] then []
      else case IndexByte str newline of
             None \<Rightarrow> trimRight lineBlanks str
           | Some idx \<Rightarrow>
               trimRight lineBlanks (take idx str) @ newline # trimTrailingWhitespace (drop (idx + 1) str))"
  by pat_completeness auto
termination
  by (relation "measure length") auto

declare trimTrailingWhitespace.simps [simp del]

text \<open>\<open>strings.TrimSpace\<close> and \<open>bytes.TrimSpace\<close>: the UTF-8 encodings of the white space of Unicode are
  stripped at both ends.\<close>

definition spaceRunes :: "bytes list" where
  "spaceRunes = map (map char_of)
     ([[9], [10], [11], [12], [13], [32], [0xC2, 0x85], [0xC2, 0xA0], [0xE1, 0x9A, 0x80]] @
      map (\<lambda>k. [0xE2, 0x80, k]) ([0x80..<0x8B] @ [0xA8, 0xA9, 0xAF]) @
      [[0xE2, 0x81, 0x9F], [0xE3, 0x80, 0x80 :: nat]])"

text \<open>White space at the front, for runes given by their encodings; the end is the mirror image.\<close>

fun trimFront :: "bytes list \<Rightarrow> bytes \<Rightarrow> bytes" where
  "trimFront spaces [] = []"
| "trimFront spaces (b # bs) =
     (case List.find (\<lambda>r. r \<noteq> [] \<and> prefix r (b # bs)) spaces of
        None \<Rightarrow> b # bs
      | Some r \<Rightarrow> trimFront spaces (drop (length r - 1) bs))"

definition TrimSpace :: "bytes \<Rightarrow> bytes" where
  "TrimSpace bs = rev (trimFront (map rev spaceRunes) (rev (trimFront spaceRunes bs)))"

section \<open>What the edit distance is\<close>

text \<open>\<open>edits n xs ys\<close>: some sequence of single-byte edits, \<open>n\<close> of which change something, turns
  \<open>xs\<close> into \<open>ys\<close>.\<close>

inductive edits :: "nat \<Rightarrow> bytes \<Rightarrow> bytes \<Rightarrow> bool" where
  edits_nil: "edits 0 [] []"
| edits_keep: "edits n xs ys \<Longrightarrow> edits n (xs @ [x]) (ys @ [x])"
| edits_subst: "edits n xs ys \<Longrightarrow> edits (Suc n) (xs @ [x]) (ys @ [y])"
| edits_delete: "edits n xs ys \<Longrightarrow> edits (Suc n) (xs @ [x]) ys"
| edits_insert: "edits n xs ys \<Longrightarrow> edits (Suc n) xs (ys @ [y])"

lemma edits_sym: "edits n xs ys \<Longrightarrow> edits n ys xs"
  by (induction rule: edits.induct) (auto intro: edits.intros)

lemma edits_insert_all: "edits (length ys) [] ys"
  by (induction ys rule: rev_induct) (auto intro: edits.intros)

lemma edits_length: "edits n xs ys \<Longrightarrow> length ys \<le> length xs + n \<and> length xs \<le> length ys + n"
  by (induction rule: edits.induct) auto

text \<open>The table of the dynamic program: entry \<open>(i, j)\<close> is for the prefixes of these lengths.\<close>

fun lev :: "bytes \<Rightarrow> bytes \<Rightarrow> nat \<Rightarrow> nat \<Rightarrow> nat" where
  "lev xs ys 0 j = j"
| "lev xs ys (Suc i) 0 = Suc i"
| "lev xs ys (Suc i) (Suc j) =
     min (min (lev xs ys i j + (if xs ! i = ys ! j then 0 else 1)) (lev xs ys i (Suc j) + 1))
         (lev xs ys (Suc i) j + 1)"

lemma lev_0 [simp]: "lev xs ys i 0 = i"
  by (cases i) simp_all

lemma edits_lev: "i \<le> length xs \<Longrightarrow> j \<le> length ys \<Longrightarrow> edits (lev xs ys i j) (take i xs) (take j ys)"
proof (induction xs ys i j rule: lev.induct)
  case (1 xs ys j)
  then show ?case using edits_insert_all [of "take j ys"] by simp
next
  case (2 xs ys i)
  then show ?case using edits_sym [OF edits_insert_all, of "take (Suc i) xs"] by simp
next
  case (3 xs ys i j)
  have t: "take (Suc i) xs = take i xs @ [xs ! i]" "take (Suc j) ys = take j ys @ [ys ! j]"
    using 3(4,5) by (simp_all add: take_Suc_conv_app_nth)
  have IH: "edits (lev xs ys i j) (take i xs) (take j ys)"
    "edits (lev xs ys i (Suc j)) (take i xs) (take j ys @ [ys ! j])"
    "edits (lev xs ys (Suc i) j) (take i xs @ [xs ! i]) (take j ys)"
    using 3 unfolding t [symmetric] by simp_all
  show ?case
    unfolding t lev.simps
    using edits_keep [OF IH(1)] edits_subst [OF IH(1)] edits_delete [OF IH(2)] edits_insert [OF IH(3)]
    by (auto simp: min_def)
qed

lemma lev_append: "i \<le> length xs \<Longrightarrow> j \<le> length ys \<Longrightarrow> lev (xs @ us) (ys @ vs) i j = lev xs ys i j"
  by (induction xs ys i j rule: lev.induct) (auto simp: nth_append)

lemma lev_least: "edits n xs ys \<Longrightarrow> lev xs ys (length xs) (length ys) \<le> n"
proof (induction rule: edits.induct)
  case (edits_delete n xs ys x)
  show ?case
  proof (cases "length ys")
    case (Suc j)
    then have "lev (xs @ [x]) (ys @ []) (length xs) (length ys) \<le> n"
      using edits_delete.IH by (subst lev_append) simp_all
    with Suc show ?thesis by simp
  qed (use edits_delete.IH in simp)
next
  case (edits_insert n xs ys y)
  show ?case
  proof (cases "length xs")
    case (Suc i)
    then have "lev (xs @ []) (ys @ [y]) (length xs) (length ys) \<le> n"
      using edits_insert.IH by (subst lev_append) simp_all
    with Suc show ?thesis by simp
  qed (use edits_insert.IH in simp)
qed (auto simp: lev_append)

text \<open>A row whose entries are all large makes every later row large.\<close>

lemma lev_row_step:
  assumes "\<And>j. j \<le> m \<Longrightarrow> k \<le> lev xs ys i j" and "j \<le> m"
  shows "k \<le> lev xs ys (Suc i) j"
  using assms(2)
proof (induction j)
  case 0
  then show ?case using assms(1) [of 0] by simp
next
  case (Suc j)
  then show ?case using assms(1) [of j] assms(1) [of "Suc j"] by simp
qed

lemma lev_rows:
  assumes "\<And>j. j \<le> m \<Longrightarrow> k \<le> lev xs ys i j" and "i \<le> i'" and "j \<le> m"
  shows "k \<le> lev xs ys i' j"
  using assms(2,3)
proof (induction i' arbitrary: j rule: dec_induct)
  case base
  then show ?case by (rule assms(1))
next
  case (step i')
  then show ?case using lev_row_step [of m k xs ys i'] by blast
qed

section \<open>The two-row program computes the table\<close>

text \<open>A row of the program holds the first \<open>m + 1\<close> entries of a row of the table.\<close>

definition rowIs :: "bytes \<Rightarrow> bytes \<Rightarrow> nat \<Rightarrow> nat \<Rightarrow> int list \<Rightarrow> bool" where
  "rowIs str1 str2 i m row \<longleftrightarrow> length row = 64 \<and> (\<forall>j\<le>m. row ! j = int (lev str2 str1 i j))"

text \<open>The running minimum of a row.\<close>

definition rowMin :: "bytes \<Rightarrow> bytes \<Rightarrow> nat \<Rightarrow> nat \<Rightarrow> int \<Rightarrow> bool" where
  "rowMin str1 str2 i m d \<longleftrightarrow>
     (\<forall>j\<le>m. d \<le> int (lev str2 str1 i j)) \<and> (\<exists>j\<le>m. d = int (lev str2 str1 i j))"

lemma levCells:
  assumes prev: "rowIs str1 str2 i (length str1) prev" and len: "length str1 \<le> 63" and i: "i < length str2"
    and cur: "rowIs str1 str2 (Suc i) 0 cur" and k: "k \<le> length str1"
  shows "\<exists>row d. forM [0..<k] (levCell str1 (str2 ! i) prev) (cur, int i + 1) = Some (row, d) \<and>
           rowIs str1 str2 (Suc i) k row \<and> rowMin str1 str2 (Suc i) k d"
  using k
proof (induction k)
  case 0
  then show ?case using cur by (simp add: rowMin_def)
next
  case (Suc k)
  then obtain row d where IH: "forM [0..<k] (levCell str1 (str2 ! i) prev) (cur, int i + 1) = Some (row, d)"
    "rowIs str1 str2 (Suc i) k row" "rowMin str1 str2 (Suc i) k d" by auto
  let ?new = "int (lev str2 str1 (Suc i) (Suc k))"
  have cell: "levCell str1 (str2 ! i) prev k (row, d) =
      Some (row[Suc k := ?new], if ?new < d then ?new else d)"
  proof -
    have "row ! k = int (lev str2 str1 (Suc i) k)" "prev ! k = int (lev str2 str1 i k)"
      "prev ! Suc k = int (lev str2 str1 i (Suc k))" "length row = 64" "length prev = 64"
      using IH(2) prev Suc.prems by (simp_all add: rowIs_def)
    moreover have "k < length str1" "Suc k < 64" using Suc.prems len by simp_all
    moreover have "min (min (int (lev str2 str1 i k) + (if str2 ! i = str1 ! k then 0 else 1))
        (int (lev str2 str1 i (Suc k)) + 1)) (int (lev str2 str1 (Suc i) k) + 1) = ?new"
      by (simp add: of_nat_min add.commute)
    ultimately show ?thesis by (simp add: levCell_def Let_def del: lev.simps)
  qed
  have "rowIs str1 str2 (Suc i) (Suc k) (row[Suc k := ?new])"
    using IH(2) Suc.prems len unfolding rowIs_def by (auto simp: nth_list_update le_Suc_eq)
  moreover have "rowMin str1 str2 (Suc i) (Suc k) (if ?new < d then ?new else d)"
    using IH(3) unfolding rowMin_def by (auto simp: le_Suc_eq simp del: lev.simps)
  ultimately show ?case using IH(1) cell by (simp add: forM_append del: lev.simps)
qed

lemma levRow_row:
  assumes "rowIs str1 str2 i (length str1) prev" and "length str1 \<le> 63" and "i < length str2" and "length cur = 64"
  shows "\<exists>row d. levRow str1 str2 i prev cur = Some (row, d) \<and>
           rowIs str1 str2 (Suc i) (length str1) row \<and> rowMin str1 str2 (Suc i) (length str1) d"
proof -
  have "rowIs str1 str2 (Suc i) 0 (cur[0 := int i + 1])" using assms(4) by (simp add: rowIs_def)
  from levCells [OF assms(1-3) this order_refl] show ?thesis using assms(3,4) by (simp add: levRow_def)
qed

text \<open>The outer loop returns the entry of the last row, unless it can tell that this is too large.\<close>

lemma levRows_result:
  assumes "rowIs str1 str2 i (length str1) prev" and "length str1 \<le> 63" and "length cur = 64"
    and "i \<le> length str2"
  shows "\<exists>d. levRows str1 str2 maxDist [i..<length str2] prev cur = Some d \<and>
           (d = int (lev str2 str1 (length str2) (length str1)) \<or>
            (d = maxDist + 1 \<and> maxDist < int (lev str2 str1 (length str2) (length str1))))"
  using assms
proof (induction "length str2 - i" arbitrary: i prev cur)
  case 0
  then have "i = length str2" by simp
  with 0 show ?case by (simp add: rowIs_def)
next
  case (Suc k)
  then have i: "i < length str2" by simp
  then have ix: "[i..<length str2] = i # [Suc i..<length str2]" by (simp add: upt_conv_Cons)
  obtain row d where row: "levRow str1 str2 i prev cur = Some (row, d)"
    "rowIs str1 str2 (Suc i) (length str1) row" "rowMin str1 str2 (Suc i) (length str1) d"
    using levRow_row [OF Suc.prems(1,2) i Suc.prems(3)] by blast
  show ?case
  proof (cases "maxDist < d")
    case True
    have "nat d \<le> lev str2 str1 (length str2) (length str1)"
      by (rule lev_rows [of "length str1" _ _ _ "Suc i"])
         (use row(3) i in \<open>auto simp: rowMin_def nat_le_iff simp del: lev.simps\<close>)
    with True row(1) show ?thesis unfolding ix by (auto simp: nat_le_iff)
  next
    case False
    have "length prev = 64" using Suc.prems(1) by (simp add: rowIs_def)
    then show ?thesis
      using Suc.hyps(1) [OF _ row(2) Suc.prems(2), of prev] Suc.hyps(2) i row(1) False
      unfolding ix by simp
  qed
qed

lemma initRow:
  assumes "k \<le> 64"
  shows "\<exists>row. forM [0..<k] (\<lambda>i row. upd_opt row i (\<lambda>_. int i)) (replicate 64 0) = Some row \<and>
           length row = 64 \<and> (\<forall>j<k. row ! j = int j)"
  using assms
proof (induction k)
  case (Suc k)
  then obtain row where "forM [0..<k] (\<lambda>i row. upd_opt row i (\<lambda>_. int i)) (replicate 64 0) = Some row"
    "length row = 64" "\<forall>j<k. row ! j = int j" by auto
  with Suc.prems show ?case by (auto simp: forM_append less_Suc_eq)
qed simp

text \<open>
  C25. The bounded edit distance: for strings of at most 63 bytes \<open>levenshteinFast\<close> never leaves
  its fixed-size rows, and its result is at most the bound exactly when some sequence of that many
  or fewer single-byte insertions, deletions and substitutions turns one string into the other;
  the result is then the least such number. The early exits only cut off larger distances.
\<close>

theorem levenshteinFast_correct:
  assumes "length a \<le> 63" and "length b \<le> 63"
  shows "\<exists>d. levenshteinFast a b maxDist = Some d \<and>
           (d \<le> maxDist \<longrightarrow> 0 \<le> d \<and> edits (nat d) a b) \<and>
           (\<forall>n. edits n a b \<and> int n \<le> maxDist \<longrightarrow> d \<le> int n)"
proof -
  define s1 s2 where "s1 = (if length b < length a then b else a)" and "s2 = (if length b < length a then a else b)"
  have s: "length s1 \<le> length s2" "length s2 \<le> 63" "\<And>n. edits n a b \<longleftrightarrow> edits n s2 s1"
    using assms edits_sym by (auto simp: s1_def s2_def)
  let ?d = "lev s2 s1 (length s2) (length s1)"
  have d: "edits ?d s2 s1" "\<And>n. edits n s2 s1 \<Longrightarrow> ?d \<le> n"
    using edits_lev [of "length s2" s2 "length s1" s1] lev_least by simp_all
  have "\<exists>r. levenshteinFast a b maxDist = Some r \<and> (r = int ?d \<or> (r = maxDist + 1 \<and> maxDist < int ?d))"
  proof (cases "s1 = [] \<or> maxDist < int (length s2) - int (length s1)")
    case True
    have "length s2 \<le> ?d + length s1" using edits_length [OF d(1)] by simp
    with True s(1,2) show ?thesis
      by (cases "s1 = []") (auto simp: levenshteinFast_def s1_def s2_def Let_def split: if_splits)
  next
    case False
    obtain row0 where row0: "forM [0..<length s1 + 1] (\<lambda>i row. upd_opt row i (\<lambda>_. int i)) (replicate 64 0) = Some row0"
      "length row0 = 64" "\<forall>j<length s1 + 1. row0 ! j = int j"
      using initRow [of "length s1 + 1"] s(1,2) by auto
    have "rowIs s1 s2 0 (length s1) row0" using row0(2,3) by (simp add: rowIs_def)
    from levRows_result [OF this, of "replicate 64 0" maxDist] s(1,2)
    obtain r where "levRows s1 s2 maxDist [0..<length s2] row0 (replicate 64 0) = Some r"
      "r = int ?d \<or> (r = maxDist + 1 \<and> maxDist < int ?d)" by auto
    then have "levenshteinFast a b maxDist = Some r"
      using False row0(1) s(1,2)
      by (auto simp: levenshteinFast_def s1_def s2_def Let_def simp del: upt_Suc split: if_splits)
    with \<open>r = int ?d \<or> _\<close> show ?thesis by blast
  qed
  then obtain r where r: "levenshteinFast a b maxDist = Some r"
    "r = int ?d \<or> (r = maxDist + 1 \<and> maxDist < int ?d)" by blast
  have "0 \<le> r \<and> edits (nat r) a b" if "r \<le> maxDist" using r(2) that d(1) s(3) by auto
  moreover have "r \<le> int n" if "edits n a b" "int n \<le> maxDist" for n
    using r(2) that s(3) d(2) [of n] by auto
  ultimately show ?thesis using r(1) by blast
qed

theorem levenshteinFast_correct_witness:
  "\<exists>d. levenshteinFast ''spawn'' ''span'' 3 = Some d \<and> d \<le> 1"
proof -
  have "edits 1 ''spawn'' ''span''"
    using edits_keep [OF edits_delete [OF edits_keep [OF edits_keep [OF edits_keep [OF edits_nil]]]],
        of "CHR ''s''" "CHR ''p''" "CHR ''a''" "CHR ''w''" "CHR ''n''"] by simp
  with levenshteinFast_correct [of "''spawn''" "''span''" 3] show ?thesis by fastforce
qed

section \<open>What the searches decide\<close>

lemma fuzzyLoop_subseq:
  "idx \<le> length query \<Longrightarrow> fuzzyLoop name query idx = length query \<longleftrightarrow> subseq (drop idx query) name"
proof (induction name arbitrary: idx)
  case (Cons c name)
  show ?case
  proof (cases "idx < length query")
    case True
    then have "drop idx query = query ! idx # drop (Suc idx) query" by (simp add: Cons_nth_drop_Suc)
    with True Cons.IH [of idx] Cons.IH [of "Suc idx"] show ?thesis by (auto simp: subseq_Cons2_iff)
  qed (use Cons.prems in simp)
qed (auto dest: list_emb_Nil2)

text \<open>Fuzzy matching decides the subsequence relation: the greedy single pass of \<open>fuzzyMatch\<close>
  succeeds exactly when the bytes of the query occur in the name in this order, with gaps
  allowed.
\<close>

lemma fuzzyMatch_subseq: "fuzzyMatch name query \<longleftrightarrow> subseq query name"
  using fuzzyLoop_subseq [of 0 query name] by (simp add: fuzzyMatch_def)

lemma containsFold_index:
  "containsFold str query \<longleftrightarrow>
     (\<exists>i. i + length query \<le> length str \<and> (\<forall>j<length query. sameFold (str ! (i + j)) (query ! j)))"
proof (cases "query = [] \<or> length str < length query")
  case False
  then have "i < length str - length query + 1 \<longleftrightarrow> i + length query \<le> length str" for i by auto
  with False show ?thesis
    unfolding containsFold_def list_ex_iff list_all_iff by (simp del: upt_Suc add: Bex_def Ball_def)
qed (auto simp: containsFold_def)

text \<open>Case-insensitive search: \<open>containsFold\<close> finds exactly the texts that have a contiguous part
  of the query's length whose bytes, lower-cased, equal the query's, with dot and colon
  interchangeable; every index it uses is in range.
\<close>

lemma containsFold_part:
  "containsFold str query \<longleftrightarrow> (\<exists>before part after. str = before @ part @ after \<and> list_all2 sameFold part query)"
proof
  assume "containsFold str query"
  then obtain i where i: "i + length query \<le> length str"
      "\<forall>j<length query. sameFold (str ! (i + j)) (query ! j)"
    by (auto simp: containsFold_index)
  have "str = take i str @ take (length query) (drop i str) @ drop (i + length query) str"
    by (metis add.commute append_take_drop_id drop_drop)
  moreover have "list_all2 sameFold (take (length query) (drop i str)) query"
    using i by (auto simp: list_all2_conv_all_nth)
  ultimately show "\<exists>before part after. str = before @ part @ after \<and> list_all2 sameFold part query" by blast
next
  assume "\<exists>before part after. str = before @ part @ after \<and> list_all2 sameFold part query"
  then obtain before part after where "str = before @ part @ after" "list_all2 sameFold part query" by blast
  then have same: "sameFold (str ! (length before + j)) (query ! j)" if "j < length query" for j
    using that list_all2_nthD2 [OF \<open>list_all2 sameFold part query\<close>, of j]
      list_all2_lengthD [OF \<open>list_all2 sameFold part query\<close>] by (simp add: nth_append)
  have "length before + length query \<le> length str"
    using \<open>str = _\<close> list_all2_lengthD [OF \<open>list_all2 sameFold part query\<close>] by simp
  with same show "containsFold str query"
    unfolding containsFold_index by (intro exI [of _ "length before"]) simp
qed

lemma hasPrefixFold_iff:
  "hasPrefixFold str pre \<longleftrightarrow> length pre \<le> length str \<and> map foldByte (take (length pre) str) = map foldByte pre"
proof (cases "length str < length pre")
  case False
  have "map foldByte (take (length pre) str) = map foldByte pre \<longleftrightarrow>
      (\<forall>i<length pre. foldByte (str ! i) = foldByte (pre ! i))"
    using False by (subst list_eq_iff_nth_eq) simp
  with False show ?thesis by (simp add: hasPrefixFold_def list_all_iff Ball_def)
qed (simp add: hasPrefixFold_def)

text \<open>
  What a glob pattern means: \<open>**\<close> stands for any bytes, \<open>*\<close> for any bytes but path separators,
  \<open>?\<close> for any one byte, and every other byte for itself up to case and the kind of slash.
\<close>

inductive globs :: "bytes \<Rightarrow> bytes \<Rightarrow> bool" where
  globs_end: "globs [] []"
| globs_double: "globs pattern path \<Longrightarrow> globs (CHR ''*'' # CHR ''*'' # pattern) (skipped @ path)"
| globs_star: "globs pattern path \<Longrightarrow> pattern = [] \<or> hd pattern \<noteq> CHR ''*'' \<Longrightarrow>
    \<forall>c \<in> set skipped. \<not> isSep c \<Longrightarrow> globs (CHR ''*'' # pattern) (skipped @ path)"
| globs_any: "globs pattern path \<Longrightarrow> globs (CHR ''?'' # pattern) (c # path)"
| globs_byte: "globs pattern path \<Longrightarrow> p \<noteq> CHR ''*'' \<Longrightarrow> p \<noteq> CHR ''?'' \<Longrightarrow> globByte p = globByte c \<Longrightarrow>
    globs (p # pattern) (c # path)"

lemma starStops_iff:
  "path' \<in> set (starStops path) \<longleftrightarrow> (\<exists>skipped. path = skipped @ path' \<and> (\<forall>c \<in> set skipped. \<not> isSep c))"
proof (induction path)
  case (Cons c path)
  show ?case
  proof
    assume "path' \<in> set (starStops (c # path))"
    then consider "path' = c # path" | "\<not> isSep c" "path' \<in> set (starStops path)"
      by (auto split: if_splits)
    then show "\<exists>skipped. c # path = skipped @ path' \<and> (\<forall>c \<in> set skipped. \<not> isSep c)"
    proof cases
      case 1
      then show ?thesis by (intro exI [of _ "[]"]) simp
    next
      case 2
      with Cons obtain skipped where "path = skipped @ path'" "\<forall>c \<in> set skipped. \<not> isSep c" by blast
      with 2(1) show ?thesis by (intro exI [of _ "c # skipped"]) simp
    qed
  next
    assume "\<exists>skipped. c # path = skipped @ path' \<and> (\<forall>c \<in> set skipped. \<not> isSep c)"
    then show "path' \<in> set (starStops (c # path))"
      using Cons by (auto simp: Cons_eq_append_conv)
  qed
qed auto

text \<open>The equations of the four kinds of pattern.\<close>

lemma matchGlob_Nil: "matchGlob [] path \<longleftrightarrow> path = []"
  by (simp add: matchGlob.simps)

lemma matchGlob_double:
  "matchGlob (CHR ''*'' # CHR ''*'' # q) path \<longleftrightarrow> q = [] \<or> (\<exists>skipped path'. path = skipped @ path' \<and> matchGlob q path')"
  by (subst matchGlob.simps) (simp add: list_ex_iff suffix_def Bex_def, metis)

lemma matchGlob_star:
  assumes "q = [] \<or> hd q \<noteq> CHR ''*''"
  shows "matchGlob (CHR ''*'' # q) path \<longleftrightarrow>
     (\<exists>skipped path'. path = skipped @ path' \<and> (\<forall>c \<in> set skipped. \<not> isSep c) \<and> matchGlob q path')"
proof (cases "q = []")
  case True
  then show ?thesis by (subst matchGlob.simps) (auto simp: list_all_iff matchGlob_Nil)
next
  case False
  with assms show ?thesis by (subst matchGlob.simps) (simp add: list_ex_iff Bex_def starStops_iff, blast)
qed

lemma matchGlob_one:
  "p \<noteq> CHR ''*'' \<Longrightarrow> matchGlob (p # q) path \<longleftrightarrow>
     (\<exists>c path'. path = c # path' \<and> (p = CHR ''?'' \<or> globByte p = globByte c) \<and> matchGlob q path')"
  by (subst matchGlob.simps) (auto split: list.splits)

lemma globs_all: "globs [CHR ''*'', CHR ''*''] path"
  using globs_double [OF globs_end, of path] by simp

text \<open>
  C26. Glob patterns: \<open>matchGlob\<close> terminates on every pattern and path and accepts exactly the
  paths that the pattern describes. The search it makes for the end of a star loses no match.
\<close>

theorem matchGlob_globs: "matchGlob pattern path \<longleftrightarrow> globs pattern path"
proof
  show "matchGlob pattern path \<Longrightarrow> globs pattern path"
  proof (induction pattern arbitrary: path rule: length_induct)
    case (1 pattern)
    then have IH: "matchGlob q path' \<Longrightarrow> length q < length pattern \<Longrightarrow> globs q path'" for q path' by blast
    consider (nil) "pattern = []" | (double) q where "pattern = CHR ''*'' # CHR ''*'' # q"
      | (star) q where "pattern = CHR ''*'' # q" "q = [] \<or> hd q \<noteq> CHR ''*''"
      | (one) p q where "pattern = p # q" "p \<noteq> CHR ''*''"
      by (metis list.collapse list.exhaust)
    then show ?case
    proof cases
      case nil
      with 1(2) show ?thesis by (auto simp: matchGlob_Nil intro: globs_end)
    next
      case (double q)
      with 1(2) IH show ?thesis by (auto simp: matchGlob_double globs_all intro: globs.globs_double)
    next
      case (star q)
      with 1(2) IH show ?thesis by (auto simp: matchGlob_star intro: globs_star)
    next
      case (one p q)
      with 1(2) IH show ?thesis by (auto simp: matchGlob_one intro: globs.intros)
    qed
  qed
next
  show "globs pattern path \<Longrightarrow> matchGlob pattern path"
  proof (induction rule: globs.induct)
    case (globs_star pattern path skipped)
    then show ?case using matchGlob_star by blast
  qed (auto simp: matchGlob_Nil matchGlob_double matchGlob_one)
qed

section \<open>What trimming keeps\<close>

text \<open>The lines of a text, without their newlines.\<close>

fun splitLines :: "bytes \<Rightarrow> bytes list" where
  "splitLines [] = [[]]"
| "splitLines (c # cs) =
     (if c = newline then [] # splitLines cs
      else case splitLines cs of [] \<Rightarrow> [[c]] | l # ls \<Rightarrow> (c # l) # ls)"

fun joinLines :: "bytes list \<Rightarrow> bytes" where
  "joinLines [] = []"
| "joinLines [l] = l"
| "joinLines (l # ls) = l @ newline # joinLines ls"

lemma splitLines_append:
  "newline \<notin> set l \<Longrightarrow> splitLines (l @ newline # cs) = l # splitLines cs"
  by (induction l) auto

lemma splitLines_single: "newline \<notin> set l \<Longrightarrow> splitLines l = [l]"
  by (induction l) auto

lemma splitLines_nonempty [simp]: "splitLines cs \<noteq> []"
  by (induction cs) (auto split: list.splits)

lemma trimRight_set: "set (trimRight cutset s) \<subseteq> set s"
  by (auto simp: trimRight_def dest: set_dropWhileD)

text \<open>Trimming trailing white space keeps the lines apart: the result has the lines of the text,
  in the same number and order, each without its trailing blanks, tabs and carriage returns.
\<close>

lemma trimTrailingWhitespace_lines:
  "trimTrailingWhitespace str = joinLines (map (trimRight lineBlanks) (splitLines str))"
proof (induction str rule: trimTrailingWhitespace.induct)
  case (1 str)
  show ?case
  proof (cases "IndexByte str newline")
    case None
    then have "newline \<notin> set str" by (simp add: IndexByte_None_iff)
    then show ?thesis
      using None by (cases "str = []")
        (simp_all add: trimTrailingWhitespace.simps [of str] trimTrailingWhitespace.simps [of "[]"]
          splitLines_single trimRight_def)
  next
    case (Some idx)
    then have idx: "idx < length str" "str ! idx = newline" "newline \<notin> set (take idx str)"
      using IndexByte_SomeD [OF Some] by (auto simp: in_set_conv_nth)
    then have str: "str = take idx str @ newline # drop (idx + 1) str"
      using id_take_nth_drop [OF idx(1)] by simp
    have ne: "str \<noteq> []" using idx(1) by auto
    have "splitLines str = take idx str # splitLines (drop (idx + 1) str)"
      by (subst str) (rule splitLines_append [OF idx(3)])
    moreover have "map (trimRight lineBlanks) (splitLines (drop (idx + 1) str)) \<noteq> []" by simp
    ultimately show ?thesis
      using 1(1) [OF ne Some] ne Some
      by (cases "map (trimRight lineBlanks) (splitLines (drop (idx + 1) str))")
         (simp_all add: trimTrailingWhitespace.simps [of str])
  qed
qed

section \<open>White space at the ends\<close>

lemma trimFront_stop: "list_all (\<lambda>r. r = [] \<or> hd r \<noteq> b) spaces \<Longrightarrow> trimFront spaces (b # bs) = b # bs"
proof -
  assume "list_all (\<lambda>r. r = [] \<or> hd r \<noteq> b) spaces"
  then have "List.find (\<lambda>r. r \<noteq> [] \<and> prefix r (b # bs)) spaces = None"
    by (auto simp: find_None_iff list_all_iff prefix_def Cons_eq_append_conv)
  then show ?thesis by simp
qed

lemma spaceRunes_ends: "list_all (\<lambda>r. r = [] \<or> hd r \<noteq> b) spaceRunes \<and> list_all (\<lambda>r. r = [] \<or> hd r \<noteq> b) (map rev spaceRunes)"
  if "byte_val b \<in> {33..<128}"
proof -
  have "list_all (\<lambda>r. byte_val (hd r) \<notin> {33..<128} \<and> byte_val (hd (rev r)) \<notin> {33..<128}) spaceRunes"
    by (simp add: spaceRunes_def)
  with that show ?thesis by (fastforce simp: list_all_iff)
qed

lemma find_unique: "x \<in> set xs \<Longrightarrow> P x \<Longrightarrow> (\<And>y. y \<in> set xs \<Longrightarrow> P y \<Longrightarrow> y = x) \<Longrightarrow> List.find P xs = Some x"
proof (induction xs)
  case (Cons a xs)
  show ?case
  proof (cases "P a")
    case True
    with Cons.prems(3) [of a] show ?thesis by simp
  next
    case False
    with Cons.prems(1,2) have "x \<in> set xs" by auto
    from Cons.IH [OF this Cons.prems(2)] Cons.prems(3) False show ?thesis by simp
  qed
qed simp

lemma find_space: "List.find (\<lambda>r. r \<noteq> [] \<and> prefix r (CHR '' '' # bs)) spaceRunes = Some [CHR '' '']"
proof (rule find_unique)
  have "char_of (32 :: nat) = CHR '' ''" using char_of_char [of "CHR '' ''", where ?'a = nat] by simp
  then show "[CHR '' ''] \<in> set spaceRunes" by (simp add: spaceRunes_def)
  fix r
  assume r: "r \<in> set spaceRunes" "r \<noteq> [] \<and> prefix r (CHR '' '' # bs)"
  have "list_all (\<lambda>r. byte_val (hd r) = 32 \<longrightarrow> length r = 1) spaceRunes" by (simp add: spaceRunes_def)
  moreover have "hd r = CHR '' ''" using r(2) by (cases r) auto
  ultimately have "length r = 1" using r(1) by (auto simp: list_all_iff)
  with r(2) show "r = [CHR '' '']" by (cases r) auto
qed simp

lemma TrimSpace_stays:
  assumes "byte_val (hd bs) \<in> {33..<128}" "byte_val (last bs) \<in> {33..<128}" "bs \<noteq> []"
  shows "TrimSpace bs = bs" "TrimSpace (CHR '' '' # bs) = bs"
proof -
  obtain b bs' where b: "bs = b # bs'" using assms(3) by (cases bs) auto
  obtain c cs where c: "rev bs = c # cs" "c = last bs" using assms(3) by (cases bs rule: rev_cases) auto
  have front: "trimFront spaceRunes bs = bs"
    unfolding b by (rule trimFront_stop, rule conjunct1, rule spaceRunes_ends) (use assms(1) b in simp)
  have rear: "trimFront (map rev spaceRunes) (rev bs) = rev bs"
    unfolding c(1) by (rule trimFront_stop, rule conjunct2, rule spaceRunes_ends) (use assms(2) c(2) in simp)
  have "trimFront spaceRunes (CHR '' '' # bs) = bs" using front by (simp add: find_space)
  with front rear show "TrimSpace bs = bs" "TrimSpace (CHR '' '' # bs) = bs" by (simp_all add: TrimSpace_def)
qed

end
