(* ===== verification/Global_Index.thy ===== *)
theory Global_Index
  imports Dep_Graph Lsp_Text Positions "HOL-Library.Product_Lexorder"
begin

text \<open>
  The workspace index (\<open>src/lsp/global_index.go\<close>): symbol tables per resource and scope, the
  index by hash, the resources' identities and dependency edges, and the memory budget with its
  least-recently-used eviction.

  \<^item> A \<open>*SymbolEntry\<close> is compared and shared by address in the code, so an entry is a number
    (\<open>EntryRef\<close>) and \<open>giEntries\<close> is the memory behind the addresses. The data an entry carries
    for other components (types, documentation, FiveM data) is the type parameter \<open>'p\<close>.
  \<^item> A \<open>*ResourceScope\<close> is named by its URI, under which it is stored; \<open>giIdentities\<close> holds
    the URIs of the scopes of each identity.
  \<^item> The index comes from \<open>NewGlobalIndex\<close>, so its maps and graph are never nil. The mutex is not
    modelled: each method runs under it as one step.
  \<^item> Go iterates over a map in an arbitrary order. Where the outcome could depend on it, the
    order is the argument \<open>ord\<close>, a listing of the keys; the theorems hold for every listing.
  \<^item> Counters and sizes are 64-bit words and wrap.
\<close>

section \<open>State\<close>

type_synonym SymbolName = string
type_synonym EntryRef = nat
type_synonym SymbolTable = "SymbolName \<rightharpoonup> EntryRef"
type_synonym iteration = "ResourceURI set \<Rightarrow> ResourceURI list"

record GlobalKey =
  gkReceiverHash :: u64
  gkPropHash :: u64

definition zeroKey :: GlobalKey where
  "zeroKey = \<lparr>gkReceiverHash = 0, gkPropHash = 0\<rparr>"

record 'p SymbolEntry =
  seName :: SymbolName
  seKey :: GlobalKey
  seURI :: string
  seNodeID :: NodeID
  seParent :: string
  seIsRoot :: bool
  seIsDeprecated :: bool
  seDeprecatedMsg :: string
  seData :: 'p

record ResourceScope =
  rsURI :: ResourceURI
  rsIdentity :: ResourceURI
  rsClient :: SymbolTable
  rsServer :: SymbolTable
  rsShared :: SymbolTable
  rsDependencies :: "ResourceURI list"
  rsDependents :: "ResourceURI list"
  rsScriptScopes :: "ResourceURI \<rightharpoonup> string"
  rsSource :: bytes
  rsAST :: "Tree option"
  rsSourceBytes :: u64
  rsLastAccess :: u64

record 'p GlobalIndex =
  giResources :: "ResourceURI \<rightharpoonup> ResourceScope"
  giHashIndex :: "GlobalKey \<rightharpoonup> EntryRef list"
  giDepGraph :: DependencyGraph
  giIdentities :: "ResourceURI \<rightharpoonup> ResourceURI set"
  giMaxMemory :: u64
  giMemoryUsage :: u64
  giClock :: u64
  giEntries :: "EntryRef \<rightharpoonup> 'p SymbolEntry"

definition DefaultGlobalIndexMaxMemory :: u64 where
  "DefaultGlobalIndexMaxMemory = 256 * 1024 * 1024"

definition NewGlobalIndex :: "u64 list \<Rightarrow> 'p GlobalIndex" where
  "NewGlobalIndex maxMemory =
     \<lparr>giResources = Map.empty, giHashIndex = Map.empty, giDepGraph = NewDependencyGraph,
      giIdentities = Map.empty,
      giMaxMemory = (if 0 < length maxMemory \<and> 0 < maxMemory ! 0 then maxMemory ! 0
                     else DefaultGlobalIndexMaxMemory),
      giMemoryUsage = 0, giClock = 0, giEntries = Map.empty\<rparr>"

definition NewResourceScope :: "ResourceURI \<Rightarrow> ResourceScope" where
  "NewResourceScope uri =
     \<lparr>rsURI = uri, rsIdentity = '''', rsClient = Map.empty, rsServer = Map.empty, rsShared = Map.empty,
      rsDependencies = [], rsDependents = [], rsScriptScopes = Map.empty, rsSource = [], rsAST = None,
      rsSourceBytes = 0, rsLastAccess = 0\<rparr>"

definition updateScope :: "ResourceURI \<Rightarrow> (ResourceScope \<Rightarrow> ResourceScope) \<Rightarrow> 'p GlobalIndex \<Rightarrow> 'p GlobalIndex" where
  "updateScope uri f idx =
     idx\<lparr>giResources := (giResources idx)(uri := map_option f (giResources idx uri))\<rparr>"

section \<open>Resources and their identities\<close>

definition touchLocked :: "ResourceURI \<Rightarrow> 'p GlobalIndex \<Rightarrow> 'p GlobalIndex" where
  "touchLocked uri idx =
     (let idx = idx\<lparr>giClock := giClock idx + 1\<rparr>
      in updateScope uri (\<lambda>res. res\<lparr>rsLastAccess := giClock idx\<rparr>) idx)"

definition resourceIdentity :: "ResourceScope \<Rightarrow> ResourceURI" where
  "resourceIdentity res = (if rsIdentity res = '''' then rsURI res else rsIdentity res)"

definition addResourceIdentityLocked :: "ResourceURI \<Rightarrow> ResourceURI \<Rightarrow> 'p GlobalIndex \<Rightarrow> 'p GlobalIndex" where
  "addResourceIdentityLocked uri identity idx =
     (if identity = '''' then idx
      else idx\<lparr>giIdentities := (giIdentities idx)(identity \<mapsto> insert uri (setAt (giIdentities idx) identity))\<rparr>)"

definition removeResourceIdentityLocked :: "ResourceURI \<Rightarrow> ResourceURI \<Rightarrow> 'p GlobalIndex \<Rightarrow> 'p GlobalIndex" where
  "removeResourceIdentityLocked uri identity idx =
     (if identity = '''' then idx
      else let scopes = setAt (giIdentities idx) identity - {uri}
           in idx\<lparr>giIdentities := (giIdentities idx)(identity := (if scopes = {} then None else Some scopes))\<rparr>)"

definition refreshResourceEdgesLocked :: "ResourceURI \<Rightarrow> 'p GlobalIndex \<Rightarrow> 'p GlobalIndex" where
  "refreshResourceEdgesLocked identity idx =
     (if identity = '''' then idx
      else let scopes = setAt (giIdentities idx) identity;
               edges = (\<lambda>res. res\<lparr>rsDependencies := DependencyList identity (giDepGraph idx),
                                  rsDependents := DependentList identity (giDepGraph idx)\<rparr>)
           in idx\<lparr>giResources := (\<lambda>uri. if uri \<in> scopes then map_option edges (giResources idx uri)
                                          else giResources idx uri)\<rparr>)"

definition syncResourceEdgesLocked :: "iteration \<Rightarrow> 'p GlobalIndex \<Rightarrow> 'p GlobalIndex" where
  "syncResourceEdgesLocked ord idx =
     (let idx = fold (\<lambda>uri idx. case giResources idx uri of
                        None \<Rightarrow> idx
                      | Some res \<Rightarrow> addResourceIdentityLocked (rsURI res) (resourceIdentity res) idx)
                  (ord (dom (giResources idx))) idx
      in fold refreshResourceEdgesLocked (ord (dom (giIdentities idx))) idx)"

definition ensureResourceLocked :: "ResourceURI \<Rightarrow> 'p GlobalIndex \<Rightarrow> 'p GlobalIndex" where
  "ensureResourceLocked uri idx =
     (let idx = (if giMaxMemory idx = 0 then idx\<lparr>giMaxMemory := DefaultGlobalIndexMaxMemory\<rparr> else idx);
          res = (case giResources idx uri of None \<Rightarrow> NewResourceScope uri | Some res \<Rightarrow> res);
          idx = idx\<lparr>giResources := (giResources idx)(uri \<mapsto> res)\<rparr>;
          idx = addResourceIdentityLocked (rsURI res) (resourceIdentity res) idx;
          idx = idx\<lparr>giDepGraph := AddResource uri (giDepGraph idx)\<rparr>
      in touchLocked uri idx)"

section \<open>Symbols\<close>

definition tableForScope :: "string \<Rightarrow> ResourceScope \<Rightarrow> SymbolTable" where
  "tableForScope scope res =
     (if scope = ''client'' then rsClient res
      else if scope = ''server'' then rsServer res
      else rsShared res)"

definition setTableForScope :: "string \<Rightarrow> SymbolTable \<Rightarrow> ResourceScope \<Rightarrow> ResourceScope" where
  "setTableForScope scope table res =
     (if scope = ''client'' then res\<lparr>rsClient := table\<rparr>
      else if scope = ''server'' then res\<lparr>rsServer := table\<rparr>
      else res\<lparr>rsShared := table\<rparr>)"

text \<open>\<open>removeSymbolEntry\<close> removes the first occurrence of an address.\<close>

definition removeSymbolEntry :: "EntryRef list \<Rightarrow> EntryRef \<Rightarrow> EntryRef list" where
  "removeSymbolEntry entries stale = remove1 stale entries"

definition hashEntries :: "'p GlobalIndex \<Rightarrow> GlobalKey \<Rightarrow> EntryRef list" where
  "hashEntries idx key = (case giHashIndex idx key of None \<Rightarrow> [] | Some es \<Rightarrow> es)"

text \<open>The stale entry of a name is taken out of the list of its key, the new one is appended.
  \<open>None\<close>: an address without memory behind it, which Go excludes.\<close>

definition dropStaleHash :: "EntryRef \<Rightarrow> GlobalKey \<Rightarrow> EntryRef option \<Rightarrow> 'p GlobalIndex \<Rightarrow> 'p GlobalIndex option" where
  "dropStaleHash entry key previous idx =
     (case previous of
        None \<Rightarrow> Some idx
      | Some prev \<Rightarrow> do {
          p \<leftarrow> giEntries idx prev;
          Some (if prev \<noteq> entry \<and> key \<noteq> zeroKey \<and> seKey p = key
                then let entries = removeSymbolEntry (hashEntries idx key) prev
                     in idx\<lparr>giHashIndex := (giHashIndex idx)(key := (if entries = [] then None else Some entries))\<rparr>
                else idx)
        })"

definition appendHash :: "EntryRef \<Rightarrow> GlobalKey \<Rightarrow> 'p GlobalIndex \<Rightarrow> 'p GlobalIndex" where
  "appendHash entry key idx =
     (if key \<noteq> zeroKey then idx\<lparr>giHashIndex := (giHashIndex idx)(key \<mapsto> hashEntries idx key @ [entry])\<rparr> else idx)"

definition nameEntry :: "ResourceURI \<Rightarrow> SymbolName \<Rightarrow> 'p SymbolEntry \<Rightarrow> 'p SymbolEntry" where
  "nameEntry resource name e =
     (let e = e\<lparr>seName := name\<rparr> in if seURI e = '''' then e\<lparr>seURI := resource\<rparr> else e)"

definition AddSymbol ::
  "ResourceURI \<Rightarrow> string \<Rightarrow> SymbolName \<Rightarrow> EntryRef \<Rightarrow> 'p GlobalIndex \<Rightarrow> 'p GlobalIndex option" where
  "AddSymbol resource scope name entry idx =
     (if name = '''' then Some idx
      else do {
        let idx = ensureResourceLocked resource idx;
        res \<leftarrow> giResources idx resource;
        let previous = tableForScope scope res name;
        e \<leftarrow> giEntries idx entry;
        let idx = idx\<lparr>giEntries := (giEntries idx)(entry \<mapsto> nameEntry resource name e)\<rparr>;
        idx \<leftarrow> dropStaleHash entry (seKey e) previous idx;
        let idx = updateScope resource (\<lambda>res. setTableForScope scope ((tableForScope scope res)(name \<mapsto> entry)) res) idx;
        Some (appendHash entry (seKey e) idx)
      })"

text \<open>\<open>LookupByHash\<close> returns copies of the entries, \<open>SymbolsByHash\<close> their addresses.\<close>

definition SymbolsByHash :: "GlobalKey \<Rightarrow> 'p GlobalIndex \<Rightarrow> EntryRef list" where
  "SymbolsByHash key idx = hashEntries idx key"

definition LookupByHash :: "GlobalKey \<Rightarrow> 'p GlobalIndex \<Rightarrow> 'p SymbolEntry list" where
  "LookupByHash key idx = List.map_filter (giEntries idx) (hashEntries idx key)"

definition LookupByScope ::
  "ResourceURI \<Rightarrow> string \<Rightarrow> SymbolName \<Rightarrow> 'p GlobalIndex \<Rightarrow> EntryRef option \<times> 'p GlobalIndex" where
  "LookupByScope resource scope name idx =
     (if name = '''' then (None, idx)
      else case giResources idx resource of
             None \<Rightarrow> (None, idx)
           | Some res \<Rightarrow> (tableForScope scope res name, touchLocked resource idx))"

definition sortedSymbolNames :: "SymbolTable \<Rightarrow> SymbolName list" where
  "sortedSymbolNames table = sorted_list_of_set (dom table)"

definition sortedResourceKeys :: "'p GlobalIndex \<Rightarrow> ResourceURI list" where
  "sortedResourceKeys idx = sorted_list_of_set (dom (giResources idx))"

definition tableEntries :: "SymbolTable \<Rightarrow> EntryRef list" where
  "tableEntries table = List.map_filter table (sortedSymbolNames table)"

definition appendUniqueEntries :: "EntryRef list \<Rightarrow> SymbolTable \<Rightarrow> EntryRef list" where
  "appendUniqueEntries visible table =
     fold (\<lambda>entry visible. if entry \<in> set visible then visible else visible @ [entry])
       (tableEntries table) visible"

definition appendScope :: "string \<Rightarrow> 'p GlobalIndex \<Rightarrow> ResourceURI \<Rightarrow> EntryRef list \<Rightarrow> EntryRef list" where
  "appendScope scope idx uri visible =
     (case giResources idx uri of
        None \<Rightarrow> visible
      | Some res \<Rightarrow> appendUniqueEntries (appendUniqueEntries visible (tableForScope scope res)) (rsShared res))"

definition VisibleSymbols :: "ResourceURI \<Rightarrow> string \<Rightarrow> 'p GlobalIndex \<Rightarrow> EntryRef list" where
  "VisibleSymbols fromResource scope idx =
     (let visible = appendScope scope idx fromResource []
      in case giResources idx fromResource of
           None \<Rightarrow> visible
         | Some res \<Rightarrow> fold (appendScope scope idx) (rsDependencies res) visible)"

definition AllSymbols :: "'p GlobalIndex \<Rightarrow> (ResourceURI \<times> EntryRef) list" where
  "AllSymbols idx =
     concat (map (\<lambda>uri. case giResources idx uri of
                    None \<Rightarrow> []
                  | Some res \<Rightarrow> map (Pair uri) (tableEntries (rsClient res) @ tableEntries (rsServer res)
                                                @ tableEntries (rsShared res)))
              (sortedResourceKeys idx))"

text \<open>\<open>strings.ToLower\<close> is the argument \<open>lower\<close>: it folds the whole of Unicode.\<close>

definition tableMatches ::
  "(string \<Rightarrow> string) \<Rightarrow> string \<Rightarrow> SymbolTable \<Rightarrow> (nat \<times> SymbolName \<times> EntryRef) list" where
  "tableMatches lower query table =
     List.map_filter (\<lambda>name. case table name of
         None \<Rightarrow> None
       | Some entry \<Rightarrow> (case workspaceSymbolScore (lower name) query of
           (score, ok) \<Rightarrow> if ok then Some (score, name, entry) else None))
       (sortedSymbolNames table)"

text \<open>The comparison of the stable sort is by score and then by the entry's name.\<close>

definition WorkspaceSymbols :: "(string \<Rightarrow> string) \<Rightarrow> string \<Rightarrow> int \<Rightarrow> 'p GlobalIndex \<Rightarrow> EntryRef list" where
  "WorkspaceSymbols lower query limit idx =
     (if limit = 0 then []
      else let query = lower query;
               matches = concat (map (\<lambda>uri. case giResources idx uri of
                   None \<Rightarrow> []
                 | Some res \<Rightarrow> tableMatches lower query (rsClient res) @ tableMatches lower query (rsServer res)
                              @ tableMatches lower query (rsShared res)) (sortedResourceKeys idx));
               nameOf = (\<lambda>entry. case giEntries idx entry of None \<Rightarrow> '''' | Some e \<Rightarrow> seName e);
               matches = sort_key (\<lambda>(score, name, entry). (score, nameOf entry)) matches;
               matches = (if 0 < limit \<and> limit < int (length matches) then take (nat limit) matches else matches)
           in map (snd \<circ> snd) matches)"

definition typoThreshold :: "string \<Rightarrow> int" where
  "typoThreshold needle = (if 8 < length needle then 4 else 3)"

text \<open>One candidate of \<open>TypoSuggestions\<close>: the names seen so far and the suggestions.\<close>

definition typoCandidate ::
  "(string \<Rightarrow> string) \<Rightarrow> SymbolName \<Rightarrow> 'p GlobalIndex \<Rightarrow> EntryRef \<Rightarrow> SymbolName set \<times> (int \<times> SymbolName) list \<Rightarrow>
     (SymbolName set \<times> (int \<times> SymbolName) list) option" where
  "typoCandidate lower name idx entry = (\<lambda>(seen, suggestions). do {
     e \<leftarrow> giEntries idx entry;
     if seName e = '''' \<or> seName e = name \<or> seName e \<in> seen then Some (seen, suggestions)
     else do {
       let threshold = typoThreshold (lower name);
       dist \<leftarrow> levenshteinFast (lower name) (lower (seName e)) threshold;
       Some (insert (seName e) seen,
             if threshold < dist then suggestions else suggestions @ [(dist, seName e)])
     }
   })"

definition TypoSuggestions ::
  "(string \<Rightarrow> string) \<Rightarrow> SymbolName \<Rightarrow> ResourceURI \<Rightarrow> string \<Rightarrow> int \<Rightarrow> 'p GlobalIndex \<Rightarrow> SymbolName list option" where
  "TypoSuggestions lower name fromResource scope limit idx =
     (if name = '''' \<or> limit = 0 then Some []
      else do {
        (seen, suggestions) \<leftarrow> forM (VisibleSymbols fromResource scope idx) (typoCandidate lower name idx) ({}, []);
        let suggestions = sort_key id suggestions;
        let suggestions = (if 0 < limit \<and> limit < int (length suggestions)
                           then take (nat limit) suggestions else suggestions);
        Some (map snd suggestions)
      })"

section \<open>FiveM resources\<close>

datatype FiveMManifestSourceKind = FiveMManifestSourceUnknown | FiveMManifestSourceFXManifest | FiveMManifestSourceResourceLua

datatype FiveMManifestEntryShape =
  FiveMManifestEntryScalar | FiveMManifestEntryTableValue | FiveMManifestEntryExtra | FiveMManifestEntryInjected

record FiveMManifestEntry =
  fmEntryURI :: string
  fmRawName :: string
  fmEmittedName :: string
  fmNormalizedName :: string
  fmShape :: FiveMManifestEntryShape
  fmRange :: Range
  fmValueRange :: Range
  fmRawValue :: string
  fmValue :: string
  fmReservedKey :: bool
  fmLoaderInjected :: bool
  fmExtraKey :: string
  fmRawExtraKey :: string

record FiveMManifest =
  fmResourceName :: string
  fmResourceRoot :: string
  fmSourceURI :: string
  fmSourceKind :: FiveMManifestSourceKind
  fmIsCfxV2 :: bool
  fmEntries :: "FiveMManifestEntry list"

record FiveMResource =
  frName :: string
  frRootURI :: string
  frManifestURI :: string
  frManifestSource :: FiveMManifestSourceKind
  frManifest :: "FiveMManifest option"
  frManifestVersion :: string
  frFXVersion :: string
  frGames :: "string list"
  frUseExperimentalOAL :: bool
  frDependencies :: "string list"
  frProvides :: "string list"
  frUIPage :: string
  frServerOnly :: bool
  frIsCfxV2 :: bool
  frClientGlobs :: "string list"
  frServerGlobs :: "string list"
  frSharedGlobs :: "string list"
  frClientCrossIncludes :: "string list"
  frServerCrossIncludes :: "string list"
  frSharedCrossIncludes :: "string list"
  frClientExports :: "string list"
  frServerExports :: "string list"

definition emptyResource :: FiveMResource where
  "emptyResource =
     \<lparr>frName = [], frRootURI = [], frManifestURI = [], frManifestSource = FiveMManifestSourceUnknown,
      frManifest = None, frManifestVersion = [], frFXVersion = [], frGames = [],
      frUseExperimentalOAL = False, frDependencies = [], frProvides = [], frUIPage = [],
      frServerOnly = False, frIsCfxV2 = False, frClientGlobs = [], frServerGlobs = [], frSharedGlobs = [],
      frClientCrossIncludes = [], frServerCrossIncludes = [], frSharedCrossIncludes = [],
      frClientExports = [], frServerExports = []\<rparr>"

definition normalizeFiveMResourceAlias :: "(string \<Rightarrow> string) \<Rightarrow> string \<Rightarrow> string" where
  "normalizeFiveMResourceAlias lower name = lower (TrimSpace name)"

definition fiveMResourceDependencies :: "(string \<Rightarrow> string) \<Rightarrow> FiveMResource \<Rightarrow> ResourceURI list" where
  "fiveMResourceDependencies lower res =
     (let add = (\<lambda>value deps. let dep = normalizeFiveMResourceAlias lower value
                              in if dep = '''' \<or> dep \<in> set deps then deps else deps @ [dep])
      in case frManifest res of
           Some manifest \<Rightarrow>
             fold (\<lambda>entry deps.
                     if fmLoaderInjected entry \<or> fmReservedKey entry then deps
                     else if fmEmittedName entry = ''dependency'' \<or> fmEmittedName entry = ''dependencie''
                     then add (fmValue entry) deps else deps) (fmEntries manifest) []
         | None \<Rightarrow> fold add (frDependencies res) [])"

definition manifestScripts :: "string list \<Rightarrow> FiveMResource \<Rightarrow> string set" where
  "manifestScripts names res =
     (case frManifest res of
        None \<Rightarrow> {}
      | Some manifest \<Rightarrow>
          set (map fmValue (filter (\<lambda>entry. \<not> fmLoaderInjected entry \<and> \<not> fmReservedKey entry \<and>
             \<not> prefix ''@'' (fmValue entry) \<and> fmValue entry \<noteq> '''' \<and> fmEmittedName entry \<in> set names) (fmEntries manifest))))"

text \<open>The three loops over the collected sets assign a scope to each script; the last one wins.\<close>

definition registerFiveMScriptScopesLocked :: "FiveMResource \<Rightarrow> ResourceScope \<Rightarrow> ResourceScope" where
  "registerFiveMScriptScopesLocked res scope =
     (let client = (set (frClientGlobs res) - {''''}) \<union> manifestScripts [''client_script''] res;
          server = (set (frServerGlobs res) - {''''}) \<union> manifestScripts [''server_script''] res;
          shared = (set (frSharedGlobs res) - {''''}) \<union> manifestScripts [''shared_script'', ''file''] res
      in scope\<lparr>rsScriptScopes := (\<lambda>script.
           if script \<in> shared then Some ''shared''
           else if script \<in> server then Some (if script \<in> client then ''shared'' else ''server'')
           else if script \<in> client then Some ''client''
           else None)\<rparr>)"

text \<open>The identity a resource is registered under, its root, and the change of a scope's identity.\<close>

definition identityOf :: "(string \<Rightarrow> string) \<Rightarrow> FiveMResource \<Rightarrow> ResourceURI" where
  "identityOf lower res =
     (let identity = normalizeFiveMResourceAlias lower (frName res) in if identity = '''' then frRootURI res else identity)"

definition rootOf :: "(string \<Rightarrow> string) \<Rightarrow> FiveMResource \<Rightarrow> ResourceURI" where
  "rootOf lower res = (if frRootURI res = '''' then identityOf lower res else frRootURI res)"

definition reidentify :: "ResourceURI \<Rightarrow> ResourceURI \<Rightarrow> ResourceURI \<Rightarrow> 'p GlobalIndex \<Rightarrow> 'p GlobalIndex" where
  "reidentify uri old new idx =
     (if old \<noteq> new
      then addResourceIdentityLocked uri new (updateScope uri (\<lambda>s. s\<lparr>rsIdentity := new\<rparr>) (removeResourceIdentityLocked uri old idx))
      else idx)"

definition RegisterFiveMResource ::
  "(string \<Rightarrow> string) \<Rightarrow> FiveMResource \<Rightarrow> 'p GlobalIndex \<Rightarrow> 'p GlobalIndex option" where
  "RegisterFiveMResource lower res idx =
     (let identity = identityOf lower res;
          rootURI = rootOf lower res
      in if identity = '''' then Some idx
         else do {
           let idx = ensureResourceLocked rootURI idx;
           scope \<leftarrow> giResources idx rootURI;
           let previousIdentity = resourceIdentity scope;
           let idx = reidentify rootURI previousIdentity identity idx;
           let previousDeps = DependencyList identity (giDepGraph idx);
           let deps = fiveMResourceDependencies lower res;
           let idx = idx\<lparr>giDepGraph := SetDependencies identity deps (giDepGraph idx)\<rparr>;
           let idx = refreshResourceEdgesLocked previousIdentity idx;
           let idx = refreshResourceEdgesLocked identity idx;
           let idx = fold refreshResourceEdgesLocked previousDeps idx;
           let idx = fold refreshResourceEdgesLocked deps idx;
           Some (updateScope rootURI (registerFiveMScriptScopesLocked res) idx)
         })"

section \<open>Sources and memory\<close>

definition estimateSourceBytes :: "bytes \<Rightarrow> Tree option \<Rightarrow> u64" where
  "estimateSourceBytes source tree =
     (case tree of
        None \<Rightarrow> of_nat (length source)
      | Some t \<Rightarrow> of_nat (length source) + of_nat (length (Source t)) + of_nat (length (Nodes t)) * 64
          + of_nat (length (Comments t)) * 32 + of_nat (length (ExtraList t)) * 8
          + of_nat (length (LineOffsets t)) * 4)"

definition evictSourceLocked :: "ResourceURI \<Rightarrow> 'p GlobalIndex \<Rightarrow> bool \<times> 'p GlobalIndex" where
  "evictSourceLocked uri idx =
     (case giResources idx uri of
        None \<Rightarrow> (False, idx)
      | Some res \<Rightarrow>
          if rsSourceBytes res = 0 then (False, idx)
          else (True, updateScope uri (\<lambda>res. res\<lparr>rsSource := [], rsAST := None, rsSourceBytes := 0\<rparr>)
                        (idx\<lparr>giMemoryUsage := giMemoryUsage idx - rsSourceBytes res\<rparr>)))"

text \<open>The search for the least recently used source, over the keys in the order given.\<close>

definition lruStep :: "'p GlobalIndex \<Rightarrow> ResourceURI \<Rightarrow> ResourceURI \<times> u64 \<Rightarrow> ResourceURI \<times> u64" where
  "lruStep idx uri = (\<lambda>(victim, oldest).
     case giResources idx uri of
       None \<Rightarrow> (victim, oldest)
     | Some res \<Rightarrow>
         if rsSourceBytes res = 0 then (victim, oldest)
         else if victim = '''' \<or> rsLastAccess res < oldest then (uri, rsLastAccess res)
         else (victim, oldest))"

definition lruVictim :: "iteration \<Rightarrow> 'p GlobalIndex \<Rightarrow> ResourceURI" where
  "lruVictim ord idx = fst (fold (lruStep idx) (ord (dom (giResources idx))) ('''', 0))"

partial_function (option) evictLRULoop :: "iteration \<Rightarrow> 'p GlobalIndex \<Rightarrow> 'p GlobalIndex option" where
  "evictLRULoop ord idx =
     (if giMaxMemory idx < giMemoryUsage idx
      then let victim = lruVictim ord idx
           in if victim = '''' then Some idx
              else let (ok, idx') = evictSourceLocked victim idx
                   in if ok then evictLRULoop ord idx' else Some idx'
      else Some idx)"

definition evictLRULocked :: "iteration \<Rightarrow> 'p GlobalIndex \<Rightarrow> 'p GlobalIndex option" where
  "evictLRULocked ord idx =
     (if giMaxMemory idx = 0 \<or> giMemoryUsage idx \<le> giMaxMemory idx then Some idx else evictLRULoop ord idx)"

definition SetSource :: "iteration \<Rightarrow> ResourceURI \<Rightarrow> bytes \<Rightarrow> Tree option \<Rightarrow> 'p GlobalIndex \<Rightarrow> 'p GlobalIndex option" where
  "SetSource ord uri source tree idx = do {
     let idx = ensureResourceLocked uri idx;
     res \<leftarrow> giResources idx uri;
     let idx = idx\<lparr>giMemoryUsage := giMemoryUsage idx - rsSourceBytes res\<rparr>;
     let size = estimateSourceBytes source tree;
     let idx = updateScope uri (\<lambda>res. res\<lparr>rsSource := source, rsAST := tree, rsSourceBytes := size\<rparr>) idx;
     let idx = idx\<lparr>giMemoryUsage := giMemoryUsage idx + size\<rparr>;
     evictLRULocked ord (touchLocked uri idx)
   }"

definition EvictSource :: "ResourceURI \<Rightarrow> 'p GlobalIndex \<Rightarrow> bool \<times> 'p GlobalIndex" where
  "EvictSource uri idx = evictSourceLocked uri idx"

definition PruneResource :: "iteration \<Rightarrow> ResourceURI \<Rightarrow> 'p GlobalIndex \<Rightarrow> bool \<times> 'p GlobalIndex" where
  "PruneResource ord uri idx =
     (if uri = '''' then (False, idx)
      else case giResources idx uri of
             None \<Rightarrow> (False, idx)
           | Some res \<Rightarrow>
               let idx = snd (evictSourceLocked uri idx)
               in if rsClient res \<noteq> Map.empty \<or> rsServer res \<noteq> Map.empty \<or> rsShared res \<noteq> Map.empty
                  then (False, idx)
                  else if setAt (Dependencies (giDepGraph idx)) uri \<noteq> {} \<or> setAt (Dependents (giDepGraph idx)) uri \<noteq> {}
                  then (False, idx)
                  else let g = giDepGraph idx;
                           idx = idx\<lparr>giDepGraph := g\<lparr>Dependencies := (Dependencies g)(uri := None),
                                                      Dependents := (Dependents g)(uri := None)\<rparr>\<rparr>;
                           idx = removeResourceIdentityLocked (rsURI res) (resourceIdentity res) idx;
                           idx = idx\<lparr>giResources := (giResources idx)(uri := None)\<rparr>
                       in (True, syncResourceEdgesLocked ord idx))"

end
