(* ===== verification/Index_Correct.thy ===== *)
theory Index_Correct
  imports Global_Index
begin

text \<open>
  Correctness of the workspace index: the memory account, the eviction of the least recently used
  sources, insertion and lookup of symbols, and the dependency edges that the resource scopes
  copy from the graph.
\<close>

section \<open>The memory account\<close>

text \<open>What the account depends on: the URI and the size of each scope.\<close>

definition sizes :: "'p GlobalIndex \<Rightarrow> ResourceURI \<rightharpoonup> ResourceURI \<times> u64" where
  "sizes idx = (\<lambda>u. map_option (\<lambda>res. (rsURI res, rsSourceBytes res)) (giResources idx u))"

definition totalBytes :: "(ResourceURI \<rightharpoonup> ResourceURI \<times> u64) \<Rightarrow> u64" where
  "totalBytes m = (\<Sum>u\<in>dom m. snd (the (m u)))"

definition wf_index :: "'p GlobalIndex \<Rightarrow> bool" where
  "wf_index idx \<longleftrightarrow>
     finite (dom (sizes idx)) \<and> (\<forall>u x. sizes idx u = Some x \<longrightarrow> fst x = u) \<and>
     giMemoryUsage idx = totalBytes (sizes idx) \<and> wf_graph (giDepGraph idx)"

lemma dom_sizes: "dom (sizes idx) = dom (giResources idx)"
  by (auto simp: sizes_def)

lemma sizes_Some: "giResources idx u = Some res \<Longrightarrow> sizes idx u = Some (rsURI res, rsSourceBytes res)"
  by (simp add: sizes_def)

lemma wf_indexI:
  "wf_index idx \<Longrightarrow> sizes idx' = sizes idx \<Longrightarrow> giMemoryUsage idx' = giMemoryUsage idx \<Longrightarrow>
   wf_graph (giDepGraph idx') \<Longrightarrow> wf_index idx'"
  by (simp add: wf_index_def)

lemma totalBytes_upd:
  assumes "finite (dom m)"
  shows "totalBytes (m(u \<mapsto> (u', k))) = totalBytes m - (case m u of None \<Rightarrow> 0 | Some x \<Rightarrow> snd x) + k"
proof (cases "m u")
  case None
  then have "u \<notin> dom m" by auto
  then have "(\<Sum>v\<in>dom m. snd (the ((m(u \<mapsto> (u', k))) v))) = totalBytes m"
    unfolding totalBytes_def by (intro sum.cong) auto
  with None \<open>u \<notin> dom m\<close> assms show ?thesis by (simp add: totalBytes_def)
next
  case (Some x)
  then have u: "u \<in> dom m" "dom (m(u \<mapsto> (u', k))) = dom m" by auto
  have "totalBytes m = snd x + (\<Sum>v\<in>dom m - {u}. snd (the (m v)))"
    unfolding totalBytes_def using sum.remove [OF assms u(1), of "\<lambda>v. snd (the (m v))"] Some by simp
  moreover have "totalBytes (m(u \<mapsto> (u', k))) = k + (\<Sum>v\<in>dom m - {u}. snd (the (m v)))"
    unfolding totalBytes_def u(2)
    using sum.remove [OF assms u(1), of "\<lambda>v. snd (the ((m(u \<mapsto> (u', k))) v))"] by simp
  ultimately show ?thesis using Some by simp
qed

text \<open>Operations that only change other fields of the scopes.\<close>

lemma sizes_updateScope:
  "(\<And>res. rsURI (f res) = rsURI res \<and> rsSourceBytes (f res) = rsSourceBytes res) \<Longrightarrow>
   sizes (updateScope uri f idx) = sizes idx"
  by (auto simp: sizes_def updateScope_def option.map_comp comp_def fun_eq_iff)

lemma sizes_other [simp]:
  "sizes (idx\<lparr>giDepGraph := g\<rparr>) = sizes idx" "sizes (idx\<lparr>giMaxMemory := k\<rparr>) = sizes idx"
  "sizes (idx\<lparr>giMemoryUsage := k\<rparr>) = sizes idx" "sizes (idx\<lparr>giClock := k\<rparr>) = sizes idx"
  "sizes (idx\<lparr>giHashIndex := h\<rparr>) = sizes idx" "sizes (idx\<lparr>giEntries := es\<rparr>) = sizes idx"
  "sizes (idx\<lparr>giIdentities := is\<rparr>) = sizes idx"
  by (simp_all add: sizes_def)

lemma sizes_put:
  "sizes (idx\<lparr>giResources := m(u \<mapsto> res)\<rparr>) =
     (sizes (idx\<lparr>giResources := m\<rparr>))(u \<mapsto> (rsURI res, rsSourceBytes res))"
  by (simp add: sizes_def fun_eq_iff)

lemma sizes_put_same:
  "sizes (idx\<lparr>giResources := (giResources idx)(u \<mapsto> res)\<rparr>) = (sizes idx)(u \<mapsto> (rsURI res, rsSourceBytes res))"
  by (simp add: sizes_def fun_eq_iff)

lemma updateScope_simps [simp]:
  "giMemoryUsage (updateScope uri f idx) = giMemoryUsage idx" "giDepGraph (updateScope uri f idx) = giDepGraph idx"
  "giMaxMemory (updateScope uri f idx) = giMaxMemory idx" "giEntries (updateScope uri f idx) = giEntries idx"
  "giHashIndex (updateScope uri f idx) = giHashIndex idx" "giClock (updateScope uri f idx) = giClock idx"
  "giIdentities (updateScope uri f idx) = giIdentities idx"
  by (simp_all add: updateScope_def)

lemma touchLocked_simps [simp]:
  "giMemoryUsage (touchLocked uri idx) = giMemoryUsage idx" "giDepGraph (touchLocked uri idx) = giDepGraph idx"
  "giMaxMemory (touchLocked uri idx) = giMaxMemory idx" "giEntries (touchLocked uri idx) = giEntries idx"
  "giHashIndex (touchLocked uri idx) = giHashIndex idx" "sizes (touchLocked uri idx) = sizes idx"
  "giIdentities (touchLocked uri idx) = giIdentities idx"
proof -
  show "sizes (touchLocked uri idx) = sizes idx"
    unfolding touchLocked_def Let_def by (subst sizes_updateScope) (simp_all add: sizes_def)
qed (simp_all add: touchLocked_def)

lemma identity_simps [simp]:
  "sizes (addResourceIdentityLocked uri i idx) = sizes idx"
  "sizes (removeResourceIdentityLocked uri i idx) = sizes idx"
  "giResources (addResourceIdentityLocked uri i idx) = giResources idx"
  "giResources (removeResourceIdentityLocked uri i idx) = giResources idx"
  "giMemoryUsage (addResourceIdentityLocked uri i idx) = giMemoryUsage idx"
  "giMemoryUsage (removeResourceIdentityLocked uri i idx) = giMemoryUsage idx"
  "giDepGraph (addResourceIdentityLocked uri i idx) = giDepGraph idx"
  "giDepGraph (removeResourceIdentityLocked uri i idx) = giDepGraph idx"
  "giMaxMemory (addResourceIdentityLocked uri i idx) = giMaxMemory idx"
  "giMaxMemory (removeResourceIdentityLocked uri i idx) = giMaxMemory idx"
  "giEntries (addResourceIdentityLocked uri i idx) = giEntries idx"
  "giHashIndex (addResourceIdentityLocked uri i idx) = giHashIndex idx"
  by (simp_all add: addResourceIdentityLocked_def removeResourceIdentityLocked_def sizes_def Let_def)

lemma refresh_simps [simp]:
  "sizes (refreshResourceEdgesLocked i idx) = sizes idx"
  "giMemoryUsage (refreshResourceEdgesLocked i idx) = giMemoryUsage idx"
  "giDepGraph (refreshResourceEdgesLocked i idx) = giDepGraph idx"
  "giMaxMemory (refreshResourceEdgesLocked i idx) = giMaxMemory idx"
  "giIdentities (refreshResourceEdgesLocked i idx) = giIdentities idx"
  by (auto simp: refreshResourceEdgesLocked_def sizes_def Let_def option.map_comp comp_def fun_eq_iff)

lemma fold_refresh_simps [simp]:
  "sizes (fold refreshResourceEdgesLocked is idx) = sizes idx"
  "giMemoryUsage (fold refreshResourceEdgesLocked is idx) = giMemoryUsage idx"
  "giDepGraph (fold refreshResourceEdgesLocked is idx) = giDepGraph idx"
  "giIdentities (fold refreshResourceEdgesLocked is idx) = giIdentities idx"
  by (induction "is" arbitrary: idx) simp_all

lemma ensure_simps:
  "sizes (ensureResourceLocked uri idx) =
     (case sizes idx uri of None \<Rightarrow> (sizes idx)(uri \<mapsto> (uri, 0)) | Some x \<Rightarrow> sizes idx)"
  "giMemoryUsage (ensureResourceLocked uri idx) = giMemoryUsage idx"
  "giDepGraph (ensureResourceLocked uri idx) = AddResource uri (giDepGraph idx)"
  "giMaxMemory (ensureResourceLocked uri idx) =
     (if giMaxMemory idx = 0 then DefaultGlobalIndexMaxMemory else giMaxMemory idx)"
  "giEntries (ensureResourceLocked uri idx) = giEntries idx"
  "giHashIndex (ensureResourceLocked uri idx) = giHashIndex idx"
proof -
  have same: "sizes idx = (sizes idx)(uri \<mapsto> (rsURI res, rsSourceBytes res))" if "giResources idx uri = Some res" for res
    using sizes_Some [OF that] by (simp add: fun_upd_idem)
  show "sizes (ensureResourceLocked uri idx) =
     (case sizes idx uri of None \<Rightarrow> (sizes idx)(uri \<mapsto> (uri, 0)) | Some x \<Rightarrow> sizes idx)"
  proof (cases "giResources idx uri")
    case None
    then have "sizes idx uri = None" by (simp add: sizes_def)
    then show ?thesis
      using None by (simp add: ensureResourceLocked_def Let_def sizes_put) (simp add: sizes_def NewResourceScope_def)
  next
    case (Some res)
    then show ?thesis
      using same [OF Some] sizes_Some [OF Some]
      by (simp add: ensureResourceLocked_def Let_def sizes_put)
  qed
qed (simp_all add: ensureResourceLocked_def Let_def)

lemma wf_ensure: "wf_index idx \<Longrightarrow> wf_index (ensureResourceLocked uri idx)"
proof (cases "sizes idx uri")
  case None
  assume wf: "wf_index idx"
  then have "totalBytes ((sizes idx)(uri \<mapsto> (uri, 0))) = totalBytes (sizes idx)"
    using None by (simp add: totalBytes_upd wf_index_def)
  with wf None show ?thesis by (auto simp: wf_index_def ensure_simps wf_AddResource)
qed (auto simp: wf_index_def ensure_simps wf_AddResource)

lemma ensure_present: "\<exists>res. giResources (ensureResourceLocked uri idx) uri = Some res"
  by (simp add: ensureResourceLocked_def Let_def touchLocked_def updateScope_def)

section \<open>Evicting sources\<close>

lemma evictSource_Some:
  assumes "giResources idx uri = Some res" "rsSourceBytes res \<noteq> 0"
  shows "evictSourceLocked uri idx = (True, updateScope uri (\<lambda>res. res\<lparr>rsSource := [], rsAST := None, rsSourceBytes := 0\<rparr>)
           (idx\<lparr>giMemoryUsage := giMemoryUsage idx - rsSourceBytes res\<rparr>))"
  using assms by (simp add: evictSourceLocked_def)

lemma sizes_evict:
  assumes "sizes idx uri = Some (u, k)" "k \<noteq> 0"
  shows "fst (evictSourceLocked uri idx)"
    "sizes (snd (evictSourceLocked uri idx)) = (sizes idx)(uri \<mapsto> (u, 0))"
    "giMemoryUsage (snd (evictSourceLocked uri idx)) = giMemoryUsage idx - k"
  using assms by (auto simp: sizes_def evictSourceLocked_def updateScope_def fun_eq_iff)

lemma evict_simps [simp]:
  "giDepGraph (snd (evictSourceLocked uri idx)) = giDepGraph idx"
  "giMaxMemory (snd (evictSourceLocked uri idx)) = giMaxMemory idx"
  "dom (giResources (snd (evictSourceLocked uri idx))) = dom (giResources idx)"
  by (auto simp: evictSourceLocked_def updateScope_def split: option.splits if_splits)

lemma evict_none:
  "(\<And>u k. sizes idx uri = Some (u, k) \<Longrightarrow> k = 0) \<Longrightarrow> evictSourceLocked uri idx = (False, idx)"
  by (auto simp: sizes_def evictSourceLocked_def split: option.splits)

lemma wf_evict:
  assumes "wf_index idx"
  shows "wf_index (snd (evictSourceLocked uri idx))"
proof (cases "\<exists>u k. sizes idx uri = Some (u, k) \<and> k \<noteq> 0")
  case True
  then obtain u k where s: "sizes idx uri = Some (u, k)" "k \<noteq> 0" by blast
  have "u = uri" using assms s(1) by (auto simp: wf_index_def)
  then show ?thesis
    using assms sizes_evict [OF s] s(1) by (auto simp: wf_index_def totalBytes_upd split: if_splits)
next
  case False
  then have "evictSourceLocked uri idx = (False, idx)" by (intro evict_none) auto
  with assms show ?thesis by simp
qed

text \<open>The sources held, and the last access of each.\<close>

definition holding :: "'p GlobalIndex \<Rightarrow> ResourceURI set" where
  "holding idx = {u. \<exists>res. giResources idx u = Some res \<and> rsSourceBytes res \<noteq> 0}"

definition lastAccess :: "'p GlobalIndex \<Rightarrow> ResourceURI \<Rightarrow> u64" where
  "lastAccess idx u = rsLastAccess (the (giResources idx u))"

lemma holding_sizes: "holding idx = {u. \<exists>v k. sizes idx u = Some (v, k) \<and> k \<noteq> 0}"
  by (auto simp: holding_def sizes_def)

lemma usage_zero: "wf_index idx \<Longrightarrow> holding idx = {} \<Longrightarrow> giMemoryUsage idx = 0"
  unfolding wf_index_def holding_sizes totalBytes_def by (auto intro!: sum.neutral)

lemma fold_lruStep:
  assumes "fold (lruStep idx) us (v, old) = (v', old')" "'''' \<notin> holding idx" "v \<noteq> '''' \<Longrightarrow> v \<in> holding idx \<and> old = lastAccess idx v"
  shows "(v' = '''' \<longrightarrow> v = '''' \<and> set us \<inter> holding idx = {}) \<and>
         (v' \<noteq> '''' \<longrightarrow> v' \<in> holding idx \<and> old' = lastAccess idx v' \<and> (v \<noteq> '''' \<longrightarrow> old' \<le> old) \<and>
            (\<forall>u \<in> set us \<inter> holding idx. old' \<le> lastAccess idx u))"
  using assms
proof (induction us arbitrary: v old)
  case (Cons u us)
  obtain v1 old1 where step: "lruStep idx u (v, old) = (v1, old1)" by force
  have rest: "fold (lruStep idx) us (v1, old1) = (v', old')" using Cons.prems(1) step by simp
  show ?case
  proof (cases "u \<in> holding idx")
    case True
    then obtain res where res: "giResources idx u = Some res" "rsSourceBytes res \<noteq> 0" by (auto simp: holding_def)
    have "u \<noteq> ''''" using True Cons.prems(2) by auto
    then have v1: "v1 \<noteq> ''''" "v1 \<in> holding idx" "old1 = lastAccess idx v1" "v \<noteq> '''' \<Longrightarrow> old1 \<le> old" "old1 \<le> lastAccess idx u"
      using step True res Cons.prems(3) by (auto simp: lruStep_def lastAccess_def split: if_splits)
    from Cons.IH [OF rest Cons.prems(2)] v1 True show ?thesis by fastforce
  next
    case False
    then have "(v1, old1) = (v, old)" using step by (auto simp: lruStep_def holding_def split: option.splits if_splits)
    with Cons.IH [OF rest Cons.prems(2)] Cons.prems(3) False show ?thesis by auto
  qed
qed simp

text \<open>The victim holds a source, and none has been accessed less recently.\<close>

lemma lruVictim_least:
  assumes "\<And>S. finite S \<Longrightarrow> set (ord S) = S" "wf_index idx" "'''' \<notin> holding idx" "holding idx \<noteq> {}"
  shows "lruVictim ord idx \<in> holding idx \<and> lruVictim ord idx \<noteq> '''' \<and>
         (\<forall>u \<in> holding idx. lastAccess idx (lruVictim ord idx) \<le> lastAccess idx u)"
proof -
  let ?us = "ord (dom (giResources idx))"
  obtain v old where v: "fold (lruStep idx) ?us ('''', 0) = (v, old)" by force
  have "set ?us = dom (giResources idx)" using assms(1,2) by (simp add: wf_index_def dom_sizes)
  then have "holding idx \<subseteq> set ?us" by (auto simp: holding_def)
  with fold_lruStep [OF v assms(3)] assms(4) v show ?thesis by (auto simp: lruVictim_def Int_absorb1)
qed

lemma lastAccess_evict: "lastAccess (snd (evictSourceLocked uri idx)) = lastAccess idx"
  by (auto simp: lastAccess_def evictSourceLocked_def updateScope_def fun_eq_iff split: option.splits)

lemma holding_evict: "holding (snd (evictSourceLocked uri idx)) = holding idx - {uri}"
  by (auto simp: holding_def evictSourceLocked_def updateScope_def split: option.splits if_splits)

text \<open>The loop returns with the account within the budget, and it has given up the sources that
  were least recently used.\<close>

lemma evictLRULoop_ok:
  assumes ord: "\<And>S. finite S \<Longrightarrow> set (ord S) = S"
    and "wf_index idx" "'''' \<notin> holding idx"
  shows "\<exists>idx'. evictLRULoop ord idx = Some idx' \<and> wf_index idx' \<and> giMaxMemory idx' = giMaxMemory idx \<and>
     giMemoryUsage idx' \<le> giMaxMemory idx' \<and> holding idx' \<subseteq> holding idx \<and> lastAccess idx' = lastAccess idx \<and>
     (\<forall>u \<in> holding idx - holding idx'. \<forall>v \<in> holding idx'. lastAccess idx u \<le> lastAccess idx v)"
  using assms(2,3)
proof (induction "card (holding idx)" arbitrary: idx rule: less_induct)
  case less
  show ?case
  proof (cases "giMaxMemory idx < giMemoryUsage idx")
    case False
    then show ?thesis using less.prems(1) by (auto simp: evictLRULoop.simps)
  next
    case True
    let ?v = "lruVictim ord idx"
    let ?idx = "snd (evictSourceLocked ?v idx)"
    have ne: "holding idx \<noteq> {}" using True usage_zero [OF less.prems(1)] by auto
    note v = lruVictim_least [OF ord less.prems ne]
    then obtain u k where s: "sizes idx ?v = Some (u, k)" "k \<noteq> 0" by (auto simp: holding_sizes)
    have "finite (holding idx)"
      by (rule finite_subset [of _ "dom (sizes idx)"]) (use less.prems(1) in \<open>auto simp: holding_sizes wf_index_def\<close>)
    then have "card (holding ?idx) < card (holding idx)"
      unfolding holding_evict using v by (intro psubset_card_mono) auto
    from less.hyps [OF this wf_evict [OF less.prems(1)]] less.prems(2) obtain idx' where
      idx': "evictLRULoop ord ?idx = Some idx'" "wf_index idx'" "giMaxMemory idx' = giMaxMemory idx"
        "giMemoryUsage idx' \<le> giMaxMemory idx'" "holding idx' \<subseteq> holding idx - {?v}"
        "\<forall>u \<in> holding idx - {?v} - holding idx'. \<forall>w \<in> holding idx'. lastAccess idx u \<le> lastAccess idx w"
        "lastAccess idx' = lastAccess idx"
      unfolding holding_evict lastAccess_evict evict_simps by auto
    have "evictLRULoop ord idx = Some idx'"
      using True v idx'(1) sizes_evict(1) [OF s]
      by (simp add: evictLRULoop.simps [of ord idx] Let_def case_prod_beta)
    moreover have "lastAccess idx u \<le> lastAccess idx w" if "u \<in> holding idx - holding idx'" "w \<in> holding idx'" for u w
      using that idx'(5,6) v by (cases "u = ?v") auto
    ultimately show ?thesis using idx' by blast
  qed
qed

lemma holding_touch [simp]: "holding (touchLocked uri idx) = holding idx"
  by (simp add: holding_sizes)

lemma holding_ensure: "holding (ensureResourceLocked uri idx) = holding idx"
  by (auto simp: holding_sizes ensure_simps split: option.splits if_splits)

text \<open>The index right before the eviction of \<open>SetSource\<close>.\<close>

definition withSource :: "ResourceURI \<Rightarrow> bytes \<Rightarrow> Tree option \<Rightarrow> 'p GlobalIndex \<Rightarrow> 'p GlobalIndex" where
  "withSource uri source tree idx =
     (let idx = ensureResourceLocked uri idx; res = the (giResources idx uri); size = estimateSourceBytes source tree
      in touchLocked uri ((updateScope uri (\<lambda>res. res\<lparr>rsSource := source, rsAST := tree, rsSourceBytes := size\<rparr>)
           (idx\<lparr>giMemoryUsage := giMemoryUsage idx - rsSourceBytes res\<rparr>))
           \<lparr>giMemoryUsage := giMemoryUsage idx - rsSourceBytes res + size\<rparr>))"

lemma SetSource_withSource: "SetSource ord uri source tree idx = evictLRULocked ord (withSource uri source tree idx)"
  using ensure_present [of uri idx]
  by (auto simp: SetSource_def withSource_def Let_def)

lemma sizes_withSource:
  assumes "wf_index idx"
  shows "sizes (withSource uri source tree idx) = (sizes idx)(uri \<mapsto> (uri, estimateSourceBytes source tree))"
proof -
  let ?e = "ensureResourceLocked uri idx"
  obtain res where res: "giResources ?e uri = Some res" using ensure_present by blast
  have "rsURI res = uri" using wf_ensure [OF assms, of uri] sizes_Some [OF res] by (auto simp: wf_index_def)
  then have "sizes (withSource uri source tree idx) = (sizes ?e)(uri \<mapsto> (uri, estimateSourceBytes source tree))"
    using res by (simp add: withSource_def Let_def updateScope_def sizes_put_same)
  then show ?thesis by (simp add: ensure_simps split: option.splits)
qed

lemma wf_withSource:
  assumes "wf_index idx"
  shows "wf_index (withSource uri source tree idx)"
proof -
  let ?e = "ensureResourceLocked uri idx"
  obtain res where res: "giResources ?e uri = Some res" using ensure_present by blast
  have e: "wf_index ?e" by (rule wf_ensure [OF assms])
  have "totalBytes ((sizes idx)(uri \<mapsto> (uri, estimateSourceBytes source tree))) =
      totalBytes ((sizes ?e)(uri \<mapsto> (uri, estimateSourceBytes source tree)))"
    by (simp add: ensure_simps split: option.splits)
  also have "\<dots> = giMemoryUsage ?e - rsSourceBytes res + estimateSourceBytes source tree"
    using e sizes_Some [OF res] by (simp add: totalBytes_upd wf_index_def)
  also have "\<dots> = giMemoryUsage (withSource uri source tree idx)"
    using res by (simp add: withSource_def Let_def)
  finally have "giMemoryUsage (withSource uri source tree idx) = totalBytes (sizes (withSource uri source tree idx))"
    by (simp add: sizes_withSource [OF assms])
  moreover have "giDepGraph (withSource uri source tree idx) = giDepGraph ?e" by (simp add: withSource_def Let_def)
  ultimately show ?thesis
    using assms e unfolding wf_index_def sizes_withSource [OF assms] by auto
qed

text \<open>
  C18. The memory budget: for every order in which Go may iterate over the resources, \<open>SetSource\<close>
  returns, the account is the sum of the sizes of the sources held (as 64-bit words, also when a
  sum wraps), and it is within the limit. The source of another resource is given up only if it
  was accessed no later than every source that stays.
\<close>

theorem SetSource_budget:
  assumes "\<And>S. finite S \<Longrightarrow> set (ord S) = S" and "wf_index idx" and "'''' \<notin> holding idx" and "uri \<noteq> ''''"
  shows "\<exists>idx'. SetSource ord uri source tree idx = Some idx' \<and> wf_index idx' \<and>
           giMemoryUsage idx' \<le> giMaxMemory idx' \<and> holding idx' \<subseteq> insert uri (holding idx) \<and>
           (\<forall>u \<in> holding idx - holding idx'. \<forall>v \<in> holding idx'. u \<noteq> uri \<longrightarrow>
              lastAccess idx' u \<le> lastAccess idx' v)"
proof -
  let ?w = "withSource uri source tree idx"
  have w: "wf_index ?w" by (rule wf_withSource [OF assms(2)])
  have hold: "holding ?w \<subseteq> insert uri (holding idx)" "holding idx - {uri} \<subseteq> holding ?w"
    by (auto simp: holding_sizes sizes_withSource [OF assms(2)] split: if_splits)
  then have empty: "'''' \<notin> holding ?w" using assms(3,4) by auto
  obtain idx' where idx': "evictLRULocked ord ?w = Some idx'" "wf_index idx'" "giMemoryUsage idx' \<le> giMaxMemory idx'"
    "holding idx' \<subseteq> holding ?w" "lastAccess idx' = lastAccess ?w"
    "\<forall>u \<in> holding ?w - holding idx'. \<forall>v \<in> holding idx'. lastAccess ?w u \<le> lastAccess ?w v"
  proof (cases "giMemoryUsage ?w \<le> giMaxMemory ?w")
    case True
    then show ?thesis using that [of ?w] w by (simp add: evictLRULocked_def)
  next
    case False
    have "giMaxMemory ?w \<noteq> 0"
      by (simp add: withSource_def Let_def ensure_simps DefaultGlobalIndexMaxMemory_def)
    with False that show ?thesis using evictLRULoop_ok [OF assms(1) w empty] by (auto simp: evictLRULocked_def)
  qed
  then show ?thesis unfolding SetSource_withSource using hold by fastforce
qed

lemma wf_NewGlobalIndex: "wf_index (NewGlobalIndex maxMemory)"
  by (simp add: wf_index_def NewGlobalIndex_def sizes_def totalBytes_def wf_NewDependencyGraph)

lemma holding_NewGlobalIndex: "holding (NewGlobalIndex maxMemory) = {}"
  by (simp add: holding_def NewGlobalIndex_def)

theorem SetSource_budget_witness:
  "\<exists>idx'. SetSource sorted_list_of_set ''file:///a.lua'' ''x = 1'' None (NewGlobalIndex [4] :: unit GlobalIndex) = Some idx' \<and>
     giMemoryUsage idx' \<le> giMaxMemory idx'"
  using SetSource_budget [of sorted_list_of_set "NewGlobalIndex [4] :: unit GlobalIndex" "''file:///a.lua''" "''x = 1''" None]
  by (auto simp: wf_NewGlobalIndex holding_NewGlobalIndex)

section \<open>Every operation keeps the account\<close>

lemma sizes_setTable [simp]:
  "rsURI (setTableForScope scope table res) = rsURI res"
  "rsSourceBytes (setTableForScope scope table res) = rsSourceBytes res"
  by (simp_all add: setTableForScope_def)

text \<open>The slot a scope name selects.\<close>

definition slotOf :: "string \<Rightarrow> string" where
  "slotOf scope = (if scope = ''client'' \<or> scope = ''server'' then scope else ''shared'')"

lemma tableForScope_setTable:
  "tableForScope s (setTableForScope t table res) = (if slotOf s = slotOf t then table else tableForScope s res)"
  by (simp add: tableForScope_def setTableForScope_def slotOf_def)

lemma hashEntries_upd [simp]:
  "hashEntries (idx\<lparr>giEntries := es\<rparr>) = hashEntries idx" "hashEntries (updateScope uri f idx) = hashEntries idx"
  "hashEntries (idx\<lparr>giHashIndex := (giHashIndex idx)(key \<mapsto> es')\<rparr>) = (hashEntries idx)(key := es')"
  "hashEntries (idx\<lparr>giHashIndex := (giHashIndex idx)(key := None)\<rparr>) = (hashEntries idx)(key := [])"
  "hashEntries (idx\<lparr>giHashIndex := (giHashIndex idx)(key := (if es' = [] then None else Some es'))\<rparr>) = (hashEntries idx)(key := es')"
  by (simp_all add: hashEntries_def fun_eq_iff)

lemma hashEntries_ensure [simp]: "hashEntries (ensureResourceLocked uri idx) = hashEntries idx"
  by (simp add: hashEntries_def fun_eq_iff ensure_simps)

lemma hashEntries_append:
  "hashEntries (appendHash entry key idx) =
     (if key = zeroKey then hashEntries idx else (hashEntries idx)(key := hashEntries idx key @ [entry]))"
  by (simp add: appendHash_def)

lemma dropStaleHash_Some:
  assumes "dropStaleHash entry key previous idx = Some idx'"
  shows "idx' = idx\<lparr>giHashIndex := giHashIndex idx'\<rparr>"
    "hashEntries idx' = (hashEntries idx)(key := (case previous of
        None \<Rightarrow> hashEntries idx key
      | Some prev \<Rightarrow> if prev \<noteq> entry \<and> key \<noteq> zeroKey \<and> map_option seKey (giEntries idx prev) = Some key
                     then remove1 prev (hashEntries idx key) else hashEntries idx key))"
  using assms
  by (auto simp: dropStaleHash_def removeSymbolEntry_def Let_def split: option.splits Option.bind_split_asm if_splits)

lemma AddSymbol_Some:
  assumes "AddSymbol resource scope name entry idx = Some idx'" "name \<noteq> ''''"
  obtains e res idx1 where "giEntries idx entry = Some e" "giResources (ensureResourceLocked resource idx) resource = Some res"
    "dropStaleHash entry (seKey e) (tableForScope scope res name)
       ((ensureResourceLocked resource idx)\<lparr>giEntries := (giEntries idx)(entry \<mapsto> nameEntry resource name e)\<rparr>) = Some idx1"
    "idx' = appendHash entry (seKey e) (updateScope resource
       (\<lambda>res. setTableForScope scope ((tableForScope scope res)(name \<mapsto> entry)) res) idx1)"
  using assms unfolding AddSymbol_def Let_def
  by (auto simp: ensure_simps bind_eq_Some_conv)

lemma AddSymbol_resources:
  assumes "AddSymbol resource scope name entry idx = Some idx'" "name \<noteq> ''''"
  shows "giResources idx' = giResources (updateScope resource
    (\<lambda>res. setTableForScope scope ((tableForScope scope res)(name \<mapsto> entry)) res) (ensureResourceLocked resource idx))"
  using assms
proof (rule AddSymbol_Some)
  fix e res idx1
  assume drop: "dropStaleHash entry (seKey e) (tableForScope scope res name)
      ((ensureResourceLocked resource idx)\<lparr>giEntries := (giEntries idx)(entry \<mapsto> nameEntry resource name e)\<rparr>) = Some idx1"
    and idx': "idx' = appendHash entry (seKey e) (updateScope resource
       (\<lambda>res. setTableForScope scope ((tableForScope scope res)(name \<mapsto> entry)) res) idx1)"
  have "giResources idx1 = giResources (ensureResourceLocked resource idx)"
    by (subst dropStaleHash_Some(1) [OF drop]) simp
  then show ?thesis unfolding idx' by (simp add: appendHash_def updateScope_def)
qed

text \<open>The tables, whatever the scope's other fields are.\<close>

definition symbolAt :: "'p GlobalIndex \<Rightarrow> ResourceURI \<Rightarrow> string \<Rightarrow> SymbolName \<Rightarrow> EntryRef option" where
  "symbolAt idx uri scope name = Option.bind (giResources idx uri) (\<lambda>res. tableForScope scope res name)"

lemma LookupByScope_symbolAt: "name \<noteq> '''' \<Longrightarrow> fst (LookupByScope uri scope name idx) = symbolAt idx uri scope name"
  by (simp add: LookupByScope_def symbolAt_def split: option.splits)

lemma symbolAt_ensure: "symbolAt (ensureResourceLocked u idx) = symbolAt idx"
  by (auto simp: symbolAt_def fun_eq_iff ensureResourceLocked_def Let_def touchLocked_def updateScope_def
      tableForScope_def NewResourceScope_def split: option.splits)

lemma symbolAt_AddSymbol:
  assumes "AddSymbol resource scope name entry idx = Some idx'" "name \<noteq> ''''"
  shows "symbolAt idx' uri s n =
    (if uri = resource \<and> slotOf s = slotOf scope \<and> n = name then Some entry else symbolAt idx uri s n)"
proof -
  obtain res where res: "giResources (ensureResourceLocked resource idx) resource = Some res"
    using ensure_present by blast
  have tab: "tableForScope s r = tableForScope scope r" if "slotOf s = slotOf scope" for r
    using that by (auto simp: slotOf_def tableForScope_def split: if_splits)
  have "symbolAt idx' uri s n =
    (if uri = resource \<and> slotOf s = slotOf scope \<and> n = name then Some entry
     else symbolAt (ensureResourceLocked resource idx) uri s n)"
    using res tab
    by (auto simp: symbolAt_def AddSymbol_resources [OF assms] updateScope_def tableForScope_setTable)
  then show ?thesis by (simp add: symbolAt_ensure)
qed

lemma hashEntries_AddSymbol:
  assumes "AddSymbol resource scope name entry idx = Some idx'" "name \<noteq> ''''" "giEntries idx entry = Some e"
  shows "hashEntries idx' = (if seKey e = zeroKey then hashEntries idx
     else (hashEntries idx)(seKey e := (case symbolAt idx resource scope name of
        None \<Rightarrow> hashEntries idx (seKey e)
      | Some prev \<Rightarrow> if prev \<noteq> entry \<and> map_option seKey (giEntries idx prev) = Some (seKey e)
                     then remove1 prev (hashEntries idx (seKey e)) else hashEntries idx (seKey e)) @ [entry]))"
  using assms(1,2)
proof (rule AddSymbol_Some)
  fix e1 res idx1
  assume e1: "giEntries idx entry = Some e1" and res: "giResources (ensureResourceLocked resource idx) resource = Some res"
    and drop: "dropStaleHash entry (seKey e1) (tableForScope scope res name)
      ((ensureResourceLocked resource idx)\<lparr>giEntries := (giEntries idx)(entry \<mapsto> nameEntry resource name e1)\<rparr>) = Some idx1"
    and idx': "idx' = appendHash entry (seKey e1) (updateScope resource
       (\<lambda>res. setTableForScope scope ((tableForScope scope res)(name \<mapsto> entry)) res) idx1)"
  have "e1 = e" using e1 assms(3) by simp
  have "tableForScope scope res name = symbolAt idx resource scope name"
    using res unfolding symbolAt_ensure [where u = resource and idx = idx, symmetric] by (simp add: symbolAt_def)
  with dropStaleHash_Some(2) [OF drop] show ?thesis
    unfolding idx' \<open>e1 = e\<close>
    by (simp add: hashEntries_append ensure_simps fun_eq_iff split: option.split) auto
qed

lemma giEntries_AddSymbol:
  assumes "AddSymbol resource scope name entry idx = Some idx'" "name \<noteq> ''''" "giEntries idx entry = Some e"
  shows "giEntries idx' = (giEntries idx)(entry \<mapsto> nameEntry resource name e)"
  using assms(1,2)
proof (rule AddSymbol_Some)
  fix e1 res idx1
  assume e1: "giEntries idx entry = Some e1"
    and drop: "dropStaleHash entry (seKey e1) (tableForScope scope res name)
      ((ensureResourceLocked resource idx)\<lparr>giEntries := (giEntries idx)(entry \<mapsto> nameEntry resource name e1)\<rparr>) = Some idx1"
    and idx': "idx' = appendHash entry (seKey e1) (updateScope resource
       (\<lambda>res. setTableForScope scope ((tableForScope scope res)(name \<mapsto> entry)) res) idx1)"
  have "giEntries idx1 = (giEntries idx)(entry \<mapsto> nameEntry resource name e1)"
    by (subst dropStaleHash_Some(1) [OF drop]) simp
  then show ?thesis using e1 assms(3) unfolding idx' by (simp add: appendHash_def)
qed

text \<open>C19. Insert and lookup: after \<open>AddSymbol\<close>, \<open>LookupByScope\<close> finds the entry under its resource,
  table and name, and every other slot of every resource answers as before; the entry carries the
  name it was added under, and it is the last of the entries listed under its key, where the entry
  it replaced, if it has the same key, is no longer listed; the lists of the other keys are
  unchanged.\<close>

theorem AddSymbol_lookup:
  assumes "AddSymbol resource scope name entry idx = Some idx'" "name \<noteq> ''''" "giEntries idx entry = Some e"
  shows "(\<forall>uri s n. fst (LookupByScope uri s n idx') =
      (if uri = resource \<and> slotOf s = slotOf scope \<and> n = name then Some entry else fst (LookupByScope uri s n idx))) \<and>
    map_option seName (giEntries idx' entry) = Some name \<and>
    (\<forall>key. SymbolsByHash key idx' =
      (if key \<noteq> seKey e \<or> key = zeroKey then SymbolsByHash key idx
       else (case fst (LookupByScope resource scope name idx) of
               None \<Rightarrow> SymbolsByHash key idx
             | Some prev \<Rightarrow> if prev \<noteq> entry \<and> map_option seKey (giEntries idx prev) = Some key
                            then remove1 prev (SymbolsByHash key idx) else SymbolsByHash key idx) @ [entry]))"
proof (intro conjI allI)
  fix uri s n
  show "fst (LookupByScope uri s n idx') =
      (if uri = resource \<and> slotOf s = slotOf scope \<and> n = name then Some entry else fst (LookupByScope uri s n idx))"
    using assms by (cases "n = ''''") (simp_all add: LookupByScope_symbolAt symbolAt_AddSymbol, simp add: LookupByScope_def)
next
  show "map_option seName (giEntries idx' entry) = Some name"
    using assms by (simp add: giEntries_AddSymbol nameEntry_def Let_def)
next
  fix key
  show "SymbolsByHash key idx' =
      (if key \<noteq> seKey e \<or> key = zeroKey then SymbolsByHash key idx
       else (case fst (LookupByScope resource scope name idx) of
               None \<Rightarrow> SymbolsByHash key idx
             | Some prev \<Rightarrow> if prev \<noteq> entry \<and> map_option seKey (giEntries idx prev) = Some key
                            then remove1 prev (SymbolsByHash key idx) else SymbolsByHash key idx) @ [entry])"
    using assms by (auto simp: SymbolsByHash_def hashEntries_AddSymbol LookupByScope_symbolAt split: option.splits)
qed

definition sampleEntry :: "unit SymbolEntry" where
  "sampleEntry = \<lparr>seName = '''', seKey = \<lparr>gkReceiverHash = 0, gkPropHash = 7\<rparr>, seURI = '''', seNodeID = 1, seParent = '''',
     seIsRoot = True, seIsDeprecated = False, seDeprecatedMsg = '''', seData = ()\<rparr>"

definition sampleIndex :: "unit GlobalIndex" where
  "sampleIndex = (NewGlobalIndex [])\<lparr>giEntries := [0 \<mapsto> sampleEntry]\<rparr>"

lemma AddSymbol_sample:
  "AddSymbol ''file:///a'' ''client'' ''foo'' 0 sampleIndex =
     Some (the (AddSymbol ''file:///a'' ''client'' ''foo'' 0 sampleIndex))"
  by (simp add: AddSymbol_def sampleIndex_def NewGlobalIndex_def ensureResourceLocked_def touchLocked_def updateScope_def
      addResourceIdentityLocked_def resourceIdentity_def NewResourceScope_def tableForScope_def dropStaleHash_def Let_def)

theorem AddSymbol_lookup_witness:
  "fst (LookupByScope ''file:///a'' ''client'' ''foo'' (the (AddSymbol ''file:///a'' ''client'' ''foo'' 0 sampleIndex))) = Some 0"
proof -
  have "giEntries sampleIndex 0 = Some sampleEntry" by (simp add: sampleIndex_def)
  from AddSymbol_lookup [OF AddSymbol_sample _ this] show ?thesis by (auto simp: slotOf_def)
qed

end
