(* ===== verification/Index_Steps.thy ===== *)
theory Index_Steps
  imports Index_Correct
begin

text \<open>
  The workspace index as a state machine: its public operations as steps, and what holds in every
  state they reach. The steps are \<open>EnsureResource\<close>, \<open>AddSymbol\<close>, \<open>LookupByScope\<close>,
  \<open>RegisterFiveMResource\<close>, \<open>SetSource\<close>, \<open>EvictSource\<close> and \<open>PruneResource\<close> of
  \<open>src/lsp/global_index.go\<close>, and the allocation of a symbol entry by a caller. The invariant is that
  of the memory account and of the dependency graph (\<open>wf_index\<close>), with the index of identities
  (\<open>wf_ids\<close>).
\<close>

section \<open>The identities\<close>

definition idOf :: "'p GlobalIndex \<Rightarrow> ResourceURI \<rightharpoonup> ResourceURI" where
  "idOf idx = (\<lambda>u. map_option resourceIdentity (giResources idx u))"

text \<open>The scopes listed under an identity are those that have it; the empty one lists none.\<close>

definition wf_ids :: "'p GlobalIndex \<Rightarrow> bool" where
  "wf_ids idx \<longleftrightarrow> (\<forall>u i. u \<in> setAt (giIdentities idx) i \<longleftrightarrow> i \<noteq> '''' \<and> idOf idx u = Some i)"

definition wf_state :: "'p GlobalIndex \<Rightarrow> bool" where
  "wf_state idx \<longleftrightarrow> wf_index idx \<and> wf_ids idx"

lemma identity_upd [simp]:
  "resourceIdentity (res\<lparr>rsLastAccess := k\<rparr>) = resourceIdentity res"
  "resourceIdentity (res\<lparr>rsDependencies := ds, rsDependents := us\<rparr>) = resourceIdentity res"
  "resourceIdentity (res\<lparr>rsSource := src, rsAST := t, rsSourceBytes := n\<rparr>) = resourceIdentity res"
  by (simp_all add: resourceIdentity_def)

text \<open>An operation on the scopes that leaves what the two invariants read: the URI, the identity
  and the size of every scope, the listing of identities and the account.\<close>

locale neutral =
  fixes f :: "'p GlobalIndex \<Rightarrow> 'p GlobalIndex"
  assumes sizes_same: "sizes (f idx) = sizes idx"
    and usage_same: "giMemoryUsage (f idx) = giMemoryUsage idx"
    and graph_same: "giDepGraph (f idx) = giDepGraph idx"
    and ids_same: "idOf (f idx) = idOf idx"
    and listing_same: "setAt (giIdentities (f idx)) = setAt (giIdentities idx)"
begin

lemma keeps_wf: "wf_state idx \<Longrightarrow> wf_state (f idx)"
  unfolding wf_state_def wf_index_def wf_ids_def sizes_same usage_same graph_same ids_same listing_same .

end

text \<open>Neutral operations in a row.\<close>

lemma neutral_fold: "(\<And>x. neutral (f x)) \<Longrightarrow> neutral (fold f xs)"
  by (induction xs) (simp_all add: neutral_def)

definition scope_neutral :: "(ResourceScope \<Rightarrow> ResourceScope) \<Rightarrow> bool" where
  "scope_neutral f \<longleftrightarrow> (\<forall>res. rsURI (f res) = rsURI res \<and> rsSourceBytes (f res) = rsSourceBytes res \<and>
     rsIdentity (f res) = rsIdentity res)"

lemma neutral_updateScope:
  assumes "scope_neutral f"
  shows "neutral (updateScope uri f)"
proof
  fix idx
  show "sizes (updateScope uri f idx) = sizes idx"
    using assms by (intro sizes_updateScope) (simp add: scope_neutral_def)
  show "idOf (updateScope uri f idx) = idOf idx"
    using assms by (cases "giResources idx uri") (auto simp: idOf_def updateScope_def fun_eq_iff scope_neutral_def resourceIdentity_def)
qed simp_all

interpretation touch: neutral "touchLocked uri" for uri
proof
  fix idx
  show "idOf (touchLocked uri idx) = idOf idx"
    by (auto simp: idOf_def touchLocked_def Let_def updateScope_def option.map_comp comp_def fun_eq_iff)
qed simp_all

interpretation refresh: neutral "refreshResourceEdgesLocked i" for i
proof
  fix idx
  show "idOf (refreshResourceEdgesLocked i idx) = idOf idx"
    by (auto simp: idOf_def refreshResourceEdgesLocked_def Let_def option.map_comp comp_def fun_eq_iff)
qed simp_all

interpretation scripts: neutral "updateScope uri (registerFiveMScriptScopesLocked res)" for uri res
  by (rule neutral_updateScope) (simp add: scope_neutral_def registerFiveMScriptScopesLocked_def Let_def)

interpretation table: neutral "updateScope uri (\<lambda>res. setTableForScope scope (table res) res)" for uri scope table
  by (rule neutral_updateScope) (simp add: scope_neutral_def setTableForScope_def)

interpretation refreshes: neutral "fold refreshResourceEdgesLocked is" for "is"
  by (rule neutral_fold) (rule refresh.neutral_axioms)

section \<open>The operations\<close>

lemma idOf_Some: "giResources idx u = Some res \<Longrightarrow> idOf idx u = Some (resourceIdentity res)"
  by (simp add: idOf_def)

lemma idOf_upd [simp]:
  "idOf (idx\<lparr>giDepGraph := g\<rparr>) = idOf idx" "idOf (idx\<lparr>giIdentities := m\<rparr>) = idOf idx"
  "idOf (idx\<lparr>giMemoryUsage := k\<rparr>) = idOf idx" "idOf (idx\<lparr>giEntries := es\<rparr>) = idOf idx"
  "idOf (idx\<lparr>giHashIndex := h\<rparr>) = idOf idx" "idOf (idx\<lparr>giMaxMemory := k\<rparr>) = idOf idx"
  by (simp_all add: idOf_def)

lemma idOf_identity [simp]:
  "idOf (addResourceIdentityLocked uri i idx) = idOf idx" "idOf (removeResourceIdentityLocked uri i idx) = idOf idx"
  by (simp_all add: idOf_def)

lemma listing_add:
  "setAt (giIdentities (addResourceIdentityLocked uri i idx)) j =
     (if i \<noteq> '''' \<and> j = i then insert uri (setAt (giIdentities idx) j) else setAt (giIdentities idx) j)"
  by (simp add: addResourceIdentityLocked_def)

lemma listing_remove:
  "setAt (giIdentities (removeResourceIdentityLocked uri i idx)) j =
     (if i \<noteq> '''' \<and> j = i then setAt (giIdentities idx) j - {uri} else setAt (giIdentities idx) j)"
  by (simp add: removeResourceIdentityLocked_def Let_def setAt_def)

lemma idOf_ensure:
  "idOf (ensureResourceLocked uri idx) = (case idOf idx uri of None \<Rightarrow> (idOf idx)(uri \<mapsto> uri) | Some i \<Rightarrow> idOf idx)"
  by (auto simp: idOf_def ensureResourceLocked_def Let_def touchLocked_def updateScope_def fun_eq_iff
      resourceIdentity_def NewResourceScope_def split: option.splits)

lemma listing_ensure:
  assumes "wf_index idx"
  shows "setAt (giIdentities (ensureResourceLocked uri idx)) j =
     (if idOf (ensureResourceLocked uri idx) uri = Some j \<and> j \<noteq> '''' then insert uri (setAt (giIdentities idx) j)
      else setAt (giIdentities idx) j)"
proof (cases "giResources idx uri")
  case None
  then have "idOf idx uri = None" by (simp add: idOf_def)
  then have "idOf (ensureResourceLocked uri idx) uri = Some uri" by (simp add: idOf_ensure)
  moreover have "setAt (giIdentities (ensureResourceLocked uri idx)) j =
      (if uri \<noteq> [] \<and> j = uri then insert uri (setAt (giIdentities idx) j) else setAt (giIdentities idx) j)"
    using None
    by (cases "uri = []") (simp_all add: ensureResourceLocked_def Let_def listing_add resourceIdentity_def NewResourceScope_def)
  ultimately show ?thesis by auto
next
  case (Some res)
  then have "rsURI res = uri" using assms sizes_Some [OF Some] by (auto simp: wf_index_def)
  moreover have "idOf (ensureResourceLocked uri idx) uri = Some (resourceIdentity res)"
    by (simp add: idOf_ensure idOf_Some [OF Some])
  moreover from Some have "setAt (giIdentities (ensureResourceLocked uri idx)) j =
      (if resourceIdentity res \<noteq> [] \<and> j = resourceIdentity res
       then insert (rsURI res) (setAt (giIdentities idx) j) else setAt (giIdentities idx) j)"
    by (simp add: ensureResourceLocked_def Let_def listing_add)
  ultimately show ?thesis by auto
qed

lemma state_ensure: "wf_state idx \<Longrightarrow> wf_state (ensureResourceLocked uri idx)"
  unfolding wf_state_def
proof (intro conjI)
  assume wf: "wf_index idx \<and> wf_ids idx"
  then show "wf_index (ensureResourceLocked uri idx)" by (simp add: wf_ensure)
  show "wf_ids (ensureResourceLocked uri idx)"
    using wf unfolding wf_ids_def
    by (auto simp: listing_ensure idOf_ensure split: option.splits if_splits)
qed

lemma neutral_fields: "sizes idx' = sizes idx \<Longrightarrow> giMemoryUsage idx' = giMemoryUsage idx \<Longrightarrow>
   wf_graph (giDepGraph idx') \<Longrightarrow> idOf idx' = idOf idx \<Longrightarrow> setAt (giIdentities idx') = setAt (giIdentities idx) \<Longrightarrow>
   wf_state idx \<Longrightarrow> wf_state idx'"
  by (simp add: wf_state_def wf_index_def wf_ids_def)

lemma wf_stateD: "wf_state idx \<Longrightarrow> wf_graph (giDepGraph idx)" "wf_state idx \<Longrightarrow> wf_index idx"
  by (auto simp: wf_state_def wf_index_def)

lemma state_AddSymbol:
  assumes "AddSymbol resource scope name entry idx = Some idx'" "wf_state idx"
  shows "wf_state idx'"
proof (cases "name = ''''")
  case False
  with assms(1) show ?thesis
  proof (rule AddSymbol_Some)
    fix e res idx1
    let ?idx = "(ensureResourceLocked resource idx)\<lparr>giEntries := (giEntries idx)(entry \<mapsto> nameEntry resource name e)\<rparr>"
    let ?tab = "updateScope resource (\<lambda>res. setTableForScope scope ((tableForScope scope res)(name \<mapsto> entry)) res)"
    assume drop: "dropStaleHash entry (seKey e) (tableForScope scope res name) ?idx = Some idx1"
      and idx': "idx' = appendHash entry (seKey e) (?tab idx1)"
    have "wf_state ?idx"
      by (rule neutral_fields [OF _ _ _ _ _ state_ensure [OF assms(2)]])
        (simp_all add: wf_stateD(1) [OF state_ensure [OF assms(2)]])
    then have "wf_state (?idx\<lparr>giHashIndex := giHashIndex idx1\<rparr>)"
      by (rule neutral_fields [rotated 5]) (simp_all add: wf_stateD(1) [OF state_ensure [OF assms(2)]])
    then have "wf_state (?tab idx1)"
      using dropStaleHash_Some(1) [OF drop] by (metis table.keeps_wf)
    then show ?thesis unfolding idx' appendHash_def
      using wf_stateD(1) [OF \<open>wf_state (?tab idx1)\<close>]
      by (cases "seKey e \<noteq> zeroKey") (auto elim!: neutral_fields [rotated 5])
  qed
qed (use assms in \<open>simp add: AddSymbol_def\<close>)

lemma state_evict: "wf_state idx \<Longrightarrow> wf_state (snd (evictSourceLocked uri idx))"
  by (cases "giResources idx uri")
    (auto simp: wf_state_def wf_evict wf_ids_def,
     auto simp: evictSourceLocked_def idOf_def updateScope_def split: if_splits)

text \<open>\<open>SetSource\<close> before the eviction.\<close>

lemma evictLRULoop_state: "evictLRULoop ord idx = Some idx' \<Longrightarrow> wf_state idx \<Longrightarrow> wf_state idx'"
proof (induction rule: evictLRULoop.raw_induct [rotated, consumes 1, case_names 1])
  case (1 loop ord idx idx')
  then show ?case
    using state_evict [of idx "lruVictim ord idx"]
    by (auto simp: Let_def case_prod_beta split: if_splits)
qed

lemma state_SetSource:
  assumes "SetSource ord uri src tree idx = Some idx'" "wf_state idx"
  shows "wf_state idx'"
proof -
  let ?idx = "ensureResourceLocked uri idx"
  obtain res where res: "giResources ?idx uri = Some res" using ensure_present by blast
  let ?size = "estimateSourceBytes src tree"
  define idx1 where "idx1 = (updateScope uri (\<lambda>res. res\<lparr>rsSource := src, rsAST := tree, rsSourceBytes := ?size\<rparr>) ?idx)
    \<lparr>giMemoryUsage := giMemoryUsage ?idx - rsSourceBytes res + ?size\<rparr>"
  have wf: "wf_state ?idx" by (rule state_ensure [OF assms(2)])
  then have u: "rsURI res = uri" using sizes_Some [OF res] by (auto simp: wf_state_def wf_index_def)
  have sizes: "sizes idx1 = (sizes ?idx)(uri \<mapsto> (uri, ?size))"
    using res u by (auto simp: idx1_def sizes_def updateScope_def fun_eq_iff)
  have "wf_index idx1"
    using wf sizes_Some [OF res] u unfolding wf_state_def wf_index_def sizes
    by (auto simp: totalBytes_upd idx1_def)
  moreover have "idOf idx1 = idOf ?idx" "giIdentities idx1 = giIdentities ?idx"
    using res by (auto simp: idx1_def idOf_def updateScope_def fun_eq_iff)
  ultimately have "wf_state (touchLocked uri idx1)"
    using wf by (intro touch.keeps_wf) (simp add: wf_state_def wf_ids_def)
  moreover have "evictLRULocked ord (touchLocked uri idx1) = Some idx'"
    using assms(1) res by (simp add: SetSource_def idx1_def Let_def updateScope_def)
  ultimately show ?thesis
    by (auto simp: evictLRULocked_def split: if_splits intro: evictLRULoop_state)
qed

lemma state_graph: "wf_state idx \<Longrightarrow> wf_graph g \<Longrightarrow> wf_state (idx\<lparr>giDepGraph := g\<rparr>)"
  by (simp add: wf_state_def wf_index_def wf_ids_def)

lemma idOf_reidentify:
  assumes "giResources idx uri = Some res" "new \<noteq> ''''"
  shows "idOf (reidentify uri (resourceIdentity res) new idx) = (idOf idx)(uri \<mapsto> new)"
proof -
  have "idOf (updateScope uri (\<lambda>s. s\<lparr>rsIdentity := new\<rparr>) idx') = (idOf idx)(uri \<mapsto> new)" if "giResources idx' = giResources idx" for idx' :: "'a GlobalIndex"
    using assms that by (auto simp: idOf_def updateScope_def fun_eq_iff resourceIdentity_def)
  with assms(1) show ?thesis by (auto simp: reidentify_def fun_upd_idem idOf_Some)
qed

lemma state_reidentify:
  assumes "wf_state idx" "giResources idx uri = Some res" "new \<noteq> ''''"
  shows "wf_state (reidentify uri (resourceIdentity res) new idx)"
  unfolding wf_state_def
proof
  have "sizes (reidentify uri (resourceIdentity res) new idx) = sizes idx"
    by (simp add: reidentify_def sizes_updateScope)
  then show "wf_index (reidentify uri (resourceIdentity res) new idx)"
    using assms(1) by (auto simp: wf_state_def wf_index_def) (simp_all add: reidentify_def)
  show "wf_ids (reidentify uri (resourceIdentity res) new idx)"
    using assms unfolding wf_ids_def idOf_reidentify [OF assms(2,3)]
    by (auto simp: wf_state_def wf_ids_def reidentify_def listing_add listing_remove idOf_Some [OF assms(2)] split: if_splits)
qed

lemma Register_Some:
  assumes "RegisterFiveMResource lower res idx = Some idx'" "identityOf lower res \<noteq> ''''"
  obtains scope idx1 where "giResources (ensureResourceLocked (rootOf lower res) idx) (rootOf lower res) = Some scope"
    "idx1 = (let i = reidentify (rootOf lower res) (resourceIdentity scope) (identityOf lower res) (ensureResourceLocked (rootOf lower res) idx)
             in i\<lparr>giDepGraph := SetDependencies (identityOf lower res) (fiveMResourceDependencies lower res) (giDepGraph i)\<rparr>)"
    "idx' = updateScope (rootOf lower res) (registerFiveMScriptScopesLocked res)
       (fold refreshResourceEdgesLocked
          (resourceIdentity scope # identityOf lower res # DependencyList (identityOf lower res) (AddResource (rootOf lower res) (giDepGraph idx))
             @ fiveMResourceDependencies lower res) idx1)"
proof -
  obtain scope where scope: "giResources (ensureResourceLocked (rootOf lower res) idx) (rootOf lower res) = Some scope"
    using ensure_present by blast
  have "giDepGraph (reidentify u o' n i) = giDepGraph i" for u o' n and i :: "'a GlobalIndex"
    by (simp add: reidentify_def)
  with assms scope show ?thesis by (intro that [OF scope refl]) (simp add: RegisterFiveMResource_def Let_def ensure_simps)
qed

lemma state_Register:
  assumes "RegisterFiveMResource lower res idx = Some idx'" "wf_state idx"
  shows "wf_state idx'"
proof (cases "identityOf lower res = ''''")
  case True
  then show ?thesis using assms by (simp add: RegisterFiveMResource_def)
next
  case False
  with assms(1) show ?thesis
  proof (rule Register_Some)
    fix scope idx1
    let ?i = "reidentify (rootOf lower res) (resourceIdentity scope) (identityOf lower res) (ensureResourceLocked (rootOf lower res) idx)"
    assume scope: "giResources (ensureResourceLocked (rootOf lower res) idx) (rootOf lower res) = Some scope"
      and idx1: "idx1 = (let i = ?i in i\<lparr>giDepGraph := SetDependencies (identityOf lower res) (fiveMResourceDependencies lower res) (giDepGraph i)\<rparr>)"
      and idx': "idx' = updateScope (rootOf lower res) (registerFiveMScriptScopesLocked res)
       (fold refreshResourceEdgesLocked
          (resourceIdentity scope # identityOf lower res # DependencyList (identityOf lower res) (AddResource (rootOf lower res) (giDepGraph idx))
             @ fiveMResourceDependencies lower res) idx1)"
    have i: "wf_state ?i" by (rule state_reidentify [OF state_ensure [OF assms(2)] scope False])
    then have "wf_state idx1"
      unfolding idx1 Let_def by (intro state_graph i) (simp add: SetDependencies_spec [OF _ False] wf_stateD(1))
    then show ?thesis unfolding idx' by (intro scripts.keeps_wf refreshes.keeps_wf)
  qed
qed

lemma state_add_own:
  assumes "wf_state idx" "giResources idx uri = Some res"
  shows "wf_state (addResourceIdentityLocked (rsURI res) (resourceIdentity res) idx)"
proof (rule neutral_fields [OF _ _ _ _ _ assms(1)])
  have "rsURI res = uri" using assms sizes_Some [OF assms(2)] by (auto simp: wf_state_def wf_index_def)
  then show "setAt (giIdentities (addResourceIdentityLocked (rsURI res) (resourceIdentity res) idx)) = setAt (giIdentities idx)"
    using assms idOf_Some [OF assms(2)] by (auto simp: listing_add fun_eq_iff wf_state_def wf_ids_def)
qed (simp_all add: wf_stateD(1) [OF assms(1)])

lemma state_sync:
  assumes "wf_state idx"
  shows "wf_state (syncResourceEdgesLocked ord idx)"
proof -
  have "wf_state (fold (\<lambda>uri idx. case giResources idx uri of
                        None \<Rightarrow> idx
                      | Some res \<Rightarrow> addResourceIdentityLocked (rsURI res) (resourceIdentity res) idx) us idx)" for us
    using assms by (induction us arbitrary: idx) (auto intro: state_add_own split: option.split)
  then show ?thesis unfolding syncResourceEdgesLocked_def Let_def by (rule refreshes.keeps_wf)
qed

lemma wf_graph_prune:
  assumes "wf_graph g" "setAt (Dependencies g) uri = {}" "setAt (Dependents g) uri = {}"
  shows "wf_graph (g\<lparr>Dependencies := (Dependencies g)(uri := None), Dependents := (Dependents g)(uri := None)\<rparr>)"
proof -
  have "setAt ((Dependencies g)(uri := None)) = setAt (Dependencies g)" "setAt ((Dependents g)(uri := None)) = setAt (Dependents g)"
    using assms(2,3) by (auto simp: setAt_def fun_eq_iff)
  with assms(1) show ?thesis by (auto simp: wf_graph_def)
qed

lemma totalBytes_drop:
  assumes "finite (dom m)" "m u = Some (v, 0)"
  shows "totalBytes (m(u := None)) = totalBytes m"
proof -
  have "totalBytes m = (\<Sum>w\<in>dom m - {u}. snd (the (m w)))"
    unfolding totalBytes_def using sum.remove [OF assms(1), of u "\<lambda>w. snd (the (m w))"] assms(2) by auto
  also have "\<dots> = totalBytes (m(u := None))"
    unfolding totalBytes_def by (intro sum.cong) auto
  finally show ?thesis by simp
qed

lemma state_drop:
  assumes "wf_state idx" "giResources idx uri = Some res" "rsSourceBytes res = 0"
  shows "wf_state ((removeResourceIdentityLocked uri (resourceIdentity res) idx)\<lparr>giResources := (giResources idx)(uri := None)\<rparr>)"
    (is "wf_state ?idx")
  unfolding wf_state_def
proof
  have s: "sizes ?idx = (sizes idx)(uri := None)" by (simp add: sizes_def fun_eq_iff)
  show "wf_index ?idx"
    using assms(1) sizes_Some [OF assms(2)] assms(3) unfolding wf_state_def wf_index_def s
    by (auto simp: totalBytes_drop)
  have "idOf ?idx = (idOf idx)(uri := None)" by (simp add: idOf_def fun_eq_iff)
  then show "wf_ids ?idx"
    using assms(1) idOf_Some [OF assms(2)] unfolding wf_state_def wf_ids_def by (auto simp: listing_remove split: if_splits)
qed

lemma evict_scope:
  assumes "giResources idx uri = Some res"
  obtains res' where "giResources (snd (evictSourceLocked uri idx)) uri = Some res'" "rsSourceBytes res' = 0"
    "rsURI res' = rsURI res" "resourceIdentity res' = resourceIdentity res"
  using assms by (cases "rsSourceBytes res = 0") (auto simp: evictSourceLocked_def updateScope_def)

lemma state_Prune:
  assumes "wf_state idx"
  shows "wf_state (snd (PruneResource ord uri idx))"
proof (cases "giResources idx uri")
  case None
  then show ?thesis using assms by (simp add: PruneResource_def)
next
  case (Some res)
  let ?e = "snd (evictSourceLocked uri idx)"
  let ?g = "giDepGraph idx"
  let ?i = "?e\<lparr>giDepGraph := ?g\<lparr>Dependencies := (Dependencies ?g)(uri := None), Dependents := (Dependents ?g)(uri := None)\<rparr>\<rparr>"
  have e: "wf_state ?e" by (rule state_evict [OF assms])
  obtain res' where res': "giResources ?e uri = Some res'" "rsSourceBytes res' = 0" "rsURI res' = rsURI res"
      "resourceIdentity res' = resourceIdentity res"
    using evict_scope [OF Some] .
  have "rsURI res = uri" using assms sizes_Some [OF Some] by (auto simp: wf_state_def wf_index_def)
  show ?thesis
  proof (cases "setAt (Dependencies ?g) uri = {} \<and> setAt (Dependents ?g) uri = {}")
    case True
    then have "wf_state ?i" using e wf_stateD(1) [OF assms] by (intro state_graph wf_graph_prune) auto
    from state_sync [OF state_drop [OF this, of uri res'], of ord] show ?thesis
      using assms e res' Some True \<open>rsURI res = uri\<close> by (simp add: PruneResource_def Let_def)
  qed (use assms e Some in \<open>auto simp: PruneResource_def Let_def\<close>)
qed

section \<open>Steps and reachable states\<close>

inductive index_step :: "'p GlobalIndex \<Rightarrow> 'p GlobalIndex \<Rightarrow> bool" where
  ensure: "index_step idx (ensureResourceLocked uri idx)"
| allocate: "giEntries idx entry = None \<Longrightarrow> index_step idx (idx\<lparr>giEntries := (giEntries idx)(entry \<mapsto> e)\<rparr>)"
| addSymbol: "AddSymbol uri scope name entry idx = Some idx' \<Longrightarrow> index_step idx idx'"
| lookup: "index_step idx (snd (LookupByScope uri scope name idx))"
| register: "RegisterFiveMResource lower res idx = Some idx' \<Longrightarrow> index_step idx idx'"
| setSource: "SetSource ord uri src tree idx = Some idx' \<Longrightarrow> index_step idx idx'"
| evictSource: "index_step idx (snd (EvictSource uri idx))"
| prune: "index_step idx (snd (PruneResource ord uri idx))"

inductive_simps index_step_simp: "index_step idx idx'"

lemma index_step_wf: "index_step idx idx' \<Longrightarrow> wf_state idx \<Longrightarrow> wf_state idx'"
proof (induction rule: index_step.induct)
  case (allocate idx entry e)
  then show ?case by (intro neutral_fields [OF _ _ _ _ _ allocate(2)]) (simp_all add: wf_stateD(1))
next
  case (lookup idx uri scope name)
  then show ?case by (simp add: LookupByScope_def touch.keeps_wf split: option.split)
qed (simp_all add: state_ensure state_AddSymbol state_Register state_SetSource state_evict state_Prune EvictSource_def)

lemma wf_state_New: "wf_state (NewGlobalIndex maxMemory)"
  unfolding wf_state_def by (simp add: wf_NewGlobalIndex) (simp add: wf_ids_def idOf_def NewGlobalIndex_def)

text \<open>
  C17. In every state the operations reach from a new index, in any order and on any input: the
  resources are stored under their own URI; the memory in use is the sum of the sizes of the sources
  held; the scopes listed under an identity are exactly those that carry it; and the dependency
  graph lists a resource among the dependents of another exactly when the second is among its
  dependencies.
\<close>

theorem GlobalIndex_invariant:
  assumes "index_step\<^sup>*\<^sup>* (NewGlobalIndex maxMemory) idx"
  shows "finite (dom (giResources idx)) \<and>
    (\<forall>u res. giResources idx u = Some res \<longrightarrow> rsURI res = u) \<and>
    giMemoryUsage idx = (\<Sum>u \<in> dom (giResources idx). rsSourceBytes (the (giResources idx u))) \<and>
    (\<forall>u i. u \<in> setAt (giIdentities idx) i \<longleftrightarrow>
       i \<noteq> '''' \<and> (\<exists>res. giResources idx u = Some res \<and> resourceIdentity res = i)) \<and>
    (\<forall>u v. v \<in> setAt (Dependencies (giDepGraph idx)) u \<longleftrightarrow> u \<in> setAt (Dependents (giDepGraph idx)) v)"
proof -
  have "wf_state idx"
    using assms by induction (auto simp: wf_state_New intro: index_step_wf)
  then have wf: "wf_index idx" "wf_ids idx" by (auto simp: wf_state_def)
  have uri: "rsURI res = u" if "giResources idx u = Some res" for u res
    using wf(1) sizes_Some [OF that] by (auto simp: wf_index_def)
  have total: "totalBytes (sizes idx) = (\<Sum>u \<in> dom (giResources idx). rsSourceBytes (the (giResources idx u)))"
    unfolding totalBytes_def dom_sizes by (rule sum.cong) (auto simp: sizes_def)
  have "finite (dom (giResources idx))" "giMemoryUsage idx = totalBytes (sizes idx)" "wf_graph (giDepGraph idx)"
    using wf(1) by (auto simp: wf_index_def dom_sizes)
  then show ?thesis using wf(2) uri total wf_graphD(3) [OF \<open>wf_graph (giDepGraph idx)\<close>]
    by (auto simp: wf_ids_def idOf_def)
qed

theorem GlobalIndex_invariant_witness:
  "setAt (giIdentities (ensureResourceLocked ''a'' (NewGlobalIndex [] :: unit GlobalIndex))) ''a'' = {''a''}"
proof -
  let ?idx = "ensureResourceLocked ''a'' (NewGlobalIndex [] :: unit GlobalIndex)"
  have step: "index_step\<^sup>*\<^sup>* (NewGlobalIndex []) ?idx"
    by (rule r_into_rtranclp) (rule index_step.ensure)
  have "idOf (NewGlobalIndex [] :: unit GlobalIndex) = Map.empty" by (simp add: idOf_def NewGlobalIndex_def)
  then have "idOf ?idx = [''a'' \<mapsto> ''a'']" by (simp add: idOf_ensure)
  then have "idOf ?idx u = Some ''a'' \<longleftrightarrow> u = ''a''" for u by simp
  then have ids: "(\<exists>res. giResources ?idx u = Some res \<and> resourceIdentity res = ''a'') \<longleftrightarrow> u = ''a''" for u
    by (simp only: idOf_def map_option_eq_Some)
  note listed = GlobalIndex_invariant [OF step, THEN conjunct2, THEN conjunct2, THEN conjunct2, THEN conjunct1, rule_format]
  show ?thesis by (rule set_eqI) (simp only: listed ids, simp)
qed

section \<open>The dependency edges of the scopes\<close>

text \<open>A scope copies the edges of its identity from the graph.\<close>

definition hasEdges :: "DependencyGraph \<Rightarrow> ResourceScope \<Rightarrow> bool" where
  "hasEdges g res \<longleftrightarrow> rsDependencies res = DependencyList (resourceIdentity res) g \<and>
     rsDependents res = DependentList (resourceIdentity res) g"

definition in_sync :: "'p GlobalIndex \<Rightarrow> bool" where
  "in_sync idx \<longleftrightarrow> (\<forall>u res. giResources idx u = Some res \<and> resourceIdentity res \<noteq> '''' \<longrightarrow> hasEdges (giDepGraph idx) res)"

definition copyEdges :: "DependencyGraph \<Rightarrow> ResourceScope \<Rightarrow> ResourceScope" where
  "copyEdges g res = res\<lparr>rsDependencies := DependencyList (resourceIdentity res) g,
                         rsDependents := DependentList (resourceIdentity res) g\<rparr>"

lemma copyEdges_simps [simp]:
  "resourceIdentity (copyEdges g res) = resourceIdentity res" "hasEdges g (copyEdges g res)"
  "copyEdges g (copyEdges g res) = copyEdges g res"
  by (simp_all add: copyEdges_def hasEdges_def)

lemma refresh_scope:
  assumes "wf_ids idx"
  shows "giResources (refreshResourceEdgesLocked i idx) u =
    map_option (\<lambda>res. if resourceIdentity res = i \<and> i \<noteq> '''' then copyEdges (giDepGraph idx) res else res) (giResources idx u)"
proof -
  have "u \<in> setAt (giIdentities idx) i \<longleftrightarrow> i \<noteq> '''' \<and> idOf idx u = Some i"
    using assms by (simp add: wf_ids_def)
  then show ?thesis
    by (cases "giResources idx u") (auto simp: refreshResourceEdgesLocked_def Let_def idOf_def copyEdges_def)
qed

lemma refreshes_scope:
  assumes "wf_state idx"
  shows "giResources (fold refreshResourceEdgesLocked is idx) u =
    map_option (\<lambda>res. if resourceIdentity res \<in> set is - {''''} then copyEdges (giDepGraph idx) res else res) (giResources idx u)"
  using assms
proof (induction "is" arbitrary: idx)
  case Nil
  then show ?case by (cases "giResources idx u") simp_all
next
  case (Cons i "is")
  from Cons.IH [OF refresh.keeps_wf [OF Cons.prems], of i] show ?case
    using Cons.prems by (cases "giResources idx u") (auto simp: wf_state_def refresh_scope)
qed

lemma DependentList_unaffected:
  assumes "wf_graph g" "i \<noteq> identity" "i \<notin> set (DependencyList identity g)" "i \<notin> set deps" "identity \<noteq> ''''"
  shows "DependencyList i (SetDependencies identity deps g) = DependencyList i g \<and>
    DependentList i (SetDependencies identity deps g) = DependentList i g"
proof -
  let ?g = "SetDependencies identity deps g"
  have g: "wf_graph ?g" "edges ?g = (edges g)(identity := set deps - {'''', identity})"
    using SetDependencies_spec [OF assms(1,5)] by auto
  have "w \<in> setAt (Dependents ?g) i \<longleftrightarrow> w \<in> setAt (Dependents g) i" for w
    using assms wf_graphD(3) [OF g(1), of i w] wf_graphD(3) [OF assms(1), of i w] wf_graphD(6) [OF assms(1), of identity] g(2)
    by (auto simp: DependencyList_def split: if_splits)
  then have "setAt (Dependents ?g) i = setAt (Dependents g) i" by blast
  moreover have "setAt (Dependencies ?g) i = setAt (Dependencies g) i" using g(2) assms(2) by (simp add: fun_eq_iff)
  ultimately show ?thesis by (simp add: DependencyList_def DependentList_def)
qed

lemma in_sync_refreshes:
  assumes "wf_state idx"
    and "\<And>u s. giResources idx u = Some s \<Longrightarrow> resourceIdentity s \<notin> set is \<Longrightarrow> resourceIdentity s \<noteq> '''' \<Longrightarrow>
           hasEdges (giDepGraph idx) s"
  shows "in_sync (fold refreshResourceEdgesLocked is idx)"
  unfolding in_sync_def
proof (intro allI impI)
  fix u s
  assume s: "giResources (fold refreshResourceEdgesLocked is idx) u = Some s \<and> resourceIdentity s \<noteq> ''''"
  then obtain r where r: "giResources idx u = Some r"
      "s = (if resourceIdentity r \<in> set is - {''''} then copyEdges (giDepGraph idx) r else r)"
    by (auto simp: refreshes_scope [OF assms(1)])
  show "hasEdges (giDepGraph (fold refreshResourceEdgesLocked is idx)) s"
  proof (cases "resourceIdentity r \<in> set is - {''''}")
    case True
    with r(2) show ?thesis by simp
  next
    case False
    with r(2) have "s = r" by auto
    with s False assms(2) [OF r(1)] show ?thesis by auto
  qed
qed

lemma in_sync_Register:
  assumes reg: "RegisterFiveMResource lower res idx = Some idx'" and wf: "wf_state idx" and sync: "in_sync idx"
    and id: "identityOf lower res \<noteq> ''''"
  shows "in_sync idx'"
  using reg id
proof (rule Register_Some)
  fix scope idx1
  let ?root = "rootOf lower res" and ?id = "identityOf lower res" and ?deps = "fiveMResourceDependencies lower res"
  let ?e = "ensureResourceLocked ?root idx"
  let ?i = "reidentify ?root (resourceIdentity scope) ?id ?e"
  let ?is = "resourceIdentity scope # ?id # DependencyList ?id (AddResource ?root (giDepGraph idx)) @ ?deps"
  assume scope: "giResources ?e ?root = Some scope"
    and idx1: "idx1 = (let i = ?i in i\<lparr>giDepGraph := SetDependencies ?id ?deps (giDepGraph i)\<rparr>)"
    and idx': "idx' = updateScope ?root (registerFiveMScriptScopesLocked res) (fold refreshResourceEdgesLocked ?is idx1)"
  let ?g = "AddResource ?root (giDepGraph idx)"
  have g: "giDepGraph ?i = ?g" by (simp add: reidentify_def ensure_simps)
  have wfg: "wf_graph ?g" by (intro wf_AddResource wf_stateD(1) wf)
  have "wf_state ?i" by (rule state_reidentify [OF state_ensure [OF wf] scope id])
  then have wf1: "wf_state idx1" unfolding idx1 Let_def g by (intro state_graph) (simp_all add: SetDependencies_spec [OF wfg id])
  have root: "idOf idx1 ?root = Some ?id" by (simp add: idx1 Let_def idOf_reidentify [OF scope id])
  have other: "giResources idx1 u = giResources idx u" if "u \<noteq> ?root" for u
    using that by (simp add: idx1 reidentify_def ensureResourceLocked_def Let_def touchLocked_def updateScope_def)
  have synced: "hasEdges (giDepGraph idx1) s" if "giResources idx1 u = Some s" "resourceIdentity s \<notin> set ?is" "resourceIdentity s \<noteq> ''''" for u s
  proof -
    have "u \<noteq> ?root" using that root by (auto simp: idOf_def)
    with other that(1) have "giResources idx u = Some s" by simp
    with sync that(3) have "hasEdges (giDepGraph idx) s" unfolding in_sync_def by blast
    moreover have "DependencyList i ?g = DependencyList i (giDepGraph idx)" "DependentList i ?g = DependentList i (giDepGraph idx)" for i
      by (simp_all add: DependencyList_def DependentList_def)
    ultimately show ?thesis
      using DependentList_unaffected [OF wfg, of "resourceIdentity s" ?id ?deps] that id
      by (simp add: idx1 Let_def g hasEdges_def)
  qed
  have keep: "hasEdges h (registerFiveMScriptScopesLocked res s) = hasEdges h s"
    "resourceIdentity (registerFiveMScriptScopesLocked res s) = resourceIdentity s" for h s
    by (simp_all add: registerFiveMScriptScopesLocked_def hasEdges_def resourceIdentity_def Let_def)
  have "in_sync (fold refreshResourceEdgesLocked ?is idx1)"
    by (rule in_sync_refreshes [OF wf1 synced])
  then show ?thesis unfolding idx' in_sync_def by (auto simp: updateScope_def keep split: if_splits)
qed

lemma Register_root:
  assumes "RegisterFiveMResource lower res idx = Some idx'" and id: "identityOf lower res \<noteq> ''''"
  shows "idOf idx' (rootOf lower res) = Some (identityOf lower res)"
    "giDepGraph idx' = SetDependencies (identityOf lower res) (fiveMResourceDependencies lower res)
       (AddResource (rootOf lower res) (giDepGraph idx))"
proof -
  let ?root = "rootOf lower res" and ?id = "identityOf lower res" and ?deps = "fiveMResourceDependencies lower res"
  obtain scope idx1 "is" where scope: "giResources (ensureResourceLocked ?root idx) ?root = Some scope"
    and idx1: "idx1 = (let i = reidentify ?root (resourceIdentity scope) ?id (ensureResourceLocked ?root idx)
             in i\<lparr>giDepGraph := SetDependencies ?id ?deps (giDepGraph i)\<rparr>)"
    and idx': "idx' = updateScope ?root (registerFiveMScriptScopesLocked res) (fold refreshResourceEdgesLocked is idx1)"
    by (rule Register_Some [OF assms]) blast
  show "idOf idx' ?root = Some ?id"
    unfolding idx' scripts.ids_same refreshes.ids_same idx1 Let_def by (simp add: idOf_reidentify [OF scope id])
  show "giDepGraph idx' = SetDependencies ?id ?deps (AddResource ?root (giDepGraph idx))"
    unfolding idx' scripts.graph_same refreshes.graph_same idx1 Let_def by (simp add: reidentify_def ensure_simps)
qed

text \<open>
  C20. The incremental update of the edges equals the full reconciliation. When the edges that
  the scopes carry agree with the dependency graph, they still do after \<open>RegisterFiveMResource\<close>, which
  refreshes only the vertices that the new dependencies can affect: the scopes of every identity,
  the registered one and all others, carry the dependencies and dependents of the new graph.
\<close>

theorem RegisterFiveMResource_in_sync:
  assumes "RegisterFiveMResource lower res idx = Some idx'" and "wf_state idx" and "in_sync idx"
    and "identityOf lower res \<noteq> ''''"
  shows "wf_state idx' \<and> in_sync idx' \<and>
    (\<exists>scope. giResources idx' (rootOf lower res) = Some scope \<and> resourceIdentity scope = identityOf lower res \<and>
       set (rsDependencies scope) = set (fiveMResourceDependencies lower res) - {'''', identityOf lower res})"
proof (intro conjI)
  let ?root = "rootOf lower res" and ?id = "identityOf lower res" and ?deps = "fiveMResourceDependencies lower res"
  show wf': "wf_state idx'" by (rule state_Register [OF assms(1,2)])
  show sync: "in_sync idx'" by (rule in_sync_Register [OF assms])
  obtain scope where scope: "giResources idx' ?root = Some scope" "resourceIdentity scope = ?id"
    using Register_root(1) [OF assms(1,4)] by (auto simp: idOf_def)
  have "wf_graph (AddResource ?root (giDepGraph idx))" by (intro wf_AddResource wf_stateD(1) assms(2))
  note g = SetDependencies_spec [OF this assms(4), of ?deps, folded Register_root(2) [OF assms(1,4)]]
  have "rsDependencies scope = DependencyList ?id (giDepGraph idx')"
    using sync scope assms(4) by (auto simp: in_sync_def hasEdges_def)
  then have "set (rsDependencies scope) = edges (giDepGraph idx') ?id"
    using wf_graphD(6) [OF conjunct1 [OF g]] by (simp add: DependencyList_def)
  with g scope show "\<exists>scope. giResources idx' ?root = Some scope \<and> resourceIdentity scope = ?id \<and>
       set (rsDependencies scope) = set ?deps - {'''', ?id}" by auto
qed

text \<open>A resource \<open>a\<close> that depends on \<open>b\<close>, named by its manifest and rooted in the workspace.\<close>

definition resourceA :: FiveMResource where
  "resourceA = emptyResource\<lparr>frName := ''a'', frRootURI := ''file:///a'', frDependencies := [''b'']\<rparr>"

lemma Register_total: "\<exists>idx'. RegisterFiveMResource lower res idx = Some idx'"
  using ensure_present [of "rootOf lower res" idx] by (auto simp: RegisterFiveMResource_def Let_def)

theorem RegisterFiveMResource_in_sync_witness:
  "\<exists>idx'. RegisterFiveMResource id resourceA (NewGlobalIndex [] :: unit GlobalIndex) = Some idx' \<and>
     (\<exists>scope. giResources idx' ''file:///a'' = Some scope \<and> set (rsDependencies scope) = {''b''})"
proof -
  obtain idx' where idx': "RegisterFiveMResource id resourceA (NewGlobalIndex [] :: unit GlobalIndex) = Some idx'"
    using Register_total by blast
  have sync: "in_sync (NewGlobalIndex [] :: unit GlobalIndex)" by (simp add: in_sync_def NewGlobalIndex_def)
  have trim: "normalizeFiveMResourceAlias id ''a'' = ''a''" "normalizeFiveMResourceAlias id ''b'' = ''b''"
    unfolding normalizeFiveMResourceAlias_def by (simp_all add: TrimSpace_stays(1))
  have names: "identityOf id resourceA = ''a''" "rootOf id resourceA = ''file:///a''"
      "fiveMResourceDependencies id resourceA = [''b'']"
    by (simp_all add: identityOf_def rootOf_def resourceA_def emptyResource_def fiveMResourceDependencies_def trim Let_def)
  show ?thesis using RegisterFiveMResource_in_sync [OF idx' wf_state_New sync] idx' by (auto simp: names)
qed

section \<open>Visible symbols\<close>

definition finite_tables :: "'p GlobalIndex \<Rightarrow> bool" where
  "finite_tables idx \<longleftrightarrow> (\<forall>u res. giResources idx u = Some res \<longrightarrow>
     finite (dom (rsClient res)) \<and> finite (dom (rsServer res)) \<and> finite (dom (rsShared res)))"

lemma finite_tableForScope: "finite_tables idx \<Longrightarrow> giResources idx u = Some res \<Longrightarrow> finite (dom (tableForScope scope res))"
  by (auto simp: finite_tables_def tableForScope_def)

lemma set_tableEntries: "finite (dom table) \<Longrightarrow> set (tableEntries table) = ran table"
  by (force simp: tableEntries_def sortedSymbolNames_def List.map_filter_def ran_def image_iff)

lemma appendUnique:
  assumes "finite (dom table)"
  shows "set (appendUniqueEntries visible table) = set visible \<union> ran table"
    and "distinct visible \<Longrightarrow> distinct (appendUniqueEntries visible table)"
proof -
  have "set (fold (\<lambda>e visible. if e \<in> set visible then visible else visible @ [e]) es visible) = set visible \<union> set es \<and>
      (distinct visible \<longrightarrow> distinct (fold (\<lambda>e visible. if e \<in> set visible then visible else visible @ [e]) es visible))" for es :: "nat list"
    by (induction es arbitrary: visible) auto
  then show "set (appendUniqueEntries visible table) = set visible \<union> ran table"
    "distinct visible \<Longrightarrow> distinct (appendUniqueEntries visible table)"
    by (simp_all add: appendUniqueEntries_def set_tableEntries [OF assms])
qed

text \<open>The entries that a resource contributes to a scope.\<close>

definition scopeEntries :: "'p GlobalIndex \<Rightarrow> string \<Rightarrow> ResourceURI \<Rightarrow> EntryRef set" where
  "scopeEntries idx scope u = (case giResources idx u of None \<Rightarrow> {} | Some res \<Rightarrow> ran (tableForScope scope res) \<union> ran (rsShared res))"

lemma appendScope_set:
  assumes "finite_tables idx"
  shows "set (appendScope scope idx u visible) = set visible \<union> scopeEntries idx scope u"
    and "distinct visible \<Longrightarrow> distinct (appendScope scope idx u visible)"
  using assms
  by (auto simp: appendScope_def scopeEntries_def appendUnique finite_tableForScope finite_tables_def split: option.splits)

lemma fold_appendScope:
  assumes "finite_tables idx"
  shows "set (fold (appendScope scope idx) us visible) = set visible \<union> (\<Union>u \<in> set us. scopeEntries idx scope u) \<and>
    (distinct visible \<longrightarrow> distinct (fold (appendScope scope idx) us visible))"
  by (induction us arbitrary: visible) (auto simp: appendScope_set [OF assms])

text \<open>
  C21. What a resource sees: \<open>VisibleSymbols\<close> lists, each once, the entries of the table of the asked
  scope and of the shared table, of the resource itself and of the resources that are stored under
  the names in its dependency list. The dependency list holds identities and the index is keyed
  by root URIs, so a dependency whose root differs from its identity contributes nothing: the
  sample has \<open>a\<close> depend on \<open>b\<close>, and the symbol of \<open>b\<close> is not visible from \<open>a\<close>.
\<close>

theorem VisibleSymbols_exact:
  assumes "finite_tables idx" and "giResources idx u = Some res"
  shows "distinct (VisibleSymbols u scope idx) \<and>
    set (VisibleSymbols u scope idx) = (\<Union>v \<in> insert u (set (rsDependencies res)). scopeEntries idx scope v)"
  using fold_appendScope [OF assms(1), of scope "rsDependencies res" "appendScope scope idx u []"] assms
  by (auto simp: VisibleSymbols_def Let_def appendScope_set)

definition splitIndex :: "unit GlobalIndex" where
  "splitIndex = (NewGlobalIndex [])\<lparr>giEntries := [0 \<mapsto> sampleEntry],
     giResources := [''file:///a'' \<mapsto> (NewResourceScope ''file:///a'')\<lparr>rsIdentity := ''a'', rsDependencies := [''b'']\<rparr>,
                     ''file:///b'' \<mapsto> (NewResourceScope ''file:///b'')\<lparr>rsIdentity := ''b'', rsShared := [''x'' \<mapsto> 0]\<rparr>]\<rparr>"

theorem VisibleSymbols_exact_witness: "VisibleSymbols ''file:///a'' ''client'' splitIndex = []"
proof -
  let ?a = "(NewResourceScope ''file:///a'')\<lparr>rsIdentity := ''a'', rsDependencies := [''b'']\<rparr>"
  have "finite_tables splitIndex" "giResources splitIndex ''file:///a'' = Some ?a"
    by (auto simp: finite_tables_def splitIndex_def NewResourceScope_def split: if_splits)
  from VisibleSymbols_exact [OF this, of "''client''"] show ?thesis
    by (simp add: scopeEntries_def splitIndex_def NewResourceScope_def tableForScope_def)
qed

section \<open>Pruning\<close>

lemma symbolAt_resources: "giResources idx' = giResources idx \<Longrightarrow> symbolAt idx' = symbolAt idx"
  by (simp add: symbolAt_def fun_eq_iff)

lemma symbolAt_evict: "symbolAt (snd (evictSourceLocked uri idx)) = symbolAt idx"
  by (auto simp: symbolAt_def fun_eq_iff evictSourceLocked_def updateScope_def tableForScope_def split: option.splits)

lemma symbolAt_refresh: "symbolAt (refreshResourceEdgesLocked i idx) = symbolAt idx"
proof (intro ext)
  fix u s n
  show "symbolAt (refreshResourceEdgesLocked i idx) u s n = symbolAt idx u s n"
    by (cases "giResources idx u") (simp_all add: symbolAt_def refreshResourceEdgesLocked_def Let_def tableForScope_def)
qed

lemma symbolAt_sync: "symbolAt (syncResourceEdgesLocked ord idx) = symbolAt idx"
proof -
  have "symbolAt (fold refreshResourceEdgesLocked is i) = symbolAt i" for "is" and i :: "'a GlobalIndex"
    by (induction "is" arbitrary: i) (simp_all add: symbolAt_refresh)
  moreover have "giResources (fold (\<lambda>uri idx. case giResources idx uri of
                        None \<Rightarrow> idx
                      | Some res \<Rightarrow> addResourceIdentityLocked (rsURI res) (resourceIdentity res) idx) us idx) = giResources idx" for us
    by (induction us arbitrary: idx) (simp_all split: option.split)
  ultimately show ?thesis unfolding syncResourceEdgesLocked_def Let_def by (simp only:) (rule symbolAt_resources)
qed

lemma symbolAt_drop:
  assumes "\<And>s n. symbolAt idx uri s n = None" "giResources idx' = (giResources idx)(uri := None)"
  shows "symbolAt idx' = symbolAt idx"
proof (intro ext)
  fix u s n
  show "symbolAt idx' u s n = symbolAt idx u s n"
    using assms(1) [of s n] assms(2) by (cases "u = uri") (simp_all add: symbolAt_def)
qed

text \<open>
  What is pruned: \<open>PruneResource\<close> answers true exactly for a stored resource with a non-empty URI,
  empty tables and no edge in the dependency graph under its URI; it then is no longer
  stored and every other resource keeps its tables. Edges are kept under the identity of a resource,
  which the test does not look at.
\<close>

lemma PruneResource_exact:
  "(fst (PruneResource ord uri idx) \<longleftrightarrow> uri \<noteq> '''' \<and>
     (\<exists>res. giResources idx uri = Some res \<and> rsClient res = Map.empty \<and> rsServer res = Map.empty \<and> rsShared res = Map.empty) \<and>
     setAt (Dependencies (giDepGraph idx)) uri = {} \<and> setAt (Dependents (giDepGraph idx)) uri = {}) \<and>
   symbolAt (snd (PruneResource ord uri idx)) = symbolAt idx"
proof (cases "uri \<noteq> '''' \<and> (\<exists>res. giResources idx uri = Some res \<and>
    rsClient res = Map.empty \<and> rsServer res = Map.empty \<and> rsShared res = Map.empty) \<and>
    setAt (Dependencies (giDepGraph idx)) uri = {} \<and> setAt (Dependents (giDepGraph idx)) uri = {}")
  case True
  then obtain res where res: "giResources idx uri = Some res" "rsClient res = Map.empty" "rsServer res = Map.empty" "rsShared res = Map.empty"
    by blast
  let ?e = "snd (evictSourceLocked uri idx)"
  have "symbolAt idx uri s n = None" for s n using res by (simp add: symbolAt_def tableForScope_def)
  then have none: "symbolAt ?e uri s n = None" for s n by (simp add: symbolAt_evict)
  have "symbolAt (snd (PruneResource ord uri idx)) = symbolAt ?e"
    using True res by (simp add: PruneResource_def Let_def symbolAt_sync) (rule symbolAt_drop [OF none], simp)
  with True res show ?thesis by (simp add: PruneResource_def Let_def symbolAt_evict)
next
  case False
  then show ?thesis by (auto simp: PruneResource_def Let_def symbolAt_evict split: option.split)
qed

end
