(* ===== verification/Eviction.thy ===== *)
theory Eviction
  imports Index_Correct "HOL-Library.Multiset"
begin

text \<open>
  The cap on the number of workspace sources (\<open>src/lsp/eviction.go\<close>): the policy's list of accesses,
  the registration of an access, and the eviction of the entries with the fewest dependencies, the
  oldest access and the least URI. The clock is an argument, and so is the server's map of
  documents, of which only the keys matter here. The index comes from \<open>NewGlobalIndex\<close>, so that its
  graph is never nil.
\<close>

section \<open>State and operations\<close>

record EvictionEntry =
  eeURI :: ResourceURI
  eeTimestamp :: int

record EvictionPolicy =
  maxSources :: int
  evictionList :: "EvictionEntry list"

definition DefaultEvictionPolicyMaxSources :: int where
  "DefaultEvictionPolicyMaxSources = 1024"

definition NewEvictionPolicy :: "int list \<Rightarrow> EvictionPolicy" where
  "NewEvictionPolicy limits =
     \<lparr>maxSources = (if 0 < length limits \<and> 0 < limits ! 0 then limits ! 0 else DefaultEvictionPolicyMaxSources),
      evictionList = []\<rparr>"

definition ensureLimit :: "EvictionPolicy \<Rightarrow> EvictionPolicy" where
  "ensureLimit p = (if maxSources p \<le> 0 then p\<lparr>maxSources := DefaultEvictionPolicyMaxSources\<rparr> else p)"

text \<open>The loop over the list stops at the first entry of the resource.\<close>

fun touchEntry :: "ResourceURI \<Rightarrow> int \<Rightarrow> EvictionEntry list \<Rightarrow> EvictionEntry list" where
  "touchEntry uri timestamp [] = [\<lparr>eeURI = uri, eeTimestamp = timestamp\<rparr>]"
| "touchEntry uri timestamp (entry # entries) =
     (if eeURI entry = uri then entry\<lparr>eeTimestamp := timestamp\<rparr> # entries
      else entry # touchEntry uri timestamp entries)"

definition registerEvictionLocked :: "ResourceURI \<Rightarrow> int \<Rightarrow> EvictionPolicy \<Rightarrow> EvictionPolicy" where
  "registerEvictionLocked uri timestamp p =
     (if uri = '''' then p
      else let p = ensureLimit p in p\<lparr>evictionList := touchEntry uri timestamp (evictionList p)\<rparr>)"

definition RegisterEviction :: "int \<Rightarrow> ResourceURI \<Rightarrow> EvictionPolicy \<Rightarrow> EvictionPolicy" where
  "RegisterEviction now uri p = (if uri = '''' then p else registerEvictionLocked uri now p)"

definition evictionDependencyCount :: "'p GlobalIndex \<Rightarrow> ResourceURI \<Rightarrow> nat" where
  "evictionDependencyCount index uri = card (setAt (Dependencies (giDepGraph index)) uri)"

text \<open>One round of the search: the victim so far, with its index, dependencies, time and URI.\<close>

definition victimStep ::
  "'p GlobalIndex \<Rightarrow> nat \<times> EvictionEntry \<Rightarrow> (nat \<times> nat \<times> int \<times> ResourceURI) option \<Rightarrow> (nat \<times> nat \<times> int \<times> ResourceURI) option" where
  "victimStep index = (\<lambda>(i, entry) victim.
     let deps = evictionDependencyCount index (eeURI entry);
         this = Some (i, deps, eeTimestamp entry, eeURI entry)
     in case victim of
          None \<Rightarrow> this
        | Some (victimIdx, victimDeps, victimTimestamp, victimURI) \<Rightarrow>
            if deps < victimDeps \<or> (deps = victimDeps \<and> eeTimestamp entry < victimTimestamp) \<or>
               (deps = victimDeps \<and> eeTimestamp entry = victimTimestamp \<and> eeURI entry < victimURI)
            then this else victim)"

definition oldestVictimIndexLocked :: "'p GlobalIndex \<Rightarrow> EvictionPolicy \<Rightarrow> nat option" where
  "oldestVictimIndexLocked index p =
     map_option fst (fold (victimStep index) (List.enumerate 0 (evictionList p)) None)"

definition evictEntryLocked ::
  "ResourceURI \<Rightarrow> 'p GlobalIndex \<times> (string \<rightharpoonup> 'd) \<Rightarrow> 'p GlobalIndex \<times> (string \<rightharpoonup> 'd)" where
  "evictEntryLocked uri = (\<lambda>(index, docs). (snd (evictSourceLocked uri index), docs(uri := None)))"

partial_function (option) evictOldestLoop ::
  "EvictionPolicy \<Rightarrow> 'p GlobalIndex \<times> (string \<rightharpoonup> 'd) \<Rightarrow> (EvictionPolicy \<times> 'p GlobalIndex \<times> (string \<rightharpoonup> 'd)) option" where
  "evictOldestLoop p st =
     (if maxSources p < int (length (evictionList p))
      then case oldestVictimIndexLocked (fst st) p of
             None \<Rightarrow> Some (p, st)
           | Some victimIdx \<Rightarrow>
               let victim = eeURI (evictionList p ! victimIdx);
                   p = p\<lparr>evictionList := take victimIdx (evictionList p) @ drop (victimIdx + 1) (evictionList p)\<rparr>
               in evictOldestLoop p (evictEntryLocked victim st)
      else Some (p, st))"

definition EvictOldest ::
  "EvictionPolicy \<Rightarrow> 'p GlobalIndex \<Rightarrow> (string \<rightharpoonup> 'd) \<Rightarrow> (EvictionPolicy \<times> 'p GlobalIndex \<times> (string \<rightharpoonup> 'd)) option" where
  "EvictOldest p index docs =
     (let p = ensureLimit p
      in if int (length (evictionList p)) \<le> maxSources p then Some (p, index, docs)
         else evictOldestLoop p (index, docs))"

section \<open>Registering an access\<close>

text \<open>The last access of each resource, and the order of the list.\<close>

definition accesses :: "EvictionEntry list \<Rightarrow> ResourceURI \<rightharpoonup> int" where
  "accesses es = map_of (map (\<lambda>e. (eeURI e, eeTimestamp e)) es)"

text \<open>A new policy after a sequence of accesses.\<close>

definition registered :: "int list \<Rightarrow> (int \<times> ResourceURI) list \<Rightarrow> EvictionPolicy" where
  "registered limits events = fold (\<lambda>(now, uri). RegisterEviction now uri) events (NewEvictionPolicy limits)"

lemma set_touchEntry: "eeURI ` set (touchEntry uri t es) = insert uri (eeURI ` set es)"
  by (induction es) auto

lemma distinct_touchEntry: "distinct (map eeURI es) \<Longrightarrow> distinct (map eeURI (touchEntry uri t es))"
  by (induction es) (auto simp: set_touchEntry)

lemma accesses_touchEntry: "accesses (touchEntry uri t es) = (accesses es)(uri \<mapsto> t)"
  by (induction es) (auto simp: accesses_def fun_eq_iff)

text \<open>The list of accesses: from a new policy, whatever accesses are registered and in which
  order, the list has one entry for each resource registered under a non-empty URI, and the entry has
  the time of the last registration.
\<close>

lemma RegisterEviction_last_access:
  "distinct (map eeURI (evictionList (registered limits events))) \<and>
   accesses (evictionList (registered limits events)) =
     map_of (rev (map (\<lambda>(now, uri). (uri, now)) (filter (\<lambda>(now, uri). uri \<noteq> []) events))) \<and>
   0 < maxSources (registered limits events)"
proof -
  have step: "distinct (map eeURI (evictionList (RegisterEviction now uri q)))"
      "accesses (evictionList (RegisterEviction now uri q)) = (if uri = '''' then accesses (evictionList q) else (accesses (evictionList q))(uri \<mapsto> now))"
      "0 < maxSources (RegisterEviction now uri q)"
    if "distinct (map eeURI (evictionList q))" "0 < maxSources q" for now uri q
    using that by (auto simp: RegisterEviction_def registerEvictionLocked_def ensureLimit_def Let_def
        distinct_touchEntry accesses_touchEntry)
  let ?log = "\<lambda>es. map_of (rev (map (\<lambda>(now, uri). (uri, now)) (filter (\<lambda>(now :: int, uri). uri \<noteq> '''') es)))"
  have "distinct (map eeURI (evictionList q)) \<Longrightarrow> 0 < maxSources q \<Longrightarrow>
      (let q' = fold (\<lambda>(now, uri). RegisterEviction now uri) es q
       in distinct (map eeURI (evictionList q')) \<and> accesses (evictionList q') = accesses (evictionList q) ++ ?log es \<and> 0 < maxSources q')"
    for es :: "(int \<times> ResourceURI) list" and q
  proof (induction es arbitrary: q)
    case (Cons x es)
    obtain now uri where x: "x = (now, uri)" by force
    from Cons.IH [OF step(1,3), OF Cons.prems Cons.prems, of now uri] step(2) [OF Cons.prems, of now uri] show ?case
      by (auto simp: x Let_def map_add_upd_left)
  qed (simp add: Let_def)
  from this [of "NewEvictionPolicy limits" events] show ?thesis
    by (auto simp: registered_def NewEvictionPolicy_def accesses_def DefaultEvictionPolicyMaxSources_def Let_def)
qed

section \<open>Evicting\<close>

text \<open>The order in which entries go.\<close>

definition rank :: "'p GlobalIndex \<Rightarrow> EvictionEntry \<Rightarrow> nat \<times> int \<times> ResourceURI" where
  "rank index e = (evictionDependencyCount index (eeURI e), eeTimestamp e, eeURI e)"

lemma victimStep_rank:
  "victimStep index (i, e) victim =
     (case victim of None \<Rightarrow> Some (i, rank index e)
      | Some (j, r) \<Rightarrow> if rank index e < r then Some (i, rank index e) else victim)"
  by (auto simp: victimStep_def rank_def Let_def less_prod_def' split: option.split)

lemma victim_least:
  "es \<noteq> [] \<Longrightarrow> \<exists>i < length es. fold (victimStep index) (List.enumerate 0 es) None = Some (i, rank index (es ! i)) \<and>
     (\<forall>e \<in> set es. rank index (es ! i) \<le> rank index e)"
proof (induction es rule: rev_induct)
  case (snoc e es)
  show ?case
  proof (cases "es = []")
    case True
    then show ?thesis by (simp add: victimStep_rank)
  next
    case False
    with snoc.IH obtain i where i: "i < length es"
      "fold (victimStep index) (List.enumerate 0 es) None = Some (i, rank index (es ! i))"
      "\<forall>e \<in> set es. rank index (es ! i) \<le> rank index e" by blast
    show ?thesis
    proof (cases "rank index e < rank index (es ! i)")
      case True
      then show ?thesis
        using i by (intro exI [of _ "length es"])
          (auto simp: enumerate_append_eq victimStep_rank intro: order.trans less_imp_le)
    next
      case False
      then show ?thesis
        using i by (intro exI [of _ i]) (auto simp: enumerate_append_eq victimStep_rank nth_append)
    qed
  qed
qed simp

lemma evictEntry_simps:
  "evictEntryLocked uri (index, docs) = (snd (evictSourceLocked uri index), docs(uri := None))"
  by (simp add: evictEntryLocked_def)

lemma rank_evict: "rank (snd (evictSourceLocked uri index)) = rank index"
  by (simp add: rank_def fun_eq_iff evictionDependencyCount_def)

text \<open>What an eviction has done when the entries \<open>gone\<close> have left the list.\<close>

definition evicted ::
  "EvictionEntry list \<Rightarrow> EvictionPolicy \<Rightarrow> 'p GlobalIndex \<Rightarrow> (string \<rightharpoonup> 'd) \<Rightarrow> EvictionPolicy \<times> 'p GlobalIndex \<times> (string \<rightharpoonup> 'd) \<Rightarrow> bool" where
  "evicted gone p index docs = (\<lambda>(p', index', docs').
     mset (evictionList p) = mset (evictionList p') + mset gone \<and> subseq (evictionList p') (evictionList p) \<and>
     (\<forall>e \<in> set gone. \<forall>e' \<in> set (evictionList p'). rank index e \<le> rank index e') \<and>
     holding index' = holding index - eeURI ` set gone \<and> docs' = docs |` (- (eeURI ` set gone)))"

lemma evicted_Nil: "evicted [] p index docs (p, index, docs)"
  by (simp add: evicted_def restrict_map_def)

lemma evicted_Cons:
  assumes i: "i < length (evictionList p)" "\<forall>e \<in> set (evictionList p). rank index (evictionList p ! i) \<le> rank index e"
    and rest: "evicted gone (p\<lparr>evictionList := take i (evictionList p) @ drop (Suc i) (evictionList p)\<rparr>)
      (snd (evictSourceLocked (eeURI (evictionList p ! i)) index)) (docs(eeURI (evictionList p ! i) := None)) r"
  shows "evicted (evictionList p ! i # gone) p index docs r"
proof -
  obtain p' index' docs' where r: "r = (p', index', docs')" by (cases r)
  have split: "evictionList p = take i (evictionList p) @ evictionList p ! i # drop (Suc i) (evictionList p)"
    using i(1) by (rule id_take_nth_drop)
  have "subseq (take i (evictionList p) @ drop (Suc i) (evictionList p))
      (take i (evictionList p) @ evictionList p ! i # drop (Suc i) (evictionList p))"
    by (simp only: subseq_append') auto
  then have sub: "subseq (take i (evictionList p) @ drop (Suc i) (evictionList p)) (evictionList p)"
    using split by simp
  have trans: "subseq (evictionList p') (evictionList p)"
    using rest sub by (auto simp: evicted_def r intro: subseq_order.order_trans)
  then have kept: "set (evictionList p') \<subseteq> set (evictionList p)"
    by (auto simp: subseq_conv_nths dest: in_set_nthsD)
  have "mset (evictionList p) = mset (take i (evictionList p) @ drop (Suc i) (evictionList p)) + {#evictionList p ! i#}"
    by (subst split) simp
  then show ?thesis
    using rest i(2) kept trans by (auto simp: evicted_def r rank_evict holding_evict restrict_map_def fun_eq_iff)
qed

lemma evictOldestLoop_ok:
  assumes "0 < maxSources p"
  shows "\<exists>gone r. evictOldestLoop p (index, docs) = Some r \<and> evicted gone p index docs r \<and>
    maxSources (fst r) = maxSources p \<and> length (evictionList (fst r)) = min (length (evictionList p)) (nat (maxSources p))"
  using assms
proof (induction "length (evictionList p)" arbitrary: p index docs)
  case 0
  then show ?case by (intro exI [of _ "[]"]) (simp add: evictOldestLoop.simps evicted_Nil)
next
  case (Suc n)
  show ?case
  proof (cases "maxSources p < int (length (evictionList p))")
    case False
    then have "min (length (evictionList p)) (nat (maxSources p)) = length (evictionList p)" by simp
    with False show ?thesis by (intro exI [of _ "[]"]) (simp add: evictOldestLoop.simps evicted_Nil)
  next
    case True
    have "evictionList p \<noteq> []" using Suc.hyps(2) by auto
    with victim_least [of "evictionList p" index] obtain i where
      i: "i < length (evictionList p)" "\<forall>e \<in> set (evictionList p). rank index (evictionList p ! i) \<le> rank index e"
        "fold (victimStep index) (List.enumerate 0 (evictionList p)) None = Some (i, rank index (evictionList p ! i))"
      by blast
    have oldest: "oldestVictimIndexLocked index p = Some i"
      unfolding oldestVictimIndexLocked_def i(3) by simp
    let ?p = "p\<lparr>evictionList := take i (evictionList p) @ drop (Suc i) (evictionList p)\<rparr>"
    let ?u = "eeURI (evictionList p ! i)"
    have "n = length (evictionList ?p)" "0 < maxSources ?p" using Suc.hyps(2) Suc.prems i(1) by simp_all
    from Suc.hyps(1) [OF this, of "snd (evictSourceLocked ?u index)" "docs(?u := None)"] obtain gone r where
      r: "evictOldestLoop ?p (snd (evictSourceLocked ?u index), docs(?u := None)) = Some r"
        "evicted gone ?p (snd (evictSourceLocked ?u index)) (docs(?u := None)) r" "maxSources (fst r) = maxSources p"
        "length (evictionList (fst r)) = min (length (evictionList ?p)) (nat (maxSources p))" by auto
    have "evictOldestLoop p (index, docs) = Some r"
      using True oldest r(1) by (subst evictOldestLoop.simps) (simp add: Let_def evictEntry_simps)
    moreover have "evicted (evictionList p ! i # gone) p index docs r" by (rule evicted_Cons [OF i(1,2) r(2)])
    moreover have "length (evictionList (fst r)) = min (length (evictionList p)) (nat (maxSources p))"
      using r(4) i(1) True by simp
    ultimately show ?thesis using r(3) by blast
  qed
qed

text \<open>
  C24. The cap on sources: \<open>EvictOldest\<close> returns for every policy, index and map of documents; the
  limit is the policy's own, or 1024 where that is not positive, and the list is then as long as it
  was or as this limit, whichever is less; the entries that stay are in
  their order, and each that went has no more dependencies than any that stays, with ties broken by the
  older access and then by the lesser URI; the sources and the documents given up are exactly those of
  the entries that went.
\<close>

theorem EvictOldest_correct:
  "\<exists>gone p' index' docs'. EvictOldest p index docs = Some (p', index', docs') \<and>
     0 < maxSources p' \<and>
     maxSources p' = (if 0 < maxSources p then maxSources p else DefaultEvictionPolicyMaxSources) \<and>
     length (evictionList p') = min (length (evictionList p)) (nat (maxSources p')) \<and>
     mset (evictionList p) = mset (evictionList p') + mset gone \<and> subseq (evictionList p') (evictionList p) \<and>
     (\<forall>e \<in> set gone. \<forall>e' \<in> set (evictionList p').
        (evictionDependencyCount index (eeURI e), eeTimestamp e, eeURI e) \<le>
        (evictionDependencyCount index (eeURI e'), eeTimestamp e', eeURI e')) \<and>
     holding index' = holding index - eeURI ` set gone \<and> docs' = docs |` (- (eeURI ` set gone))"
proof -
  have pos: "0 < maxSources (ensureLimit p)" and same: "evictionList (ensureLimit p) = evictionList p"
    and limit: "maxSources (ensureLimit p) = (if 0 < maxSources p then maxSources p else DefaultEvictionPolicyMaxSources)"
    by (auto simp: ensureLimit_def DefaultEvictionPolicyMaxSources_def)
  obtain gone r where loop: "evictOldestLoop (ensureLimit p) (index, docs) = Some r" "evicted gone (ensureLimit p) index docs r"
      "maxSources (fst r) = maxSources (ensureLimit p)"
      "length (evictionList (fst r)) = min (length (evictionList p)) (nat (maxSources (ensureLimit p)))"
    using evictOldestLoop_ok [OF pos, of index docs] same by auto
  obtain p' index' docs' where r: "r = (p', index', docs')" by (cases r)
  have "EvictOldest p index docs = evictOldestLoop (ensureLimit p) (index, docs)"
    by (simp add: EvictOldest_def Let_def evictOldestLoop.simps [of "ensureLimit p"])
  with loop pos same limit show ?thesis
    by (intro exI [of _ gone] exI [of _ p'] exI [of _ index'] exI [of _ docs']) (simp add: r evicted_def rank_def)
qed

text \<open>A limit of one and two sources: the one with the older access goes, and its document with it.\<close>

theorem EvictOldest_correct_witness:
  "\<exists>p' index' docs'. EvictOldest (registered [1] [(5, ''a''), (3, ''b'')]) (NewGlobalIndex [] :: unit GlobalIndex)
        [''a'' \<mapsto> 10, ''b'' \<mapsto> 20 :: nat] = Some (p', index', docs') \<and>
      evictionList p' = [\<lparr>eeURI = ''a'', eeTimestamp = 5\<rparr>] \<and> docs' = [''a'' \<mapsto> 10]"
proof -
  let ?a = "\<lparr>eeURI = ''a'', eeTimestamp = 5\<rparr>" and ?b = "\<lparr>eeURI = ''b'', eeTimestamp = 3\<rparr>"
  let ?index = "NewGlobalIndex [] :: unit GlobalIndex"
  have list: "evictionList (registered [1] [(5, ''a''), (3, ''b'')]) = [?a, ?b]" "maxSources (registered [1] [(5, ''a''), (3, ''b'')]) = 1"
    by (simp_all add: registered_def RegisterEviction_def registerEvictionLocked_def ensureLimit_def NewEvictionPolicy_def Let_def)
  have deps: "evictionDependencyCount ?index u = 0" for u
    by (simp add: evictionDependencyCount_def NewGlobalIndex_def NewDependencyGraph_def setAt_def)
  define docs :: "string \<rightharpoonup> nat" where "docs = [''a'' \<mapsto> 10, ''b'' \<mapsto> 20]"
  obtain gone p' index' docs' where r:
    "EvictOldest (registered [1] [(5, ''a''), (3, ''b'')]) ?index docs = Some (p', index', docs')"
    "length (evictionList p') = 1" "{#?a, ?b#} = mset (evictionList p') + mset gone"
    "\<forall>e \<in> set gone. \<forall>e' \<in> set (evictionList p'). (0 :: nat, eeTimestamp e, eeURI e) \<le> (0, eeTimestamp e', eeURI e')"
    "docs' = docs |` (- (eeURI ` set gone))"
    using EvictOldest_correct [of "registered [1] [(5, ''a''), (3, ''b'')]" ?index docs]
    by (auto simp: list deps)
  obtain x where x: "evictionList p' = [x]" using r(2) by (auto simp: length_Suc_conv)
  have "size (mset gone) = 1" using arg_cong [OF r(3), of size] x by simp
  then obtain y where y: "gone = [y]" by (auto simp: length_Suc_conv)
  have "x = ?a \<and> y = ?b \<or> x = ?b \<and> y = ?a"
    using r(3) x y by (auto simp: add_eq_conv_ex)
  with r(4) x y have "x = ?a" "y = ?b" by auto
  with r(5) y have "docs' = [''a'' \<mapsto> 10]" by (auto simp: docs_def fun_eq_iff restrict_map_def)
  with r(1) x \<open>x = ?a\<close> show ?thesis by (simp add: docs_def)
qed

end
