(* ===== verification/Tree_Diff.thy ===== *)
theory Tree_Diff
  imports Ast
begin

text \<open>
  The structural comparison of two trees (\<open>src/lsp/treediff.go\<close>): nodes are put into buckets by
  the FNV-1a hash of their kind and text, and the buckets of the two trees are matched entry by entry. A nil tree
  is \<open>None\<close>. Go visits the buckets in an arbitrary order, the argument \<open>ord\<close>.
\<close>

section \<open>Definitions\<close>

record TreeDiffResult =
  Added :: "NodeID list"
  Removed :: "NodeID list"
  Modified :: "NodeID list"

type_synonym treeDiffEntry = "NodeID \<times> Node"

definition nodeKinds :: "NodeKind list" where
  "nodeKinds =
     [KindInvalid, KindFile, KindBlock, KindLocalAssign, KindAssign, KindIdent, KindNumber,
      KindString, KindHashedString, KindBinaryExpr, KindUnaryExpr, KindParenExpr,
      KindNil, KindTrue, KindFalse, KindVararg, KindFunctionExpr, KindTableExpr,
      KindIndexExpr, KindMemberExpr, KindCallExpr,
      KindRecordField, KindIndexField, KindMethodCall, KindMethodName,
      KindExprList, KindNameList,
      KindBreak, KindReturn, KindLabel, KindGoto, KindDo, KindWhile, KindRepeat,
      KindIf, KindElseIf, KindElse, KindForNum, KindForIn, KindLocalFunction,
      KindFunctionStmt]"

text \<open>The conversion of a kind to a byte.\<close>

definition kindByte :: "NodeKind \<Rightarrow> byte" where
  "kindByte k = char_of (length (takeWhile (\<lambda>k'. k' \<noteq> k) nodeKinds))"

definition hashTreeNode :: "Tree \<Rightarrow> Node \<Rightarrow> u64" where
  "hashTreeNode tree node =
     HashBytes (kindByte (nKind node) #
       (if nStart node \<le> nEnd node \<and> nEnd node \<le> length (Source tree) then slice (Source tree) (nStart node) (nEnd node) else []))"

definition entriesAt :: "(u64 \<rightharpoonup> treeDiffEntry list) \<Rightarrow> u64 \<Rightarrow> treeDiffEntry list" where
  "entriesAt buckets hash = (case buckets hash of None \<Rightarrow> [] | Some es \<Rightarrow> es)"

definition buildTreeDiffBuckets :: "Tree option \<Rightarrow> u64 \<rightharpoonup> treeDiffEntry list" where
  "buildTreeDiffBuckets t =
     (case t of
        None \<Rightarrow> Map.empty
      | Some tree \<Rightarrow>
          fold (\<lambda>i buckets.
                  let node = Nodes tree ! i;
                      hash = hashTreeNode tree node
                  in buckets(hash \<mapsto> entriesAt buckets hash @ [(i, node)]))
            [1..<length (Nodes tree)] Map.empty)"

text \<open>One matched pair: the numbers it marks as modified.\<close>

definition matchEntries :: "treeDiffEntry \<Rightarrow> treeDiffEntry \<Rightarrow> NodeID set" where
  "matchEntries oldEntry newEntry =
     (if fst oldEntry \<noteq> fst newEntry then {fst oldEntry, fst newEntry}
      else if nParent (snd oldEntry) \<noteq> nParent (snd newEntry) \<or> nLeft (snd oldEntry) \<noteq> nLeft (snd newEntry) \<or>
              nRight (snd oldEntry) \<noteq> nRight (snd newEntry)
      then {fst oldEntry} else {})"

definition diffBucket ::
  "treeDiffEntry list \<Rightarrow> treeDiffEntry list \<Rightarrow> NodeID set \<times> NodeID set \<times> NodeID set \<Rightarrow> NodeID set \<times> NodeID set \<times> NodeID set" where
  "diffBucket oldEntries newEntries = (\<lambda>(added, removed, modified).
     let limit = min (length oldEntries) (length newEntries)
     in (added \<union> fst ` set (drop limit newEntries),
         removed \<union> fst ` set (drop limit oldEntries),
         modified \<union> (\<Union>(oldEntry, newEntry) \<in> set (zip oldEntries newEntries). matchEntries oldEntry newEntry)))"

definition Diff :: "(u64 set \<Rightarrow> u64 list) \<Rightarrow> Tree option \<Rightarrow> Tree option \<Rightarrow> TreeDiffResult" where
  "Diff ord oldTree newTree =
     (let oldBuckets = buildTreeDiffBuckets oldTree;
          newBuckets = buildTreeDiffBuckets newTree;
          seen = dom oldBuckets \<union> dom newBuckets
      in case fold (\<lambda>hash. diffBucket (entriesAt oldBuckets hash) (entriesAt newBuckets hash)) (ord seen) ({}, {}, {}) of
           (added, removed, modified) \<Rightarrow>
             \<lparr>Added = sorted_list_of_set added, Removed = sorted_list_of_set removed,
              Modified = sorted_list_of_set modified\<rparr>)"

section \<open>Buckets\<close>

text \<open>The nodes of a tree, and its bucket for a hash, without the order of construction.\<close>

definition nodeIDs :: "Tree option \<Rightarrow> NodeID list" where
  "nodeIDs t = (case t of None \<Rightarrow> [] | Some tree \<Rightarrow> [1..<length (Nodes tree)])"

definition hashOf :: "Tree option \<Rightarrow> NodeID \<Rightarrow> u64" where
  "hashOf t i = (case t of None \<Rightarrow> 0 | Some tree \<Rightarrow> hashTreeNode tree (Nodes tree ! i))"

definition bucket :: "Tree option \<Rightarrow> u64 \<Rightarrow> NodeID list" where
  "bucket t h = filter (\<lambda>i. hashOf t i = h) (nodeIDs t)"

lemma entriesAt_build:
  "entriesAt (buildTreeDiffBuckets t) h = (case t of None \<Rightarrow> [] | Some tree \<Rightarrow> map (\<lambda>i. (i, Nodes tree ! i)) (bucket t h))"
proof (cases t)
  case None
  then show ?thesis by (simp add: buildTreeDiffBuckets_def entriesAt_def)
next
  case (Some tree)
  let ?f = "\<lambda>i buckets. let node = Nodes tree ! i; hash = hashTreeNode tree node in buckets(hash \<mapsto> entriesAt buckets hash @ [(i, node)])"
  have "entriesAt (fold ?f is b) h =
      entriesAt b h @ map (\<lambda>i. (i, Nodes tree ! i)) (filter (\<lambda>i. hashTreeNode tree (Nodes tree ! i) = h) is)" for "is" b
    by (induction "is" arbitrary: b) (auto simp: entriesAt_def Let_def)
  then show ?thesis by (simp add: Some buildTreeDiffBuckets_def bucket_def nodeIDs_def hashOf_def) (simp add: entriesAt_def)
qed

lemma dom_build: "finite (dom (buildTreeDiffBuckets t)) \<and> hashOf t ` set (nodeIDs t) \<subseteq> dom (buildTreeDiffBuckets t)"
proof
  have "finite (dom (fold (\<lambda>i buckets. buckets(f i \<mapsto> g i buckets)) is b))" if "finite (dom b)"
    for f :: "nat \<Rightarrow> u64" and g :: "nat \<Rightarrow> _ \<Rightarrow> treeDiffEntry list" and "is" b
    using that by (induction "is" arbitrary: b) auto
  then show "finite (dom (buildTreeDiffBuckets t))"
    by (simp add: buildTreeDiffBuckets_def Let_def split: option.split)
  show "hashOf t ` set (nodeIDs t) \<subseteq> dom (buildTreeDiffBuckets t)"
  proof
    fix h assume "h \<in> hashOf t ` set (nodeIDs t)"
    then have "entriesAt (buildTreeDiffBuckets t) h \<noteq> []"
      by (auto simp: entriesAt_build bucket_def nodeIDs_def filter_empty_conv split: option.splits)
    then show "h \<in> dom (buildTreeDiffBuckets t)" by (auto simp: entriesAt_def split: option.splits)
  qed
qed

lemma fst_entriesAt: "map fst (entriesAt (buildTreeDiffBuckets t) h) = bucket t h"
  by (simp add: entriesAt_build bucket_def nodeIDs_def comp_def split: option.split)

lemma length_entriesAt: "length (entriesAt (buildTreeDiffBuckets t) h) = length (bucket t h)"
  using fst_entriesAt [of t h] by (metis length_map)

lemma fold_diffBucket:
  "fold (\<lambda>h. diffBucket (os h) (ns h)) hs (added, removed, modified) =
     (added \<union> (\<Union>h \<in> set hs. fst ` set (drop (length (os h)) (ns h))),
      removed \<union> (\<Union>h \<in> set hs. fst ` set (drop (length (ns h)) (os h))),
      modified \<union> (\<Union>h \<in> set hs. \<Union>(oldEntry, newEntry) \<in> set (zip (os h) (ns h)). matchEntries oldEntry newEntry))"
proof (induction hs arbitrary: added removed modified)
  case (Cons h hs)
  have "drop (min (length (os h)) (length (ns h))) (ns h) = drop (length (os h)) (ns h)"
    "drop (min (length (os h)) (length (ns h))) (os h) = drop (length (ns h)) (os h)"
    by (auto simp: min_def)
  with Cons.IH show ?case by (simp add: diffBucket_def Let_def Un_assoc)
qed simp

text \<open>The nodes of the second tree beyond the number of nodes with the same hash in the first.\<close>

definition surplus :: "Tree option \<Rightarrow> Tree option \<Rightarrow> NodeID set" where
  "surplus t t' = (\<Union>h. set (drop (length (bucket t h)) (bucket t' h)))"

definition changed :: "Tree option \<Rightarrow> Tree option \<Rightarrow> NodeID set" where
  "changed t t' = (\<Union>h. \<Union>(oldEntry, newEntry) \<in> set (zip (entriesAt (buildTreeDiffBuckets t) h) (entriesAt (buildTreeDiffBuckets t') h)).
     matchEntries oldEntry newEntry)"

lemma surplus_subset: "surplus t t' \<subseteq> set (nodeIDs t')"
  unfolding surplus_def bucket_def using set_drop_subset by fastforce

lemma UN_outside: "(\<And>h. h \<notin> S \<Longrightarrow> f h = {}) \<Longrightarrow> (\<Union>h \<in> S. f h) = (\<Union>h. f h)"
  by auto

lemma Diff_sets:
  assumes "\<And>S. finite S \<Longrightarrow> set (ord S) = S"
  shows "Diff ord t t' = \<lparr>Added = sorted_list_of_set (surplus t t'), Removed = sorted_list_of_set (surplus t' t),
    Modified = sorted_list_of_set (changed t t')\<rparr>"
proof -
  let ?b = "buildTreeDiffBuckets t" and ?b' = "buildTreeDiffBuckets t'"
  let ?seen = "dom ?b \<union> dom ?b'"
  have seen: "set (ord ?seen) = ?seen" by (rule assms) (simp add: dom_build)
  have out: "entriesAt ?b h = []" "entriesAt ?b' h = []" if "h \<notin> ?seen" for h
    using that by (auto simp: entriesAt_def split: option.split)
  have ids: "fst ` set (drop k (entriesAt (buildTreeDiffBuckets u) h)) = set (drop k (bucket u h))" for k u h
    using arg_cong [OF fst_entriesAt [of u h], of "\<lambda>xs. set (drop k xs)"] by (simp add: drop_map)
  have "(\<Union>h \<in> ?seen. fst ` set (drop (length (entriesAt ?b h)) (entriesAt ?b' h))) = surplus t t'"
    "(\<Union>h \<in> ?seen. fst ` set (drop (length (entriesAt ?b' h)) (entriesAt ?b h))) = surplus t' t"
    "(\<Union>h \<in> ?seen. \<Union>(oldEntry, newEntry) \<in> set (zip (entriesAt ?b h) (entriesAt ?b' h)). matchEntries oldEntry newEntry) = changed t t'"
    unfolding surplus_def changed_def ids [symmetric] length_entriesAt [symmetric]
    by (rule UN_outside, simp add: out)+
  then show ?thesis unfolding Diff_def Let_def fold_diffBucket seen by simp
qed

section \<open>Counting\<close>

lemma sum_filter:
  assumes "finite H" "f ` set xs \<subseteq> H"
  shows "(\<Sum>h \<in> H. length (filter (\<lambda>i. f i = h) xs)) = length xs"
  using assms(2)
proof (induction xs)
  case (Cons x xs)
  have "(\<Sum>h \<in> H. length (filter (\<lambda>i. f i = h) (x # xs))) = (\<Sum>h \<in> H. (if h = f x then 1 else 0) + length (filter (\<lambda>i. f i = h) xs))"
    by (rule sum.cong) auto
  also have "\<dots> = 1 + length xs" using Cons assms(1) by (simp add: sum.distrib)
  finally show ?case by simp
qed simp

lemma card_surplus:
  assumes "finite H" "hashOf t' ` set (nodeIDs t') \<subseteq> H"
  shows "card (surplus t t') = (\<Sum>h \<in> H. length (bucket t' h) - length (bucket t h))"
proof -
  have dist: "distinct (bucket t' h)" for h by (auto simp: bucket_def nodeIDs_def split: option.split)
  have none: "bucket t' h = []" if "h \<notin> H" for h
    using assms(2) that by (auto simp: bucket_def filter_empty_conv)
  have "surplus t t' = (\<Union>h \<in> H. set (drop (length (bucket t h)) (bucket t' h)))"
    unfolding surplus_def by (rule UN_outside [symmetric]) (simp add: none)
  moreover have "set (drop k (bucket t' h)) \<inter> set (drop k' (bucket t' h')) = {}" if "h \<noteq> h'" for h h' k k'
    using that by (auto dest!: in_set_dropD simp: bucket_def)
  ultimately have "card (surplus t t') = (\<Sum>h \<in> H. card (set (drop (length (bucket t h)) (bucket t' h))))"
    using assms(1) by (simp add: card_UN_disjoint)
  then show ?thesis by (simp add: distinct_card dist)
qed

text \<open>
  C27. The difference of two trees, for every order in which Go may visit the buckets: the result is
  the same; the added nodes are nodes of the new tree and the removed ones of the old, each listed
  once and in order; and they account for the change of size: the old nodes and the added ones are as many as the
  new nodes and the removed ones. A tree does not differ from itself, and exchanging the trees exchanges
  the added and the removed nodes.
\<close>

theorem Diff_accounts:
  assumes "\<And>S. finite S \<Longrightarrow> set (ord S) = S" "\<And>S. finite S \<Longrightarrow> set (ord' S) = S"
  shows "Diff ord t t' = Diff ord' t t' \<and>
    sorted (Added (Diff ord t t')) \<and> distinct (Added (Diff ord t t')) \<and> set (Added (Diff ord t t')) \<subseteq> set (nodeIDs t') \<and>
    sorted (Removed (Diff ord t t')) \<and> distinct (Removed (Diff ord t t')) \<and> set (Removed (Diff ord t t')) \<subseteq> set (nodeIDs t) \<and>
    length (nodeIDs t) + length (Added (Diff ord t t')) = length (nodeIDs t') + length (Removed (Diff ord t t')) \<and>
    Diff ord t t = \<lparr>Added = [], Removed = [], Modified = []\<rparr> \<and>
    Added (Diff ord t' t) = Removed (Diff ord t t') \<and> Removed (Diff ord t' t) = Added (Diff ord t t')"
proof -
  note d = Diff_sets [of ord, OF assms(1)]
  have fin: "finite (surplus u u')" for u u' using surplus_subset finite_subset by blast
  have same: "surplus t t = {}" "changed t t = {}"
    by (auto simp: surplus_def changed_def zip_same_conv_map matchEntries_def)
  let ?H = "hashOf t ` set (nodeIDs t) \<union> hashOf t' ` set (nodeIDs t')"
  have count: "length (nodeIDs u) = (\<Sum>h \<in> ?H. length (bucket u h))" if "u \<in> {t, t'}" for u
    unfolding bucket_def using that by (subst sum_filter) auto
  have "length (nodeIDs t) + card (surplus t t') = (\<Sum>h \<in> ?H. length (bucket t h) + (length (bucket t' h) - length (bucket t h)))"
    using count [of t] card_surplus [of ?H t' t] by (simp add: sum.distrib)
  also have "\<dots> = (\<Sum>h \<in> ?H. length (bucket t' h) + (length (bucket t h) - length (bucket t' h)))"
    by (rule sum.cong) auto
  also have "\<dots> = length (nodeIDs t') + card (surplus t' t)"
    using count [of t'] card_surplus [of ?H t t'] by (simp add: sum.distrib)
  finally have "length (nodeIDs t) + card (surplus t t') = length (nodeIDs t') + card (surplus t' t)" .
  then show ?thesis
    using fin surplus_subset by (simp add: d Diff_sets [of ord', OF assms(2)] same)
qed

definition leafTree :: "Tree" where
  "leafTree = \<lparr>Source = ''x'', Root = 1, PositionEncoding = ''utf-16'',
     Nodes = [mkNode KindInvalid 0 0, mkNode KindFile 0 1], Comments = [], ExtraList = [], LineOffsets = [0]\<rparr>"

theorem Diff_accounts_witness:
  "length (Added (Diff sorted_list_of_set None (Some leafTree))) = 1 + length (Removed (Diff sorted_list_of_set None (Some leafTree)))"
  using Diff_accounts [of sorted_list_of_set sorted_list_of_set None "Some leafTree"]
  by (simp add: nodeIDs_def leafTree_def)

end
