(* ===== verification/Rpc.thy ===== *)
theory Rpc
  imports Lsp_Text
begin

text \<open>
  The framing of JSON-RPC messages (\<open>src/lsp/rpc.go\<close>): \<open>ReadMessage\<close> and \<open>writeMessageRaw\<close>.

  \<^item> A \<open>bufio.Reader\<close> is the bytes not yet read, followed by the end of the input; \<open>cap\<close> is the
    size of its buffer (4096 for \<open>bufio.NewReader\<close>, never below 16). \<open>ReadSlice\<close> fails when a line
    does not fit, and has consumed the buffer. Every read returns what is left of the input, also
    when it fails.
  \<^item> \<open>bytes.TrimSpace\<close> strips the UTF-8 encodings of the white space of Unicode, \<open>spaceRunes\<close>.
    \<open>strings.EqualFold\<close> is needed against \<open>Content-Length\<close> only, whose letters have no case variants
    outside of ASCII.
  \<^item> \<open>json.Marshal\<close> and the \<open>Write\<close> of the \<open>io.Writer\<close> are arguments of \<open>writeMessageRaw\<close>. The mutex
    makes each frame one write.
\<close>

section \<open>Reading\<close>

datatype rpc_error =
    ErrEOF
  | ErrUnexpectedEOF
  | HeaderTooLong
  | InvalidContentLength
  | MissingContentLength
  | MessageTooLarge nat
  | ErrMarshal
  | ErrWrite
  | ErrShortWrite

definition LF :: byte where "LF = char_of (10 :: nat)"
definition CR :: byte where "CR = char_of (13 :: nat)"

definition maxMessageSize :: nat where
  "maxMessageSize = 100 * 1024 * 1024"

text \<open>A line with its line feed, and the rest of the input.\<close>

definition ReadSlice :: "nat \<Rightarrow> bytes \<Rightarrow> (rpc_error + bytes) \<times> bytes" where
  "ReadSlice cap input =
     (let line = takeWhile (\<lambda>b. b \<noteq> LF) input;
          cap = max 16 cap
      in if length line < length input \<and> length line < cap then (Inr (line @ [LF]), drop (length line + 1) input)
         else if cap \<le> length input then (Inl HeaderTooLong, drop cap input)
         else (Inl ErrEOF, []))"

text \<open>\<open>io.ReadFull\<close>.\<close>

definition ReadFull :: "nat \<Rightarrow> bytes \<Rightarrow> (rpc_error + bytes) \<times> bytes" where
  "ReadFull n input =
     (if n \<le> length input then (Inr (take n input), drop n input)
      else if input = [] then (Inl ErrEOF, [])
      else (Inl ErrUnexpectedEOF, []))"

definition TrimSuffix :: "bytes \<Rightarrow> bytes \<Rightarrow> bytes" where
  "TrimSuffix bs suff = (if suffix suff bs then take (length bs - length suff) bs else bs)"

definition EqualFold :: "bytes \<Rightarrow> bytes \<Rightarrow> bool" where
  "EqualFold a b \<longleftrightarrow> map foldByte a = map foldByte b"

definition isDecDigit :: "byte \<Rightarrow> bool" where
  "isDecDigit b \<longleftrightarrow> byte_val CHR ''0'' \<le> byte_val b \<and> byte_val b \<le> byte_val CHR ''9''"

text \<open>\<open>strconv.ParseUint\<close> in base 10 with 64 bits, on digits.\<close>

definition decValue :: "bytes \<Rightarrow> nat" where
  "decValue bs = foldl (\<lambda>n b. 10 * n + (byte_val b - byte_val CHR ''0'')) 0 bs"

definition ParseUint :: "bytes \<Rightarrow> rpc_error + nat" where
  "ParseUint bs = (if decValue bs < 2 ^ 64 then Inr (decValue bs) else Inl InvalidContentLength)"

text \<open>One header line: the length it gives, if it gives one.\<close>

definition headerLine :: "bytes \<Rightarrow> rpc_error + nat option" where
  "headerLine line =
     (let line = TrimSuffix line [LF];
          line = TrimSuffix line [CR];
          key = takeWhile (\<lambda>b. b \<noteq> CHR '':'') line
      in if length key < length line \<and> EqualFold (TrimSpace key) ''Content-Length''
         then let valBytes = TrimSpace (drop (length key + 1) line)
              in if valBytes = [] then Inl InvalidContentLength
                 else if \<not> list_all isDecDigit valBytes then Inl InvalidContentLength
                 else map_sum id Some (ParseUint valBytes)
         else Inr None)"

text \<open>The loop over the header lines, up to the empty one.\<close>

function readHeaders :: "nat \<Rightarrow> bytes \<Rightarrow> nat option \<Rightarrow> (rpc_error + nat option) \<times> bytes" where
  "readHeaders cap input len =
     (case ReadSlice cap input of
        (Inl err, rest) \<Rightarrow> (Inl err, rest)
      | (Inr line, rest) \<Rightarrow>
          if line = [CR, LF] \<or> line = [LF] then (Inr len, rest)
          else case headerLine line of
                 Inl err \<Rightarrow> (Inl err, rest)
               | Inr None \<Rightarrow> readHeaders cap rest len
               | Inr (Some parsed) \<Rightarrow> readHeaders cap rest (Some parsed))"
  by pat_completeness auto

termination readHeaders
  by (relation "measure (\<lambda>(cap, input, len). length input)") (auto simp: ReadSlice_def Let_def split: if_splits)

declare readHeaders.simps [simp del]

definition ReadMessage :: "nat \<Rightarrow> bytes \<Rightarrow> (rpc_error + bytes) \<times> bytes" where
  "ReadMessage cap input =
     (case readHeaders cap input None of
        (Inl err, rest) \<Rightarrow> (Inl err, rest)
      | (Inr len, rest) \<Rightarrow>
          (case len of
             None \<Rightarrow> (Inl MissingContentLength, rest)
           | Some n \<Rightarrow>
               if n = 0 then (Inl MissingContentLength, rest)
               else if maxMessageSize < n then (Inl (MessageTooLarge n), rest)
               else ReadFull n rest))"

section \<open>Writing\<close>

fun decDigits :: "nat \<Rightarrow> bytes" where
  "decDigits n = (if n < 10 then [char_of (byte_val CHR ''0'' + n)]
                  else decDigits (n div 10) @ [char_of (byte_val CHR ''0'' + n mod 10)])"

declare decDigits.simps [simp del]

text \<open>\<open>Content-Length: %d\<close> and the empty line, and the body.\<close>

definition frame :: "bytes \<Rightarrow> bytes" where
  "frame body = ''Content-Length: '' @ decDigits (length body) @ [CR, LF, CR, LF] @ body"

text \<open>The bytes the writer took, and its error.\<close>

definition writeMessageRaw ::
  "('m \<Rightarrow> bytes option) \<Rightarrow> (bytes \<Rightarrow> nat \<times> bool) \<Rightarrow> 'm \<Rightarrow> (rpc_error + unit) \<times> bytes" where
  "writeMessageRaw marshal writer msg =
     (case marshal msg of
        None \<Rightarrow> (Inl ErrMarshal, [])
      | Some body \<Rightarrow>
          let f = frame body
          in case writer f of
               (n, failed) \<Rightarrow>
                 if failed then (Inl ErrWrite, take n f)
                 else if n \<noteq> length f then (Inl ErrShortWrite, take n f)
                 else (Inr (), f))"

section \<open>Numbers and white space\<close>

lemma decDigits_ne [simp]: "decDigits n \<noteq> []"
  by (subst decDigits.simps) simp

lemma digit_of: "d < 10 \<Longrightarrow> isDecDigit (char_of (byte_val CHR ''0'' + d)) \<and> byte_val (char_of (byte_val CHR ''0'' + d)) = byte_val CHR ''0'' + d"
  by (simp add: isDecDigit_def)

lemma decValue_snoc: "decValue (bs @ [b]) = 10 * decValue bs + (byte_val b - byte_val CHR ''0'')"
  by (simp add: decValue_def)

lemma decDigits_value: "decValue (decDigits n) = n \<and> list_all isDecDigit (decDigits n)"
proof (induction n rule: decDigits.induct)
  case (1 n)
  show ?case
  proof (cases "n < 10")
    case True
    then show ?thesis using digit_of [OF True] by (simp add: decDigits.simps decValue_def)
  next
    case False
    have "n mod 10 < 10" by simp
    moreover have "decDigits n = decDigits (n div 10) @ [char_of (byte_val CHR ''0'' + n mod 10)]"
      using False by (subst decDigits.simps) simp
    ultimately show ?thesis using digit_of [of "n mod 10"] 1 [OF False] by (simp add: decValue_snoc)
  qed
qed

lemma length_decDigits: "n < 10 ^ Suc k \<Longrightarrow> length (decDigits n) \<le> Suc k"
proof (induction k arbitrary: n)
  case (Suc k)
  then have "n div 10 < 10 ^ Suc k" by (simp add: less_mult_imp_div_less)
  from Suc.IH [OF this] show ?case by (subst decDigits.simps) simp
qed (simp add: decDigits.simps)

lemma isDecDigit_other: "isDecDigit b \<Longrightarrow> b \<noteq> LF \<and> b \<noteq> CR \<and> b \<noteq> CHR '':''"
  by (auto simp: isDecDigit_def LF_def CR_def)

section \<open>Round trip\<close>

lemma ReadSlice_line:
  assumes "LF \<notin> set line" "length line < max 16 cap"
  shows "ReadSlice cap (line @ LF # rest) = (Inr (line @ [LF]), rest)"
proof -
  have "takeWhile (\<lambda>b. b \<noteq> LF) (line @ LF # rest) = line" using assms(1) by (auto simp: takeWhile_append)
  with assms(2) show ?thesis by (simp add: ReadSlice_def)
qed

lemma byte_ends [simp]: "LF \<noteq> CR" "CR \<noteq> LF"
  by (simp_all add: LF_def CR_def)

lemma byte_val_LF: "byte_val LF = 10"
  by (simp add: LF_def)

lemma TrimSuffix_same: "TrimSuffix (bs @ suff) suff = bs"
  by (simp add: TrimSuffix_def suffix_def)

lemma headerLine_length:
  assumes "n < 2 ^ 64"
  shows "headerLine (''Content-Length: '' @ decDigits n @ [CR, LF]) = Inr (Some n)"
proof -
  let ?ds = "decDigits n"
  have digits: "list_all isDecDigit ?ds" and "decValue ?ds = n" using decDigits_value by auto
  have "isDecDigit (hd ?ds)" "isDecDigit (last ?ds)" using digits by (auto simp: list_all_iff)
  then have val: "TrimSpace (CHR '' '' # ?ds) = ?ds"
    by (intro TrimSpace_stays(2)) (auto simp: isDecDigit_def)
  have key: "TrimSpace ''Content-Length'' = ''Content-Length''" by (intro TrimSpace_stays(1)) simp_all
  have t1: "TrimSuffix (''Content-Length: '' @ ?ds @ [CR, LF]) [LF] = ''Content-Length: '' @ ?ds @ [CR]"
    using TrimSuffix_same [of "''Content-Length: '' @ ?ds @ [CR]" "[LF]"] by simp
  have t2: "TrimSuffix (''Content-Length: '' @ ?ds @ [CR]) [CR] = ''Content-Length: '' @ ?ds"
    using TrimSuffix_same [of "''Content-Length: '' @ ?ds" "[CR]"] by simp
  have tw: "takeWhile (\<lambda>b. b \<noteq> CHR '':'') (''Content-Length: '' @ ?ds) = ''Content-Length''" by simp
  show ?thesis
    unfolding headerLine_def Let_def t1 t2 tw
    using val key digits \<open>decValue ?ds = n\<close> assms by (simp add: EqualFold_def ParseUint_def)
qed

lemma readHeaders_field:
  "ReadSlice cap input = (Inr line, rest) \<Longrightarrow> line \<noteq> [CR, LF] \<Longrightarrow> line \<noteq> [LF] \<Longrightarrow> headerLine line = Inr (Some n) \<Longrightarrow>
   readHeaders cap input len = readHeaders cap rest (Some n)"
  by (subst readHeaders.simps) simp

lemma readHeaders_frame:
  assumes "length body < 10 ^ 9" "64 \<le> cap"
  shows "readHeaders cap (frame body @ rest) len = (Inr (Some (length body)), body @ rest)"
proof -
  let ?n = "length body"
  let ?line = "''Content-Length: '' @ decDigits ?n @ [CR]"
  have short: "length (decDigits ?n) \<le> 9" using length_decDigits [of ?n 8] assms(1) by simp
  have "LF \<notin> set (decDigits ?n)" using decDigits_value [of ?n] isDecDigit_other by (auto simp: list_all_iff)
  moreover have "list_all (\<lambda>b. byte_val b \<noteq> 10) ''Content-Length: ''" by simp
  then have "LF \<notin> set ''Content-Length: ''" unfolding list_all_iff by (metis byte_val_LF)
  ultimately have l: "LF \<notin> set ?line" by simp
  have frame: "frame body @ rest = ?line @ LF # [CR] @ LF # body @ rest" by (simp add: frame_def)
  have r1: "ReadSlice cap (frame body @ rest) = (Inr (?line @ [LF]), [CR] @ LF # body @ rest)"
    unfolding frame by (rule ReadSlice_line [OF l]) (use short assms(2) in simp)
  have r2: "ReadSlice cap ([CR] @ LF # body @ rest) = (Inr ([CR] @ [LF]), body @ rest)"
    by (rule ReadSlice_line) simp_all
  have h: "headerLine (?line @ [LF]) = Inr (Some ?n)"
    using headerLine_length [of ?n] assms(1) by (simp add: append_assoc)
  have "readHeaders cap (frame body @ rest) len = readHeaders cap ([CR] @ LF # body @ rest) (Some ?n)"
    by (rule readHeaders_field [OF r1 _ _ h]) simp_all
  also have "\<dots> = (Inr (Some ?n), body @ rest)" by (subst readHeaders.simps) (simp only: r2, simp)
  finally show ?thesis .
qed

lemma ReadMessage_frame:
  assumes "0 < length body" "length body \<le> maxMessageSize" "64 \<le> cap"
  shows "ReadMessage cap (frame body @ rest) = (Inr body, rest)"
proof -
  have "length body < 10 ^ 9" using assms(2) by (simp add: maxMessageSize_def)
  with readHeaders_frame [OF this assms(3), of rest None] assms show ?thesis
    by (simp add: ReadMessage_def ReadFull_def)
qed

text \<open>
  C14. What is written can be read: when \<open>writeMessageRaw\<close> succeeds, for a message whose JSON has between
  one byte and the limit of 100 MiB, \<open>ReadMessage\<close> returns exactly that JSON from the bytes the writer
  took, and leaves everything after them to the next read, whatever follows.
\<close>

theorem writeMessage_ReadMessage:
  assumes "writeMessageRaw marshal writer msg = (Inr (), out)" and "marshal msg = Some body"
    and "0 < length body" and "length body \<le> maxMessageSize" and "64 \<le> cap"
  shows "ReadMessage cap (out @ rest) = (Inr body, rest)"
proof -
  have "out = frame body"
    using assms(1,2) by (auto simp: writeMessageRaw_def Let_def split: prod.splits if_splits)
  with ReadMessage_frame [OF assms(3-5)] show ?thesis by simp
qed

theorem writeMessage_ReadMessage_witness:
  "ReadMessage 4096 (snd (writeMessageRaw Some (\<lambda>f. (length f, False)) ''{}'') @ ''xyz'') = (Inr ''{}'', ''xyz'')"
proof -
  have "writeMessageRaw Some (\<lambda>f. (length f, False)) ''{}'' = (Inr (), snd (writeMessageRaw Some (\<lambda>f. (length f, False)) ''{}''))"
    by (simp add: writeMessageRaw_def Let_def)
  from writeMessage_ReadMessage [OF this] show ?thesis by (simp add: maxMessageSize_def)
qed

section \<open>Consumption\<close>

lemma ReadSlice_progress:
  assumes "ReadSlice cap input = (r, rest)"
  shows "suffix rest input" "input \<noteq> [] \<Longrightarrow> length rest < length input" "input = [] \<Longrightarrow> r = Inl ErrEOF"
  using assms by (auto simp: ReadSlice_def Let_def suffix_drop split: if_splits)

lemma readHeaders_progress:
  assumes "readHeaders cap input len = (r, rest)"
  shows "suffix rest input \<and> (input \<noteq> [] \<longrightarrow> length rest < length input) \<and> (input = [] \<longrightarrow> r = Inl ErrEOF)"
  using assms
proof (induction cap input len rule: readHeaders.induct)
  case (1 cap input len)
  obtain a b where ab: "ReadSlice cap input = (a, b)" by force
  note p = ReadSlice_progress [OF ab]
  have go: ?case if "readHeaders cap b len' = (r, rest)"
    "suffix rest b \<and> (b \<noteq> [] \<longrightarrow> length rest < length b) \<and> (b = [] \<longrightarrow> r = Inl ErrEOF)" "a = Inr line" for len' line
  proof -
    have "input \<noteq> []" using p(3) that(3) by auto
    moreover have "length rest \<le> length b" using that(2) suffix_length_le by blast
    ultimately show ?thesis using that(2) p(1,2) suffix_order.order_trans by fastforce
  qed
  show ?case
  proof (cases a)
    case (Inl err)
    then show ?thesis using 1(3) ab p by (auto simp: readHeaders.simps [of cap input])
  next
    case (Inr line)
    then have "input \<noteq> []" using p(3) by auto
    then show ?thesis
      using 1(3) 1(1,2) [OF ab [symmetric] Inr] ab Inr p go
      by (auto simp: readHeaders.simps [of cap input] split: if_splits sum.splits option.splits)
  qed
qed

lemma ReadFull_progress:
  "ReadFull n input = (r, rest) \<Longrightarrow> suffix rest input \<and> (\<forall>content. r = Inr content \<longrightarrow> length content = n \<and> content @ rest = input)"
  by (auto simp: ReadFull_def suffix_drop split: if_splits)

lemma ReadMessage_progress:
  assumes "ReadMessage cap input = (r, rest)"
  shows "suffix rest input" "input \<noteq> [] \<Longrightarrow> length rest < length input" "input = [] \<Longrightarrow> r = Inl ErrEOF"
    "r = Inr content \<Longrightarrow> 0 < length content \<and> length content \<le> maxMessageSize \<and> suffix (content @ rest) input"
proof -
  obtain h b where hb: "readHeaders cap input None = (h, b)" by force
  note p = readHeaders_progress [OF hb]
  consider (stop) e where "h = Inl e" "r = Inl e" "rest = b" | (refuse) n where "h = Inr n" "rest = b" "\<exists>e. r = Inl e"
    | (body) n where "h = Inr (Some n)" "0 < n" "n \<le> maxMessageSize" "ReadFull n b = (r, rest)"
    using assms hb unfolding ReadMessage_def by (auto split: sum.splits option.splits if_splits)
  then have all: "suffix rest input \<and> (input \<noteq> [] \<longrightarrow> length rest < length input) \<and> (input = [] \<longrightarrow> r = Inl ErrEOF) \<and>
      (\<forall>content. r = Inr content \<longrightarrow> 0 < length content \<and> length content \<le> maxMessageSize \<and> suffix (content @ rest) input)"
  proof cases
    case (stop e)
    with p show ?thesis by auto
  next
    case (refuse n)
    with p show ?thesis by auto
  next
    case (body n)
    note f = ReadFull_progress [OF body(4)]
    then have "suffix rest input" "length rest \<le> length b" using p suffix_order.order_trans suffix_length_le by blast+
    with f p body show ?thesis by fastforce
  qed
  then show "suffix rest input" "input \<noteq> [] \<Longrightarrow> length rest < length input" "input = [] \<Longrightarrow> r = Inl ErrEOF"
    "r = Inr content \<Longrightarrow> 0 < length content \<and> length content \<le> maxMessageSize \<and> suffix (content @ rest) input"
    by blast+
qed

text \<open>
  C15. What \<open>ReadMessage\<close> takes from its input, whatever the input and the size of the buffer: it never
  skips or repeats bytes (what is left is a suffix of the input); it consumes at least one byte unless the
  input is at its end, which it reports as the end of the input; and a message it delivers has
  between one byte and the limit, and stands in the input right before what is left.
\<close>

theorem ReadMessage_consumes:
  assumes "ReadMessage cap input = (r, rest)"
  shows "suffix rest input \<and> (input \<noteq> [] \<longrightarrow> length rest < length input) \<and> (input = [] \<longrightarrow> r = Inl ErrEOF) \<and>
    (\<forall>content. r = Inr content \<longrightarrow> 0 < length content \<and> length content \<le> maxMessageSize \<and> suffix (content @ rest) input)"
  using ReadMessage_progress [OF assms] by blast

theorem ReadMessage_consumes_witness:
  "suffix (snd (ReadMessage 16 ''abc'')) ''abc'' \<and> length (snd (ReadMessage 16 ''abc'')) < 3"
  using ReadMessage_consumes [of 16 "''abc''" "fst (ReadMessage 16 ''abc'')" "snd (ReadMessage 16 ''abc'')"] by simp

end
