(* ===== verification/Server_Loop.thy ===== *)
theory Server_Loop
  imports Rpc
begin

text \<open>
  The server's main loop (\<open>src/lsp/server.go\<close>, \<open>src/lsp/messages.go\<close>): \<open>Start\<close> reads messages to the end
  of the input, decodes them, answers the malformed and the cancelled ones and dispatches the
  others by method.

  \<^item> \<open>decode\<close> and \<open>cancelID\<close> stand for \<open>encoding/json\<close>: the fields of a request, and the identifier in the
    parameters of \<open>$/cancelRequest\<close>.
  \<^item> \<open>feature\<close> stands for the handlers of the methods in \<open>featureMethods\<close>: the responses a handler
    writes, the server's other state, and whether it returned or panicked. The handlers of
    \<open>shutdown\<close>, \<open>exit\<close> and \<open>$/cancelRequest\<close> are modelled.
  \<^item> The output is the list of responses in the order they are written; telemetry and the log are left
    out. \<open>svExit\<close> is the code of \<open>os.Exit\<close>.
\<close>

section \<open>Messages\<close>

record WireRequest =
  wRPC :: string
  wMethod :: string
  wParams :: bytes
  wID :: bytes

record Request =
  rqRPC :: string
  rqMethod :: string
  rqParams :: bytes
  rqID :: "bytes option"

text \<open>The identifier is kept as its JSON text.\<close>

definition UnmarshalJSON :: "(bytes \<Rightarrow> WireRequest option) \<Rightarrow> bytes \<Rightarrow> Request option" where
  "UnmarshalJSON decode data =
     map_option (\<lambda>wire. \<lparr>rqRPC = wRPC wire, rqMethod = wMethod wire, rqParams = wParams wire,
        rqID = (if 0 < length (wID wire) \<and> wID wire \<noteq> ''null'' then Some (wID wire) else None)\<rparr>) (decode data)"

record ResponseError =
  reMessage :: string
  reCode :: int

record 'r Response =
  rpResult :: "'r option"
  rpError :: "ResponseError option"
  rpID :: "bytes option"

definition errorResponse :: "bytes option \<Rightarrow> int \<Rightarrow> string \<Rightarrow> 'r Response" where
  "errorResponse i code message = \<lparr>rpResult = None, rpError = Some \<lparr>reMessage = message, reCode = code\<rparr>, rpID = i\<rparr>"

section \<open>State\<close>

record ('r, 's) Server =
  svCanceled :: "bytes set"
  svOut :: "'r Response list"
  svExit :: "int option"
  svData :: 's

datatype ('r, 's) outcome =
    Returns "'r Response list" 's
  | Panics "'r Response list" 's

definition writeResponses :: "'r Response list \<Rightarrow> ('r, 's) Server \<Rightarrow> ('r, 's) Server" where
  "writeResponses rs sv = sv\<lparr>svOut := svOut sv @ rs\<rparr>"

section \<open>Cancellation\<close>

definition handleCancelRequest :: "(bytes \<Rightarrow> bytes option) \<Rightarrow> Request \<Rightarrow> ('r, 's) Server \<Rightarrow> ('r, 's) Server" where
  "handleCancelRequest cancelID req sv =
     (case cancelID (rqParams req) of
        None \<Rightarrow> sv
      | Some i \<Rightarrow> if length i = 0 \<or> i = ''null'' then sv else sv\<lparr>svCanceled := insert i (svCanceled sv)\<rparr>)"

definition takeCanceledRequest :: "bytes \<Rightarrow> ('r, 's) Server \<Rightarrow> bool \<times> ('r, 's) Server" where
  "takeCanceledRequest key sv =
     (if length key = 0 then (False, sv)
      else (key \<in> svCanceled sv, sv\<lparr>svCanceled := svCanceled sv - {key}\<rparr>))"

section \<open>Dispatch\<close>

definition featureMethods :: "string list" where
  "featureMethods =
     [''initialize'', ''initialized'',
      ''workspace/didChangeConfiguration'', ''workspace/didChangeWatchedFiles'',
      ''workspace/didChangeWorkspaceFolders'', ''workspace/willRenameFiles'',
      ''textDocument/didOpen'', ''textDocument/didChange'', ''textDocument/didClose'',
      ''lugo/reindex'', ''lugo/debugExport'',
      ''textDocument/definition'', ''textDocument/typeDefinition'', ''textDocument/implementation'',
      ''textDocument/references'', ''textDocument/documentSymbol'', ''workspace/symbol'',
      ''textDocument/codeAction'', ''codeAction/resolve'', ''workspace/executeCommand'',
      ''textDocument/prepareRename'', ''textDocument/rename'', ''textDocument/linkedEditingRange'',
      ''textDocument/hover'', ''textDocument/completion'', ''textDocument/signatureHelp'',
      ''textDocument/inlayHint'', ''textDocument/documentHighlight'', ''textDocument/semanticTokens/full'',
      ''textDocument/formatting'', ''textDocument/rangeFormatting'', ''textDocument/foldingRange'',
      ''textDocument/selectionRange'', ''textDocument/codeLens'', ''codeLens/resolve'',
      ''completionItem/resolve'', ''inlayHint/resolve'', ''textDocument/semanticTokens/range'',
      ''textDocument/documentLink'', ''documentLink/resolve'', ''textDocument/prepareCallHierarchy'',
      ''callHierarchy/incomingCalls'', ''callHierarchy/outgoingCalls'']"

definition handleShutdown :: "Request \<Rightarrow> ('r, 's) Server \<Rightarrow> ('r, 's) Server" where
  "handleShutdown req = writeResponses [\<lparr>rpResult = None, rpError = None, rpID = rqID req\<rparr>]"

definition handleExit :: "('r, 's) Server \<Rightarrow> ('r, 's) Server" where
  "handleExit sv = sv\<lparr>svExit := Some 0\<rparr>"

text \<open>The deferred recovery: an embedded MCP request survives a panic, the server otherwise exits.\<close>

definition recoverPanic :: "bool \<Rightarrow> Request \<Rightarrow> ('r, 's) Server \<Rightarrow> ('r, 's) Server" where
  "recoverPanic mcp req sv =
     (let sv = (if rqID req \<noteq> None then writeResponses [errorResponse (rqID req) (-32603) ''internal error''] sv else sv)
      in if mcp then sv else sv\<lparr>svExit := Some 1\<rparr>)"

definition handleMessageContext ::
  "bool \<Rightarrow> (bytes \<Rightarrow> bytes option) \<Rightarrow> (Request \<Rightarrow> 's \<Rightarrow> ('r, 's) outcome) \<Rightarrow> Request \<Rightarrow> ('r, 's) Server \<Rightarrow> ('r, 's) Server" where
  "handleMessageContext mcp cancelID feature req sv =
     (if rqMethod req = ''shutdown'' then handleShutdown req sv
      else if rqMethod req = ''exit'' then handleExit sv
      else if rqMethod req = ''$/cancelRequest'' then handleCancelRequest cancelID req sv
      else if rqMethod req \<in> set featureMethods
      then (case feature req (svData sv) of
              Returns rs s \<Rightarrow> writeResponses rs (sv\<lparr>svData := s\<rparr>)
            | Panics rs s \<Rightarrow> recoverPanic mcp req (writeResponses rs (sv\<lparr>svData := s\<rparr>)))
      else if rqID req \<noteq> None
      then writeResponses [errorResponse (rqID req) (-32601) (''method not found: '' @ rqMethod req)] sv
      else sv)"

text \<open>The body of the loop of \<open>Start\<close>, for a message that was read.\<close>

definition processMessage ::
  "(bytes \<Rightarrow> WireRequest option) \<Rightarrow> (bytes \<Rightarrow> bytes option) \<Rightarrow> (Request \<Rightarrow> 's \<Rightarrow> ('r, 's) outcome) \<Rightarrow>
   bytes \<Rightarrow> ('r, 's) Server \<Rightarrow> ('r, 's) Server" where
  "processMessage decode cancelID feature msg sv =
     (case UnmarshalJSON decode msg of
        None \<Rightarrow> writeResponses [errorResponse None (-32700) ''parse error''] sv
      | Some req \<Rightarrow>
          if rqRPC req \<noteq> ''2.0'' \<or> rqMethod req = ''''
          then (if rqID req \<noteq> None
                then writeResponses [errorResponse (rqID req) (-32600) ''invalid request''] sv else sv)
          else (case (if rqMethod req \<noteq> ''$/cancelRequest'' \<and> rqID req \<noteq> None
                      then takeCanceledRequest (the (rqID req)) sv else (False, sv)) of
                  (canceled, sv) \<Rightarrow>
                    if canceled
                    then writeResponses [errorResponse (rqID req) (-32800) ''request cancelled''] sv
                    else handleMessageContext False cancelID feature req sv))"

text \<open>\<open>Start\<close> from its loop on; a read error other than the end of the input is logged and skipped.\<close>

function Start ::
  "nat \<Rightarrow> (bytes \<Rightarrow> WireRequest option) \<Rightarrow> (bytes \<Rightarrow> bytes option) \<Rightarrow> (Request \<Rightarrow> 's \<Rightarrow> ('r, 's) outcome) \<Rightarrow>
   bytes \<Rightarrow> ('r, 's) Server \<Rightarrow> ('r, 's) Server" where
  "Start cap decode cancelID feature input sv =
     (case ReadMessage cap input of
        (Inl err, rest) \<Rightarrow> if err = ErrEOF then sv else Start cap decode cancelID feature rest sv
      | (Inr msg, rest) \<Rightarrow>
          let sv = processMessage decode cancelID feature msg sv
          in if svExit sv \<noteq> None then sv else Start cap decode cancelID feature rest sv)"
  by pat_completeness auto

termination Start
proof (relation "measure (\<lambda>(cap, decode, cancelID, feature, input, sv). length input)", goal_cases)
  case (2 cap decode cancelID feature input sv x rest err)
  then have r: "ReadMessage cap input = (Inl err, rest)" by simp
  with ReadMessage_progress(2,3) [OF r] 2 show ?case by auto
next
  case (3 cap decode cancelID feature input sv x rest msg sv')
  then have r: "ReadMessage cap input = (Inr msg, rest)" by simp
  with ReadMessage_progress(2,3) [OF r] show ?case by auto
qed simp

declare Start.simps [simp del]

section \<open>Every message is processed, in order\<close>

text \<open>The messages of a client, one after the other, until one of them ends the server.\<close>

fun deliver :: "('m \<Rightarrow> ('r, 's) Server \<Rightarrow> ('r, 's) Server) \<Rightarrow> 'm list \<Rightarrow> ('r, 's) Server \<Rightarrow> ('r, 's) Server" where
  "deliver process [] sv = sv"
| "deliver process (m # ms) sv =
     (let sv = process m sv in if svExit sv \<noteq> None then sv else deliver process ms sv)"

text \<open>
  C11. The server answers everything it is sent: for a client that writes any sequence of
  frames, with bodies of between one byte and the limit, and then closes the stream, \<open>Start\<close>
  returns, and it has processed each message once and in the order sent, up to the first that ends the server
  (\<open>exit\<close>, or a panic of a handler).
\<close>

theorem Start_delivers:
  assumes "\<forall>body \<in> set bodies. 0 < length body \<and> length body \<le> maxMessageSize" and "64 \<le> cap"
  shows "Start cap decode cancelID feature (concat (map frame bodies)) sv =
    deliver (processMessage decode cancelID feature) bodies sv"
  using assms(1)
proof (induction bodies arbitrary: sv)
  case Nil
  obtain r rest where r: "ReadMessage cap [] = (r, rest)" by force
  with ReadMessage_progress(3) [OF r] show ?case by (simp add: Start.simps)
next
  case (Cons body bodies)
  have "ReadMessage cap (frame body @ concat (map frame bodies)) = (Inr body, concat (map frame bodies))"
    by (rule ReadMessage_frame) (use Cons.prems assms(2) in auto)
  with Cons show ?case by (subst Start.simps) (simp add: Let_def)
qed

text \<open>A server that knows no feature, and a client whose messages are all requests of one method.\<close>

definition idleServer :: "(unit, unit) Server" where
  "idleServer = \<lparr>svCanceled = {}, svOut = [], svExit = None, svData = ()\<rparr>"

definition sampleDecode :: "string \<Rightarrow> bytes \<Rightarrow> WireRequest option" where
  "sampleDecode meth body = Some \<lparr>wRPC = ''2.0'', wMethod = meth, wParams = body, wID = body\<rparr>"

definition noFeature :: "Request \<Rightarrow> unit \<Rightarrow> (unit, unit) outcome" where
  "noFeature req s = Returns [] ()"

theorem Start_delivers_witness:
  "map rpID (svOut (Start 4096 (sampleDecode ''shutdown'') Some noFeature (concat (map frame [''1'', ''2''])) idleServer)) = [Some ''1'', Some ''2'']"
  using Start_delivers [of "[''1'', ''2'']" 4096 "sampleDecode ''shutdown''" Some noFeature idleServer]
  by (simp add: maxMessageSize_def processMessage_def UnmarshalJSON_def sampleDecode_def takeCanceledRequest_def
      handleMessageContext_def handleShutdown_def writeResponses_def idleServer_def)

section \<open>Responses\<close>

lemma writeResponses_simps [simp]:
  "svOut (writeResponses rs sv) = svOut sv @ rs" "svCanceled (writeResponses rs sv) = svCanceled sv"
  "svExit (writeResponses rs sv) = svExit sv" "svData (writeResponses rs sv) = svData sv"
  by (simp_all add: writeResponses_def)

lemma rpID_error [simp]: "rpID (errorResponse i c m) = i" "rpError (errorResponse i c m) = Some \<lparr>reMessage = m, reCode = c\<rparr>"
  by (simp_all add: errorResponse_def)

lemma takeCanceled_simps [simp]:
  "svOut (snd (takeCanceledRequest i sv)) = svOut sv" "svExit (snd (takeCanceledRequest i sv)) = svExit sv"
  "svData (snd (takeCanceledRequest i sv)) = svData sv"
  by (simp_all add: takeCanceledRequest_def)

lemma UnmarshalJSON_id: "UnmarshalJSON decode msg = Some req \<Longrightarrow> rqID req \<noteq> Some []"
  by (auto simp: UnmarshalJSON_def split: if_splits)

text \<open>The request is valid JSON-RPC.\<close>

definition wf_request :: "Request \<Rightarrow> bool" where
  "wf_request req \<longleftrightarrow> rqRPC req = ''2.0'' \<and> rqMethod req \<noteq> ''''"

lemma processMessage_request:
  assumes "UnmarshalJSON decode msg = Some req" "wf_request req" "rqMethod req \<noteq> ''$/cancelRequest''" "rqID req = Some i"
  shows "processMessage decode cancelID feature msg sv =
    (let sv' = sv\<lparr>svCanceled := svCanceled sv - {i}\<rparr>
     in if i \<in> svCanceled sv then writeResponses [errorResponse (Some i) (-32800) ''request cancelled''] sv'
        else handleMessageContext False cancelID feature req sv')"
  using assms UnmarshalJSON_id [OF assms(1)]
  by (simp add: processMessage_def wf_request_def takeCanceledRequest_def Let_def)

lemma cancel_not_feature: "''$/cancelRequest'' \<notin> set featureMethods" "''shutdown'' \<notin> set featureMethods" "''exit'' \<notin> set featureMethods"
  by (simp_all add: featureMethods_def)

text \<open>A request that was cancelled before it was read; \<open>$/cancelRequest\<close> itself cannot be cancelled.\<close>

definition cancelled :: "Request \<Rightarrow> ('r, 's) Server \<Rightarrow> bool" where
  "cancelled req sv \<longleftrightarrow>
     (case rqID req of None \<Rightarrow> False | Some i \<Rightarrow> rqMethod req \<noteq> ''$/cancelRequest'' \<and> i \<in> svCanceled sv)"

definition errorCode :: "'r Response \<Rightarrow> int option" where
  "errorCode r = map_option reCode (rpError r)"

lemma processMessage_uncancelled:
  assumes "UnmarshalJSON decode msg = Some req" "wf_request req" "\<not> cancelled req sv"
  shows "\<exists>sv'. processMessage decode cancelID feature msg sv = handleMessageContext False cancelID feature req sv' \<and>
     svOut sv' = svOut sv \<and> svExit sv' = svExit sv \<and> svData sv' = svData sv"
proof (cases "rqMethod req \<noteq> ''$/cancelRequest'' \<and> rqID req \<noteq> None")
  case True
  then obtain i where i: "rqID req = Some i" by blast
  with True assms(3) have "i \<notin> svCanceled sv" by (simp add: cancelled_def)
  with processMessage_request [OF assms(1,2) _ i, of cancelID feature sv] True show ?thesis
    by (intro exI [of _ "sv\<lparr>svCanceled := svCanceled sv - {i}\<rparr>"]) simp
next
  case False
  with assms show ?thesis by (intro exI [of _ sv]) (auto simp: processMessage_def wf_request_def)
qed

lemma processMessage_cancelled:
  assumes "UnmarshalJSON decode msg = Some req" "wf_request req" "cancelled req sv"
  shows "\<exists>i. rqID req = Some i \<and> svExit (processMessage decode cancelID feature msg sv) = svExit sv \<and>
     svOut (processMessage decode cancelID feature msg sv) = svOut sv @ [errorResponse (Some i) (-32800) ''request cancelled'']"
proof -
  obtain i where "rqID req = Some i" "rqMethod req \<noteq> ''$/cancelRequest''" "i \<in> svCanceled sv"
    using assms(3) by (auto simp: cancelled_def split: option.splits)
  with processMessage_request [OF assms(1,2), of i cancelID feature sv] show ?thesis by simp
qed

text \<open>
  C12. What every message is answered with. One that cannot be decoded gets one error without an
  identifier. Any other message, unless it goes to a feature handler, gets exactly one response with
  its identifier if it has one, and none otherwise, with two exceptions: a well-formed \<open>shutdown\<close> is
  answered even without an identifier, and a well-formed \<open>$/cancelRequest\<close> and a well-formed \<open>exit\<close> that was
  not cancelled are not answered.
  The response is an error whose code says why: malformed, cancelled or of an unknown method; a
  \<open>shutdown\<close> that was not cancelled is no error. A well-formed message of a feature method that was not
  cancelled gets what its handler writes, and when the handler panics, one more error if
  it has an identifier, and the server exits with code 1.
\<close>

theorem processMessage_answers:
  "(UnmarshalJSON decode msg = None \<longrightarrow>
      (\<exists>r. svOut (processMessage decode cancelID feature msg sv) = svOut sv @ [r] \<and> rpID r = None \<and> errorCode r = Some (-32700))) \<and>
   (\<forall>req. UnmarshalJSON decode msg = Some req \<longrightarrow>
      (if wf_request req \<and> \<not> cancelled req sv \<and> rqMethod req \<in> set featureMethods
       then case feature req (svData sv) of
              Returns rs s \<Rightarrow>
                svOut (processMessage decode cancelID feature msg sv) = svOut sv @ rs \<and>
                svExit (processMessage decode cancelID feature msg sv) = svExit sv
            | Panics rs s \<Rightarrow>
                svExit (processMessage decode cancelID feature msg sv) = Some 1 \<and>
                (case rqID req of
                   None \<Rightarrow> svOut (processMessage decode cancelID feature msg sv) = svOut sv @ rs
                 | Some i \<Rightarrow> \<exists>r. svOut (processMessage decode cancelID feature msg sv) = svOut sv @ rs @ [r] \<and>
                     rpID r = Some i \<and> errorCode r = Some (-32603))
       else if wf_request req \<and> (rqMethod req = ''$/cancelRequest'' \<or> rqMethod req = ''exit'' \<and> \<not> cancelled req sv) \<or>
               rqID req = None \<and> \<not> (wf_request req \<and> rqMethod req = ''shutdown'')
       then svOut (processMessage decode cancelID feature msg sv) = svOut sv
       else \<exists>r. svOut (processMessage decode cancelID feature msg sv) = svOut sv @ [r] \<and> rpID r = rqID req \<and>
              errorCode r = (if \<not> wf_request req then Some (-32600) else if cancelled req sv then Some (-32800)
                             else if rqMethod req = ''shutdown'' then None else Some (-32601))))"
    (is "_ \<and> (\<forall>req. _ req \<longrightarrow> ?P req)")
proof (intro conjI allI impI)
  assume "UnmarshalJSON decode msg = None"
  then show "\<exists>r. svOut (processMessage decode cancelID feature msg sv) = svOut sv @ [r] \<and> rpID r = None \<and> errorCode r = Some (-32700)"
    by (simp add: processMessage_def errorCode_def)
next
  fix req
  assume u: "UnmarshalJSON decode msg = Some req"
  consider (malformed) "\<not> wf_request req" | (taken) "wf_request req" "cancelled req sv" | (run) "wf_request req" "\<not> cancelled req sv"
    by blast
  then show "?P req"
  proof cases
    case malformed
    with u show ?thesis by (auto simp: processMessage_def wf_request_def errorCode_def)
  next
    case taken
    then have "rqMethod req \<noteq> ''$/cancelRequest''" by (auto simp: cancelled_def split: option.splits)
    with taken processMessage_cancelled [OF u taken, of cancelID feature] show ?thesis by (auto simp: errorCode_def)
  next
    case run
    obtain sv' where "processMessage decode cancelID feature msg sv = handleMessageContext False cancelID feature req sv'"
      "svOut sv' = svOut sv" "svExit sv' = svExit sv" "svData sv' = svData sv"
      using processMessage_uncancelled [OF u run] by blast
    with run cancel_not_feature show ?thesis
      by (auto simp: handleMessageContext_def handleShutdown_def handleExit_def handleCancelRequest_def recoverPanic_def
          Let_def errorCode_def split: outcome.split option.split)
  qed
qed

text \<open>An unknown method, a cancelled request, and a handler that panics after one response.\<close>

definition panickyFeature :: "Request \<Rightarrow> unit \<Rightarrow> (unit, unit) outcome" where
  "panickyFeature req s = Panics [\<lparr>rpResult = None, rpError = None, rpID = None\<rparr>] ()"

theorem processMessage_answers_witness:
  "(\<exists>r. svOut (processMessage (sampleDecode ''nope'') Some noFeature ''7'' idleServer) = [r] \<and> rpID r = Some ''7'' \<and> errorCode r = Some (-32601)) \<and>
   (\<exists>r. svOut (processMessage (sampleDecode ''exit'') Some noFeature ''7'' (idleServer\<lparr>svCanceled := {''7''}\<rparr>)) = [r] \<and>
      rpID r = Some ''7'' \<and> errorCode r = Some (-32800)) \<and>
   (\<exists>r. svOut (processMessage (sampleDecode ''textDocument/hover'') Some panickyFeature ''7'' idleServer) =
      [\<lparr>rpResult = None, rpError = None, rpID = None\<rparr>, r] \<and> rpID r = Some ''7'' \<and> errorCode r = Some (-32603))"
proof -
  have u: "UnmarshalJSON (sampleDecode m) ''7'' = Some \<lparr>rqRPC = ''2.0'', rqMethod = m, rqParams = ''7'', rqID = Some ''7''\<rparr>" for m
    by (simp add: UnmarshalJSON_def sampleDecode_def)
  have "''nope'' \<notin> set featureMethods" "''textDocument/hover'' \<in> set featureMethods" by (simp_all add: featureMethods_def)
  with processMessage_answers [of "sampleDecode ''nope''" "''7''" Some noFeature idleServer]
    processMessage_answers [of "sampleDecode ''exit''" "''7''" Some noFeature "idleServer\<lparr>svCanceled := {''7''}\<rparr>"]
    processMessage_answers [of "sampleDecode ''textDocument/hover''" "''7''" Some panickyFeature idleServer]
    cancel_not_feature(3)
  show ?thesis by (simp add: u idleServer_def wf_request_def cancelled_def panickyFeature_def)
qed

text \<open>
  C13. Cancellation: after a \<open>$/cancelRequest\<close> for an identifier, the request with that identifier
  is answered with the error \<open>request cancelled\<close> and nothing else, its handler does not run (the server's
  other state is unchanged), and the mark is used up, so that the cancelled set is as before without it.
\<close>

theorem cancel_then_request:
  assumes "UnmarshalJSON decode c = Some creq" "wf_request creq" "rqMethod creq = ''$/cancelRequest''"
    and "cancelID (rqParams creq) = Some i" "i \<noteq> ''null''"
    and "UnmarshalJSON decode m = Some req" "wf_request req" "rqMethod req \<noteq> ''$/cancelRequest''" "rqID req = Some i"
  shows "processMessage decode cancelID feature m (processMessage decode cancelID feature c sv) =
    sv\<lparr>svCanceled := svCanceled sv - {i},
       svOut := svOut sv @ [errorResponse (Some i) (-32800) ''request cancelled'']\<rparr>"
proof -
  have "i \<noteq> []" using UnmarshalJSON_id [OF assms(6)] assms(9) by auto
  then have "processMessage decode cancelID feature c sv = sv\<lparr>svCanceled := insert i (svCanceled sv)\<rparr>"
    using assms(1-5) by (simp add: processMessage_def wf_request_def handleMessageContext_def handleCancelRequest_def)
  then show ?thesis
    using processMessage_request [OF assms(6-9), of cancelID feature "sv\<lparr>svCanceled := insert i (svCanceled sv)\<rparr>"]
    by (simp add: Let_def writeResponses_def)
qed

theorem cancel_then_request_witness:
  "svCanceled (processMessage (\<lambda>b. if b = ''c'' then sampleDecode ''$/cancelRequest'' ''7'' else sampleDecode ''shutdown'' b) Some noFeature ''7''
     (processMessage (\<lambda>b. if b = ''c'' then sampleDecode ''$/cancelRequest'' ''7'' else sampleDecode ''shutdown'' b) Some noFeature ''c'' idleServer)) = {}"
proof -
  let ?d = "\<lambda>b. if b = ''c'' then sampleDecode ''$/cancelRequest'' ''7'' else sampleDecode ''shutdown'' b"
  have "UnmarshalJSON ?d ''c'' = Some \<lparr>rqRPC = ''2.0'', rqMethod = ''$/cancelRequest'', rqParams = ''7'', rqID = Some ''7''\<rparr>"
    "UnmarshalJSON ?d ''7'' = Some \<lparr>rqRPC = ''2.0'', rqMethod = ''shutdown'', rqParams = ''7'', rqID = Some ''7''\<rparr>"
    by (simp_all add: UnmarshalJSON_def sampleDecode_def)
  from cancel_then_request [OF this(1) _ _ _ _ this(2), of Some "''7''" noFeature idleServer]
  show ?thesis by (simp add: wf_request_def idleServer_def)
qed

end
