(* ===== verification/Types.thy ===== *)
theory Types
  imports Prelude
begin

text \<open>
  Structural types (\<open>src/lsp/types_structural.go\<close>): the comparison of types that may share parts and
  contain cycles, and their union and intersection.

  \<^item> Types are graphs of pointers. A \<open>*StructuralType\<close> is an address, \<open>nil\<close> is \<open>None\<close>, and \<open>TypeHeap\<close> is the
    memory behind the addresses; so is a \<open>*FunctionType\<close>. New
    structures take the next address. \<open>None\<close> in the result of a function means an
    address without memory, which Go excludes, or that the fuel, the bound on the recursion depth, ran out.
  \<^item> Go iterates over the fields of a type in an arbitrary order, the argument \<open>ord\<close>.
  \<^item> Primitive types are a 16-bit mask.
\<close>

section \<open>Data\<close>

type_synonym BasicType = "16 word"
type_synonym StructRef = nat
type_synonym FunctionRef = nat
type_synonym fieldOrder = "string set \<Rightarrow> string list"

definition TypeUnknown :: BasicType where "TypeUnknown = 0"
definition TypeNil :: BasicType where "TypeNil = 1"

record LuaType =
  Primitive :: BasicType
  Structural :: "StructRef option"

record StructuralType =
  Fields :: "string \<rightharpoonup> LuaType"
  Metatable :: "StructRef option"
  Readonly :: bool
  Const :: bool
  Function :: "FunctionRef option"

record FunctionType =
  Params :: "LuaType list"
  Variadic :: bool
  Returns :: "LuaType list"
  SelfType :: "StructRef option"

record TypeHeap =
  structs :: "StructRef \<rightharpoonup> StructuralType"
  funcs :: "FunctionRef \<rightharpoonup> FunctionType"
  nextStruct :: StructRef
  nextFunction :: FunctionRef

type_synonym pairs = "(StructRef \<times> StructRef) set"
type_synonym comparison = "StructRef option \<Rightarrow> StructRef option \<Rightarrow> pairs \<Rightarrow> (bool \<times> pairs) option"

section \<open>Equality\<close>

definition typeEqualSeen :: "comparison \<Rightarrow> LuaType \<Rightarrow> LuaType \<Rightarrow> pairs \<Rightarrow> (bool \<times> pairs) option" where
  "typeEqualSeen rec left right seen =
     (if Primitive left = Primitive right then rec (Structural left) (Structural right) seen else Some (False, seen))"

text \<open>The loops over parameters and results stop at the first difference.\<close>

fun typesEqual :: "comparison \<Rightarrow> (LuaType \<times> LuaType) list \<Rightarrow> pairs \<Rightarrow> (bool \<times> pairs) option" where
  "typesEqual rec [] seen = Some (True, seen)"
| "typesEqual rec ((left, right) # rest) seen = do {
     (ok, seen) \<leftarrow> typeEqualSeen rec left right seen;
     if ok then typesEqual rec rest seen else Some (False, seen)
   }"

definition functionTypeEqual ::
  "comparison \<Rightarrow> TypeHeap \<Rightarrow> FunctionRef option \<Rightarrow> FunctionRef option \<Rightarrow> pairs \<Rightarrow> (bool \<times> pairs) option" where
  "functionTypeEqual rec heap left right seen =
     (if left = right then Some (True, seen)
      else case (left, right) of
             (Some l, Some r) \<Rightarrow> do {
               left \<leftarrow> funcs heap l;
               right \<leftarrow> funcs heap r;
               if Variadic left \<noteq> Variadic right \<or> length (Params left) \<noteq> length (Params right) \<or>
                  length (Returns left) \<noteq> length (Returns right)
               then Some (False, seen)
               else do {
                 (ok, seen) \<leftarrow> rec (SelfType left) (SelfType right) seen;
                 if \<not> ok then Some (False, seen)
                 else do {
                   (ok, seen) \<leftarrow> typesEqual rec (zip (Params left) (Params right)) seen;
                   if \<not> ok then Some (False, seen)
                   else typesEqual rec (zip (Returns left) (Returns right)) seen
                 }
               }
             }
           | _ \<Rightarrow> Some (False, seen))"

text \<open>The loop over the fields of the left type.\<close>

fun fieldsEqual :: "comparison \<Rightarrow> string list \<Rightarrow> StructuralType \<Rightarrow> StructuralType \<Rightarrow> pairs \<Rightarrow> (bool \<times> pairs) option" where
  "fieldsEqual rec [] left right seen = Some (True, seen)"
| "fieldsEqual rec (name # names) left right seen =
     (case (Fields left name, Fields right name) of
        (Some leftType, Some rightType) \<Rightarrow> do {
          (ok, seen) \<leftarrow> typeEqualSeen rec leftType rightType seen;
          if ok then fieldsEqual rec names left right seen else Some (False, seen)
        }
      | _ \<Rightarrow> Some (False, seen))"

text \<open>The comparison of two structures after the pair has been recorded.\<close>

definition structureEqual ::
  "comparison \<Rightarrow> fieldOrder \<Rightarrow> TypeHeap \<Rightarrow> StructuralType \<Rightarrow> StructuralType \<Rightarrow> pairs \<Rightarrow> (bool \<times> pairs) option" where
  "structureEqual rec ord heap left right seen = do {
     (ok, seen) \<leftarrow> functionTypeEqual rec heap (Function left) (Function right) seen;
     if \<not> ok then Some (False, seen)
     else do {
       (ok, seen) \<leftarrow> rec (Metatable left) (Metatable right) seen;
       if \<not> ok then Some (False, seen)
       else if card (dom (Fields left)) \<noteq> card (dom (Fields right)) then Some (False, seen)
       else fieldsEqual rec (ord (dom (Fields left))) left right seen
     }
   }"

primrec structuralTypeEqual :: "nat \<Rightarrow> fieldOrder \<Rightarrow> TypeHeap \<Rightarrow> comparison" where
  "structuralTypeEqual 0 ord heap left right seen = None"
| "structuralTypeEqual (Suc fuel) ord heap left right seen =
     (if left = right then Some (True, seen)
      else case (left, right) of
             (Some l, Some r) \<Rightarrow> do {
               left \<leftarrow> structs heap l;
               right \<leftarrow> structs heap r;
               if Readonly left \<noteq> Readonly right \<or> Const left \<noteq> Const right then Some (False, seen)
               else if (l, r) \<in> seen then Some (True, seen)
               else structureEqual (structuralTypeEqual fuel ord heap) ord heap left right (insert (l, r) seen)
             }
           | _ \<Rightarrow> Some (False, seen))"

definition Equal :: "nat \<Rightarrow> fieldOrder \<Rightarrow> TypeHeap \<Rightarrow> LuaType \<Rightarrow> LuaType \<Rightarrow> bool option" where
  "Equal fuel ord heap typ other =
     (if Primitive typ \<noteq> Primitive other then Some False
      else map_option fst (structuralTypeEqual fuel ord heap (Structural typ) (Structural other) {}))"

section \<open>Allocation\<close>

definition newStruct :: "StructuralType \<Rightarrow> TypeHeap \<Rightarrow> StructRef \<times> TypeHeap" where
  "newStruct st heap = (nextStruct heap, heap\<lparr>structs := (structs heap)(nextStruct heap \<mapsto> st), nextStruct := nextStruct heap + 1\<rparr>)"

definition newFunction :: "FunctionType \<Rightarrow> TypeHeap \<Rightarrow> FunctionRef \<times> TypeHeap" where
  "newFunction fn heap = (nextFunction heap, heap\<lparr>funcs := (funcs heap)(nextFunction heap \<mapsto> fn), nextFunction := nextFunction heap + 1\<rparr>)"

definition writeStruct :: "StructRef \<Rightarrow> (StructuralType \<Rightarrow> StructuralType) \<Rightarrow> TypeHeap \<Rightarrow> TypeHeap" where
  "writeStruct a f heap = heap\<lparr>structs := (structs heap)(a := map_option f (structs heap a))\<rparr>"

section \<open>Copies\<close>

text \<open>The copies made so far and the heap.\<close>

type_synonym copying = "(StructRef \<rightharpoonup> StructRef) \<times> TypeHeap"
type_synonym copier = "StructRef option \<Rightarrow> copying \<Rightarrow> (StructRef option \<times> copying) option"

definition cloneType :: "copier \<Rightarrow> LuaType \<Rightarrow> copying \<Rightarrow> (LuaType \<times> copying) option" where
  "cloneType rec typ st = do {
     (s, st) \<leftarrow> rec (Structural typ) st;
     Some (\<lparr>Primitive = Primitive typ, Structural = s\<rparr>, st)
   }"

fun cloneTypes :: "copier \<Rightarrow> LuaType list \<Rightarrow> copying \<Rightarrow> (LuaType list \<times> copying) option" where
  "cloneTypes rec [] st = Some ([], st)"
| "cloneTypes rec (t # ts) st = do {
     (u, st) \<leftarrow> cloneType rec t st;
     (us, st) \<leftarrow> cloneTypes rec ts st;
     Some (u # us, st)
   }"

definition cloneFunctionType :: "copier \<Rightarrow> FunctionRef option \<Rightarrow> copying \<Rightarrow> (FunctionRef option \<times> copying) option" where
  "cloneFunctionType rec fn st =
     (case fn of
        None \<Rightarrow> Some (None, st)
      | Some a \<Rightarrow> do {
          f \<leftarrow> funcs (snd st) a;
          (self, st) \<leftarrow> rec (SelfType f) st;
          (params, st) \<leftarrow> cloneTypes rec (Params f) st;
          (returns, st) \<leftarrow> cloneTypes rec (Returns f) st;
          let (b, heap) = newFunction \<lparr>Params = params, Variadic = Variadic f, Returns = returns, SelfType = self\<rparr> (snd st);
          Some (Some b, (fst st, heap))
        })"

fun cloneFields :: "copier \<Rightarrow> string list \<Rightarrow> StructuralType \<Rightarrow> StructRef \<Rightarrow> copying \<Rightarrow> copying option" where
  "cloneFields rec [] x b st = Some st"
| "cloneFields rec (name # names) x b st =
     (case Fields x name of
        None \<Rightarrow> None
      | Some t \<Rightarrow> do {
          (u, st) \<leftarrow> cloneType rec t st;
          cloneFields rec names x b (fst st, writeStruct b (\<lambda>c. c\<lparr>Fields := (Fields c)(name \<mapsto> u)\<rparr>) (snd st))
        })"

text \<open>The copy is recorded before its parts are copied, so that a cycle leads back to it.\<close>

primrec cloneStructuralType :: "nat \<Rightarrow> fieldOrder \<Rightarrow> copier" where
  "cloneStructuralType 0 ord st cp = None"
| "cloneStructuralType (Suc fuel) ord st cp =
     (case st of
        None \<Rightarrow> Some (None, cp)
      | Some a \<Rightarrow>
          (case fst cp a of
             Some clone \<Rightarrow> Some (Some clone, cp)
           | None \<Rightarrow> do {
               x \<leftarrow> structs (snd cp) a;
               let (b, heap) = newStruct \<lparr>Fields = Map.empty, Metatable = None, Readonly = Readonly x, Const = Const x, Function = None\<rparr> (snd cp);
               cp \<leftarrow> cloneFields (cloneStructuralType fuel ord) (ord (dom (Fields x))) x b ((fst cp)(a \<mapsto> b), heap);
               (m, cp) \<leftarrow> cloneStructuralType fuel ord (Metatable x) cp;
               let cp = (fst cp, writeStruct b (\<lambda>c. c\<lparr>Metatable := m\<rparr>) (snd cp));
               (f, cp) \<leftarrow> cloneFunctionType (cloneStructuralType fuel ord) (Function x) cp;
               Some (Some b, (fst cp, writeStruct b (\<lambda>c. c\<lparr>Function := f\<rparr>) (snd cp)))
             }))"

section \<open>Union and intersection\<close>

type_synonym combiner = "StructRef option \<Rightarrow> StructRef option \<Rightarrow> TypeHeap \<Rightarrow> (StructRef option \<times> TypeHeap) option"

definition unionType :: "combiner \<Rightarrow> LuaType \<Rightarrow> LuaType \<Rightarrow> TypeHeap \<Rightarrow> (LuaType \<times> TypeHeap) option" where
  "unionType rec typ other heap = do {
     (s, heap) \<leftarrow> rec (Structural typ) (Structural other) heap;
     Some (\<lparr>Primitive = or (Primitive typ) (Primitive other), Structural = s\<rparr>, heap)
   }"

definition intersectType :: "combiner \<Rightarrow> LuaType \<Rightarrow> LuaType \<Rightarrow> TypeHeap \<Rightarrow> (LuaType \<times> TypeHeap) option" where
  "intersectType rec typ other heap = do {
     (s, heap) \<leftarrow> rec (Structural typ) (Structural other) heap;
     let p = and (Primitive typ) (Primitive other);
     let p = (if p = TypeUnknown \<and> s = None \<and> Structural typ \<noteq> None \<and> Structural other \<noteq> None then TypeNil else p);
     Some (\<lparr>Primitive = p, Structural = s\<rparr>, heap)
   }"

fun combineTypes ::
  "(LuaType \<Rightarrow> LuaType \<Rightarrow> TypeHeap \<Rightarrow> (LuaType \<times> TypeHeap) option) \<Rightarrow> (LuaType \<times> LuaType) list \<Rightarrow> TypeHeap \<Rightarrow> (LuaType list \<times> TypeHeap) option" where
  "combineTypes f [] heap = Some ([], heap)"
| "combineTypes f ((t, u) # rest) heap = do {
     (v, heap) \<leftarrow> f t u heap;
     (vs, heap) \<leftarrow> combineTypes f rest heap;
     Some (v # vs, heap)
   }"

definition unionFunctionTypes ::
  "nat \<Rightarrow> fieldOrder \<Rightarrow> combiner \<Rightarrow> FunctionRef option \<Rightarrow> FunctionRef option \<Rightarrow> TypeHeap \<Rightarrow> (FunctionRef option \<times> TypeHeap) option" where
  "unionFunctionTypes fuel ord rec left right heap =
     (case (left, right) of
        (None, _) \<Rightarrow> map_option (\<lambda>(f, cp). (f, snd cp)) (cloneFunctionType (cloneStructuralType fuel ord) right (Map.empty, heap))
      | (_, None) \<Rightarrow> map_option (\<lambda>(f, cp). (f, snd cp)) (cloneFunctionType (cloneStructuralType fuel ord) left (Map.empty, heap))
      | (Some l, Some r) \<Rightarrow> do {
          left \<leftarrow> funcs heap l;
          right \<leftarrow> funcs heap r;
          if length (Params left) \<noteq> length (Params right) \<or> length (Returns left) \<noteq> length (Returns right)
          then Some (None, heap)
          else do {
            (self, heap) \<leftarrow> rec (SelfType left) (SelfType right) heap;
            (params, heap) \<leftarrow> combineTypes (unionType rec) (zip (Params left) (Params right)) heap;
            (returns, heap) \<leftarrow> combineTypes (unionType rec) (zip (Returns left) (Returns right)) heap;
            let (f, heap) = newFunction \<lparr>Params = params, Variadic = Variadic left \<or> Variadic right, Returns = returns, SelfType = self\<rparr> heap;
            Some (Some f, heap)
          }
        })"

text \<open>The loop over the fields of the right type, on top of those of the left.\<close>

fun unionFields ::
  "combiner \<Rightarrow> string list \<Rightarrow> StructuralType \<Rightarrow> (string \<rightharpoonup> LuaType) \<Rightarrow> TypeHeap \<Rightarrow> ((string \<rightharpoonup> LuaType) \<times> TypeHeap) option" where
  "unionFields rec [] right flds heap = Some (flds, heap)"
| "unionFields rec (name # names) right flds heap =
     (case Fields right name of
        None \<Rightarrow> None
      | Some fieldType \<Rightarrow>
          (case flds name of
             None \<Rightarrow> unionFields rec names right (flds(name \<mapsto> fieldType)) heap
           | Some existing \<Rightarrow> do {
               (u, heap) \<leftarrow> unionType rec existing fieldType heap;
               unionFields rec names right (flds(name \<mapsto> u)) heap
             }))"

primrec unionStructuralTypes :: "nat \<Rightarrow> fieldOrder \<Rightarrow> combiner" where
  "unionStructuralTypes 0 ord left right heap = None"
| "unionStructuralTypes (Suc fuel) ord left right heap =
     (case (left, right) of
        (None, _) \<Rightarrow> map_option (\<lambda>(s, cp). (s, snd cp)) (cloneStructuralType fuel ord right (Map.empty, heap))
      | (_, None) \<Rightarrow> map_option (\<lambda>(s, cp). (s, snd cp)) (cloneStructuralType fuel ord left (Map.empty, heap))
      | (Some l, Some r) \<Rightarrow> do {
          left \<leftarrow> structs heap l;
          right \<leftarrow> structs heap r;
          (m, heap) \<leftarrow> unionStructuralTypes fuel ord (Metatable left) (Metatable right) heap;
          (f, heap) \<leftarrow> unionFunctionTypes fuel ord (unionStructuralTypes fuel ord) (Function left) (Function right) heap;
          (flds, heap) \<leftarrow> unionFields (unionStructuralTypes fuel ord) (ord (dom (Fields right))) right (Fields left) heap;
          let (s, heap) = newStruct \<lparr>Fields = flds, Metatable = m, Readonly = Readonly left \<and> Readonly right,
                                     Const = Const left \<and> Const right, Function = f\<rparr> heap;
          Some (Some s, heap)
        })"

definition Union :: "nat \<Rightarrow> fieldOrder \<Rightarrow> LuaType \<Rightarrow> LuaType \<Rightarrow> TypeHeap \<Rightarrow> (LuaType \<times> TypeHeap) option" where
  "Union fuel ord typ other heap = unionType (unionStructuralTypes fuel ord) typ other heap"

definition intersectFunctionTypes ::
  "combiner \<Rightarrow> FunctionRef option \<Rightarrow> FunctionRef option \<Rightarrow> TypeHeap \<Rightarrow> (FunctionRef option \<times> TypeHeap) option" where
  "intersectFunctionTypes rec left right heap =
     (case (left, right) of
        (Some l, Some r) \<Rightarrow> do {
          left \<leftarrow> funcs heap l;
          right \<leftarrow> funcs heap r;
          if length (Params left) \<noteq> length (Params right) \<or> length (Returns left) \<noteq> length (Returns right)
          then Some (None, heap)
          else do {
            (self, heap) \<leftarrow> rec (SelfType left) (SelfType right) heap;
            (params, heap) \<leftarrow> combineTypes (intersectType rec) (zip (Params left) (Params right)) heap;
            (returns, heap) \<leftarrow> combineTypes (intersectType rec) (zip (Returns left) (Returns right)) heap;
            let (f, heap) = newFunction \<lparr>Params = params, Variadic = Variadic left \<and> Variadic right, Returns = returns, SelfType = self\<rparr> heap;
            Some (Some f, heap)
          }
        }
      | _ \<Rightarrow> Some (None, heap))"

fun intersectFields ::
  "combiner \<Rightarrow> string list \<Rightarrow> StructuralType \<Rightarrow> StructuralType \<Rightarrow> (string \<rightharpoonup> LuaType) \<Rightarrow> TypeHeap \<Rightarrow> ((string \<rightharpoonup> LuaType) \<times> TypeHeap) option" where
  "intersectFields rec [] left right flds heap = Some (flds, heap)"
| "intersectFields rec (name # names) left right flds heap =
     (case (Fields left name, Fields right name) of
        (None, _) \<Rightarrow> None
      | (_, None) \<Rightarrow> intersectFields rec names left right flds heap
      | (Some leftType, Some rightType) \<Rightarrow> do {
          (field, heap) \<leftarrow> intersectType rec leftType rightType heap;
          intersectFields rec names left right
            (if Primitive field \<noteq> TypeUnknown \<or> Structural field \<noteq> None then flds(name \<mapsto> field) else flds) heap
        })"

primrec intersectStructuralTypes :: "nat \<Rightarrow> fieldOrder \<Rightarrow> combiner" where
  "intersectStructuralTypes 0 ord left right heap = None"
| "intersectStructuralTypes (Suc fuel) ord left right heap =
     (case (left, right) of
        (Some l, Some r) \<Rightarrow> do {
          left \<leftarrow> structs heap l;
          right \<leftarrow> structs heap r;
          (m, heap) \<leftarrow> intersectStructuralTypes fuel ord (Metatable left) (Metatable right) heap;
          (f, heap) \<leftarrow> intersectFunctionTypes (intersectStructuralTypes fuel ord) (Function left) (Function right) heap;
          (flds, heap) \<leftarrow> intersectFields (intersectStructuralTypes fuel ord) (ord (dom (Fields left))) left right Map.empty heap;
          if dom flds = {} \<and> m = None \<and> f = None then Some (None, heap)
          else let (s, heap) = newStruct \<lparr>Fields = flds, Metatable = m, Readonly = Readonly left \<and> Readonly right,
                                          Const = Const left \<and> Const right, Function = f\<rparr> heap
               in Some (Some s, heap)
        }
      | _ \<Rightarrow> Some (None, heap))"

definition Intersect :: "nat \<Rightarrow> fieldOrder \<Rightarrow> LuaType \<Rightarrow> LuaType \<Rightarrow> TypeHeap \<Rightarrow> (LuaType \<times> TypeHeap) option" where
  "Intersect fuel ord typ other heap = intersectType (intersectStructuralTypes fuel ord) typ other heap"

end
