(* ===== verification/Types_Equal.thy ===== *)
theory Types_Equal
  imports Types "HOL-Library.List_Lexorder" "HOL-Library.Char_ord"
begin

text \<open>
  The comparison of structural types decides bisimilarity: it terminates on every finite heap, however the
  types share parts or run into cycles, and it answers true exactly when some bisimulation relates
  the two types. The three parts (what a positive answer has established, that no bisimilar types are told
  apart, and that the recursion ends) are the contracts of three locales over the recursive call.
\<close>

section \<open>Bisimulations\<close>

definition relOpt :: "pairs \<Rightarrow> StructRef option \<Rightarrow> StructRef option \<Rightarrow> bool" where
  "relOpt R l r \<longleftrightarrow> l = r \<or> (\<exists>a b. l = Some a \<and> r = Some b \<and> (a, b) \<in> R)"

definition relType :: "pairs \<Rightarrow> LuaType \<Rightarrow> LuaType \<Rightarrow> bool" where
  "relType R t u \<longleftrightarrow> Primitive t = Primitive u \<and> relOpt R (Structural t) (Structural u)"

definition relFunction :: "pairs \<Rightarrow> FunctionType \<Rightarrow> FunctionType \<Rightarrow> bool" where
  "relFunction R f g \<longleftrightarrow> Variadic f = Variadic g \<and> relOpt R (SelfType f) (SelfType g) \<and>
     list_all2 (relType R) (Params f) (Params g) \<and> list_all2 (relType R) (Returns f) (Returns g)"

definition relFn :: "TypeHeap \<Rightarrow> pairs \<Rightarrow> FunctionRef option \<Rightarrow> FunctionRef option \<Rightarrow> bool" where
  "relFn heap R l r \<longleftrightarrow> l = r \<or>
     (\<exists>a b f g. l = Some a \<and> r = Some b \<and> funcs heap a = Some f \<and> funcs heap b = Some g \<and> relFunction R f g)"

definition relStruct :: "TypeHeap \<Rightarrow> pairs \<Rightarrow> StructuralType \<Rightarrow> StructuralType \<Rightarrow> bool" where
  "relStruct heap R x y \<longleftrightarrow> Readonly x = Readonly y \<and> Const x = Const y \<and>
     relFn heap R (Function x) (Function y) \<and> relOpt R (Metatable x) (Metatable y) \<and>
     dom (Fields x) = dom (Fields y) \<and>
     (\<forall>n t u. Fields x n = Some t \<longrightarrow> Fields y n = Some u \<longrightarrow> relType R t u)"

definition matched :: "TypeHeap \<Rightarrow> pairs \<Rightarrow> StructRef \<times> StructRef \<Rightarrow> bool" where
  "matched heap R p \<longleftrightarrow> (\<exists>x y. structs heap (fst p) = Some x \<and> structs heap (snd p) = Some y \<and> relStruct heap R x y)"

definition bisimulation :: "TypeHeap \<Rightarrow> pairs \<Rightarrow> bool" where
  "bisimulation heap R \<longleftrightarrow> (\<forall>p \<in> R. matched heap R p)"

text \<open>Two types have the same shape when a bisimulation relates them.\<close>

definition sameShape :: "TypeHeap \<Rightarrow> LuaType \<Rightarrow> LuaType \<Rightarrow> bool" where
  "sameShape heap t u \<longleftrightarrow> (\<exists>R. bisimulation heap R \<and> relType R t u)"

lemma relOpt_mono: "relOpt R l r \<Longrightarrow> R \<subseteq> S \<Longrightarrow> relOpt S l r"
  by (auto simp: relOpt_def)

lemma relType_mono: "relType R t u \<Longrightarrow> R \<subseteq> S \<Longrightarrow> relType S t u"
  by (auto simp: relType_def intro: relOpt_mono)

lemma relTypes_mono: "list_all2 (relType R) ts us \<Longrightarrow> R \<subseteq> S \<Longrightarrow> list_all2 (relType S) ts us"
  by (erule list_all2_mono) (rule relType_mono)

lemma relFunction_mono: "relFunction R f g \<Longrightarrow> R \<subseteq> S \<Longrightarrow> relFunction S f g"
  unfolding relFunction_def by (meson relOpt_mono relTypes_mono)

lemma relFn_mono: "relFn heap R l r \<Longrightarrow> R \<subseteq> S \<Longrightarrow> relFn heap S l r"
  unfolding relFn_def using relFunction_mono by fastforce

lemma relStruct_mono: "relStruct heap R x y \<Longrightarrow> R \<subseteq> S \<Longrightarrow> relStruct heap S x y"
  unfolding relStruct_def by (meson relFn_mono relOpt_mono relType_mono)

lemma matched_mono: "matched heap R p \<Longrightarrow> R \<subseteq> S \<Longrightarrow> matched heap S p"
  unfolding matched_def by (meson relStruct_mono)

text \<open>The pairs that a comparison has added are matched, given the pairs recorded in the end.\<close>

definition extends :: "TypeHeap \<Rightarrow> pairs \<Rightarrow> pairs \<Rightarrow> bool" where
  "extends heap seen seen' \<longleftrightarrow> seen \<subseteq> seen' \<and> (\<forall>p \<in> seen' - seen. matched heap seen' p)"

lemma extends_refl [simp]: "extends heap seen seen"
  by (simp add: extends_def)

lemma extends_trans: "extends heap s1 s2 \<Longrightarrow> extends heap s2 s3 \<Longrightarrow> extends heap s1 s3"
  unfolding extends_def by (metis Diff_iff matched_mono subset_iff)

lemma extends_subset: "extends heap s1 s2 \<Longrightarrow> s1 \<subseteq> s2"
  by (simp add: extends_def)

section \<open>A positive answer\<close>

locale sound_comparison =
  fixes heap :: TypeHeap and rec :: comparison
  assumes rec_sound: "rec l r seen = Some (True, seen') \<Longrightarrow> extends heap seen seen' \<and> relOpt seen' l r"
begin

lemma typeEqualSeen_sound:
  "typeEqualSeen rec t u seen = Some (True, seen') \<Longrightarrow> extends heap seen seen' \<and> relType seen' t u"
  using rec_sound by (auto simp: typeEqualSeen_def relType_def split: if_splits)

lemma typesEqual_sound:
  "typesEqual rec ps seen = Some (True, seen') \<Longrightarrow> extends heap seen seen' \<and> (\<forall>(t, u) \<in> set ps. relType seen' t u)"
proof (induction ps arbitrary: seen)
  case (Cons p ps)
  obtain t u where p: "p = (t, u)" by force
  from Cons.prems obtain s where s: "typeEqualSeen rec t u seen = Some (True, s)" "typesEqual rec ps s = Some (True, seen')"
    by (auto simp: p bind_eq_Some_conv split: if_splits)
  from typeEqualSeen_sound [OF s(1)] Cons.IH [OF s(2)] show ?case
    by (auto simp: p intro: extends_trans relType_mono [OF _ extends_subset])
qed simp

lemma functionTypeEqual_sound:
  assumes "functionTypeEqual rec heap l r seen = Some (True, seen')"
  shows "extends heap seen seen' \<and> relFn heap seen' l r"
proof (cases "l = r")
  case False
  with assms obtain a b f g where fg: "l = Some a" "r = Some b" "funcs heap a = Some f" "funcs heap b = Some g"
    by (auto simp: functionTypeEqual_def bind_eq_Some_conv split: option.splits)
  with assms False obtain s1 s2 where s: "Variadic f = Variadic g" "length (Params f) = length (Params g)"
      "length (Returns f) = length (Returns g)" "rec (SelfType f) (SelfType g) seen = Some (True, s1)"
      "typesEqual rec (zip (Params f) (Params g)) s1 = Some (True, s2)"
      "typesEqual rec (zip (Returns f) (Returns g)) s2 = Some (True, seen')"
    by (auto simp: functionTypeEqual_def bind_eq_Some_conv split: if_splits)
  note a = rec_sound [OF s(4)] typesEqual_sound [OF s(5)] typesEqual_sound [OF s(6)]
  have "relOpt seen' (SelfType f) (SelfType g)"
    using a by (meson relOpt_mono extends_subset)
  moreover have "list_all2 (relType seen') (Params f) (Params g)" "list_all2 (relType seen') (Returns f) (Returns g)"
    using a s(2,3) by (auto simp: list_all2_iff intro: relType_mono [OF _ extends_subset])
  ultimately have "relFn heap seen' l r" using fg s(1) by (auto simp: relFn_def relFunction_def)
  moreover have "extends heap seen seen'" using a by (meson extends_trans)
  ultimately show ?thesis by blast
qed (use assms in \<open>auto simp: functionTypeEqual_def relFn_def\<close>)

lemma fieldsEqual_sound:
  "fieldsEqual rec names x y seen = Some (True, seen') \<Longrightarrow>
   extends heap seen seen' \<and> (\<forall>n \<in> set names. \<exists>t u. Fields x n = Some t \<and> Fields y n = Some u \<and> relType seen' t u)"
proof (induction names arbitrary: seen)
  case (Cons n names)
  from Cons.prems obtain t u s where s: "Fields x n = Some t" "Fields y n = Some u"
      "typeEqualSeen rec t u seen = Some (True, s)" "fieldsEqual rec names x y s = Some (True, seen')"
    by (auto simp: bind_eq_Some_conv split: option.splits if_splits)
  from typeEqualSeen_sound [OF s(3)] Cons.IH [OF s(4)] s(1,2) show ?case
    by (auto intro: extends_trans relType_mono [OF _ extends_subset])
qed simp

lemma structureEqual_sound:
  assumes "structureEqual rec ord heap x y seen = Some (True, seen')"
    and "Readonly x = Readonly y" "Const x = Const y" "finite (dom (Fields x))" "finite (dom (Fields y))"
    and "set (ord (dom (Fields x))) = dom (Fields x)"
  shows "extends heap seen seen' \<and> relStruct heap seen' x y"
proof -
  from assms(1) obtain s1 s2 where s: "functionTypeEqual rec heap (Function x) (Function y) seen = Some (True, s1)"
      "rec (Metatable x) (Metatable y) s1 = Some (True, s2)" "card (dom (Fields x)) = card (dom (Fields y))"
      "fieldsEqual rec (ord (dom (Fields x))) x y s2 = Some (True, seen')"
    by (auto simp: structureEqual_def bind_eq_Some_conv split: if_splits)
  note a = functionTypeEqual_sound [OF s(1)] rec_sound [OF s(2)] fieldsEqual_sound [OF s(4)]
  have fields: "\<exists>t u. Fields x n = Some t \<and> Fields y n = Some u \<and> relType seen' t u" if "n \<in> dom (Fields x)" for n
    using a(3) that assms(6) by blast
  then have "dom (Fields x) \<subseteq> dom (Fields y)" by blast
  with s(3) assms(5) have "dom (Fields x) = dom (Fields y)" by (simp add: card_subset_eq)
  moreover have "relFn heap seen' (Function x) (Function y)" "relOpt seen' (Metatable x) (Metatable y)"
    using a by (meson relFn_mono relOpt_mono extends_subset extends_trans)+
  ultimately have "relStruct heap seen' x y"
    using assms(2,3) fields by (fastforce simp: relStruct_def)
  moreover have "extends heap seen seen'" using a by (meson extends_trans)
  ultimately show ?thesis by blast
qed

end

section \<open>A negative answer\<close>

locale complete_comparison =
  fixes heap :: TypeHeap and rec :: comparison and B :: pairs
  assumes shape: "bisimulation heap B"
    and rec_complete: "rec l r seen = Some (ok, seen') \<Longrightarrow> relOpt B l r \<Longrightarrow> ok"
begin

lemma typeEqualSeen_complete: "typeEqualSeen rec t u seen = Some (ok, seen') \<Longrightarrow> relType B t u \<Longrightarrow> ok"
  using rec_complete by (auto simp: typeEqualSeen_def relType_def)

lemma typesEqual_complete:
  "typesEqual rec ps seen = Some (ok, seen') \<Longrightarrow> \<forall>(t, u) \<in> set ps. relType B t u \<Longrightarrow> ok"
proof (induction ps arbitrary: seen)
  case (Cons p ps)
  then show ?case
    using typeEqualSeen_complete by (cases p) (fastforce simp: bind_eq_Some_conv split: if_splits)
qed simp

lemma functionTypeEqual_complete:
  assumes "functionTypeEqual rec heap l r seen = Some (ok, seen')" "relFn heap B l r"
  shows ok
proof (cases "l = r")
  case False
  with assms(2) obtain a b f g where fg: "l = Some a" "r = Some b" "funcs heap a = Some f" "funcs heap b = Some g"
    and rel: "relFunction B f g" by (auto simp: relFn_def)
  have ps: "\<forall>(t, u) \<in> set (zip (Params f) (Params g)). relType B t u" "\<forall>(t, u) \<in> set (zip (Returns f) (Returns g)). relType B t u"
    and len: "length (Params f) = length (Params g)" "length (Returns f) = length (Returns g)" "Variadic f = Variadic g"
    and self: "relOpt B (SelfType f) (SelfType g)"
    using rel by (auto simp: relFunction_def list_all2_iff)
  from assms(1) fg False len self show ?thesis
    by (auto simp: functionTypeEqual_def bind_eq_Some_conv split: if_splits
        dest: rec_complete typesEqual_complete [OF _ ps(1)] typesEqual_complete [OF _ ps(2)])
qed (use assms in \<open>simp add: functionTypeEqual_def\<close>)

lemma fieldsEqual_complete:
  "fieldsEqual rec names x y seen = Some (ok, seen') \<Longrightarrow>
   \<forall>n \<in> set names. \<exists>t u. Fields x n = Some t \<and> Fields y n = Some u \<and> relType B t u \<Longrightarrow> ok"
proof (induction names arbitrary: seen)
  case (Cons n names)
  then obtain t u where tu: "Fields x n = Some t" "Fields y n = Some u" "relType B t u" by auto
  with Cons.prems(1) obtain k s where s: "typeEqualSeen rec t u seen = Some (k, s)"
      "(if k then fieldsEqual rec names x y s else Some (False, s)) = Some (ok, seen')"
    by (auto simp: bind_eq_Some_conv)
  have k by (rule typeEqualSeen_complete [OF s(1) tu(3)])
  with s(2) Cons show ?case by simp
qed simp

lemma structureEqual_complete:
  assumes "structureEqual rec ord heap x y seen = Some (ok, seen')" "relStruct heap B x y"
    and "set (ord (dom (Fields x))) = dom (Fields x)"
  shows ok
proof -
  have dom: "dom (Fields x) = dom (Fields y)" and rel: "relFn heap B (Function x) (Function y)" "relOpt B (Metatable x) (Metatable y)"
    and each: "\<And>n t u. Fields x n = Some t \<Longrightarrow> Fields y n = Some u \<Longrightarrow> relType B t u"
    using assms(2) by (auto simp: relStruct_def)
  have fields: "\<forall>n \<in> set (ord (dom (Fields x))). \<exists>t u. Fields x n = Some t \<and> Fields y n = Some u \<and> relType B t u"
    unfolding assms(3) using dom each by (metis domD domI)
  have "card (dom (Fields x)) = card (dom (Fields y))" using dom by simp
  with assms(1) show ?thesis
    by (auto simp: structureEqual_def bind_eq_Some_conv split: if_splits
        dest: functionTypeEqual_complete [OF _ rel(1)] rec_complete [OF _ rel(2)] fieldsEqual_complete [OF _ fields])
qed

end

section \<open>An answer\<close>

definition okRef :: "TypeHeap \<Rightarrow> StructRef option \<Rightarrow> bool" where
  "okRef heap l \<longleftrightarrow> (case l of None \<Rightarrow> True | Some a \<Rightarrow> a \<in> dom (structs heap))"

definition okFunction :: "TypeHeap \<Rightarrow> FunctionType \<Rightarrow> bool" where
  "okFunction heap f \<longleftrightarrow> okRef heap (SelfType f) \<and> (\<forall>t \<in> set (Params f) \<union> set (Returns f). okRef heap (Structural t))"

definition okStruct :: "TypeHeap \<Rightarrow> StructuralType \<Rightarrow> bool" where
  "okStruct heap x \<longleftrightarrow> finite (dom (Fields x)) \<and> okRef heap (Metatable x) \<and>
     (\<forall>a. Function x = Some a \<longrightarrow> a \<in> dom (funcs heap)) \<and> (\<forall>n t. Fields x n = Some t \<longrightarrow> okRef heap (Structural t))"

text \<open>A finite heap without dangling pointers.\<close>

definition wf_heap :: "TypeHeap \<Rightarrow> bool" where
  "wf_heap heap \<longleftrightarrow> finite (dom (structs heap)) \<and> (\<forall>a x. structs heap a = Some x \<longrightarrow> okStruct heap x) \<and>
     (\<forall>a f. funcs heap a = Some f \<longrightarrow> okFunction heap f)"

definition unseen :: "TypeHeap \<Rightarrow> pairs \<Rightarrow> nat" where
  "unseen heap seen = card (dom (structs heap) \<times> dom (structs heap) - seen)"

lemma unseen_mono: "wf_heap heap \<Longrightarrow> seen \<subseteq> seen' \<Longrightarrow> unseen heap seen' \<le> unseen heap seen"
  unfolding unseen_def by (intro card_mono) (auto simp: wf_heap_def)

lemma unseen_insert:
  assumes "wf_heap heap" "a \<in> dom (structs heap)" "b \<in> dom (structs heap)" "(a, b) \<notin> seen"
  shows "unseen heap (insert (a, b) seen) < unseen heap seen"
  unfolding unseen_def using assms by (intro psubset_card_mono) (auto simp: wf_heap_def)

locale total_comparison =
  fixes heap :: TypeHeap and rec :: comparison and n :: nat
  assumes heap: "wf_heap heap"
    and rec_total: "okRef heap l \<Longrightarrow> okRef heap r \<Longrightarrow> unseen heap seen < n \<Longrightarrow> \<exists>ok seen'. rec l r seen = Some (ok, seen') \<and> seen \<subseteq> seen'"
begin

lemma typeEqualSeen_total:
  "okRef heap (Structural t) \<Longrightarrow> okRef heap (Structural u) \<Longrightarrow> unseen heap seen < n \<Longrightarrow>
   \<exists>ok seen'. typeEqualSeen rec t u seen = Some (ok, seen') \<and> seen \<subseteq> seen'"
  using rec_total by (auto simp: typeEqualSeen_def)

lemma typesEqual_total:
  "\<forall>(t, u) \<in> set ps. okRef heap (Structural t) \<and> okRef heap (Structural u) \<Longrightarrow> unseen heap seen < n \<Longrightarrow>
   \<exists>ok seen'. typesEqual rec ps seen = Some (ok, seen') \<and> seen \<subseteq> seen'"
proof (induction ps arbitrary: seen)
  case (Cons p ps)
  obtain t u where p: "p = (t, u)" by force
  from typeEqualSeen_total [of t u seen] Cons.prems obtain k s where s: "typeEqualSeen rec t u seen = Some (k, s)" "seen \<subseteq> s"
    by (auto simp: p)
  have "unseen heap s < n" using unseen_mono [OF heap s(2)] Cons.prems(2) by simp
  with Cons s show ?case by (cases k) (fastforce simp: p)+
qed auto

lemma functionTypeEqual_total:
  assumes "\<forall>a. l = Some a \<longrightarrow> a \<in> dom (funcs heap)" "\<forall>a. r = Some a \<longrightarrow> a \<in> dom (funcs heap)" "unseen heap seen < n"
  shows "\<exists>ok seen'. functionTypeEqual rec heap l r seen = Some (ok, seen') \<and> seen \<subseteq> seen'"
proof (cases "l = r \<or> l = None \<or> r = None")
  case False
  with assms(1,2) obtain a b f g where fg: "l = Some a" "r = Some b" "funcs heap a = Some f" "funcs heap b = Some g" "a \<noteq> b"
    by (cases l; cases r) auto
  have ok: "okFunction heap f" "okFunction heap g" using heap fg by (auto simp: wf_heap_def)
  have ps: "\<forall>(t, u) \<in> set (zip (Params f) (Params g)). okRef heap (Structural t) \<and> okRef heap (Structural u)"
      "\<forall>(t, u) \<in> set (zip (Returns f) (Returns g)). okRef heap (Structural t) \<and> okRef heap (Structural u)"
    using ok by (auto simp: okFunction_def) (blast dest: set_zip_leftD set_zip_rightD)+
  obtain k1 s1 where s1: "rec (SelfType f) (SelfType g) seen = Some (k1, s1)" "seen \<subseteq> s1"
    using rec_total [of "SelfType f" "SelfType g" seen] ok assms(3) by (auto simp: okFunction_def)
  have n1: "unseen heap s1 < n" using unseen_mono [OF heap s1(2)] assms(3) by simp
  obtain k2 s2 where s2: "typesEqual rec (zip (Params f) (Params g)) s1 = Some (k2, s2)" "s1 \<subseteq> s2"
    using typesEqual_total [OF ps(1) n1] by blast
  have n2: "unseen heap s2 < n" using unseen_mono [OF heap s2(2)] n1 by simp
  obtain k3 s3 where s3: "typesEqual rec (zip (Returns f) (Returns g)) s2 = Some (k3, s3)" "s2 \<subseteq> s3"
    using typesEqual_total [OF ps(2) n2] by blast
  from fg s1 s2 s3 show ?thesis by (cases k1; cases k2) (auto simp: functionTypeEqual_def)
qed (auto simp: functionTypeEqual_def split: option.split)

lemma fieldsEqual_total:
  "okStruct heap x \<Longrightarrow> okStruct heap y \<Longrightarrow> unseen heap seen < n \<Longrightarrow>
   \<exists>ok seen'. fieldsEqual rec names x y seen = Some (ok, seen') \<and> seen \<subseteq> seen'"
proof (induction names arbitrary: seen)
  case (Cons m names)
  show ?case
  proof (cases "Fields x m = None \<or> Fields y m = None")
    case False
    then obtain t u where tu: "Fields x m = Some t" "Fields y m = Some u" by auto
    with typeEqualSeen_total [of t u seen] Cons.prems obtain k s where s: "typeEqualSeen rec t u seen = Some (k, s)" "seen \<subseteq> s"
      by (auto simp: okStruct_def)
    have "unseen heap s < n" using unseen_mono [OF heap s(2)] Cons.prems(3) by simp
    with Cons s tu show ?thesis by (cases k) fastforce+
  qed (auto split: option.split)
qed auto

lemma structureEqual_total:
  assumes "okStruct heap x" "okStruct heap y" "unseen heap seen < n"
  shows "\<exists>ok seen'. structureEqual rec ord heap x y seen = Some (ok, seen') \<and> seen \<subseteq> seen'"
proof -
  obtain k1 s1 where s1: "functionTypeEqual rec heap (Function x) (Function y) seen = Some (k1, s1)" "seen \<subseteq> s1"
    using functionTypeEqual_total [of "Function x" "Function y" seen] assms by (auto simp: okStruct_def)
  have n1: "unseen heap s1 < n" using unseen_mono [OF heap s1(2)] assms(3) by simp
  obtain k2 s2 where s2: "rec (Metatable x) (Metatable y) s1 = Some (k2, s2)" "s1 \<subseteq> s2"
    using rec_total [of "Metatable x" "Metatable y" s1] assms n1 by (auto simp: okStruct_def)
  have n2: "unseen heap s2 < n" using unseen_mono [OF heap s2(2)] n1 by simp
  obtain k3 s3 where s3: "fieldsEqual rec (ord (dom (Fields x))) x y s2 = Some (k3, s3)" "s2 \<subseteq> s3"
    using fieldsEqual_total [OF assms(1,2) n2] by blast
  from s1 s2 s3 show ?thesis by (cases k1; cases k2) (auto simp: structureEqual_def)
qed

end

section \<open>The comparison meets its contracts\<close>

lemma structuralTypeEqual_sound:
  assumes heap: "wf_heap heap" and ord: "\<And>S. finite S \<Longrightarrow> set (ord S) = S"
  shows "sound_comparison heap (structuralTypeEqual fuel ord heap)"
proof (induction fuel)
  case (Suc fuel)
  show ?case
  proof
    fix l r seen seen'
    assume eq: "structuralTypeEqual (Suc fuel) ord heap l r seen = Some (True, seen')"
    show "extends heap seen seen' \<and> relOpt seen' l r"
    proof (cases "l = r")
      case False
      with eq obtain a b x y where ab: "l = Some a" "r = Some b" "structs heap a = Some x" "structs heap b = Some y"
          "Readonly x = Readonly y" "Const x = Const y"
        by (auto simp: bind_eq_Some_conv split: option.splits if_splits)
      have fin: "finite (dom (Fields x))" "finite (dom (Fields y))" using heap ab by (auto simp: wf_heap_def okStruct_def)
      show ?thesis
      proof (cases "(a, b) \<in> seen")
        case True
        with eq False ab show ?thesis by (auto simp: relOpt_def)
      next
        case new: False
        with eq False ab have "structureEqual (structuralTypeEqual fuel ord heap) ord heap x y (insert (a, b) seen) = Some (True, seen')"
          by auto
        from sound_comparison.structureEqual_sound [OF Suc this ab(5,6) fin ord [OF fin(1)]]
        have e: "extends heap (insert (a, b) seen) seen'" "relStruct heap seen' x y" by auto
        then have "matched heap seen' (a, b)" using ab by (auto simp: matched_def)
        with e(1) ab new show ?thesis by (auto simp: extends_def relOpt_def)
      qed
    qed (use eq in \<open>auto simp: relOpt_def\<close>)
  qed
qed (unfold_locales, simp)

lemma structuralTypeEqual_complete:
  assumes "bisimulation heap B" and heap: "wf_heap heap" and ord: "\<And>S. finite S \<Longrightarrow> set (ord S) = S"
  shows "complete_comparison heap (structuralTypeEqual fuel ord heap) B"
proof (induction fuel)
  case (Suc fuel)
  show ?case
  proof
    fix l r seen ok seen'
    assume eq: "structuralTypeEqual (Suc fuel) ord heap l r seen = Some (ok, seen')" and rel: "relOpt B l r"
    show ok
    proof (cases "l = r")
      case False
      with rel obtain a b where ab: "l = Some a" "r = Some b" "(a, b) \<in> B" by (auto simp: relOpt_def)
      with assms(1) obtain x y where xy: "structs heap a = Some x" "structs heap b = Some y" "relStruct heap B x y"
        by (fastforce simp: bisimulation_def matched_def)
      then have fin: "finite (dom (Fields x))" using heap by (auto simp: wf_heap_def okStruct_def)
      have flags: "Readonly x = Readonly y" "Const x = Const y" using xy(3) by (auto simp: relStruct_def)
      from eq False ab xy flags show ?thesis
        by (auto split: if_splits dest: complete_comparison.structureEqual_complete [OF Suc, of ord x y, OF _ xy(3) ord [OF fin]])
    qed (use eq in simp)
  qed (rule assms(1))
qed (unfold_locales, simp_all add: assms(1))

lemma structuralTypeEqual_total:
  assumes "wf_heap heap"
  shows "total_comparison heap (structuralTypeEqual fuel ord heap) fuel"
proof (induction fuel)
  case (Suc fuel)
  show ?case
  proof
    fix l r seen
    assume ok: "okRef heap l" "okRef heap r" and n: "unseen heap seen < Suc fuel"
    show "\<exists>ok seen'. structuralTypeEqual (Suc fuel) ord heap l r seen = Some (ok, seen') \<and> seen \<subseteq> seen'"
    proof (cases "l = r \<or> l = None \<or> r = None")
      case False
      with ok obtain a b x y where ab: "l = Some a" "r = Some b" "structs heap a = Some x" "structs heap b = Some y" "a \<noteq> b"
        by (cases l; cases r) (auto simp: okRef_def)
      have xy: "okStruct heap x" "okStruct heap y" using assms ab by (auto simp: wf_heap_def)
      show ?thesis
      proof (cases "(a, b) \<in> seen")
        case new: False
        have "unseen heap (insert (a, b) seen) < fuel"
          using unseen_insert [OF assms _ _ new] ab n by fastforce
        from total_comparison.structureEqual_total [OF Suc xy this, of ord] ab new show ?thesis by auto
      qed (use ab in auto)
    qed (auto split: option.split)
  qed (rule assms)
qed (unfold_locales, simp_all add: assms)

text \<open>The contracts hold of the comparison on every regular heap and order of fields. An irregular heap is
  replaced by the empty one, an irregular order by the sorted one, which leaves the regular ones alone.\<close>

definition regularHeap :: "TypeHeap \<Rightarrow> TypeHeap" where
  "regularHeap heap = (if wf_heap heap then heap else heap\<lparr>structs := Map.empty, funcs := Map.empty\<rparr>)"

definition listing :: "fieldOrder \<Rightarrow> bool" where
  "listing ord \<longleftrightarrow> (\<forall>S. finite S \<longrightarrow> set (ord S) = S)"

definition regularOrder :: "fieldOrder \<Rightarrow> fieldOrder" where
  "regularOrder ord = (if listing ord then ord else sorted_list_of_set)"

text \<open>The union of all bisimulations.\<close>

definition bisimilar :: "TypeHeap \<Rightarrow> pairs" where
  "bisimilar heap = \<Union> {R. bisimulation heap R}"

lemma bisimulation_bisimilar: "bisimulation heap (bisimilar heap)"
  unfolding bisimulation_def [of heap "bisimilar heap"]
proof
  fix p assume "p \<in> bisimilar heap"
  then obtain R where R: "bisimulation heap R" "p \<in> R" by (auto simp: bisimilar_def)
  then have "matched heap R p" by (simp add: bisimulation_def)
  moreover have "R \<subseteq> bisimilar heap" using R(1) by (auto simp: bisimilar_def)
  ultimately show "matched heap (bisimilar heap) p" by (rule matched_mono)
qed

lemma sameShape_bisimilar: "sameShape heap t u \<longleftrightarrow> relType (bisimilar heap) t u"
proof
  assume "sameShape heap t u"
  then obtain R where R: "bisimulation heap R" "relType R t u" unfolding sameShape_def by blast
  have "R \<subseteq> bisimilar heap" unfolding bisimilar_def using R(1) by blast
  with R(2) show "relType (bisimilar heap) t u" by (rule relType_mono)
next
  assume "relType (bisimilar heap) t u"
  with bisimulation_bisimilar show "sameShape heap t u" unfolding sameShape_def by blast
qed

lemma wf_regularHeap: "wf_heap (regularHeap heap)"
  by (simp add: regularHeap_def) (simp add: wf_heap_def)

lemma regularOrder_lists: "finite S \<Longrightarrow> set (regularOrder ord S) = S"
  by (simp add: regularOrder_def listing_def)

interpretation eq_sound: sound_comparison "regularHeap heap" "structuralTypeEqual fuel (regularOrder ord) (regularHeap heap)"
  for heap ord fuel
  by (rule structuralTypeEqual_sound [OF wf_regularHeap regularOrder_lists])

interpretation eq_complete: complete_comparison "regularHeap heap" "structuralTypeEqual fuel (regularOrder ord) (regularHeap heap)"
    "bisimilar (regularHeap heap)" for heap ord fuel
  by (rule structuralTypeEqual_complete [OF bisimulation_bisimilar wf_regularHeap regularOrder_lists])

interpretation eq_total: total_comparison "regularHeap heap" "structuralTypeEqual fuel ord (regularHeap heap)" fuel
  for heap ord fuel
  by (rule structuralTypeEqual_total [OF wf_regularHeap])

text \<open>
  C16. Equality of types: on every finite heap without dangling pointers, whatever types share or contain
  themselves, and for every order in which Go may visit the fields, \<open>Equal\<close> returns, within a recursion
  depth of one more than the number of pairs of structures, and it answers true exactly if the two types have
  the same shape: the same primitive bits, and structures related by a bisimulation (equal flags,
  the same fields, and again types of the same shape in the fields, the metatable and the function).
\<close>

theorem Equal_decides:
  assumes "wf_heap heap" "listing ord" "okRef heap (Structural t)" "okRef heap (Structural u)"
    and "card (dom (structs heap)) * card (dom (structs heap)) < fuel"
  shows "Equal fuel ord heap t u = Some (sameShape heap t u)"
proof (cases "Primitive t = Primitive u")
  case True
  have reg: "regularHeap heap = heap" "regularOrder ord = ord" using assms(1,2) by (simp_all add: regularHeap_def regularOrder_def)
  have "unseen heap {} < fuel" using assms(5) by (simp add: unseen_def card_cartesian_product)
  with eq_total.rec_total [of heap "Structural t" "Structural u" "{}" fuel ord] assms(3,4) obtain ok seen where
    eq: "structuralTypeEqual fuel ord heap (Structural t) (Structural u) {} = Some (ok, seen)" by (auto simp: reg)
  have "sameShape heap t u" if ok
    using eq_sound.rec_sound [of fuel ord heap "Structural t" "Structural u" "{}" seen] eq that True
    by (auto simp: reg extends_def sameShape_def bisimulation_def relType_def)
  moreover have ok if "sameShape heap t u"
    using eq_complete.rec_complete [of fuel ord heap "Structural t" "Structural u" "{}" ok seen] eq that
    by (simp add: reg sameShape_bisimilar relType_def)
  ultimately show ?thesis using True eq by (auto simp: Equal_def)
qed (simp add: Equal_def sameShape_def relType_def)

text \<open>Two copies of a table type that is its own metatable.\<close>

definition selfMeta :: "StructRef \<Rightarrow> StructuralType" where
  "selfMeta a = \<lparr>Fields = Map.empty, Metatable = Some a, Readonly = False, Const = False, Function = None\<rparr>"

definition twinHeap :: TypeHeap where
  "twinHeap = \<lparr>structs = [0 \<mapsto> selfMeta 0, 1 \<mapsto> selfMeta 1], funcs = Map.empty, nextStruct = 2, nextFunction = 0\<rparr>"

definition tableAt :: "StructRef \<Rightarrow> LuaType" where
  "tableAt a = \<lparr>Primitive = 32, Structural = Some a\<rparr>"

lemma wf_twinHeap: "wf_heap twinHeap" "dom (structs twinHeap) = {0, 1}"
  by (auto simp: wf_heap_def twinHeap_def okStruct_def okRef_def selfMeta_def split: if_splits)

theorem Equal_decides_witness: "Equal 5 sorted_list_of_set twinHeap (tableAt 0) (tableAt 1) = Some True"
proof -
  have "bisimulation twinHeap {(0, 1)}"
    by (simp add: bisimulation_def matched_def twinHeap_def relStruct_def selfMeta_def relFn_def relOpt_def)
  moreover have "relType {(0, 1)} (tableAt 0) (tableAt 1)" by (simp add: relType_def tableAt_def relOpt_def)
  ultimately have "sameShape twinHeap (tableAt 0) (tableAt 1)" unfolding sameShape_def by blast
  with Equal_decides [of twinHeap sorted_list_of_set "tableAt 0" "tableAt 1" 5] wf_twinHeap show ?thesis
    by (simp add: listing_def okRef_def tableAt_def)
qed

section \<open>Union and intersection of cyclic types\<close>

lemma union_twin: "unionStructuralTypes fuel ord (Some 0) (Some 1) twinHeap = None"
proof (induction fuel)
  case (Suc fuel)
  have "structs twinHeap 0 = Some (selfMeta 0)" "structs twinHeap 1 = Some (selfMeta 1)" by (simp_all add: twinHeap_def)
  with Suc show ?case by (simp add: selfMeta_def)
qed simp

lemma intersect_twin: "intersectStructuralTypes fuel ord (Some 0) (Some 1) twinHeap = None"
proof (induction fuel)
  case (Suc fuel)
  have "structs twinHeap 0 = Some (selfMeta 0)" "structs twinHeap 1 = Some (selfMeta 1)" by (simp_all add: twinHeap_def)
  with Suc show ?case by (simp add: selfMeta_def)
qed simp

text \<open>
  Unlike \<open>Equal\<close> and the copy, \<open>Union\<close> and \<open>Intersect\<close> do not record the structures they
  are working on: on two tables that are each their own metatable, a heap without dangling pointers on
  which \<open>Equal\<close> returns, neither returns within any recursion depth.
\<close>

lemma Union_cyclic_diverges:
  "wf_heap twinHeap \<and> (\<exists>b. Equal 5 sorted_list_of_set twinHeap (tableAt 0) (tableAt 1) = Some b) \<and>
   Union fuel ord (tableAt 0) (tableAt 1) twinHeap = None \<and> Intersect fuel ord (tableAt 0) (tableAt 1) twinHeap = None"
proof -
  have "\<exists>b. Equal 5 sorted_list_of_set twinHeap (tableAt 0) (tableAt 1) = Some b"
    using eq_total.rec_total [of twinHeap "Some 0" "Some 1" "{}" 5 sorted_list_of_set] wf_twinHeap
    by (auto simp: regularHeap_def okRef_def Equal_def tableAt_def unseen_def card_cartesian_product)
  then show ?thesis
    using wf_twinHeap(1) union_twin intersect_twin
    by (simp add: Union_def Intersect_def unionType_def intersectType_def tableAt_def)
qed

end
