(* ===== verification/Format.thy ===== *)
theory Format
  imports Lexer Positions
begin

text \<open>
  The source formatter of the language server (\<open>src/lsp/format.go\<close>): the decisions about new
  lines, blanks and indentation on the token stream, the loop of \<open>Format\<close> that turns them into
  text edits, and the two request handlers. The Go scope stack is a list whose top is the last
  element; \<open>None\<close> is a run-time panic, as everywhere in the development. Indices that Go
  initialises with \<open>-1\<close> are \<open>nat option\<close>.
\<close>

section \<open>Options, scopes and statement kinds\<close>

record Formatter =
  IndentSize :: int
  UseTabs :: bool
  Opinionated :: bool

definition minFormatTabSize :: int where "minFormatTabSize = 1"
definition maxFormatTabSize :: int where "maxFormatTabSize = 16"

record FormattingOptions =
  TabSize :: int
  InsertSpaces :: bool

definition validateFormattingOptions :: "FormattingOptions \<Rightarrow> string option" where
  "validateFormattingOptions options =
     (if TabSize options < minFormatTabSize \<or> maxFormatTabSize < TabSize options
      then Some ''tabSize must be between 1 and 16'' else None)"

definition NewFormatter :: "int \<Rightarrow> bool \<Rightarrow> bool \<Rightarrow> Formatter" where
  "NewFormatter indentSize useTabs opinionated =
     \<lparr>IndentSize = indentSize, UseTabs = useTabs, Opinionated = opinionated\<rparr>"

datatype ScopeKind = ScopeBlock | ScopeParen | ScopeBrace | ScopeBrack

record FormatScope =
  fsKind :: ScopeKind
  BaseIndent :: nat
  InnerIndent :: nat
  IsComplex :: bool
  LineIdx :: nat

datatype StmtKind =
  StmtUnknown | StmtLocal | StmtAssign | StmtCall | StmtControl | StmtFunction | StmtReturn

section \<open>Questions about token kinds\<close>

definition isKeyword :: "Kind \<Rightarrow> bool" where
  "isKeyword k \<longleftrightarrow> kind_code TAnd \<le> kind_code k \<and> kind_code k \<le> kind_code TWhile"

definition isWord :: "Kind \<Rightarrow> bool" where
  "isWord k \<longleftrightarrow> isKeyword k \<or> k \<in> {TIdent, TNumber, TString, TBacktickString}"

definition isOperator :: "Kind \<Rightarrow> bool" where
  "isOperator k \<longleftrightarrow> kind_code TPlus \<le> kind_code k \<and> kind_code k \<le> kind_code TAssign"

definition isExprEnd :: "Kind \<Rightarrow> bool" where
  "isExprEnd k \<longleftrightarrow> k \<in> {TIdent, TNumber, TString, TBacktickString, TRParen, TRBrack, TRBrace,
     TTrue, TFalse, TNil, TVararg, TEnd}"

definition topKind :: "FormatScope list \<Rightarrow> ScopeKind option" where
  "topKind stack = (if stack = [] then None else Some (fsKind (last stack)))"

definition needsNewline :: "Kind \<Rightarrow> Kind \<Rightarrow> FormatScope list \<Rightarrow> bool" where
  "needsNewline left right stack \<longleftrightarrow>
     (if left = TIllegal \<or> left = TEOF \<or> right = TIllegal \<or> right = TEOF then False
      else if stack \<noteq> [] \<and> fsKind (last stack) = ScopeBrace \<and> IsComplex (last stack) \<and>
              (left = TLBrace \<or> left = TComma \<or> right = TRBrace) then True
      else if right \<in> {TLocal, TIf, TWhile, TFor, TRepeat, TBreak, TReturn, TGoto, TDoubleColon}
      then True
      else if right \<in> {TEnd, TElseIf, TElse, TUntil} then True
      else if left \<in> {TDo, TThen, TElse, TRepeat} then True
      else if left = TSemicolon \<and> topKind stack \<noteq> Some ScopeBrace then True
      else isExprEnd left \<and> (right = TIdent \<or> right = TFunction))"

definition needsSpace :: "Kind \<Rightarrow> Kind \<Rightarrow> Kind \<Rightarrow> bool" where
  "needsSpace left right leftOfLeft \<longleftrightarrow>
     (if left = TIllegal \<or> left = TEOF \<or> right = TIllegal \<or> right = TEOF then False
      else if left = TComment \<or> right = TComment then True
      else if right = TComma \<or> right = TSemicolon \<or> right = TColon then False
      else if left = TDot \<or> right = TDot \<or> left = TDoubleColon \<or> right = TDoubleColon \<or> left = TColon
      then False
      else if left = TLParen \<or> right = TRParen \<or> left = TLBrack \<or> right = TRBrack then False
      else if right \<in> {TLParen, TLBrace, TString, TBacktickString} \<and>
              left \<in> {TIdent, TRParen, TRBrack, TRBrace, TString, TBacktickString, TEnd} then False
      else if left = TLBrace \<or> right = TRBrace then False
      else if isWord left \<and> isWord right then True
      else if isKeyword left
      then \<not> (left = TFunction \<and> (right = TLParen \<or> right = TDot \<or> right = TColon))
      else if isKeyword right then True
      else if left = TComma \<or> left = TSemicolon then True
      else if left = THash then False
      else if (left = TMinus \<or> left = TBitXor) \<and> \<not> isExprEnd leftOfLeft then False
      else isOperator left \<or> isOperator right)"

definition isStatementStart :: "Kind \<Rightarrow> bool" where
  "isStatementStart prev \<longleftrightarrow>
     (if prev = TIllegal \<or> prev = TSemicolon then True
      else if prev \<in> {TDo, TThen, TElse, TRepeat} then True
      else isExprEnd prev)"

definition wantsBlankLine :: "StmtKind \<Rightarrow> StmtKind \<Rightarrow> bool" where
  "wantsBlankLine prev cur \<longleftrightarrow>
     (if prev = StmtUnknown \<or> cur = StmtUnknown then False
      else if (prev = StmtLocal \<or> prev = StmtAssign) \<and> (cur = StmtLocal \<or> cur = StmtAssign) then False
      else if prev = StmtCall \<and> cur = StmtCall then False
      else True)"

section \<open>Questions about the token stream\<close>

definition isKeywordAsIdentifier :: "Token list \<Rightarrow> nat \<Rightarrow> bool" where
  "isKeywordAsIdentifier tokens i \<longleftrightarrow>
     (if \<not> isKeyword (tkKind (tokens ! i)) then False
      else if 0 < i \<and> (tkKind (tokens ! (i - 1)) = TDot \<or> tkKind (tokens ! (i - 1)) = TColon) then True
      else if i + 1 < length tokens \<and> tkKind (tokens ! (i + 1)) = TAssign then True
      else False)"

text \<open>The kinds that close and that open a scope, as the two switches of the code list them.\<close>

definition closers :: "Kind set" where
  "closers = {TEnd, TUntil, TElseIf, TElse, TRBrace, TRParen, TRBrack}"

definition openers :: "Kind set" where
  "openers = {TDo, TThen, TRepeat, TFunction, TElse, TLBrace, TLParen, TLBrack}"

text \<open>The scan of one output line in \<open>calculateLineIndent\<close>: the least depth that is reached.\<close>

function depthScan ::
  "FormatScope list \<Rightarrow> Token list \<Rightarrow> nat \<Rightarrow> bytes \<Rightarrow> nat \<Rightarrow> int \<Rightarrow> int \<Rightarrow> int option" where
  "depthScan stack tokens startIndex source i currentDepth minDepth =
     (if i < length tokens
      then do {
        let t = tokens ! i;
        stop \<leftarrow> (if startIndex < i
                then do {
                  let prev = tokens ! (i - 1);
                  gap \<leftarrow> slice_opt source (tkEnd prev) (tkStart t);
                  Some (newline \<in> set gap \<or> needsNewline (tkKind prev) (tkKind t) stack)
                }
                else Some False);
        if stop then Some minDepth
        else if tkKind t = TComment
        then depthScan stack tokens startIndex source (i + 1) currentDepth minDepth
        else let asIdent = isKeywordAsIdentifier tokens i;
                 closed = (if tkKind t \<in> closers \<and> \<not> asIdent then currentDepth - 1 else currentDepth);
                 low = (if tkKind t \<in> closers \<and> \<not> asIdent \<and> closed < minDepth then closed else minDepth);
                 opened = (if tkKind t \<in> openers \<and> \<not> asIdent then closed + 1 else closed)
             in depthScan stack tokens startIndex source (i + 1) opened low
      }
      else Some minDepth)"
  by pat_completeness auto
termination
  by (relation "measure (\<lambda>(stack, tokens, startIndex, source, i, cd, md). length tokens - i)") auto

text \<open>The last token before index \<open>i\<close> that is not a comment.\<close>

primrec lastNonComment :: "Token list \<Rightarrow> nat \<Rightarrow> nat option" where
  "lastNonComment tokens 0 = None"
| "lastNonComment tokens (Suc i) =
     (if tkKind (tokens ! i) = TComment then lastNonComment tokens i else Some i)"

definition isContinuation :: "Kind \<Rightarrow> Kind \<Rightarrow> bool \<Rightarrow> bool" where
  "isContinuation prevK currK isBlock \<longleftrightarrow>
     (if isOperator prevK \<or> prevK = TAnd \<or> prevK = TOr \<or> prevK = TNot \<or> prevK = TConcat then True
      else if prevK = TReturn \<or> prevK = TLocal then True
      else if prevK = TComma \<and> isBlock then True
      else if (kind_code TPlus \<le> kind_code currK \<and> kind_code currK \<le> kind_code TGreaterEq)
              \<or> currK = TAnd \<or> currK = TOr \<or> currK = TConcat
      then currK \<noteq> TMinus \<and> currK \<noteq> THash \<and> currK \<noteq> TNot \<and> currK \<noteq> TBitXor
      else currK = TDot \<or> currK = TColon)"

definition calculateLineIndent ::
  "FormatScope list \<Rightarrow> Token list \<Rightarrow> nat \<Rightarrow> bytes \<Rightarrow> nat option" where
  "calculateLineIndent stack tokens startIndex source = do {
     let indent = (if stack \<noteq> [] then InnerIndent (last stack) else 0);
     minDepth \<leftarrow> depthScan stack tokens startIndex source startIndex (int (length stack)) (int (length stack));
     if minDepth < int (length stack)
     then do {
       let minDepth = (if minDepth < 0 then 0 else minDepth);
       scope \<leftarrow> nth_opt stack (nat minDepth);
       Some (BaseIndent scope)
     }
     else let isBlock = (stack = [] \<or> fsKind (last stack) = ScopeBlock)
          in (case lastNonComment tokens startIndex of
                None \<Rightarrow> Some indent
              | Some p \<Rightarrow>
                  Some (if isContinuation (tkKind (tokens ! p)) (tkKind (tokens ! startIndex)) isBlock
                        then indent + 1 else indent))
   }"

function complexScan :: "Token list \<Rightarrow> nat \<Rightarrow> int \<Rightarrow> bool" where
  "complexScan tokens i depth =
     (if i < length tokens
      then let k = tkKind (tokens ! i)
           in if k = TLBrace then complexScan tokens (i + 1) (depth + 1)
              else if k = TRBrace
              then (if depth - 1 = 0 then False else complexScan tokens (i + 1) (depth - 1))
              else if k \<in> {TFunction, TIf, TFor, TWhile} \<and> depth = 1 then True
              else complexScan tokens (i + 1) depth
      else False)"
  by pat_completeness auto
termination
  by (relation "measure (\<lambda>(tokens, i, depth). length tokens - i)") auto

definition isComplexTable :: "Token list \<Rightarrow> nat \<Rightarrow> bool" where
  "isComplexTable tokens startIndex = complexScan tokens (startIndex + 1) 1"

text \<open>The first token from \<open>j\<close> on that is not a comment.\<close>

function nextNonComment :: "Token list \<Rightarrow> nat \<Rightarrow> nat option" where
  "nextNonComment tokens j =
     (if j < length tokens
      then if tkKind (tokens ! j) \<noteq> TComment then Some j else nextNonComment tokens (j + 1)
      else None)"
  by pat_completeness auto
termination
  by (relation "measure (\<lambda>(tokens, j). length tokens - j)") auto

function stmtScan :: "Token list \<Rightarrow> nat \<Rightarrow> nat \<Rightarrow> int \<Rightarrow> StmtKind" where
  "stmtScan tokens startIndex j depth =
     (if j < length tokens
      then let k = tkKind (tokens ! j)
           in if k = TLParen \<or> k = TLBrace \<or> k = TLBrack
              then stmtScan tokens startIndex (j + 1) (depth + 1)
              else if k = TRParen \<or> k = TRBrace \<or> k = TRBrack
              then stmtScan tokens startIndex (j + 1) (depth - 1)
              else if depth = 0
              then if k = TAssign \<or> k = TComma then StmtAssign
                   else if k \<in> {TDo, TThen, TElse, TElseIf, TEnd, TUntil, TSemicolon, TIf, TFor,
                                TWhile, TRepeat, TBreak, TGoto, TDoubleColon, TLocal, TReturn,
                                TFunction} then StmtCall
                   else if startIndex < j \<and> isExprEnd (tkKind (tokens ! (j - 1))) \<and> k = TIdent
                   then StmtCall
                   else stmtScan tokens startIndex (j + 1) depth
              else stmtScan tokens startIndex (j + 1) depth
      else StmtCall)"
  by pat_completeness auto
termination
  by (relation "measure (\<lambda>(tokens, startIndex, j, depth). length tokens - j)") auto

definition getStmtKind :: "Token list \<Rightarrow> nat \<Rightarrow> StmtKind" where
  "getStmtKind tokens startIndex =
     (let k = tkKind (tokens ! startIndex)
      in if k = TLocal
         then (case nextNonComment tokens (startIndex + 1) of
                 Some j \<Rightarrow> if tkKind (tokens ! j) = TFunction then StmtFunction else StmtLocal
               | None \<Rightarrow> StmtLocal)
         else if k \<in> {TIf, TFor, TWhile, TRepeat, TBreak, TGoto, TDoubleColon, TDo} then StmtControl
         else if k = TFunction then StmtFunction
         else if k = TReturn then StmtReturn
         else if k = TIdent \<or> k = TLParen then stmtScan tokens startIndex startIndex 0
         else StmtUnknown)"

text \<open>
  \<open>isFunctionSignatureEnd\<close> walks back to the matching parenthesis; \<open>signatureHead\<close> is its inner
  loop over the tokens before it. When the inner loop runs off the front of the list, the outer
  loop goes on, which \<open>None\<close> stands for.
\<close>

primrec signatureHead :: "Token list \<Rightarrow> nat \<Rightarrow> bool option" where
  "signatureHead tokens 0 = None"
| "signatureHead tokens (Suc j) =
     (let k2 = tkKind (tokens ! j)
      in if k2 = TComment then signatureHead tokens j
         else if k2 = TFunction then Some True
         else if k2 = TIdent \<or> k2 = TDot \<or> k2 = TColon then signatureHead tokens j
         else Some False)"

primrec signatureScan :: "Token list \<Rightarrow> nat \<Rightarrow> int \<Rightarrow> bool" where
  "signatureScan tokens 0 depth = False"
| "signatureScan tokens (Suc i) depth =
     (let k = tkKind (tokens ! i)
      in if k = TRParen then signatureScan tokens i (depth + 1)
         else if k = TLParen
         then (if depth - 1 = 0
               then (case signatureHead tokens i of
                       Some r \<Rightarrow> r
                     | None \<Rightarrow> signatureScan tokens i (depth - 1))
               else signatureScan tokens i (depth - 1))
         else signatureScan tokens i depth)"

definition isFunctionSignatureEnd :: "Token list \<Rightarrow> nat \<Rightarrow> bool" where
  "isFunctionSignatureEnd tokens rParenIdx = signatureScan tokens (Suc rParenIdx) 0"

section \<open>The loop\<close>

text \<open>
  The local variables of \<open>Format\<close>. A pending edit is the pair of byte offsets of the replaced
  gap with the new text; \<open>Format\<close> converts the offsets with \<open>getRange\<close> when it delivers them.
  The zero token stands for no token: its kind is the number 0, which is \<open>TIllegal\<close>.
\<close>

type_synonym GapEdit = "nat \<times> nat \<times> bytes"

record FormatState =
  fmStack :: "FormatScope list"
  fmIsLineStart :: bool
  fmPrevTok :: Token
  fmPrevNonCommentTok :: Token
  fmPrevNonCommentIdx :: "nat option"
  fmPrevPrev :: Kind
  fmLineIdx :: nat
  fmLastStmtKind :: StmtKind
  fmCurrentLineIndent :: nat
  fmEdits :: "GapEdit list"

definition noToken :: Token where
  "noToken = \<lparr>tkKind = TIllegal, tkStart = 0, tkEnd = 0\<rparr>"

definition initFormat :: FormatState where
  "initFormat =
     \<lparr>fmStack = [], fmIsLineStart = True, fmPrevTok = noToken, fmPrevNonCommentTok = noToken,
      fmPrevNonCommentIdx = None, fmPrevPrev = TIllegal, fmLineIdx = 0,
      fmLastStmtKind = StmtUnknown, fmCurrentLineIndent = 0, fmEdits = []\<rparr>"

text \<open>The loop that reads all tokens; every call of \<open>Next\<close> that does not end it consumes a byte.\<close>

fun lexTokens :: "nat \<Rightarrow> Lexer \<Rightarrow> Token list option" where
  "lexTokens 0 l = None"
| "lexTokens (Suc fuel) l = do {
     (t, l) \<leftarrow> Next l;
     if tkKind t = TEOF then Some []
     else do { ts \<leftarrow> lexTokens fuel l; Some (t # ts) }
   }"

definition countNewlines :: "bytes \<Rightarrow> nat" where
  "countNewlines gap = count_list gap newline"

text \<open>\<open>bytes.Repeat\<close> panics on a negative count.\<close>

definition Repeat :: "byte \<Rightarrow> int \<Rightarrow> bytes option" where
  "Repeat b n = (if n < 0 then None else Some (replicate (nat n) b))"

definition skipSemicolon ::
  "Formatter \<Rightarrow> bytes \<Rightarrow> Token list \<Rightarrow> nat \<Rightarrow> FormatScope list \<Rightarrow> bool option" where
  "skipSemicolon f source tokens i stack =
     (let t = tokens ! i
      in if Opinionated f \<and> tkKind t = TSemicolon
         then (case nextNonComment tokens (i + 1) of
                 None \<Rightarrow> Some True
               | Some j \<Rightarrow> do {
                   let n = tokens ! j;
                   gapAfter \<leftarrow> slice_opt source (tkEnd t) (tkStart n);
                   Some ((newline \<in> set gapAfter \<or> needsNewline (tkKind t) (tkKind n) stack) \<and>
                         tkKind n \<noteq> TLParen \<and> tkKind n \<noteq> TLBrack)
                 })
         else Some False)"

text \<open>
  The statement a comment at index \<open>i\<close> belongs to: the first other token, unless a blank line
  comes before it. The search starts with \<open>j = i + 1\<close>.
\<close>

function commentTarget :: "bytes \<Rightarrow> Token list \<Rightarrow> nat \<Rightarrow> (bool \<times> nat option) option" where
  "commentTarget source tokens j =
     (if j < length tokens
      then do {
        gapAfter \<leftarrow> slice_opt source (tkEnd (tokens ! (j - 1))) (tkStart (tokens ! j));
        if 1 < countNewlines gapAfter then Some (False, None)
        else if tkKind (tokens ! j) \<noteq> TComment then Some (True, Some j)
        else commentTarget source tokens (j + 1)
      }
      else Some (True, None))"
  by pat_completeness auto
termination
  by (relation "measure (\<lambda>(source, tokens, j). length tokens - j)") auto

definition groupTarget :: "bytes \<Rightarrow> Token list \<Rightarrow> nat \<Rightarrow> Token \<Rightarrow> bytes \<Rightarrow> (bool \<times> nat option) option" where
  "groupTarget source tokens i prevTok gap =
     (if tkKind prevTok \<noteq> TComment \<or> 1 < countNewlines gap
      then if tkKind (tokens ! i) \<noteq> TComment then Some (True, Some i)
           else do {
             (contiguous, target) \<leftarrow> commentTarget source tokens (i + 1);
             Some (contiguous \<and> target \<noteq> None, target)
           }
      else Some (False, None))"

text \<open>The blank line between unrelated statements: new values of \<open>nl\<close>, \<open>forceNl\<close>, \<open>lastStmtKind\<close>.\<close>

definition stmtSpacing ::
  "Formatter \<Rightarrow> bytes \<Rightarrow> Token list \<Rightarrow> nat \<Rightarrow> bytes \<Rightarrow> nat \<Rightarrow> bool \<Rightarrow> FormatState
     \<Rightarrow> (nat \<times> bool \<times> StmtKind) option" where
  "stmtSpacing f source tokens i gap nl forceNl s =
     (let stack = fmStack s;
          last_kind = fmLastStmtKind s;
          unchanged = (nl, forceNl, last_kind)
      in if Opinionated f \<and> (stack = [] \<or> fsKind (last stack) = ScopeBlock) \<and> (0 < nl \<or> forceNl \<or> i = 0)
         then do {
           (isFirstOfGroup, target) \<leftarrow> groupTarget source tokens i (fmPrevTok s) gap;
           Some (case target of
               None \<Rightarrow> unchanged
             | Some targetStmtIdx \<Rightarrow>
                 if isFirstOfGroup
                 then let prevStmtEnd = (case fmPrevNonCommentIdx s of
                                           None \<Rightarrow> TIllegal
                                         | Some p \<Rightarrow> tkKind (tokens ! p));
                          currStmtKind = getStmtKind tokens targetStmtIdx
                      in if isStatementStart prevStmtEnd \<and> currStmtKind \<noteq> StmtUnknown
                         then if wantsBlankLine last_kind currStmtKind
                              then let afterOpener =
                                         (prevStmtEnd \<in> {TDo, TThen, TRepeat, TElse, TElseIf, TLBrace} \<or>
                                          (prevStmtEnd = TRParen \<and>
                                           (case fmPrevNonCommentIdx s of
                                              None \<Rightarrow> False
                                            | Some p \<Rightarrow> isFunctionSignatureEnd tokens p)));
                                       beforeCloser =
                                         (tkKind (tokens ! targetStmtIdx) \<in> {TEnd, TUntil, TElseIf, TElse})
                                   in if \<not> afterOpener \<and> \<not> beforeCloser \<and> nl < 2
                                      then (2, True, currStmtKind)
                                      else (nl, forceNl, currStmtKind)
                              else (nl, forceNl, currStmtKind)
                         else unchanged
                 else unchanged)
         }
         else Some unchanged)"

definition popFormatScope :: "ScopeKind \<Rightarrow> FormatScope list \<Rightarrow> FormatScope list" where
  "popFormatScope kind stack =
     (let js = filter (\<lambda>j. fsKind (stack ! j) = kind) [0..<length stack]
      in if js = [] then stack else take (last js) stack)"

text \<open>The two switches at the end of an iteration: closing and opening scopes.\<close>

definition closeScopes :: "Token list \<Rightarrow> nat \<Rightarrow> FormatScope list \<Rightarrow> FormatScope list" where
  "closeScopes tokens i stack =
     (let k = tkKind (tokens ! i)
      in if k \<in> {TEnd, TUntil, TElseIf, TElse}
         then (if isKeywordAsIdentifier tokens i then stack else popFormatScope ScopeBlock stack)
         else if k = TRBrace then popFormatScope ScopeBrace stack
         else if k = TRParen then popFormatScope ScopeParen stack
         else if k = TRBrack then popFormatScope ScopeBrack stack
         else stack)"

definition pushFormatScope :: "nat \<Rightarrow> nat \<Rightarrow> ScopeKind \<Rightarrow> bool \<Rightarrow> FormatScope list \<Rightarrow> FormatScope list" where
  "pushFormatScope indent line kind complex stack =
     stack @ [\<lparr>fsKind = kind, BaseIndent = indent, InnerIndent = indent + 1, IsComplex = complex,
               LineIdx = line\<rparr>]"

definition openScopes :: "Token list \<Rightarrow> nat \<Rightarrow> nat \<Rightarrow> nat \<Rightarrow> FormatScope list \<Rightarrow> FormatScope list" where
  "openScopes tokens i indent line stack =
     (let k = tkKind (tokens ! i)
      in if k \<in> {TDo, TThen, TRepeat, TFunction, TElse}
         then (if isKeywordAsIdentifier tokens i then stack
               else pushFormatScope indent line ScopeBlock False stack)
         else if k = TLBrace then pushFormatScope indent line ScopeBrace (isComplexTable tokens i) stack
         else if k = TLParen then pushFormatScope indent line ScopeParen False stack
         else if k = TLBrack then pushFormatScope indent line ScopeBrack False stack
         else stack)"

text \<open>
  The new text of a gap: line breaks, then the indentation of a line that starts, or the blank
  between two tokens of a line. The result is the text, \<open>lineIdx\<close> and \<open>currentLineIndent\<close>.
\<close>

definition buildGap ::
  "Formatter \<Rightarrow> bytes \<Rightarrow> Token list \<Rightarrow> nat \<Rightarrow> bytes \<Rightarrow> nat \<Rightarrow> bool \<Rightarrow> FormatState
     \<Rightarrow> (bytes \<times> nat \<times> nat) option" where
  "buildGap f source tokens i gap nl forceNl s =
     (let t = tokens ! i;
          prevTok = fmPrevTok s;
          breaks = (if 0 < nl \<or> forceNl
                    then (if forceNl \<and> nl = 0 then 1 else min nl 2) else 0)
      in if fmIsLineStart s \<or> 0 < breaks
         then do {
           indent \<leftarrow> calculateLineIndent (fmStack s) tokens i source;
           blanks \<leftarrow> (if 0 < indent
                     then if UseTabs f then Repeat (CHR 0x09) (int indent)
                          else Repeat (CHR '' '') (int indent * IndentSize f)
                     else Some []);
           Some (replicate breaks newline @ blanks, fmLineIdx s + breaks, indent)
         }
         else Some (if tkKind prevTok \<noteq> TIllegal \<and>
                       (needsSpace (tkKind prevTok) (tkKind t) (fmPrevPrev s) \<or>
                        ((tkKind prevTok = TLBrace \<or> tkKind t = TRBrace) \<and> CHR '' '' \<in> set gap))
                    then '' '' else [],
                    fmLineIdx s, fmCurrentLineIndent s))"

definition inFormatRange :: "(nat \<times> nat) option \<Rightarrow> nat \<Rightarrow> nat \<Rightarrow> bool" where
  "inFormatRange rng gapStart gapEnd \<longleftrightarrow>
     (case rng of None \<Rightarrow> True
      | Some (rangeStart, rangeEnd) \<Rightarrow> \<not> (gapEnd < rangeStart \<or> rangeEnd < gapStart))"

definition addEdit ::
  "bytes \<Rightarrow> (nat \<times> nat) option \<Rightarrow> nat \<Rightarrow> nat \<Rightarrow> bytes \<Rightarrow> GapEdit list \<Rightarrow> GapEdit list option" where
  "addEdit source rng gapStart gapEnd newGap edits = do {
     origGap \<leftarrow> slice_opt source gapStart gapEnd;
     Some (if origGap \<noteq> newGap \<and> inFormatRange rng gapStart gapEnd
           then edits @ [(gapStart, gapEnd, newGap)] else edits)
   }"

text \<open>One iteration of the loop of \<open>Format\<close>.\<close>

definition formatStep ::
  "Formatter \<Rightarrow> bytes \<Rightarrow> Token list \<Rightarrow> (nat \<times> nat) option \<Rightarrow> nat \<Rightarrow> FormatState \<Rightarrow> FormatState option" where
  "formatStep f source tokens rng i s = do {
     let t = tokens ! i;
     let prevTok = fmPrevTok s;
     let started = (tkKind prevTok \<noteq> TIllegal);
     gap \<leftarrow> (if started then slice_opt source (tkEnd prevTok) (tkStart t) else Some []);
     let nl = (if started then countNewlines gap else 0);
     let forceNl = (nl = 0 \<and> started \<and>
                    needsNewline (tkKind (fmPrevNonCommentTok s)) (tkKind t) (fmStack s));
     skip \<leftarrow> skipSemicolon f source tokens i (fmStack s);
     if skip then Some s
     else do {
       (nl, forceNl, lastStmtKind) \<leftarrow> stmtSpacing f source tokens i gap nl forceNl s;
       (newGap, lineIdx, indent) \<leftarrow> buildGap f source tokens i gap nl forceNl s;
       edits \<leftarrow> addEdit source rng (if started then tkEnd prevTok else 0) (tkStart t) newGap (fmEdits s);
       let stack = openScopes tokens i indent lineIdx (closeScopes tokens i (fmStack s));
       Some \<lparr>fmStack = stack,
             fmIsLineStart = False,
             fmPrevTok = t,
             fmPrevNonCommentTok = (if tkKind t \<noteq> TComment then t else fmPrevNonCommentTok s),
             fmPrevNonCommentIdx = (if tkKind t \<noteq> TComment then Some i else fmPrevNonCommentIdx s),
             fmPrevPrev = (if tkKind t \<noteq> TComment then tkKind (fmPrevNonCommentTok s) else fmPrevPrev s),
             fmLineIdx = lineIdx,
             fmLastStmtKind = lastStmtKind,
             fmCurrentLineIndent = indent,
             fmEdits = edits\<rparr>
     }
   }"

definition formatGaps :: "Formatter \<Rightarrow> bytes \<Rightarrow> (nat \<times> nat) option \<Rightarrow> GapEdit list option" where
  "formatGaps f source rng = do {
     tokens \<leftarrow> lexTokens (length source + 1) (Lexer_New source);
     s \<leftarrow> forM [0..<length tokens] (formatStep f source tokens rng) initFormat;
     addEdit source rng (if tokens \<noteq> [] then tkEnd (fmPrevTok s) else 0) (length source)
       (if tokens \<noteq> [] then [newline] else []) (fmEdits s)
   }"

section \<open>Text edits and requests\<close>

record TextEdit =
  teNewText :: bytes
  teRange :: Range

definition textEdit :: "Tree \<Rightarrow> GapEdit \<Rightarrow> TextEdit option" where
  "textEdit tree = (\<lambda>(gapStart, gapEnd, newGap). do {
     r \<leftarrow> getRange tree gapStart gapEnd;
     Some \<lparr>teNewText = newGap, teRange = r\<rparr>
   })"

definition Format :: "Formatter \<Rightarrow> Tree \<Rightarrow> Range option \<Rightarrow> TextEdit list option" where
  "Format f tree formatRange = do {
     rng \<leftarrow> (case formatRange of
                None \<Rightarrow> Some None
              | Some r \<Rightarrow> do {
                  rangeStart \<leftarrow> Offset tree (fst (rgStart r)) (snd (rgStart r));
                  rangeEnd \<leftarrow> Offset tree (fst (rgEnd r)) (snd (rgEnd r));
                  Some (Some (rangeStart, rangeEnd))
                });
     gaps \<leftarrow> formatGaps f (Source tree) rng;
     those (map (textEdit tree) gaps)
   }"

text \<open>
  \<open>formatDocument\<close> looks the document up, and a reply to the two requests is \<open>null\<close>, an
  invalid-parameters error (code -32602) or the edits; a request whose parameters do not decode
  (\<open>None\<close>) gets no reply.
\<close>

definition formatDocument ::
  "(string \<Rightarrow> Tree option) \<Rightarrow> bool \<Rightarrow> string \<Rightarrow> FormattingOptions \<Rightarrow> Range option \<Rightarrow> TextEdit list option" where
  "formatDocument documents opinionated uri options formatRange =
     (case documents uri of
        None \<Rightarrow> Some []
      | Some tree \<Rightarrow>
          if validateFormattingOptions options \<noteq> None then Some []
          else Format (NewFormatter (TabSize options) (\<not> InsertSpaces options) opinionated) tree formatRange)"

datatype FormatReply = NoReply | NullReply | ErrorReply int string | EditsReply "TextEdit list"

definition formatRequest ::
  "bool \<Rightarrow> (string \<Rightarrow> Tree option) \<Rightarrow> bool \<Rightarrow> (string \<Rightarrow> string)
     \<Rightarrow> (string \<times> FormattingOptions \<times> Range option) option \<Rightarrow> FormatReply option" where
  "formatRequest featureFormatting documents opinionated normalizeURI params =
     (if \<not> featureFormatting then Some NullReply
      else (case params of
              None \<Rightarrow> Some NoReply
            | Some (uri, options, formatRange) \<Rightarrow>
                (case validateFormattingOptions options of
                   Some err \<Rightarrow> Some (ErrorReply (-32602) err)
                 | None \<Rightarrow> do {
                     changes \<leftarrow> formatDocument documents opinionated (normalizeURI uri) options formatRange;
                     Some (EditsReply changes)
                   })))"

definition handleFormatting ::
  "bool \<Rightarrow> (string \<Rightarrow> Tree option) \<Rightarrow> bool \<Rightarrow> (string \<Rightarrow> string)
     \<Rightarrow> (string \<times> FormattingOptions) option \<Rightarrow> FormatReply option" where
  "handleFormatting featureFormatting documents opinionated normalizeURI params =
     formatRequest featureFormatting documents opinionated normalizeURI
       (map_option (\<lambda>(uri, options). (uri, options, None)) params)"

definition handleRangeFormatting ::
  "bool \<Rightarrow> (string \<Rightarrow> Tree option) \<Rightarrow> bool \<Rightarrow> (string \<Rightarrow> string)
     \<Rightarrow> (string \<times> FormattingOptions \<times> Range) option \<Rightarrow> FormatReply option" where
  "handleRangeFormatting featureFormatting documents opinionated normalizeURI params =
     formatRequest featureFormatting documents opinionated normalizeURI
       (map_option (\<lambda>(uri, options, r). (uri, options, Some r)) params)"

end
