(* ===== verification/Format_Correct.thy ===== *)
theory Format_Correct
  imports Format
begin

text \<open>
  What the formatter does to a document. The edits are read the way an editor applies them
  (\<open>applyEdits\<close>), and compared with the tokens of the source: for a document whose scopes are
  well nested, that has no illegal token and no zero byte, formatting does not panic and changes
  white space only (in the opinionated mode it also removes semicolons). Range formatting
  delivers the edits of full formatting that touch the range.
\<close>

declare depthScan.simps [simp del] nextNonComment.simps [simp del] commentTarget.simps [simp del]
  complexScan.simps [simp del] stmtScan.simps [simp del]

section \<open>The token list\<close>

lemma lexTokens_run:
  assumes "lex_run l ts l'" "Next l' = Some (eof, l'')" "tkKind eof = TEOF" "length ts < fuel"
  shows "lexTokens fuel l = Some ts"
  using assms
proof (induction arbitrary: fuel rule: lex_run.induct)
  case (stop l)
  then show ?case by (cases fuel) auto
next
  case (step l t l' ts l'')
  then show ?case by (cases fuel) auto
qed

definition bom :: bytes where
  "bom = [CHR 0xEF, CHR 0xBB, CHR 0xBF]"

text \<open>
  The tokens of a source: after a byte order mark they tile it, and what follows the last one is white space up to the
  end of the text or to a zero byte.
\<close>

definition lexed :: "bytes \<Rightarrow> Token list \<Rightarrow> bool" where
  "lexed source tokens \<longleftrightarrow>
     (\<exists>i j k. i \<le> length source \<and> (i = 0 \<or> prefix bom source) \<and>
        tiling source i tokens j \<and> j \<le> k \<and> k \<le> length source \<and>
        list_all isSpace (slice source j k) \<and> (k = length source \<or> source ! k = nul))"

lemma lexTokens_lexed:
  "\<exists>tokens. lexTokens (length source + 1) (Lexer_New source) = Some tokens \<and> lexed source tokens"
proof -
  let ?bom = "length source \<ge> 3 \<and> source ! 0 = CHR 0xEF \<and> source ! 1 = CHR 0xBB \<and> source ! 2 = CHR 0xBF"
  let ?i = "if ?bom then 3 else (0::nat)"
  have "take 3 source = bom" if ?bom
    using that by (auto simp: bom_def list_eq_iff_nth_eq numeral_3_eq_3 numeral_2_eq_2 nth_Cons' less_Suc_eq)
  then have "prefix bom source" if ?bom
    using that take_is_prefix [of 3 source] by simp
  then have "?i = 0 \<or> prefix bom source"
    by (cases ?bom) (simp_all only: if_True if_False simp_thms)
  moreover have "Lexer_New source = lexAt source ?i" "?i \<le> length source"
    by (auto simp: Lexer_New_def Lexer_Reset_def lexAt_def advance_def)
  ultimately obtain i where i: "i \<le> length source" "Lexer_New source = lexAt source i" "i = 0 \<or> prefix bom source"
    by blast
  obtain ts j t k where run: "lex_run (lexAt source i) ts (lexAt source j)" "j \<le> length source"
    "Next (lexAt source j) = Some (t, lexAt source k)" "scans source j t k" "tkKind t = TEOF"
    using lex_run_exists [OF i(1)] by blast
  obtain j' where j': "lexAt source j = lexAt source j'" "j' \<le> length source"
    "tiling source i ts j'" "length ts + i \<le> j'"
    using lex_run_tiling [OF run(1) refl i(1)] by blast
  have "j = j'"
    using j' run(2) by (auto simp: lexAt_def split: if_splits)
  have "lexTokens (length source + 1) (Lexer_New source) = Some ts"
    using j' i(2) lexTokens_run [OF run(1,3,5), of "length source + 1"] by (simp del: lexTokens.simps)
  moreover have "lexed source ts"
    unfolding lexed_def
    using run(4,5) j' i(1,3) \<open>j = j'\<close>
    by (intro exI [of _ i] exI [of _ j] exI [of _ k]) (simp add: scans_def list_all_slice)
  ultimately show ?thesis by blast
qed

lemma tiling_le: "tiling source i ts j \<Longrightarrow> i \<le> j"
  by (induction ts arbitrary: i) (auto, fastforce)

lemma tiling_nth:
  "tiling source i ts j \<Longrightarrow> n < length ts \<Longrightarrow>
     i \<le> tkStart (ts ! n) \<and> tkStart (ts ! n) < tkEnd (ts ! n) \<and> tkEnd (ts ! n) \<le> length source \<and>
     tkEnd (ts ! n) \<le> j"
proof (induction ts arbitrary: i n)
  case (Cons t ts)
  show ?case
  proof (cases n)
    case 0
    with Cons.prems tiling_le show ?thesis by auto
  next
    case (Suc m)
    with Cons.prems Cons.IH [of "tkEnd t" m] show ?thesis by auto
  qed
qed simp

lemma tiling_order:
  "tiling source i ts j \<Longrightarrow> m < n \<Longrightarrow> n < length ts \<Longrightarrow> tkEnd (ts ! m) \<le> tkStart (ts ! n)"
proof (induction ts arbitrary: i m n)
  case (Cons t ts)
  then obtain n' where n: "n = Suc n'" by (cases n) auto
  show ?case
  proof (cases m)
    case 0
    with Cons.prems n tiling_nth [of source "tkEnd t" ts j n'] show ?thesis by auto
  next
    case (Suc m')
    with Cons.prems n Cons.IH [of "tkEnd t" m' n'] show ?thesis by auto
  qed
qed simp

lemma lexed_nth:
  assumes "lexed source ts" "n < length ts"
  shows "tkStart (ts ! n) < tkEnd (ts ! n)" "tkEnd (ts ! n) \<le> length source"
  using assms tiling_nth unfolding lexed_def by blast+

lemma lexed_order:
  assumes "lexed source ts" "m < n" "n < length ts"
  shows "tkEnd (ts ! m) \<le> tkStart (ts ! n)"
  using assms tiling_order unfolding lexed_def by blast

lemma lexed_gap [simp]:
  assumes "lexed source ts" "m < n" "n < length ts"
  shows "slice_opt source (tkEnd (ts ! m)) (tkStart (ts ! n)) = Some (slice source (tkEnd (ts ! m)) (tkStart (ts ! n)))"
  using lexed_order [OF assms] lexed_nth [OF assms(1,3)] by simp

section \<open>Well-nested scopes\<close>

text \<open>
  The scopes of a token list by kind: every closing token must match the innermost open scope.
  Unclosed scopes at the end are allowed.
\<close>

definition closeKind :: "Kind \<Rightarrow> ScopeKind option" where
  "closeKind k = (if k \<in> {TEnd, TUntil, TElseIf, TElse} then Some ScopeBlock
     else if k = TRBrace then Some ScopeBrace
     else if k = TRParen then Some ScopeParen
     else if k = TRBrack then Some ScopeBrack else None)"

definition openKind :: "Kind \<Rightarrow> ScopeKind option" where
  "openKind k = (if k \<in> {TDo, TThen, TRepeat, TFunction, TElse} then Some ScopeBlock
     else if k = TLBrace then Some ScopeBrace
     else if k = TLParen then Some ScopeParen
     else if k = TLBrack then Some ScopeBrack else None)"

definition nestStep :: "Token list \<Rightarrow> nat \<Rightarrow> ScopeKind list \<Rightarrow> ScopeKind list option" where
  "nestStep tokens i ks =
     (let k = tkKind (tokens ! i)
      in if isKeywordAsIdentifier tokens i then Some ks
         else do {
           ks \<leftarrow> (case closeKind k of
                    None \<Rightarrow> Some ks
                  | Some c \<Rightarrow> if ks \<noteq> [] \<and> last ks = c then Some (butlast ks) else None);
           Some (case openKind k of None \<Rightarrow> ks | Some c \<Rightarrow> ks @ [c])
         })"

definition nested :: "Token list \<Rightarrow> bool" where
  "nested tokens \<longleftrightarrow> forM [0..<length tokens] (nestStep tokens) [] \<noteq> None"

lemma closers_closeKind: "k \<in> closers \<longleftrightarrow> closeKind k \<noteq> None"
  by (auto simp: closers_def closeKind_def)

lemma openers_openKind: "k \<in> openers \<longleftrightarrow> openKind k \<noteq> None"
  by (auto simp: openers_def openKind_def)

lemma nestStep_comment: "tkKind (tokens ! i) = TComment \<Longrightarrow> nestStep tokens i ks = Some ks"
  by (simp add: nestStep_def closeKind_def openKind_def)

text \<open>The scan of a line never reaches a negative depth on well-nested tokens.\<close>

lemma nestStep_depth:
  assumes "nestStep tokens i ks = Some ks'"
  defines "k \<equiv> tkKind (tokens ! i)" and "a \<equiv> isKeywordAsIdentifier tokens i"
  defines "closed \<equiv> if k \<in> closers \<and> \<not> a then int (length ks) - 1 else int (length ks)"
  shows "0 \<le> closed" "int (length ks') = (if k \<in> openers \<and> \<not> a then closed + 1 else closed)"
  using assms(1) unfolding nestStep_def closed_def a_def k_def closers_closeKind openers_openKind
  by (auto simp: Let_def of_nat_diff Suc_le_eq split: if_splits option.splits bind_splits)

lemma depthScan_total:
  assumes "lexed source tokens" "startIndex \<le> i"
    and "forM [i..<length tokens] (nestStep tokens) ks = Some ks'" "0 \<le> m"
  shows "\<exists>d. depthScan stack tokens startIndex source i (int (length ks)) m = Some d \<and> 0 \<le> d \<and> d \<le> m"
  using assms
proof (induction "length tokens - i" arbitrary: i ks m)
  case 0
  then show ?case by (subst depthScan.simps) simp
next
  case (Suc n)
  then have i: "i < length tokens" by simp
  with Suc.prems(3) obtain ks1 where ks1: "nestStep tokens i ks = Some ks1"
    "forM [Suc i..<length tokens] (nestStep tokens) ks1 = Some ks'"
    by (auto simp: upt_conv_Cons split: bind_splits)
  note IH = Suc.hyps(1) [of "Suc i" ks1, OF _ Suc.prems(1) _ ks1(2)]
  have gap: "startIndex < i \<Longrightarrow>
      slice_opt source (tkEnd (tokens ! (i - 1))) (tkStart (tokens ! i)) =
      Some (slice source (tkEnd (tokens ! (i - 1))) (tkStart (tokens ! i)))"
    using lexed_gap [OF Suc.prems(1), of "i - 1" i] i by simp
  have same: "tkKind (tokens ! i) = TComment \<Longrightarrow> ks1 = ks"
    using ks1(1) by (simp add: nestStep_comment)
  note d = nestStep_depth [OF ks1(1)]
  let ?closes = "tkKind (tokens ! i) \<in> closers \<and> \<not> isKeywordAsIdentifier tokens i"
  let ?closed = "if ?closes then int (length ks) - 1 else int (length ks)"
  let ?m = "if ?closes \<and> ?closed < m then ?closed else m"
  have rec: "\<exists>d. depthScan stack tokens startIndex source (Suc i) (int (length ks1)) m' = Some d \<and> 0 \<le> d \<and> d \<le> m"
    if "0 \<le> m'" "m' \<le> m" for m'
    using IH [OF _ _ that(1)] Suc.hyps(2) Suc.prems(2) that by force
  have m: "0 \<le> ?m" "?m \<le> m"
    using d(1) Suc.prems(4) by auto
  show ?case
    using i gap same rec [OF m] rec [of m] Suc.prems(4) d(2)
    by (subst depthScan.simps) (auto simp: Let_def)
qed

lemma calculateLineIndent_total:
  assumes "lexed source tokens" "forM [i..<length tokens] (nestStep tokens) (map fsKind stack) = Some ks'"
  shows "\<exists>n. calculateLineIndent stack tokens i source = Some n"
proof -
  obtain d where "depthScan stack tokens i source i (int (length stack)) (int (length stack)) = Some d"
    "0 \<le> d" "d \<le> int (length stack)"
    using depthScan_total [OF assms(1) order_refl assms(2), of "int (length stack)" stack] by auto
  then show ?thesis
    by (auto simp: calculateLineIndent_def Let_def split: option.splits)
qed

text \<open>On well-nested tokens the scope stack of the loop is the stack of open scopes.\<close>

lemma popFormatScope_top:
  assumes "stack \<noteq> []" "fsKind (last stack) = c"
  shows "popFormatScope c stack = butlast stack"
proof -
  obtain xs x where stack: "stack = xs @ [x]"
    using assms(1) by (metis append_butlast_last_id)
  then show ?thesis
    using assms(2) by (auto simp: popFormatScope_def Let_def nth_append)
qed

lemma closeScopes_closeKind:
  assumes "\<not> isKeywordAsIdentifier tokens i"
  shows "closeScopes tokens i stack =
     (case closeKind (tkKind (tokens ! i)) of None \<Rightarrow> stack | Some c \<Rightarrow> popFormatScope c stack)"
  using assms by (simp add: closeScopes_def closeKind_def Let_def)

lemma openScopes_openKind:
  assumes "\<not> isKeywordAsIdentifier tokens i"
  shows "map fsKind (openScopes tokens i indent line stack) =
     (case openKind (tkKind (tokens ! i)) of None \<Rightarrow> map fsKind stack | Some c \<Rightarrow> map fsKind stack @ [c])"
  using assms by (auto simp: openScopes_def openKind_def pushFormatScope_def Let_def)

lemma scopes_ident:
  assumes "isKeywordAsIdentifier tokens i"
  shows "openScopes tokens i indent line (closeScopes tokens i stack) = stack"
proof -
  have "isKeyword (tkKind (tokens ! i))"
    using assms by (auto simp: isKeywordAsIdentifier_def split: if_splits)
  then have "tkKind (tokens ! i) \<notin> {TRBrace, TRParen, TRBrack, TLBrace, TLParen, TLBrack}"
    by (auto simp: isKeyword_def)
  then show ?thesis
    using assms by (simp add: openScopes_def closeScopes_def Let_def)
qed

lemma nestStep_scopes:
  assumes "nestStep tokens i (map fsKind stack) = Some ks"
  shows "map fsKind (openScopes tokens i indent line (closeScopes tokens i stack)) = ks"
proof (cases "isKeywordAsIdentifier tokens i")
  case True
  then show ?thesis using assms by (simp add: scopes_ident nestStep_def)
next
  case False
  then show ?thesis
    using assms
    by (auto simp: openScopes_openKind closeScopes_closeKind nestStep_def popFormatScope_top last_map map_butlast
          split: option.splits if_splits bind_splits)
qed

section \<open>The parts of one iteration\<close>

lemma nextNonComment_bounds: "nextNonComment tokens j = Some n \<Longrightarrow> j \<le> n \<and> n < length tokens"
proof (induction tokens j rule: nextNonComment.induct)
  case (1 tokens j)
  from 1(2) show ?case
    by (subst (asm) nextNonComment.simps) (use 1(1) in \<open>auto split: if_splits\<close>)
qed

lemma skipSemicolon_total:
  assumes "lexed source tokens" "i < length tokens"
  shows "\<exists>b. skipSemicolon f source tokens i stack = Some b \<and>
           (b \<longrightarrow> Opinionated f \<and> tkKind (tokens ! i) = TSemicolon)"
proof (cases "nextNonComment tokens (Suc i)")
  case (Some n)
  then have "i < n" "n < length tokens"
    using nextNonComment_bounds [OF Some] by simp_all
  with assms(1) show ?thesis
    by (auto simp: skipSemicolon_def Some Let_def)
qed (auto simp: skipSemicolon_def Let_def)

lemma commentTarget_total:
  "lexed source tokens \<Longrightarrow> 0 < j \<Longrightarrow> commentTarget source tokens j \<noteq> None"
proof (induction source tokens j rule: commentTarget.induct)
  case (1 source tokens j)
  show ?case
  proof (cases "j < length tokens")
    case True
    with 1 have "slice_opt source (tkEnd (tokens ! (j - 1))) (tkStart (tokens ! j)) =
        Some (slice source (tkEnd (tokens ! (j - 1))) (tkStart (tokens ! j)))"
      by simp
    with True 1 show ?thesis by (subst commentTarget.simps) (simp del: not_None_eq)
  qed (simp add: commentTarget.simps)
qed

lemma stmtSpacing_total:
  assumes "lexed source tokens"
  shows "\<exists>nl' force' kind. stmtSpacing f source tokens i gap nl forceNl s = Some (nl', force', kind)"
proof -
  have "commentTarget source tokens (i + 1) \<noteq> None"
    using commentTarget_total [OF assms] by simp
  then have "groupTarget source tokens i (fmPrevTok s) gap \<noteq> None"
    by (auto simp: groupTarget_def)
  then obtain first target where "groupTarget source tokens i (fmPrevTok s) gap = Some (first, target)"
    by auto
  then have "stmtSpacing f source tokens i gap nl forceNl s \<noteq> None"
    by (simp add: stmtSpacing_def Let_def del: not_None_eq)
  then show ?thesis by auto
qed

text \<open>The new gap exists when the scopes are well nested, and it is white space.\<close>

lemma Repeat_blank: "0 \<le> n \<Longrightarrow> isSpace b \<Longrightarrow> \<exists>bs. Repeat b n = Some bs \<and> list_all isSpace bs"
  by (simp add: Repeat_def list_all_iff)

lemma isSpace_blanks [simp]: "isSpace newline" "isSpace (CHR '' '')" "isSpace (CHR 0x09)"
  by (simp_all add: isSpace_def)

lemma buildGap_total:
  assumes "lexed source tokens" "0 \<le> IndentSize f"
    and "forM [i..<length tokens] (nestStep tokens) (map fsKind (fmStack s)) = Some ks"
  shows "\<exists>newGap line indent. buildGap f source tokens i gap nl forceNl s = Some (newGap, line, indent)
           \<and> list_all isSpace newGap"
proof -
  obtain indent where indent: "calculateLineIndent (fmStack s) tokens i source = Some indent"
    using calculateLineIndent_total [OF assms(1,3)] by blast
  have "\<exists>bs. (if 0 < indent then if UseTabs f then Repeat (CHR 0x09) (int indent)
          else Repeat (CHR '' '') (int indent * IndentSize f) else Some []) = Some bs \<and> list_all isSpace bs"
    using assms(2) by (simp add: Repeat_blank)
  then obtain bs where "(if 0 < indent then if UseTabs f then Repeat (CHR 0x09) (int indent)
          else Repeat (CHR '' '') (int indent * IndentSize f) else Some []) = Some bs" "list_all isSpace bs"
    by blast
  then show ?thesis
    by (simp add: buildGap_def indent Let_def list_all_iff)
qed

section \<open>Applying edits\<close>

text \<open>
  The text between the offsets \<open>pos\<close> and \<open>stop\<close> after a list of edits, and the requirement of
  the protocol that the edits follow each other without overlap.
\<close>

fun applyEdits :: "bytes \<Rightarrow> nat \<Rightarrow> GapEdit list \<Rightarrow> nat \<Rightarrow> bytes" where
  "applyEdits source pos [] stop = slice source pos stop"
| "applyEdits source pos ((a, b, new) # es) stop = slice source pos a @ new @ applyEdits source b es stop"

fun orderedEdits :: "nat \<Rightarrow> GapEdit list \<Rightarrow> nat \<Rightarrow> bool" where
  "orderedEdits pos [] stop \<longleftrightarrow> pos \<le> stop"
| "orderedEdits pos ((a, b, new) # es) stop \<longleftrightarrow> pos \<le> a \<and> a \<le> b \<and> orderedEdits b es stop"

lemma orderedEdits_extend: "orderedEdits pos es q \<Longrightarrow> q \<le> r \<Longrightarrow> orderedEdits pos es r"
  by (induction pos es q rule: orderedEdits.induct) auto

lemma orderedEdits_snoc: "orderedEdits pos es q \<Longrightarrow> q \<le> r \<Longrightarrow> orderedEdits pos (es @ [(q, r, new)]) r"
  by (induction pos es q rule: orderedEdits.induct) auto

lemma applyEdits_extend:
  "orderedEdits pos es q \<Longrightarrow> q \<le> r \<Longrightarrow> applyEdits source pos es r = applyEdits source pos es q @ slice source q r"
  by (induction pos es q rule: orderedEdits.induct) (auto simp: slice_append)

lemma applyEdits_snoc:
  "orderedEdits pos es q \<Longrightarrow> applyEdits source pos (es @ [(q, r, new)]) r = applyEdits source pos es q @ new"
  by (induction pos es q rule: orderedEdits.induct) auto

lemma addEdit_applied:
  assumes "orderedEdits 0 es q" "q \<le> r" "r \<le> length source"
  obtains es' where "addEdit source None q r new es = Some es'" "orderedEdits 0 es' r"
    "applyEdits source 0 es' r = applyEdits source 0 es q @ new"
proof (cases "slice source q r = new")
  case True
  with assms show ?thesis
    by (intro that [of es])
       (simp_all add: addEdit_def orderedEdits_extend applyEdits_extend [OF assms(1,2)])
next
  case False
  with assms show ?thesis
    by (intro that [of "es @ [(q, r, new)]"])
       (simp_all add: addEdit_def inFormatRange_def orderedEdits_snoc applyEdits_snoc)
qed

text \<open>The text that consists of the given tokens with the given gaps before them.\<close>

definition weave :: "bytes \<Rightarrow> bytes list \<Rightarrow> Token list \<Rightarrow> bytes" where
  "weave source gaps kept = concat (map2 (\<lambda>gap t. gap @ slice source (tkStart t) (tkEnd t)) gaps kept)"

lemma weave_snoc:
  "length gaps = length kept \<Longrightarrow>
     weave source (gaps @ [gap]) (kept @ [t]) = weave source gaps kept @ gap @ slice source (tkStart t) (tkEnd t)"
  by (simp add: weave_def)

text \<open>The tokens that stay: all of them, except that the opinionated mode may drop semicolons.\<close>

definition keepsTokens :: "bool \<Rightarrow> Token list \<Rightarrow> Token list \<Rightarrow> bool" where
  "keepsTokens opinionated tokens kept \<longleftrightarrow>
     subseq kept tokens \<and> (\<not> opinionated \<longrightarrow> kept = tokens) \<and>
     filter (\<lambda>t. tkKind t \<noteq> TSemicolon) kept = filter (\<lambda>t. tkKind t \<noteq> TSemicolon) tokens"

lemma keepsTokens_snoc: "keepsTokens op ts kept \<Longrightarrow> keepsTokens op (ts @ [t]) (kept @ [t])"
  by (auto simp: keepsTokens_def)

lemma keepsTokens_drop: "keepsTokens True ts kept \<Longrightarrow> tkKind t = TSemicolon \<Longrightarrow> keepsTokens True (ts @ [t]) kept"
  by (simp add: keepsTokens_def list_emb_prefix)

section \<open>Tokens that stay apart\<close>

text \<open>
  The pairs of tokens between which white space has to stay: two words, two operators, a number
  before the dots of a concatenation, and whatever is next to a comment. A minus or a tilde counts as
  an operator here where an expression ends before it.
\<close>

definition wordKinds :: "Kind list" where
  "wordKinds = [TIdent, TNumber, TAnd, TBreak, TDo, TElse, TElseIf, TEnd, TFalse, TFor, TFunction, TGoto, TIf, TIn,
     TLocal, TNil, TNot, TOr, TRepeat, TReturn, TThen, TTrue, TUntil, TWhile]"

definition operatorKinds :: "Kind list" where
  "operatorKinds = [TPlus, TMinus, TAsterisk, TSlash, TFloorSlash, TModulo, TCaret, TBitAnd, TBitOr, TBitXor,
     TShiftLeft, TShiftRight, TConcat, TEq, TNotEq, TLess, TLessEq, TGreater, TGreaterEq, TAssign]"

definition endsExpression :: "Kind list" where
  "endsExpression = [TIdent, TNumber, TString, TBacktickString, TRParen, TRBrack, TRBrace, TTrue, TFalse, TNil,
     TVararg, TEnd]"

definition mustPart :: "Kind \<Rightarrow> Kind \<Rightarrow> Kind \<Rightarrow> bool" where
  "mustPart before l r \<longleftrightarrow>
     l = TComment \<or> r = TComment \<or> l \<in> set wordKinds \<and> r \<in> set wordKinds \<or> l = TNumber \<and> r = TConcat \<or>
     l \<in> set operatorKinds \<and> r \<in> set operatorKinds \<and> (l = TMinus \<or> l = TBitXor \<longrightarrow> before \<in> set endsExpression)"

text \<open>The last token that is not a comment.\<close>

definition lastCode :: "Token list \<Rightarrow> Token" where
  "lastCode ts = (let code = filter (\<lambda>t. tkKind t \<noteq> TComment) ts in if code = [] then noToken else last code)"

text \<open>
  What the new gaps keep of the old ones: a line break stays one, and where white space has to
  stay there is some.
\<close>

definition gapsApart :: "bytes \<Rightarrow> Token list \<Rightarrow> bytes list \<Rightarrow> bool" where
  "gapsApart source kept gaps \<longleftrightarrow>
     (\<forall>n. Suc n < length kept \<longrightarrow>
        (newline \<in> set (slice source (tkEnd (kept ! n)) (tkStart (kept ! Suc n))) \<longrightarrow> newline \<in> set (gaps ! Suc n)) \<and>
        (mustPart (tkKind (lastCode (take n kept))) (tkKind (kept ! n)) (tkKind (kept ! Suc n)) \<longrightarrow> gaps ! Suc n \<noteq> []))"

lemma word_facts:
  "k \<in> set wordKinds \<Longrightarrow> isWord k \<and>
     k \<notin> {TIllegal, TEOF, TComma, TSemicolon, TColon, TDot, TDoubleColon, TLParen, TRParen, TLBrack, TRBrack,
       TLBrace, TRBrace, TString, TBacktickString}"
  by (auto simp: wordKinds_def isWord_def isKeyword_def)

lemma operator_facts:
  "k \<in> set operatorKinds \<Longrightarrow> isOperator k \<and> \<not> isKeyword k \<and>
     k \<notin> {TIllegal, TEOF, TComma, TSemicolon, TColon, TDot, TDoubleColon, TLParen, TRParen, TLBrack, TRBrack,
       TLBrace, TRBrace, TString, TBacktickString, THash}"
  by (auto simp: operatorKinds_def isOperator_def isKeyword_def)

lemma exprEnd_iff: "isExprEnd k \<longleftrightarrow> k \<in> set endsExpression"
  by (auto simp: isExprEnd_def endsExpression_def)

lemma mustPart_needsSpace:
  assumes "mustPart before l r" "l \<notin> {TIllegal, TEOF}" "r \<notin> {TIllegal, TEOF}"
  shows "needsSpace l r before"
proof -
  consider (comment) "l = TComment \<or> r = TComment" | (words) "l \<in> set wordKinds" "r \<in> set wordKinds"
    | (dots) "l = TNumber" "r = TConcat"
    | (operators) "l \<in> set operatorKinds" "r \<in> set operatorKinds" "l = TMinus \<or> l = TBitXor \<longrightarrow> before \<in> set endsExpression"
    using assms(1) unfolding mustPart_def by blast
  then show ?thesis
  proof cases
    case comment
    with assms(2,3) show ?thesis by (auto simp: needsSpace_def)
  next
    case words
    with word_facts [of l] word_facts [of r] show ?thesis by (auto simp: needsSpace_def)
  next
    case dots
    then show ?thesis by (simp add: needsSpace_def isKeyword_def isWord_def isOperator_def)
  next
    case operators
    with operator_facts [of l] operator_facts [of r] show ?thesis by (auto simp: needsSpace_def exprEnd_iff)
  qed
qed

lemma stmtSpacing_keeps:
  "stmtSpacing f source tokens i gap nl forceNl s = Some (nl', force', kind) \<Longrightarrow> 0 < nl \<Longrightarrow> 0 < nl'"
  by (auto simp: stmtSpacing_def Let_def split: if_splits option.splits bind_splits)

lemma buildGap_apart:
  assumes "buildGap f source tokens i gap nl forceNl s = Some (newGap, line, indent)"
    and "\<not> fmIsLineStart s" "tkKind (fmPrevTok s) \<noteq> TIllegal"
  shows "0 < nl \<Longrightarrow> newline \<in> set newGap"
    and "needsSpace (tkKind (fmPrevTok s)) (tkKind (tokens ! i)) (fmPrevPrev s) \<Longrightarrow> newGap \<noteq> []"
  using assms by (auto simp: buildGap_def Let_def split: if_splits bind_splits)

section \<open>The loop invariant\<close>

text \<open>
  After \<open>i\<close> tokens: the remaining tokens nest in the current scopes, and the edits so far turn
  the source up to the last kept token into the kept tokens with blank gaps.
\<close>

definition formatInv :: "Formatter \<Rightarrow> bytes \<Rightarrow> Token list \<Rightarrow> nat \<Rightarrow> FormatState \<Rightarrow> Token list \<Rightarrow> bytes list \<Rightarrow> bool" where
  "formatInv f source tokens i s kept gaps \<longleftrightarrow>
     forM [i..<length tokens] (nestStep tokens) (map fsKind (fmStack s)) \<noteq> None \<and>
     keepsTokens (Opinionated f) (take i tokens) kept \<and>
     length gaps = length kept \<and> list_all (list_all isSpace) gaps \<and>
     fmPrevTok s = (if kept = [] then noToken else last kept) \<and>
     orderedEdits 0 (fmEdits s) (tkEnd (fmPrevTok s)) \<and>
     applyEdits source 0 (fmEdits s) (tkEnd (fmPrevTok s)) = weave source gaps kept"

text \<open>What the loop remembers of the kept tokens, and the gaps it has made between them.\<close>

definition apartInv :: "bytes \<Rightarrow> FormatState \<Rightarrow> Token list \<Rightarrow> bytes list \<Rightarrow> bool" where
  "apartInv source s kept gaps \<longleftrightarrow>
     fmIsLineStart s = (kept = []) \<and> fmPrevNonCommentTok s = lastCode kept \<and>
     (kept \<noteq> [] \<and> tkKind (last kept) \<noteq> TComment \<longrightarrow> fmPrevPrev s = tkKind (lastCode (butlast kept))) \<and>
     gapsApart source kept gaps"

definition legal :: "Token list \<Rightarrow> bool" where
  "legal tokens \<longleftrightarrow> list_all (\<lambda>t. tkKind t \<noteq> TIllegal) tokens"

lemma formatInv_prev:
  assumes "formatInv f source tokens i s kept gaps" "lexed source tokens" "legal tokens" "i < length tokens"
  shows "tkEnd (fmPrevTok s) \<le> tkStart (tokens ! i)" "kept \<noteq> [] \<Longrightarrow> tkKind (fmPrevTok s) \<noteq> TIllegal"
proof -
  have sub: "subseq kept (take i tokens)" and prev: "fmPrevTok s = (if kept = [] then noToken else last kept)"
    using assms(1) unfolding formatInv_def keepsTokens_def by blast+
  have "set kept \<subseteq> set (take i tokens)"
    using sub by (auto simp: subseq_conv_nths dest: in_set_nthsD)
  then have "kept \<noteq> [] \<Longrightarrow> fmPrevTok s \<in> set (take i tokens)"
    using prev last_in_set [of kept] by (simp add: subsetD)
  then have m: "kept \<noteq> [] \<Longrightarrow> \<exists>m < i. fmPrevTok s = tokens ! m"
    by (auto simp: in_set_conv_nth)
  then show "kept \<noteq> [] \<Longrightarrow> tkKind (fmPrevTok s) \<noteq> TIllegal"
    using assms(3,4) by (auto simp: legal_def list_all_length)
  show "tkEnd (fmPrevTok s) \<le> tkStart (tokens ! i)"
  proof (cases "kept = []")
    case True
    with prev show ?thesis by (simp add: noToken_def)
  next
    case False
    with m obtain m where "m < i" "fmPrevTok s = tokens ! m" by blast
    with lexed_order [OF assms(2) _ assms(4)] show ?thesis by simp
  qed
qed

lemma formatInv_gap:
  assumes "formatInv f source tokens i s kept gaps" "lexed source tokens" "legal tokens" "i < length tokens"
  shows "(if tkKind (fmPrevTok s) \<noteq> TIllegal then tkEnd (fmPrevTok s) else 0) = tkEnd (fmPrevTok s)"
    "\<exists>gap. (if tkKind (fmPrevTok s) \<noteq> TIllegal
            then slice_opt source (tkEnd (fmPrevTok s)) (tkStart (tokens ! i)) else Some []) = Some gap"
  using formatInv_prev [OF assms] lexed_nth [OF assms(2,4)] assms(1)
  by (auto simp: formatInv_def noToken_def)

lemma formatInv_skip:
  assumes "formatInv f source tokens i s kept gaps" "i < length tokens"
    and "Opinionated f" "tkKind (tokens ! i) = TSemicolon"
  shows "formatInv f source tokens (Suc i) s kept gaps"
proof -
  have "nestStep tokens i ks = Some ks" for ks
    using assms(4) by (simp add: nestStep_def closeKind_def openKind_def)
  then have "forM [i..<length tokens] (nestStep tokens) ks = forM [Suc i..<length tokens] (nestStep tokens) ks" for ks
    using assms(2) by (simp add: upt_conv_Cons)
  moreover have "keepsTokens (Opinionated f) (take i tokens) kept \<Longrightarrow> keepsTokens (Opinionated f) (take (Suc i) tokens) kept"
    using assms(2-4) by (simp add: take_Suc_conv_app_nth keepsTokens_drop)
  ultimately show ?thesis
    using assms(1) unfolding formatInv_def by metis
qed

lemma lastCode_snoc: "lastCode (ts @ [t]) = (if tkKind t \<noteq> TComment then t else lastCode ts)"
  by (simp add: lastCode_def Let_def)

lemma gapsApart_snoc:
  assumes "gapsApart source kept gaps" "length gaps = length kept"
    and "kept \<noteq> [] \<Longrightarrow> newline \<in> set (slice source (tkEnd (last kept)) (tkStart t)) \<Longrightarrow> newline \<in> set newGap"
    and "kept \<noteq> [] \<Longrightarrow> mustPart (tkKind (lastCode (butlast kept))) (tkKind (last kept)) (tkKind t) \<Longrightarrow> newGap \<noteq> []"
  shows "gapsApart source (kept @ [t]) (gaps @ [newGap])"
  unfolding gapsApart_def
proof (intro allI impI)
  fix n
  assume n: "Suc n < length (kept @ [t])"
  show "(newline \<in> set (slice source (tkEnd ((kept @ [t]) ! n)) (tkStart ((kept @ [t]) ! Suc n))) \<longrightarrow>
           newline \<in> set ((gaps @ [newGap]) ! Suc n)) \<and>
        (mustPart (tkKind (lastCode (take n (kept @ [t])))) (tkKind ((kept @ [t]) ! n)) (tkKind ((kept @ [t]) ! Suc n)) \<longrightarrow>
           (gaps @ [newGap]) ! Suc n \<noteq> [])"
  proof (cases "Suc n = length kept")
    case True
    then have "kept \<noteq> []" "n = length kept - 1" by auto
    then have "(kept @ [t]) ! n = last kept" "(kept @ [t]) ! Suc n = t" "(gaps @ [newGap]) ! Suc n = newGap"
      "take n (kept @ [t]) = butlast kept"
      using True assms(2) by (simp_all add: nth_append last_conv_nth butlast_conv_take)
    with assms(3,4) \<open>kept \<noteq> []\<close> show ?thesis by simp
  next
    case False
    with n assms(1,2) show ?thesis by (simp add: gapsApart_def nth_append)
  qed
qed

lemma lexTokens_no_eof: "lexTokens fuel l = Some ts \<Longrightarrow> \<forall>t \<in> set ts. tkKind t \<noteq> TEOF"
  by (induction fuel arbitrary: l ts) (auto split: if_splits bind_splits)

text \<open>An iteration that keepsTokens its token: the new state is described by the part the invariant reads.\<close>

lemma formatInv_keep:
  assumes inv: "formatInv f source tokens i s kept gaps" "i < length tokens" "lexed source tokens"
    and gap: "list_all isSpace newGap"
    and es: "orderedEdits 0 es (tkStart (tokens ! i))"
      "applyEdits source 0 es (tkStart (tokens ! i)) = weave source gaps kept @ newGap"
    and s': "fmStack s' = openScopes tokens i indent line (closeScopes tokens i (fmStack s))"
      "fmPrevTok s' = tokens ! i" "fmEdits s' = es"
  shows "formatInv f source tokens (Suc i) s' (kept @ [tokens ! i]) (gaps @ [newGap])"
proof -
  have le: "tkStart (tokens ! i) \<le> tkEnd (tokens ! i)"
    using lexed_nth [OF inv(3,2)] by simp
  have len: "length gaps = length kept"
    using inv(1) by (simp add: formatInv_def)
  obtain ks where ks: "nestStep tokens i (map fsKind (fmStack s)) = Some ks"
    "forM [Suc i..<length tokens] (nestStep tokens) ks \<noteq> None"
    using inv(1,2) by (auto simp: formatInv_def upt_conv_Cons split: bind_splits)
  have "applyEdits source 0 es (tkEnd (tokens ! i)) = weave source (gaps @ [newGap]) (kept @ [tokens ! i])"
    using applyEdits_extend [OF es(1) le, of source] es(2) len by (simp add: weave_snoc)
  then show ?thesis
    using inv(1,2) gap s' ks orderedEdits_extend [OF es(1) le] nestStep_scopes [OF ks(1)]
    by (simp add: formatInv_def take_Suc_conv_app_nth keepsTokens_snoc)
qed

lemma formatStep_inv:
  assumes inv: "formatInv f source tokens i s kept gaps"
    and apart: "apartInv source s kept gaps"
    and src: "lexed source tokens" "legal tokens" "0 \<le> IndentSize f" "\<forall>t \<in> set tokens. tkKind t \<noteq> TEOF"
    and i: "i < length tokens"
  shows "\<exists>s' kept gaps. formatStep f source tokens None i s = Some s' \<and>
           formatInv f source tokens (Suc i) s' kept gaps \<and> apartInv source s' kept gaps"
proof -
  have applied: "applyEdits source 0 (fmEdits s) (tkEnd (fmPrevTok s)) = weave source gaps kept"
    using inv unfolding formatInv_def by blast
  note prev = formatInv_prev [OF inv src(1,2) i] and start = formatInv_gap(1) [OF inv src(1,2) i]
  obtain gap where gap: "(if tkKind (fmPrevTok s) \<noteq> TIllegal
      then slice_opt source (tkEnd (fmPrevTok s)) (tkStart (tokens ! i)) else Some []) = Some gap"
    using formatInv_gap(2) [OF inv src(1,2) i] by blast
  obtain skip where skip: "skipSemicolon f source tokens i (fmStack s) = Some skip"
    "skip \<longrightarrow> Opinionated f \<and> tkKind (tokens ! i) = TSemicolon"
    using skipSemicolon_total [OF src(1) i] by blast
  show ?thesis
  proof (cases skip)
    case True
    then have "formatStep f source tokens None i s = Some s"
      by (simp only: formatStep_def Let_def gap skip(1) Option.bind.simps if_True)
    with True skip(2) formatInv_skip [OF inv i] apart show ?thesis by blast
  next
    case False
    let ?t = "tokens ! i"
    let ?nl = "if tkKind (fmPrevTok s) \<noteq> TIllegal then countNewlines gap else 0"
    let ?force = "?nl = 0 \<and> tkKind (fmPrevTok s) \<noteq> TIllegal \<and>
      needsNewline (tkKind (fmPrevNonCommentTok s)) (tkKind (tokens ! i)) (fmStack s)"
    obtain nl force kind where spacing: "stmtSpacing f source tokens i gap ?nl ?force s = Some (nl, force, kind)"
      using stmtSpacing_total [OF src(1)] by blast
    obtain ks where "forM [i..<length tokens] (nestStep tokens) (map fsKind (fmStack s)) = Some ks"
      using inv by (auto simp: formatInv_def)
    from buildGap_total [OF src(1,3) this] obtain newGap line indent where
      build: "buildGap f source tokens i gap nl force s = Some (newGap, line, indent)" "list_all isSpace newGap"
      by blast
    obtain es where es: "addEdit source None (tkEnd (fmPrevTok s)) (tkStart (tokens ! i)) newGap (fmEdits s) = Some es"
      "orderedEdits 0 es (tkStart (tokens ! i))"
      "applyEdits source 0 es (tkStart (tokens ! i)) = weave source gaps kept @ newGap"
    proof (rule addEdit_applied)
      show "orderedEdits 0 (fmEdits s) (tkEnd (fmPrevTok s))"
        using inv unfolding formatInv_def by blast
      show "tkStart (tokens ! i) \<le> length source"
        using lexed_nth [OF src(1) i] by simp
    qed (use prev(1) applied in simp_all)
    obtain s' where s': "formatStep f source tokens None i s = Some s'"
      "fmStack s' = openScopes tokens i indent line (closeScopes tokens i (fmStack s))"
      "fmPrevTok s' = tokens ! i" "fmEdits s' = es" "fmIsLineStart s' = False"
      "fmPrevNonCommentTok s' = (if tkKind ?t \<noteq> TComment then ?t else fmPrevNonCommentTok s)"
      "fmPrevPrev s' = (if tkKind ?t \<noteq> TComment then tkKind (fmPrevNonCommentTok s) else fmPrevPrev s)"
      using False
      by (simp only: formatStep_def Let_def gap skip(1) spacing build(1) start es(1) Option.bind.simps
            prod.case if_False) simp
    have kept: "length gaps = length kept" "fmPrevTok s = (if kept = [] then noToken else last kept)"
      "set kept \<subseteq> set tokens"
      using inv in_set_takeD [of _ i tokens]
      by (auto simp: formatInv_def keepsTokens_def subseq_conv_nths dest: in_set_nthsD)
    have A: "fmIsLineStart s = (kept = [])" "fmPrevNonCommentTok s = lastCode kept" "gapsApart source kept gaps"
      "kept \<noteq> [] \<Longrightarrow> tkKind (last kept) \<noteq> TComment \<Longrightarrow> fmPrevPrev s = tkKind (lastCode (butlast kept))"
      using apart by (auto simp: apartInv_def)
    have "gapsApart source (kept @ [?t]) (gaps @ [newGap])"
    proof (rule gapsApart_snoc [OF A(3) kept(1)])
      assume "kept \<noteq> []"
      with prev(2) A(1) kept(2) have s: "tkKind (last kept) \<noteq> TIllegal" "\<not> fmIsLineStart s" "fmPrevTok s = last kept" by simp_all
      note built = buildGap_apart [OF build(1) s(2)]
      show "newline \<in> set newGap" if "newline \<in> set (slice source (tkEnd (last kept)) (tkStart ?t))"
      proof -
        have "gap = slice source (tkEnd (last kept)) (tkStart ?t)" using gap s by (auto simp: slice_opt_def split: if_splits)
        with that s count_list_0_iff [of gap newline] have "0 < ?nl" by (simp add: countNewlines_def)
        with stmtSpacing_keeps [OF spacing] built(1) s show ?thesis by simp
      qed
      show "newGap \<noteq> []" if part: "mustPart (tkKind (lastCode (butlast kept))) (tkKind (last kept)) (tkKind ?t)"
      proof -
        have "last kept \<in> set tokens" "?t \<in> set tokens" using kept(3) \<open>kept \<noteq> []\<close> i by auto
        with src(2,4) have kinds: "tkKind (last kept) \<notin> {TIllegal, TEOF}" "tkKind ?t \<notin> {TIllegal, TEOF}"
          by (auto simp: legal_def list_all_iff)
        have "needsSpace (tkKind (last kept)) (tkKind ?t) (fmPrevPrev s)"
        proof (cases "tkKind (last kept) = TComment")
          case True
          with kinds show ?thesis by (simp add: needsSpace_def)
        next
          case False
          with mustPart_needsSpace [OF part kinds] A(4) \<open>kept \<noteq> []\<close> show ?thesis by simp
        qed
        with built(2) s show ?thesis by simp
      qed
    qed
    with A(2) s'(5-7) have "apartInv source s' (kept @ [?t]) (gaps @ [newGap])"
      by (simp add: apartInv_def lastCode_snoc)
    with formatInv_keep [OF inv i src(1) build(2) es(2,3) s'(2-4)] s'(1) show ?thesis by blast
  qed
qed

lemma formatLoop_inv:
  assumes "lexed source tokens" "legal tokens" "0 \<le> IndentSize f" "\<forall>t \<in> set tokens. tkKind t \<noteq> TEOF" "nested tokens"
  shows "\<exists>s kept gaps. forM [0..<length tokens] (formatStep f source tokens None) initFormat = Some s \<and>
           formatInv f source tokens (length tokens) s kept gaps \<and> apartInv source s kept gaps"
proof -
  have "\<exists>s kept gaps. forM [0..<n] (formatStep f source tokens None) initFormat = Some s \<and>
           formatInv f source tokens n s kept gaps \<and> apartInv source s kept gaps" if "n \<le> length tokens" for n
    using that
  proof (induction n)
    case 0
    show ?case
      using assms(5)
      by (simp add: formatInv_def nested_def initFormat_def noToken_def keepsTokens_def weave_def apartInv_def
          gapsApart_def lastCode_def)
  next
    case (Suc n)
    then obtain s kept gaps where "forM [0..<n] (formatStep f source tokens None) initFormat = Some s"
      "formatInv f source tokens n s kept gaps" "apartInv source s kept gaps" by auto
    moreover from formatStep_inv [OF this(2,3) assms(1-4)] Suc.prems obtain s' kept' gaps' where
      "formatStep f source tokens None n s = Some s'" "formatInv f source tokens (Suc n) s' kept' gaps'"
      "apartInv source s' kept' gaps'"
      by auto
    ultimately show ?case
      by (intro exI [of _ s'] exI [of _ kept'] exI [of _ gaps']) (simp add: forM_append)
  qed
  then show ?thesis by blast
qed

lemma formatGaps_result:
  assumes "lexTokens (length source + 1) (Lexer_New source) = Some tokens" "lexed source tokens"
    "legal tokens" "nested tokens" "0 \<le> IndentSize f"
  shows "\<exists>gaps kept edits. formatGaps f source None = Some edits \<and> orderedEdits 0 edits (length source) \<and>
           keepsTokens (Opinionated f) tokens kept \<and> length gaps = length kept \<and> list_all (list_all isSpace) gaps \<and>
           gapsApart source kept gaps \<and> applyEdits source 0 edits (length source)
             = weave source gaps kept @ (if tokens \<noteq> [] then [newline] else [])"
proof -
  obtain s kept gaps where s: "forM [0..<length tokens] (formatStep f source tokens None) initFormat = Some s"
    and inv: "formatInv f source tokens (length tokens) s kept gaps" and apart: "gapsApart source kept gaps"
    using formatLoop_inv [OF assms(2,3,5) lexTokens_no_eof [OF assms(1)] assms(4)] by (auto simp: apartInv_def)
  have I: "keepsTokens (Opinionated f) tokens kept" "length gaps = length kept" "list_all (list_all isSpace) gaps"
    "fmPrevTok s = (if kept = [] then noToken else last kept)"
    "orderedEdits 0 (fmEdits s) (tkEnd (fmPrevTok s))"
    "applyEdits source 0 (fmEdits s) (tkEnd (fmPrevTok s)) = weave source gaps kept"
    using inv unfolding formatInv_def take_all [OF order_refl] by blast+
  have "set kept \<subseteq> set tokens"
    using I(1) by (auto simp: keepsTokens_def subseq_conv_nths dest: in_set_nthsD)
  then have "kept \<noteq> [] \<Longrightarrow> fmPrevTok s \<in> set tokens"
    using I(4) last_in_set [of kept] by (simp add: subsetD)
  then have "kept \<noteq> [] \<Longrightarrow> \<exists>m < length tokens. fmPrevTok s = tokens ! m"
    by (auto simp: in_set_conv_nth)
  then have le: "tkEnd (fmPrevTok s) \<le> length source"
    using I(4) lexed_nth(2) [OF assms(2)] by (cases "kept = []") (auto simp: noToken_def)
  have "tokens = [] \<Longrightarrow> kept = []"
    using \<open>set kept \<subseteq> set tokens\<close> by simp
  then have start: "(if tokens \<noteq> [] then tkEnd (fmPrevTok s) else 0) = tkEnd (fmPrevTok s)"
    using I(4) by (simp add: noToken_def)
  obtain es where "addEdit source None (tkEnd (fmPrevTok s)) (length source)
      (if tokens \<noteq> [] then [newline] else []) (fmEdits s) = Some es"
    "orderedEdits 0 es (length source)"
    "applyEdits source 0 es (length source) = weave source gaps kept @ (if tokens \<noteq> [] then [newline] else [])"
    using addEdit_applied [OF I(5) le order_refl] I(6) by metis
  moreover have "formatGaps f source None =
      addEdit source None (tkEnd (fmPrevTok s)) (length source) (if tokens \<noteq> [] then [newline] else []) (fmEdits s)"
    by (simp only: formatGaps_def assms(1) Option.bind.simps s start)
  ultimately have "formatGaps f source None = Some es" "orderedEdits 0 es (length source)"
    "applyEdits source 0 es (length source) = weave source gaps kept @ (if tokens \<noteq> [] then [newline] else [])"
    by simp_all
  with I(1-3) apart show ?thesis by blast
qed

text \<open>The source itself, taken apart at its tokens.\<close>

lemma tiling_weave:
  assumes "tiling source i ts j"
  shows "\<exists>gaps. length gaps = length ts \<and> list_all (list_all isSpace) gaps \<and> slice source i j = weave source gaps ts"
  using assms
proof (induction ts arbitrary: i)
  case Nil
  then show ?case by (simp add: weave_def)
next
  case (Cons t ts)
  then obtain gaps where gaps: "length gaps = length ts" "list_all (list_all isSpace) gaps"
    "slice source (tkEnd t) j = weave source gaps ts" by auto
  have "slice source i j = slice source i (tkStart t) @ slice source (tkStart t) (tkEnd t) @ slice source (tkEnd t) j"
    using Cons.prems tiling_le [of source "tkEnd t" ts j] by (auto simp: slice_append)
  with Cons.prems gaps show ?case
    by (intro exI [of _ "slice source i (tkStart t) # gaps"]) (simp add: weave_def)
qed

lemma lexed_weave:
  assumes "lexed source tokens" "nul \<notin> set source" "\<not> prefix bom source"
  shows "\<exists>gaps trail. length gaps = length tokens \<and> list_all (list_all isSpace) (trail # gaps) \<and>
           source = weave source gaps tokens @ trail"
proof -
  obtain j where j: "tiling source 0 tokens j" "j \<le> length source" "list_all isSpace (slice source j (length source))"
    using assms unfolding lexed_def by (metis nth_mem order_le_imp_less_or_eq)
  have "source = slice source 0 j @ slice source j (length source)"
    using slice_append [of 0 j "length source" source] j(2) by (simp add: slice_def)
  with tiling_weave [OF j(1)] j(3) show ?thesis by force
qed

text \<open>On a consistent tree every offset of the source has a position.\<close>

lemma textEdits_total:
  assumes "wf_lines t" "orderedEdits pos gaps (length (Source t))"
  shows "\<exists>edits. those (map (textEdit t) gaps) = Some edits \<and> map Some edits = map (textEdit t) gaps"
  using assms(2)
proof (induction gaps arbitrary: pos)
  case (Cons g gaps)
  obtain a b new where g: "g = (a, b, new)" by (cases g)
  have ord: "a \<le> b" "orderedEdits b gaps (length (Source t))"
    using Cons.prems g by auto
  have "b \<le> length (Source t)"
    using ord(2) by (induction b gaps "length (Source t)" rule: orderedEdits.induct) auto
  with ord(1) obtain e where "textEdit t g = Some e"
    using Position_eq [OF assms(1)] by (simp add: textEdit_def getRange_def g)
  with Cons.IH [OF ord(2)] show ?case by auto
qed simp

section \<open>Properties\<close>

text \<open>
  C28. Formatting changes white space only: on a document with a consistent line table, without byte
  order mark, zero byte or illegal token, whose scopes are well nested, \<open>Format\<close> never panics, its edits are
  in order and do not overlap, and where the source consists of its tokens with white space around
  them, the result consists of the texts of the same tokens in the same order with white space around
  them and a final line break. Only semicolons may be dropped, and only in the opinionated mode.
  White space with a line break in it is replaced by white space with a line break, and there is
  some next to a comment, between two words, between two operators (a minus or a tilde counts as one
  only after the end of an expression, and \<open>#\<close> never) and between a number and the dots of a
  concatenation. It may disappear elsewhere, also where the two tokens then read as one:
  between two unary minus signs and between a bracket and a long string (\<open>Format_makes_comment\<close>,
  \<open>Format_makes_long_string\<close>), so that nothing is said of the tokens the result would be read as.
\<close>

theorem Format_white_space_only:
  assumes "wf_lines t" and "lexTokens (length (Source t) + 1) (Lexer_New (Source t)) = Some tokens"
    and "legal tokens" "nested tokens" "nul \<notin> set (Source t)" "\<not> prefix bom (Source t)" "0 \<le> IndentSize f"
  shows "\<exists>edits gaps kept before after trail.
     Format f t None = Some edits \<and> map Some edits = map (textEdit t) gaps \<and>
     orderedEdits 0 gaps (length (Source t)) \<and>
     Source t = weave (Source t) before tokens @ trail \<and> length before = length tokens \<and>
     list_all (list_all isSpace) (trail # before) \<and>
     applyEdits (Source t) 0 gaps (length (Source t))
       = weave (Source t) after kept @ (if tokens \<noteq> [] then [newline] else []) \<and>
     length after = length kept \<and> list_all (list_all isSpace) after \<and> keepsTokens (Opinionated f) tokens kept \<and>
     gapsApart (Source t) kept after"
proof -
  have lexed: "lexed (Source t) tokens"
    using lexTokens_lexed [of "Source t"] assms(2) by (simp del: lexTokens.simps)
  obtain after kept gaps where gaps: "formatGaps f (Source t) None = Some gaps"
    "orderedEdits 0 gaps (length (Source t))" "keepsTokens (Opinionated f) tokens kept"
    "length after = length kept" "list_all (list_all isSpace) after" "gapsApart (Source t) kept after"
    "applyEdits (Source t) 0 gaps (length (Source t))
       = weave (Source t) after kept @ (if tokens \<noteq> [] then [newline] else [])"
    using formatGaps_result [OF assms(2) lexed assms(3,4,7)] by blast
  obtain edits where edits: "those (map (textEdit t) gaps) = Some edits" "map Some edits = map (textEdit t) gaps"
    using textEdits_total [OF assms(1) gaps(2)] by blast
  have "Format f t None = Some edits"
    by (simp add: Format_def gaps(1) edits(1))
  with gaps edits(2) lexed_weave [OF lexed assms(5,6)] show ?thesis by blast
qed

definition sampleText :: bytes where
  "sampleText = ''if a then b() end''"

definition sampleTokens :: "Token list" where
  "sampleTokens = [tok TIf 0 2, tok TIdent 3 4, tok TThen 5 9, tok TIdent 10 11, tok TLParen 11 12,
     tok TRParen 12 13, tok TEnd 14 17]"

lemma Source_NewTree: "Source (NewTree source) = source"
  by (simp add: NewTree_def)

theorem Format_white_space_only_witness:
  "\<exists>edits gaps kept before after trail.
     Format (NewFormatter 2 False True) (NewTree sampleText) None = Some edits \<and>
     map Some edits = map (textEdit (NewTree sampleText)) gaps \<and>
     orderedEdits 0 gaps (length (Source (NewTree sampleText))) \<and>
     Source (NewTree sampleText) = weave (Source (NewTree sampleText)) before sampleTokens @ trail \<and>
     length before = length sampleTokens \<and> list_all (list_all isSpace) (trail # before) \<and>
     applyEdits (Source (NewTree sampleText)) 0 gaps (length (Source (NewTree sampleText)))
       = weave (Source (NewTree sampleText)) after kept @ (if sampleTokens \<noteq> [] then [newline] else []) \<and>
     length after = length kept \<and> list_all (list_all isSpace) after \<and>
     keepsTokens (Opinionated (NewFormatter 2 False True)) sampleTokens kept \<and>
     gapsApart (Source (NewTree sampleText)) kept after"
proof (rule Format_white_space_only)
  have "lexTokens (length sampleText + 1) (Lexer_New sampleText) = Some sampleTokens" by code_simp
  then show "lexTokens (length (Source (NewTree sampleText)) + 1) (Lexer_New (Source (NewTree sampleText)))
      = Some sampleTokens" by (simp only: Source_NewTree)
  show "legal sampleTokens" "nested sampleTokens" by code_simp+
  show "wf_lines (NewTree sampleText)" by (simp add: wf_lines_def NewTree_def sampleText_def)
  show "nul \<notin> set (Source (NewTree sampleText))" "\<not> prefix bom (Source (NewTree sampleText))"
    by (simp_all add: bom_def NewTree_def sampleText_def)
qed (simp add: NewFormatter_def)

lemma map_option_bind_fun: "map_option h (Option.bind m k) = Option.bind m (\<lambda>x. map_option h (k x))"
  by (cases m) simp_all

lemma bind_map_option_fun: "Option.bind (map_option g m) k = Option.bind m (\<lambda>x. k (g x))"
  by (cases m) simp_all

text \<open>
  C29. Range formatting is full formatting restricted to the range: the scopes and the line
  structure are computed for the whole document, and the edits are exactly those of full
  formatting whose gap touches the range.
\<close>

theorem formatGaps_range:
  "formatGaps f source (Some r) =
     map_option (filter (\<lambda>(gapStart, gapEnd, _). inFormatRange (Some r) gapStart gapEnd))
       (formatGaps f source None)"
proof -
  let ?P = "\<lambda>(gapStart, gapEnd, _ :: bytes). inFormatRange (Some r) gapStart gapEnd"
  let ?h = "\<lambda>s :: FormatState. s\<lparr>fmEdits := filter ?P (fmEdits s)\<rparr>"
  have add: "addEdit source (Some r) a b new (filter ?P es) = map_option (filter ?P) (addEdit source None a b new es)"
    for a b new es
    by (simp add: addEdit_def inFormatRange_def split: bind_splits)
  have sel: "fmStack (?h s) = fmStack s" "fmPrevTok (?h s) = fmPrevTok s" "fmIsLineStart (?h s) = fmIsLineStart s"
    "fmPrevNonCommentTok (?h s) = fmPrevNonCommentTok s" "fmPrevPrev (?h s) = fmPrevPrev s"
    "fmPrevNonCommentIdx (?h s) = fmPrevNonCommentIdx s" "fmEdits (?h s) = filter ?P (fmEdits s)" for s
    by simp_all
  have frame: "stmtSpacing f source tokens i gap nl force (?h s) = stmtSpacing f source tokens i gap nl force s"
    "buildGap f source tokens i gap nl force (?h s) = buildGap f source tokens i gap nl force s"
    for tokens i gap nl force s
    by (cases s, simp only: stmtSpacing_def buildGap_def FormatState.simps)+
  have step: "formatStep f source tokens (Some r) i (?h s) = map_option ?h (formatStep f source tokens None i s)"
    for tokens i s
    unfolding formatStep_def frame Let_def
    by (simp only: sel frame add map_option_bind_fun if_distrib [of "map_option ?h"]
          prod.case_distrib [of "map_option ?h"] option.map bind_map_option_fun FormatState.simps)
  have loop: "forM is (formatStep f source tokens (Some r)) (?h s) =
      map_option ?h (forM is (formatStep f source tokens None) s)" for tokens "is" s
    by (induction "is" arbitrary: s) (simp_all add: step split: bind_splits)
  have init: "?h initFormat = initFormat"
    by (simp add: initFormat_def)
  obtain tokens where tokens: "lexTokens (length source + 1) (Lexer_New source) = Some tokens"
    using lexTokens_lexed by blast
  show ?thesis
    unfolding formatGaps_def tokens Option.bind.simps loop [of _ _ initFormat, unfolded init]
    by (cases "forM [0..<length tokens] (formatStep f source tokens None) initFormat")
       (simp_all add: add)
qed

text \<open>
  The safeguard of \<open>calculateLineIndent\<close> against too many closing tokens sets the depth to 0 and
  then reads \<open>stack[0]\<close>, which does not exist when no scope is open.
\<close>

lemma depthScan_le:
  "depthScan stack tokens startIndex source i currentDepth minDepth = Some d \<Longrightarrow> d \<le> minDepth"
proof (induction stack tokens startIndex source i currentDepth minDepth arbitrary: d rule: depthScan.induct)
  case (1 stack tokens startIndex source i currentDepth minDepth)
  from "1.prems" show ?case
    by (subst (asm) depthScan.simps)
       (use "1.IH" in \<open>force simp: Let_def split: if_splits bind_splits\<close>)
qed

lemma calculateLineIndent_panics:
  assumes "i < length tokens" "tkKind (tokens ! i) \<in> closers" "\<not> isKeywordAsIdentifier tokens i"
  shows "calculateLineIndent [] tokens i source = None"
proof -
  have "tkKind (tokens ! i) \<noteq> TComment"
    using assms(2) by (auto simp: closers_def)
  then have "\<exists>cd. depthScan [] tokens i source i 0 0 = depthScan [] tokens i source (i + 1) cd (-1)"
    using assms by (subst depthScan.simps) (auto simp: Let_def)
  then have "depthScan [] tokens i source i 0 0 = Some d \<Longrightarrow> d \<le> -1" for d
    using depthScan_le by metis
  then show ?thesis
    by (force simp: calculateLineIndent_def nth_opt_def split: bind_splits)
qed

text \<open>
  Formatting a document that begins with a closing token (\<open>end\<close>, \<open>until\<close>, \<open>else\<close>, a closing
  bracket), which every editor shows while code is being moved around, panics whatever the
  options are, in spite of the safeguard.
\<close>

lemma Format_panics_on_leading_closer:
  assumes "lexTokens (length (Source t) + 1) (Lexer_New (Source t)) = Some (t0 # ts)"
    and "tkKind t0 \<in> closers" "\<not> isKeywordAsIdentifier (t0 # ts) 0"
  shows "Format f t None = None"
proof -
  let ?tokens = "t0 # ts"
  have "calculateLineIndent [] ?tokens 0 (Source t) = None"
    using calculateLineIndent_panics [of 0 ?tokens] assms by simp
  then have "buildGap f (Source t) ?tokens 0 [] nl force initFormat = None" for nl force
    by (simp add: buildGap_def initFormat_def Let_def)
  moreover have "skipSemicolon f (Source t) ?tokens 0 [] = Some False"
    using assms(2) by (auto simp: skipSemicolon_def closers_def)
  ultimately have "formatStep f (Source t) ?tokens None 0 initFormat = None"
    by (auto simp: formatStep_def initFormat_def noToken_def Let_def split: bind_splits)
  then have "formatGaps f (Source t) None = None"
    using assms(1) by (simp add: formatGaps_def upt_conv_Cons del: upt_Suc lexTokens.simps)
  then show ?thesis
    by (simp add: Format_def)
qed

lemma Format_panics_on_leading_closer_witness:
  "Format (NewFormatter 4 False False) (NewTree ''end'') None = None"
proof (rule Format_panics_on_leading_closer)
  have "lexTokens (length ''end'' + 1) (Lexer_New ''end'') = Some (tok TEnd 0 3 # [])" by code_simp
  then show "lexTokens (length (Source (NewTree ''end'')) + 1) (Lexer_New (Source (NewTree ''end'')))
      = Some (tok TEnd 0 3 # [])"
    by (simp only: Source_NewTree)
  show "tkKind (tok TEnd 0 3) \<in> closers" "\<not> isKeywordAsIdentifier [tok TEnd 0 3] 0"
    by (simp_all add: tok_def closers_def isKeywordAsIdentifier_def)
qed

section \<open>Documents that formatting damages\<close>

text \<open>
  The number 0 stands for no token and for an illegal token, so after an illegal token the gap
  starts at the beginning of the document: the edit deletes everything before the next token.
  A script with an interpreter line loses its first two bytes.
\<close>

definition formatText :: "bytes \<Rightarrow> bytes option" where
  "formatText source =
     map_option (\<lambda>gaps. applyEdits source 0 gaps (length source))
       (formatGaps (NewFormatter 4 False False) source None)"

lemma Format_deletes_shebang: "formatText ''#!/a'' = Some (''/ a'' @ [newline])"
  by code_simp

text \<open>The blank between two unary minus signs is dropped, and the rest of the line becomes a comment.\<close>

lemma Format_makes_comment:
  "formatText ''x = - -y'' = Some (''x = --y'' @ [newline]) \<and>
   map_option (map tkKind) (lexTokens 9 (Lexer_New (''x = --y'' @ [newline]))) = Some [TIdent, TAssign, TComment]"
  by code_simp

text \<open>The blank between a bracket and a long string is dropped, and the index becomes a long string.\<close>

lemma Format_makes_long_string:
  "formatText ''t[ [[k]] ]'' = Some (''t[[[k]]]'' @ [newline]) \<and>
   map_option (map tkKind) (lexTokens 10 (Lexer_New ''t[ [[k]] ]'')) = Some [TIdent, TLBrack, TString, TRBrack] \<and>
   map_option (map tkKind) (lexTokens 10 (Lexer_New (''t[[[k]]]'' @ [newline]))) = Some [TIdent, TString, TRBrack]"
  by code_simp

text \<open>The lexer stops at a zero byte, and the last edit replaces everything after the last token.\<close>

lemma Format_truncates_at_zero: "formatText (''x'' @ [nul] @ ''y'') = Some (''x'' @ [newline])"
  by code_simp

end
