(* ===== verification/Eval.thy ===== *)
theory Eval
  imports Rpc
begin

text \<open>
  Constant evaluation (\<open>src/lsp/eval.go\<close>), the lookup of the value a name is bound to
  (\<open>getAssignedValue\<close> of \<open>src/lsp/document.go\<close>), and the analysis of statements that never
  complete (\<open>isTerminal\<close> of \<open>src/lsp/utils.go\<close> with the unreachable-code diagnostic that uses it).

  The arithmetic of \<open>float64\<close> and its conversions to and from text are a parameter, a record of
  operations: no law of floating-point arithmetic is assumed. An \<open>int64\<close> is a \<open>64 word\<close>. A result
  is \<open>None\<close> for a panic, and the inner \<open>None\<close> is Go's second result \<open>false\<close>. Walks up the tree and
  walks down take a bound on the number of steps, the number of nodes; the theorems show that on
  well-formed trees it is never reached.
\<close>

section \<open>Values\<close>

record 'f Float64 =
  ParseFloat :: "bytes \<Rightarrow> 'f option"
  ParseInt :: "bytes \<Rightarrow> 64 word option"
  FormatFloat :: "'f \<Rightarrow> bytes"
  Unquote :: "bytes \<Rightarrow> bytes option"
  Quote :: "bytes \<Rightarrow> bytes"
  ofInt64 :: "64 word \<Rightarrow> 'f"
  toInt64 :: "'f \<Rightarrow> 64 word"
  fAdd :: "'f \<Rightarrow> 'f \<Rightarrow> 'f"
  fSub :: "'f \<Rightarrow> 'f \<Rightarrow> 'f"
  fMul :: "'f \<Rightarrow> 'f \<Rightarrow> 'f"
  fDiv :: "'f \<Rightarrow> 'f \<Rightarrow> 'f"
  fPow :: "'f \<Rightarrow> 'f \<Rightarrow> 'f"
  fNeg :: "'f \<Rightarrow> 'f"
  fFloor :: "'f \<Rightarrow> 'f"
  fTrunc :: "'f \<Rightarrow> 'f"
  fEq :: "'f \<Rightarrow> 'f \<Rightarrow> bool"
  fLess :: "'f \<Rightarrow> 'f \<Rightarrow> bool"

definition fLessEq :: "'f Float64 \<Rightarrow> 'f \<Rightarrow> 'f \<Rightarrow> bool" where
  "fLessEq F a b \<longleftrightarrow> fLess F a b \<or> fEq F a b"

record 'f evalResult =
  erKind :: NodeKind
  erNum :: 'f
  erStr :: bytes
  erBool :: bool

definition zeroResult :: "'f Float64 \<Rightarrow> 'f evalResult" where
  "zeroResult F = \<lparr>erKind = KindInvalid, erNum = ofInt64 F 0, erStr = [], erBool = False\<rparr>"

definition numResult :: "'f Float64 \<Rightarrow> 'f \<Rightarrow> 'f evalResult" where
  "numResult F x = (zeroResult F)\<lparr>erKind := KindNumber, erNum := x\<rparr>"

definition strResult :: "'f Float64 \<Rightarrow> bytes \<Rightarrow> 'f evalResult" where
  "strResult F s = (zeroResult F)\<lparr>erKind := KindString, erStr := s\<rparr>"

definition boolResult :: "'f Float64 \<Rightarrow> NodeKind \<Rightarrow> bool \<Rightarrow> 'f evalResult" where
  "boolResult F k b = (zeroResult F)\<lparr>erKind := k, erBool := b\<rparr>"

text \<open>The hash of a backtick string, on 32-bit words.\<close>

definition joaatByte :: "byte \<Rightarrow> 32 word" where
  "joaatByte b = (if 65 \<le> byte_val b \<and> byte_val b \<le> 90
     then of_nat (byte_val b + 32) else of_nat (byte_val b))"

definition joaatStep :: "32 word \<Rightarrow> byte \<Rightarrow> 32 word" where
  "joaatStep hash b =
     (let hash = hash + joaatByte b;
          hash = hash + push_bit 10 hash
      in hash XOR drop_bit 6 hash)"

definition joaatHash :: "bytes \<Rightarrow> 32 word" where
  "joaatHash key =
     (let hash = foldl joaatStep 0 key;
          hash = hash + push_bit 3 hash;
          hash = hash XOR drop_bit 11 hash
      in hash + push_bit 15 hash)"

section \<open>Formatting and operators\<close>

definition FormatInt :: "64 word \<Rightarrow> bytes" where
  "FormatInt w = (if sint w < 0 then ''-'' @ decDigits (nat (- sint w)) else decDigits (nat (sint w)))"

text \<open>\<open>math.MinInt64\<close> and \<open>math.MaxInt64\<close> as floating-point constants; the second rounds up.\<close>

definition minInt64 :: "64 word" where "minInt64 = push_bit 63 1"
definition maxInt64 :: "64 word" where "maxInt64 = NOT minInt64"

definition formatNumber :: "'f Float64 \<Rightarrow> 'f \<Rightarrow> bytes" where
  "formatNumber F x =
     (if fEq F x (fTrunc F x) \<and> fLessEq F (ofInt64 F minInt64) x \<and> fLessEq F x (ofInt64 F maxInt64)
      then FormatInt (toInt64 F x) else FormatFloat F x)"

definition formatEvalResult :: "'f Float64 \<Rightarrow> 'f evalResult \<Rightarrow> bytes option" where
  "formatEvalResult F val =
     (if erKind val = KindNumber then Some (formatNumber F (erNum val))
      else if erKind val = KindString then Some (Quote F (erStr val))
      else if erKind val = KindTrue then Some ''true''
      else if erKind val = KindFalse then Some ''false''
      else if erKind val = KindNil then Some ''nil''
      else None)"

definition concatText :: "'f Float64 \<Rightarrow> 'f evalResult \<Rightarrow> bytes option" where
  "concatText F val =
     (if erKind val = KindString then Some (erStr val)
      else if erKind val = KindNumber then Some (formatNumber F (erNum val))
      else None)"

text \<open>The operators on two numbers; the result \<open>None\<close> falls through to the cases after them.\<close>

definition numberOp :: "'f Float64 \<Rightarrow> 'f \<Rightarrow> 'f \<Rightarrow> nat \<Rightarrow> 'f evalResult option option" where
  "numberOp F l r op =
     (let num = (\<lambda>x. Some (Some (numResult F x)));
          bits = (\<lambda>f. num (ofInt64 F (f (toInt64 F l) (toInt64 F r))));
          cmp = (\<lambda>b. Some (Some (boolResult F KindTrue b)));
          zero = fEq F r (ofInt64 F 0)
      in if op = kind_code TPlus then num (fAdd F l r)
         else if op = kind_code TMinus then num (fSub F l r)
         else if op = kind_code TAsterisk then num (fMul F l r)
         else if op = kind_code TSlash then (if zero then Some None else num (fDiv F l r))
         else if op = kind_code TFloorSlash
         then (if zero then Some None else num (fFloor F (fDiv F l r)))
         else if op = kind_code TModulo
         then (if zero then Some None else num (fSub F l (fMul F (fFloor F (fDiv F l r)) r)))
         else if op = kind_code TCaret then num (fPow F l r)
         else if op = kind_code TBitAnd then bits (AND)
         else if op = kind_code TBitOr then bits (OR)
         else if op = kind_code TBitXor then bits (XOR)
         else if op = kind_code TShiftLeft
         then (if sint (toInt64 F r) < 0 then Some None
               else bits (\<lambda>a b. push_bit (nat (sint b)) a))
         else if op = kind_code TShiftRight
         then (if sint (toInt64 F r) < 0 then Some None
               else bits (\<lambda>a b. signed_drop_bit (nat (sint b)) a))
         else if op = kind_code TEq then cmp (fEq F l r)
         else if op = kind_code TNotEq then cmp (\<not> fEq F l r)
         else if op = kind_code TLess then cmp (fLess F l r)
         else if op = kind_code TLessEq then cmp (fLessEq F l r)
         else if op = kind_code TGreater then cmp (fLess F r l)
         else if op = kind_code TGreaterEq then cmp (fLessEq F r l)
         else None)"

definition stringOp :: "'f Float64 \<Rightarrow> bytes \<Rightarrow> bytes \<Rightarrow> nat \<Rightarrow> 'f evalResult option" where
  "stringOp F l r op =
     (if op = kind_code TEq then Some (boolResult F KindTrue (l = r))
      else if op = kind_code TNotEq then Some (boolResult F KindTrue (l \<noteq> r))
      else None)"

definition logicOp :: "'f evalResult \<Rightarrow> 'f evalResult \<Rightarrow> nat \<Rightarrow> 'f evalResult option" where
  "logicOp left right op =
     (let lTruthy = (erKind left \<noteq> KindFalse \<and> erKind left \<noteq> KindNil)
      in if op = kind_code TAnd then Some (if lTruthy then right else left)
         else if op = kind_code TOr then Some (if lTruthy then left else right)
         else None)"

definition applyOp :: "'f Float64 \<Rightarrow> 'f evalResult \<Rightarrow> 'f evalResult \<Rightarrow> nat \<Rightarrow> 'f evalResult option" where
  "applyOp F left right op =
     (if op = kind_code TConcat
      then do {
        str1 \<leftarrow> concatText F left;
        str2 \<leftarrow> concatText F right;
        Some (strResult F (str1 @ str2))
      }
      else case (if erKind left = KindNumber \<and> erKind right = KindNumber
                 then numberOp F (erNum left) (erNum right) op else None) of
             Some res \<Rightarrow> res
           | None \<Rightarrow>
               (case (if erKind left = KindString \<and> erKind right = KindString
                      then stringOp F (erStr left) (erStr right) op else None) of
                  Some res \<Rightarrow> Some res
                | None \<Rightarrow> logicOp left right op))"

section \<open>The value of a name\<close>

text \<open>The parts of a document that evaluation reads.\<close>

record Document =
  docTree :: Tree
  docReferences :: "NodeID list"
  docMutated :: "bool list"
  docServer :: bool

definition referenceAt :: "Document \<Rightarrow> NodeID \<Rightarrow> NodeID" where
  "referenceAt doc nid =
     (if nid = InvalidNode \<or> length (docReferences doc) \<le> nid then InvalidNode
      else docReferences doc ! nid)"

text \<open>The expression at the position of a name in the list of its assignment.\<close>

definition listValue :: "Tree \<Rightarrow> NodeID \<Rightarrow> NodeID \<Rightarrow> NodeID \<Rightarrow> NodeID option" where
  "listValue t listID curID rightID = do {
     idx \<leftarrow> IndexOfExtra t listID curID;
     if idx = -1 then Some InvalidNode
     else do {
       rhsNode \<leftarrow> nth_opt (Nodes t) rightID;
       if nCount rhsNode \<le> nat idx then Some InvalidNode
       else nth_opt (ExtraList t) (nExtra rhsNode + nat idx)
     }
   }"

fun assignedFrom :: "nat \<Rightarrow> Tree \<Rightarrow> NodeID \<Rightarrow> NodeID option" where
  "assignedFrom 0 t cur = None"
| "assignedFrom (Suc fuel) t cur = do {
     node \<leftarrow> nth_opt (Nodes t) cur;
     let parentID = nParent node;
     if parentID = InvalidNode then Some InvalidNode
     else do {
       parent \<leftarrow> nth_opt (Nodes t) parentID;
       if nKind parent = KindLocalFunction
       then Some (if nLeft parent = cur then nRight parent else InvalidNode)
       else if nKind parent = KindFunctionStmt then Some (nRight parent)
       else if nKind parent = KindRecordField \<or> nKind parent = KindIndexField
       then Some (if nLeft parent = cur then nRight parent else InvalidNode)
       else if nKind parent = KindNameList
       then if nParent parent = InvalidNode then Some InvalidNode
            else do {
              grand \<leftarrow> nth_opt (Nodes t) (nParent parent);
              if nKind grand \<noteq> KindLocalAssign \<or> nRight grand = InvalidNode then Some InvalidNode
              else listValue t parentID cur (nRight grand)
            }
       else if nKind parent = KindExprList
       then if nParent parent = InvalidNode then Some InvalidNode
            else do {
              grand \<leftarrow> nth_opt (Nodes t) (nParent parent);
              if nKind grand \<noteq> KindAssign \<or> nLeft grand \<noteq> parentID \<or> nRight grand = InvalidNode
              then Some InvalidNode
              else listValue t parentID cur (nRight grand)
            }
       else if nKind parent = KindMemberExpr \<or> nKind parent = KindMethodName
       then assignedFrom fuel t parentID
       else Some InvalidNode
     }
   }"

definition getAssignedValue :: "Tree \<Rightarrow> NodeID \<Rightarrow> NodeID option" where
  "getAssignedValue t nid =
     (if nid = InvalidNode then Some InvalidNode
      else if nid < length (Nodes t) \<and>
              nKind (Nodes t ! nid) \<in> {KindFunctionExpr, KindTableExpr, KindString, KindHashedString,
                KindNumber, KindTrue, KindFalse, KindNil}
      then Some nid
      else assignedFrom (length (Nodes t)) t nid)"

section \<open>Evaluation\<close>

definition evalNumber :: "'f Float64 \<Rightarrow> bytes \<Rightarrow> 'f evalResult option" where
  "evalNumber F raw =
     (case ParseFloat F raw of
        Some x \<Rightarrow> Some (numResult F x)
      | None \<Rightarrow> map_option (\<lambda>i. numResult F (ofInt64 F i)) (ParseInt F raw))"

definition evalString :: "'f Float64 \<Rightarrow> bytes \<Rightarrow> 'f evalResult option" where
  "evalString F raw =
     (if 2 \<le> length raw \<and> (hd raw = CHR 0x27 \<or> hd raw = CHR 0x22)
      then case Unquote F raw of
             Some unq \<Rightarrow> Some (strResult F unq)
           | None \<Rightarrow> Some (strResult F (slice raw 1 (length raw - 1)))
      else if prefix ''['' raw
      then case IndexByte (tl raw) (CHR ''['') of
             None \<Rightarrow> None
           | Some idx \<Rightarrow>
               let start = (if 2 + idx < length raw \<and> raw ! (2 + idx) = newline then 3 + idx else 2 + idx);
                   stop = int (length raw) - (2 + int idx)
               in if int start \<le> stop then Some (strResult F (slice raw start (nat stop))) else None
      else None)"

definition evalHashed :: "'f Float64 \<Rightarrow> bytes \<Rightarrow> 'f evalResult option" where
  "evalHashed F raw =
     (if 2 \<le> length raw \<and> hd raw = CHR 0x60 \<and> last raw = CHR 0x60
      then Some (numResult F (ofInt64 F (ucast (joaatHash (slice raw 1 (length raw - 1))))))
      else None)"

definition evalUnary :: "'f Float64 \<Rightarrow> bytes \<Rightarrow> 'f evalResult \<Rightarrow> 'f evalResult option" where
  "evalUnary F src right =
     (if prefix ''-'' src \<and> erKind right = KindNumber then Some (numResult F (fNeg F (erNum right)))
      else if prefix ''~'' src \<and> erKind right = KindNumber
      then Some (numResult F (ofInt64 F (NOT (toInt64 F (erNum right)))))
      else if prefix ''not'' src
      then Some (if erKind right = KindFalse \<or> erKind right = KindNil then boolResult F KindTrue True
                 else boolResult F KindFalse False)
      else if prefix ''#'' src \<and> erKind right = KindString
      then Some (numResult F (ofInt64 F (of_nat (length (erStr right)))))
      else None)"

text \<open>
  \<open>evalNode\<close> recurses with a larger depth and stops above 20, so it terminates whatever the names
  refer to.
\<close>

function evalNode :: "'f Float64 \<Rightarrow> Document \<Rightarrow> NodeID \<Rightarrow> nat \<Rightarrow> 'f evalResult option option" where
  "evalNode F doc nid depth =
     (if nid = InvalidNode \<or> 20 < depth then Some None
      else do {
        node \<leftarrow> nth_opt (Nodes (docTree doc)) nid;
        let raw = slice_opt (Source (docTree doc)) (nStart node) (nEnd node);
        if nKind node = KindNumber then map_option (evalNumber F) raw
        else if nKind node = KindString then map_option (evalString F) raw
        else if nKind node = KindHashedString then map_option (evalHashed F) raw
        else if nKind node = KindTrue then Some (Some (boolResult F KindTrue True))
        else if nKind node = KindFalse then Some (Some (boolResult F KindFalse False))
        else if nKind node = KindNil then Some (Some (boolResult F KindNil False))
        else if nKind node = KindParenExpr then evalNode F doc (nLeft node) (depth + 1)
        else if nKind node = KindIdent
        then let defID = referenceAt doc nid
             in if defID \<noteq> InvalidNode
                then if defID < length (docMutated doc) \<and> docMutated doc ! defID then Some None
                     else do {
                       valID \<leftarrow> getAssignedValue (docTree doc) defID;
                       if valID \<noteq> InvalidNode \<and> valID \<noteq> nid then evalNode F doc valID (depth + 1)
                       else Some None
                     }
                else Some None
        else if nKind node = KindUnaryExpr
        then do {
          right \<leftarrow> evalNode F doc (nRight node) (depth + 1);
          case right of
            None \<Rightarrow> Some None
          | Some right \<Rightarrow> map_option (\<lambda>src. evalUnary F src right) raw
        }
        else if nKind node = KindBinaryExpr
        then do {
          left \<leftarrow> evalNode F doc (nLeft node) (depth + 1);
          right \<leftarrow> evalNode F doc (nRight node) (depth + 1);
          Some (case (left, right) of
                  (Some l, Some r) \<Rightarrow> applyOp F l r (nExtra node)
                | _ \<Rightarrow> None)
        }
        else Some None
      })"
  by pat_completeness auto
termination
  by (relation "measure (\<lambda>(F, doc, nid, depth). 21 - depth)") auto

definition EvaluateExpression :: "'f Float64 \<Rightarrow> Document \<Rightarrow> NodeID \<Rightarrow> bytes option option" where
  "EvaluateExpression F doc nid = do {
     val \<leftarrow> evalNode F doc nid 0;
     case val of
       None \<Rightarrow> Some None
     | Some val \<Rightarrow> do {
         node \<leftarrow> nth_opt (Nodes (docTree doc)) nid;
         Some (if nKind node \<in> {KindNumber, KindString, KindTrue, KindFalse, KindNil} then None
               else formatEvalResult F val)
       }
   }"

section \<open>Evaluation at a cursor\<close>

definition statementKinds :: "NodeKind list" where
  "statementKinds = [KindFile, KindBlock, KindReturn, KindAssign, KindLocalAssign, KindExprList,
     KindNameList, KindFunctionStmt, KindLocalFunction, KindIf, KindElseIf, KindWhile, KindRepeat,
     KindForIn, KindForNum, KindCallExpr, KindMethodCall]"

definition evaluableKinds :: "NodeKind list" where
  "evaluableKinds = [KindNumber, KindString, KindTrue, KindFalse, KindNil, KindUnaryExpr,
     KindBinaryExpr, KindParenExpr, KindIdent]"

text \<open>The climb of \<open>FindEvaluableParent\<close>: the highest node with a value, and its text.\<close>

fun climbEval ::
  "'f Float64 \<Rightarrow> Document \<Rightarrow> nat \<Rightarrow> NodeID \<Rightarrow> (NodeID \<times> bytes) \<Rightarrow> (NodeID \<times> bytes) option" where
  "climbEval F doc 0 cur best = None"
| "climbEval F doc (Suc fuel) cur best =
     (if cur = InvalidNode then Some best
      else do {
        node \<leftarrow> nth_opt (Nodes (docTree doc)) cur;
        if nKind node \<in> set statementKinds then Some best
        else if nKind node \<notin> set evaluableKinds then Some best
        else do {
          val \<leftarrow> EvaluateExpression F doc cur;
          climbEval F doc fuel (nParent node) (case val of Some v \<Rightarrow> (cur, v) | None \<Rightarrow> best)
        }
      })"

definition isAssociative :: "nat \<Rightarrow> bool" where
  "isAssociative op \<longleftrightarrow> op \<in> set (map kind_code
     [TPlus, TAsterisk, TBitAnd, TBitOr, TBitXor, TAnd, TOr, TConcat])"

text \<open>The climb of \<open>findPartialEval\<close> to the root of the operator chain around the cursor.\<close>

fun chainRootFrom :: "Tree \<Rightarrow> nat \<Rightarrow> NodeID \<Rightarrow> (NodeID \<times> nat) \<Rightarrow> (NodeID \<times> nat) option" where
  "chainRootFrom t 0 temp root = None"
| "chainRootFrom t (Suc fuel) temp root =
     (if temp = InvalidNode then Some root
      else do {
        node \<leftarrow> nth_opt (Nodes t) temp;
        if nKind node = KindBinaryExpr
        then if isAssociative (nExtra node) \<and> (fst root = InvalidNode \<or> snd root = nExtra node)
             then chainRootFrom t fuel (nParent node) (temp, nExtra node)
             else Some root
        else if nKind node \<in> {KindParenExpr, KindReturn, KindAssign, KindLocalAssign} \<and> fst root \<noteq> InvalidNode
        then Some root
        else chainRootFrom t fuel (nParent node) root
      })"

fun flattenChain :: "Tree \<Rightarrow> nat \<Rightarrow> nat \<Rightarrow> NodeID \<Rightarrow> NodeID list option" where
  "flattenChain t chainOp 0 nid = None"
| "flattenChain t chainOp (Suc fuel) nid = do {
     node \<leftarrow> nth_opt (Nodes t) nid;
     if nKind node = KindBinaryExpr \<and> nExtra node = chainOp
     then do {
       ls \<leftarrow> flattenChain t chainOp fuel (nLeft node);
       rs \<leftarrow> flattenChain t chainOp fuel (nRight node);
       Some (ls @ rs)
     }
     else Some [nid]
   }"

text \<open>
  The scan over the operands: the start of the current run of constants, and the best segment so
  far (both ends, \<open>None\<close> for \<open>-1\<close>).
\<close>

definition segmentStep ::
  "'f Float64 \<Rightarrow> Document \<Rightarrow> nat \<Rightarrow> NodeID list \<Rightarrow> nat \<Rightarrow> nat option \<times> (nat \<times> nat) option
     \<Rightarrow> (nat option \<times> (nat \<times> nat) option) option" where
  "segmentStep F doc offset operands i = (\<lambda>(currentStart, best). do {
     val \<leftarrow> evalNode F doc (operands ! i) 0;
     if val \<noteq> None
     then do {
       let start = (case currentStart of None \<Rightarrow> i | Some c \<Rightarrow> c);
       first \<leftarrow> nth_opt (Nodes (docTree doc)) (operands ! start);
       this \<leftarrow> nth_opt (Nodes (docTree doc)) (operands ! i);
       Some (Some start, if nStart first \<le> offset \<and> offset \<le> nEnd this then Some (start, i) else best)
     }
     else Some (None, best)
   })"

text \<open>The value of a segment: the operator applied from left to right.\<close>

primrec foldChain ::
  "'f Float64 \<Rightarrow> Document \<Rightarrow> nat \<Rightarrow> 'f evalResult \<Rightarrow> NodeID list \<Rightarrow> 'f evalResult option option" where
  "foldChain F doc op res [] = Some (Some res)"
| "foldChain F doc op res (nid # nids) = do {
     nextRes \<leftarrow> evalNode F doc nid 0;
     case nextRes of
       None \<Rightarrow> Some None
     | Some r \<Rightarrow>
         (case applyOp F res r op of
            None \<Rightarrow> Some None
          | Some res \<Rightarrow> foldChain F doc op res nids)
   }"

definition evalSegment ::
  "'f Float64 \<Rightarrow> Document \<Rightarrow> nat \<Rightarrow> NodeID list \<Rightarrow> nat \<Rightarrow> nat \<Rightarrow> (nat \<times> nat \<times> bytes) option option" where
  "evalSegment F doc op operands lo hi = do {
     res \<leftarrow> evalNode F doc (operands ! lo) 0;
     case res of
       None \<Rightarrow> Some None
     | Some res \<Rightarrow> do {
         res \<leftarrow> foldChain F doc op res (slice operands (lo + 1) (hi + 1));
         case res of
           None \<Rightarrow> Some None
         | Some res \<Rightarrow> do {
             first \<leftarrow> nth_opt (Nodes (docTree doc)) (operands ! lo);
             last_node \<leftarrow> nth_opt (Nodes (docTree doc)) (operands ! hi);
             Some (map_option (\<lambda>str. (nStart first, nEnd last_node, str)) (formatEvalResult F res))
           }
       }
   }"

definition findPartialEval :: "'f Float64 \<Rightarrow> Document \<Rightarrow> nat \<Rightarrow> (nat \<times> nat \<times> bytes) option option" where
  "findPartialEval F doc offset = do {
     let t = docTree doc;
     cur \<leftarrow> NodeAt t offset;
     if cur = InvalidNode then Some None
     else do {
       (chainRoot, chainOp) \<leftarrow> chainRootFrom t (length (Nodes t)) cur (InvalidNode, 0);
       if chainRoot = InvalidNode then Some None
       else do {
         operands \<leftarrow> flattenChain t chainOp (length (Nodes t)) chainRoot;
         (_, best) \<leftarrow> forM [0..<length operands] (segmentStep F doc offset operands) (None, None);
         case best of
           None \<Rightarrow> Some None
         | Some (lo, hi) \<Rightarrow> if lo < hi then evalSegment F doc chainOp operands lo hi else Some None
       }
     }
   }"

definition FindEvaluableParent :: "'f Float64 \<Rightarrow> Document \<Rightarrow> nat \<Rightarrow> (nat \<times> nat \<times> bytes) option option" where
  "FindEvaluableParent F doc offset = do {
     cur \<leftarrow> NodeAt (docTree doc) offset;
     (highest, val) \<leftarrow> climbEval F doc (length (Nodes (docTree doc)) + 1) cur (InvalidNode, []);
     if highest \<noteq> InvalidNode
     then do {
       node \<leftarrow> nth_opt (Nodes (docTree doc)) highest;
       Some (Some (nStart node, nEnd node, val))
     }
     else findPartialEval F doc offset
   }"

section \<open>Statements that do not complete\<close>

text \<open>The parentheses that \<open>isOppositeCondition\<close> strips from the text of a condition.\<close>

definition stripParens :: "bytes \<Rightarrow> bytes option" where
  "stripParens src =
     (let src = TrimSpace src
      in if prefix ''('' src \<and> suffix '')'' src
         then map_option TrimSpace (slice_opt src 1 (length src - 1)) else Some src)"

definition checkNot :: "Tree \<Rightarrow> NodeID \<Rightarrow> NodeID \<Rightarrow> bool option" where
  "checkNot t n other = do {
     node \<leftarrow> nth_opt (Nodes t) n;
     if nKind node = KindUnaryExpr \<and> nRight node \<noteq> InvalidNode \<and> other \<noteq> InvalidNode
     then do {
       src \<leftarrow> slice_opt (Source t) (nStart node) (nEnd node);
       if prefix ''not'' src
       then do {
         right \<leftarrow> nth_opt (Nodes t) (nRight node);
         otherNode \<leftarrow> nth_opt (Nodes t) other;
         if nStart right \<le> nEnd right \<and> nEnd right \<le> length (Source t) \<and>
            nStart otherNode \<le> nEnd otherNode \<and> nEnd otherNode \<le> length (Source t)
         then do {
           rightSrc \<leftarrow> stripParens (slice (Source t) (nStart right) (nEnd right));
           otherSrc \<leftarrow> stripParens (slice (Source t) (nStart otherNode) (nEnd otherNode));
           Some (rightSrc = otherSrc)
         }
         else Some False
       }
       else Some False
     }
     else Some False
   }"

definition isOppositeCondition :: "Tree \<Rightarrow> NodeID \<Rightarrow> NodeID \<Rightarrow> bool option" where
  "isOppositeCondition t a b =
     (if a = InvalidNode \<or> b = InvalidNode then Some False
      else do {
        r \<leftarrow> checkNot t a b;
        if r then Some True else checkNot t b a
      })"

text \<open>What evaluation says of a condition: true, false or unknown (\<open>None\<close>).\<close>

definition staticTruth :: "'f Float64 \<Rightarrow> Document \<Rightarrow> NodeID \<Rightarrow> bool option option" where
  "staticTruth F doc nid =
     (if docServer doc
      then do {
        res \<leftarrow> evalNode F doc nid 0;
        Some (map_option (\<lambda>r. erKind r \<noteq> KindFalse \<and> erKind r \<noteq> KindNil) res)
      }
      else Some None)"

definition extraChild :: "Tree \<Rightarrow> Node \<Rightarrow> nat \<Rightarrow> NodeID option" where
  "extraChild t node i =
     (if nExtra node + i < length (ExtraList t) then Some (ExtraList t ! (nExtra node + i)) else None)"

text \<open>
  The loop over the statements of a block and the loop over the branches of an \<open>if\<close>, with the
  recursive call as an argument. \<open>branchLoop\<close> keeps \<open>hasElse\<close> and \<open>isExhaustive\<close>.
\<close>

primrec anyTerminal :: "(NodeID \<Rightarrow> bool option) \<Rightarrow> Tree \<Rightarrow> Node \<Rightarrow> nat list \<Rightarrow> bool option" where
  "anyTerminal rec t node [] = Some False"
| "anyTerminal rec t node (i # is) =
     (case extraChild t node i of
        None \<Rightarrow> anyTerminal rec t node is
      | Some c \<Rightarrow> do {
          b \<leftarrow> rec c;
          if b then Some True else anyTerminal rec t node is
        })"

primrec branchLoop ::
  "(NodeID \<Rightarrow> bool option) \<Rightarrow> 'f Float64 \<Rightarrow> Document \<Rightarrow> Node \<Rightarrow> nat list \<Rightarrow> bool \<Rightarrow> bool \<Rightarrow> bool option" where
  "branchLoop rec F doc node [] hasElse isExhaustive = Some (hasElse \<or> isExhaustive)"
| "branchLoop rec F doc node (i # is) hasElse isExhaustive =
     (let t = docTree doc
      in case extraChild t node i of
        None \<Rightarrow> branchLoop rec F doc node is hasElse isExhaustive
      | Some childID \<Rightarrow>
          if childID = InvalidNode \<or> length (Nodes t) \<le> childID
          then branchLoop rec F doc node is hasElse isExhaustive
          else let childNode = Nodes t ! childID
               in if nKind childNode = KindElseIf
                  then do {
                    static \<leftarrow> staticTruth F doc (nLeft childNode);
                    if static = Some True then rec (nRight childNode)
                    else do {
                      leaves \<leftarrow> (if static = Some False then Some True else rec (nRight childNode));
                      if \<not> leaves then Some False
                      else do {
                        opposite \<leftarrow> (if isExhaustive then Some True
                                     else isOppositeCondition t (nLeft node) (nLeft childNode));
                        branchLoop rec F doc node is hasElse opposite
                      }
                    }
                  }
                  else if nKind childNode = KindElse
                  then do {
                    leaves \<leftarrow> rec (nLeft childNode);
                    if \<not> leaves then Some False else branchLoop rec F doc node is True isExhaustive
                  }
                  else branchLoop rec F doc node is hasElse isExhaustive)"

fun isTerminal :: "nat \<Rightarrow> 'f Float64 \<Rightarrow> Document \<Rightarrow> NodeID \<Rightarrow> bool option" where
  "isTerminal 0 F doc nid = None"
| "isTerminal (Suc fuel) F doc nid =
     (let t = docTree doc
      in if nid = InvalidNode \<or> length (Nodes t) \<le> nid then Some False
         else let node = Nodes t ! nid
              in if nKind node \<in> {KindReturn, KindBreak, KindGoto} then Some True
                 else if nKind node = KindDo then isTerminal fuel F doc (nLeft node)
                 else if nKind node = KindBlock
                 then anyTerminal (isTerminal fuel F doc) t node [0..<nCount node]
                 else if nKind node = KindIf
                 then do {
                   static \<leftarrow> staticTruth F doc (nLeft node);
                   if static = Some True then isTerminal fuel F doc (nRight node)
                   else do {
                     leaves \<leftarrow> (if static = Some False then Some True else isTerminal fuel F doc (nRight node));
                     if \<not> leaves then Some False
                     else branchLoop (isTerminal fuel F doc) F doc node [0..<nCount node] False False
                   }
                 }
                 else Some False)"

text \<open>
  The unreachable-code diagnostic on a block or a file: the first statement after one that does not
  complete, with the end of the range that is reported.
\<close>

primrec unreachableFrom ::
  "'f Float64 \<Rightarrow> Document \<Rightarrow> Node \<Rightarrow> bool \<Rightarrow> nat list \<Rightarrow> (NodeID \<times> NodeID) option option" where
  "unreachableFrom F doc node terminalFound [] = Some None"
| "unreachableFrom F doc node terminalFound (j # js) = do {
     stmtID \<leftarrow> nth_opt (ExtraList (docTree doc)) (nExtra node + j);
     if terminalFound
     then do {
       lastStmtID \<leftarrow> nth_opt (ExtraList (docTree doc)) (nExtra node + (nCount node - 1));
       Some (Some (stmtID, lastStmtID))
     }
     else do {
       b \<leftarrow> isTerminal (length (Nodes (docTree doc))) F doc stmtID;
       unreachableFrom F doc node b js
     }
   }"

end
