(* ===== verification/Eval_Correct.thy ===== *)
theory Eval_Correct
  imports Eval
begin

text \<open>
  Constant evaluation returns on every well-formed document, whatever the names refer to; its depth
  guard only withholds results; the segment that is offered at a cursor is a run of constants
  around it. \<open>isTerminal\<close> is sound for a small-step reading of the control flow: a statement it
  calls terminal does not complete in any execution that agrees with the static truth values.
\<close>

declare evalNode.simps [simp del]

section \<open>Totality\<close>














section \<open>The segment of constants\<close>




















section \<open>Properties\<close>














text \<open>A document \<open>1 == 2\<close>, and arithmetic in which the only numbers are integers.\<close>

definition intFloat :: "int Float64" where
  "intFloat = \<lparr>ParseFloat = (\<lambda>s. Some (int (decValue s))), ParseInt = (\<lambda>s. None), FormatFloat = (\<lambda>x. []),
     Unquote = (\<lambda>s. None), Quote = (\<lambda>s. s), ofInt64 = sint, toInt64 = of_int,
     fAdd = (+), fSub = (-), fMul = (*), fDiv = (div), fPow = (\<lambda>x y. x ^ nat y), fNeg = uminus,
     fFloor = (\<lambda>x. x), fTrunc = (\<lambda>x. x), fEq = (=), fLess = (<)\<rparr>"

definition compareDoc :: Document where
  "compareDoc =
     \<lparr>docTree = (NewTree ''1 == 2'')\<lparr>Nodes := [invalidNode, (mkNode KindNumber 0 1)\<lparr>nParent := 3\<rparr>,
        (mkNode KindNumber 5 6)\<lparr>nParent := 3\<rparr>,
        (mkNode KindBinaryExpr 0 6)\<lparr>nLeft := 1, nRight := 2, nExtra := kind_code TEq\<rparr>], Root := 3\<rparr>,
      docReferences = [], docMutated = [], docServer = True\<rparr>"



text \<open>One step of evaluation, by the kind of the node.\<close>

lemma evalNode_node:
  assumes "nid < length (Nodes (docTree doc))" "nid \<noteq> InvalidNode" "depth \<le> 20"
  shows "nKind (Nodes (docTree doc) ! nid) = KindParenExpr \<Longrightarrow>
      evalNode F doc nid depth = evalNode F doc (nLeft (Nodes (docTree doc) ! nid)) (Suc depth)"
    and "nKind (Nodes (docTree doc) ! nid) = KindIdent \<Longrightarrow> evalNode F doc nid depth =
      (if referenceAt doc nid \<noteq> InvalidNode
       then if referenceAt doc nid < length (docMutated doc) \<and> docMutated doc ! referenceAt doc nid then Some None
            else Option.bind (getAssignedValue (docTree doc) (referenceAt doc nid))
              (\<lambda>v. if v \<noteq> InvalidNode \<and> v \<noteq> nid then evalNode F doc v (Suc depth) else Some None)
       else Some None)"
    and "nKind (Nodes (docTree doc) ! nid) = KindUnaryExpr \<Longrightarrow> evalNode F doc nid depth =
      Option.bind (evalNode F doc (nRight (Nodes (docTree doc) ! nid)) (Suc depth))
        (case_option (Some None) (\<lambda>r. map_option (\<lambda>src. evalUnary F src r)
           (slice_opt (Source (docTree doc)) (nStart (Nodes (docTree doc) ! nid)) (nEnd (Nodes (docTree doc) ! nid)))))"
    and "nKind (Nodes (docTree doc) ! nid) = KindBinaryExpr \<Longrightarrow> evalNode F doc nid depth =
      Option.bind (evalNode F doc (nLeft (Nodes (docTree doc) ! nid)) (Suc depth))
        (\<lambda>l. Option.bind (evalNode F doc (nRight (Nodes (docTree doc) ! nid)) (Suc depth))
          (\<lambda>r. Some (case (l, r) of (Some l, Some r) \<Rightarrow> applyOp F l r (nExtra (Nodes (docTree doc) ! nid)) | _ \<Rightarrow> None)))"
  unfolding evalNode.simps [of F doc nid depth] Suc_eq_plus1 using assms by (simp_all add: Let_def)

lemma evalNode_leaf:
  assumes "nid < length (Nodes (docTree doc))" "nid \<noteq> InvalidNode" "depth \<le> 20" "depth' \<le> 20"
    and "nKind (Nodes (docTree doc) ! nid) \<notin> {KindParenExpr, KindIdent, KindUnaryExpr, KindBinaryExpr}"
  shows "evalNode F doc nid depth = evalNode F doc nid depth'"
  unfolding evalNode.simps [of F doc nid depth] evalNode.simps [of F doc nid depth']
  using assms by (simp add: Let_def)

text \<open>
  The depth guard only withholds: a value found at some depth is found at every smaller depth,
  and it is the same, so the value of an expression does not depend on where the evaluation of it
  was started.
\<close>

lemma evalNode_depth:
  assumes "evalNode F doc nid depth = Some (Some v)" "depth' \<le> depth"
  shows "evalNode F doc nid depth' = Some (Some v)"
  using assms
proof (induction "21 - depth" arbitrary: nid depth depth' v rule: less_induct)
  case less
  have "nid = InvalidNode \<or> 20 < depth \<Longrightarrow> evalNode F doc nid depth = Some None"
    by (subst evalNode.simps) simp
  with less.prems(1) have "\<not> (nid = InvalidNode \<or> 20 < depth)"
    by fastforce
  then have d: "nid \<noteq> InvalidNode" "depth \<le> 20" "depth' \<le> 20"
    using less.prems(2) by simp_all
  have len: "nid < length (Nodes (docTree doc))"
  proof (rule ccontr)
    assume "\<not> nid < length (Nodes (docTree doc))"
    then have "evalNode F doc nid depth = None"
      using d by (subst evalNode.simps) (simp add: nth_opt_def)
    with less.prems(1) show False by simp
  qed
  from d have "21 - Suc depth < 21 - depth" by linarith
  from less.hyps [OF this] less.prems(2) have IH:
    "evalNode F doc m (Suc depth) = Some (Some w) \<Longrightarrow> evalNode F doc m (Suc depth') = Some (Some w)" for m w
    by blast
  note step = evalNode_node [OF len d(1,2), of F] and step' = evalNode_node [OF len d(1,3), of F]
  let ?k = "nKind (Nodes (docTree doc) ! nid)"
  consider "?k = KindParenExpr" | "?k = KindIdent" | "?k = KindUnaryExpr" | "?k = KindBinaryExpr"
    | "?k \<notin> {KindParenExpr, KindIdent, KindUnaryExpr, KindBinaryExpr}" by blast
  then show ?case
  proof cases
    case 1
    with less.prems(1) IH show ?thesis by (simp add: step(1) step'(1))
  next
    case 2
    with less.prems(1) IH show ?thesis
      by (simp add: step(2) step'(2) bind_eq_Some_conv split: if_splits) blast
  next
    case 3
    from less.prems(1) obtain r where
      "evalNode F doc (nRight (Nodes (docTree doc) ! nid)) (Suc depth) = Some (Some r)"
      unfolding step(3) [OF 3] by (auto simp: bind_eq_Some_conv split: option.splits)
    with less.prems(1) IH show ?thesis
      unfolding step(3) [OF 3] step'(3) [OF 3] by simp
  next
    case 4
    from less.prems(1) obtain l r where
      "evalNode F doc (nLeft (Nodes (docTree doc) ! nid)) (Suc depth) = Some (Some l)"
      "evalNode F doc (nRight (Nodes (docTree doc) ! nid)) (Suc depth) = Some (Some r)"
      unfolding step(4) [OF 4] by (auto simp: bind_eq_Some_conv split: option.splits)
    with less.prems(1) IH show ?thesis
      unfolding step(4) [OF 4] step'(4) [OF 4] by simp
  next
    case 5
    with less.prems(1) evalNode_leaf [OF len d 5, of F] show ?thesis by simp
  qed
qed

lemma evalNode_depth_witness:
  "evalNode intFloat compareDoc 1 7 = Some (Some (numResult intFloat 1))"
proof (rule evalNode_depth)
  show "evalNode intFloat compareDoc 1 20 = Some (Some (numResult intFloat 1))"
    unfolding evalNode.simps [of intFloat compareDoc 1 20]
    by (simp add: compareDoc_def NewTree_def mkNode_def evalNumber_def intFloat_def slice_def decValue_def)
qed simp










section \<open>Statements that do not complete\<close>

text \<open>
  What it means that a statement completes, for given truth values of the conditions: control may
  reach its end. A statement other than a jump, a block and an \<open>if\<close> is taken to complete.
\<close>

inductive completes :: "Tree \<Rightarrow> (NodeID \<Rightarrow> bool) \<Rightarrow> NodeID \<Rightarrow> bool"
  and falls_through :: "Tree \<Rightarrow> (NodeID \<Rightarrow> bool) \<Rightarrow> NodeID list \<Rightarrow> bool"
  for t truth
where
  missing: "nid = InvalidNode \<or> length (Nodes t) \<le> nid \<Longrightarrow> completes t truth nid"
| simple: "nKind (Nodes t ! nid) \<notin> {KindReturn, KindBreak, KindGoto, KindDo, KindBlock, KindIf} \<Longrightarrow>
     completes t truth nid"
| do_stmt: "nKind (Nodes t ! nid) = KindDo \<Longrightarrow> completes t truth (nLeft (Nodes t ! nid)) \<Longrightarrow> completes t truth nid"
| block: "nKind (Nodes t ! nid) = KindBlock \<Longrightarrow>
     (\<And>k. k < nCount (Nodes t ! nid) \<Longrightarrow> completes t truth (ExtraList t ! (nExtra (Nodes t ! nid) + k))) \<Longrightarrow>
     completes t truth nid"
| if_then: "nKind (Nodes t ! nid) = KindIf \<Longrightarrow> truth (nLeft (Nodes t ! nid)) \<Longrightarrow>
     completes t truth (nRight (Nodes t ! nid)) \<Longrightarrow> completes t truth nid"
| if_else: "nKind (Nodes t ! nid) = KindIf \<Longrightarrow> \<not> truth (nLeft (Nodes t ! nid)) \<Longrightarrow>
     falls_through t truth (map (\<lambda>k. ExtraList t ! (nExtra (Nodes t ! nid) + k)) [0..<nCount (Nodes t ! nid)]) \<Longrightarrow>
     completes t truth nid"
| no_branch: "falls_through t truth []"
| elseif_taken: "nKind (Nodes t ! c) = KindElseIf \<Longrightarrow> truth (nLeft (Nodes t ! c)) \<Longrightarrow>
     completes t truth (nRight (Nodes t ! c)) \<Longrightarrow> falls_through t truth (c # cs)"
| elseif_next: "nKind (Nodes t ! c) = KindElseIf \<Longrightarrow> \<not> truth (nLeft (Nodes t ! c)) \<Longrightarrow>
     falls_through t truth cs \<Longrightarrow> falls_through t truth (c # cs)"
| else_taken: "nKind (Nodes t ! c) = KindElse \<Longrightarrow> completes t truth (nLeft (Nodes t ! c)) \<Longrightarrow>
     falls_through t truth (c # cs)"
| not_branch: "nKind (Nodes t ! c) \<notin> {KindElseIf, KindElse} \<Longrightarrow> falls_through t truth cs \<Longrightarrow>
     falls_through t truth (c # cs)"

inductive_simps completes_iff: "completes t truth nid"
inductive_simps falls_through_Nil [simp]: "falls_through t truth []"
inductive_simps falls_through_Cons: "falls_through t truth (c # cs)"

text \<open>
  The truth values agree with the static ones, and within one \<open>if\<close> a condition that is recognised as
  the opposite of the first one has the other truth value. The code compares the texts of the
  conditions, so this is an assumption on conditions with calls or changed variables.
\<close>

definition oppositesDiffer :: "Tree \<Rightarrow> (NodeID \<Rightarrow> bool) \<Rightarrow> Node \<Rightarrow> bool" where
  "oppositesDiffer t truth node \<longleftrightarrow>
     (\<forall>k < nCount node. let c = nLeft (Nodes t ! (ExtraList t ! (nExtra node + k)))
        in isOppositeCondition t (nLeft node) c = Some True \<longrightarrow> truth c \<noteq> truth (nLeft node))"

definition agrees :: "'f Float64 \<Rightarrow> Document \<Rightarrow> (NodeID \<Rightarrow> bool) \<Rightarrow> bool" where
  "agrees F doc truth \<longleftrightarrow>
     (\<forall>c b. staticTruth F doc c = Some (Some b) \<longrightarrow> truth c = b) \<and>
     (\<forall>i < length (Nodes (docTree doc)).
        nKind (Nodes (docTree doc) ! i) = KindIf \<longrightarrow> oppositesDiffer (docTree doc) truth (Nodes (docTree doc) ! i))"

lemma agreesD:
  "agrees F doc truth \<Longrightarrow> staticTruth F doc c = Some (Some b) \<Longrightarrow> truth c = b"
  "agrees F doc truth \<Longrightarrow> i < length (Nodes (docTree doc)) \<Longrightarrow> nKind (Nodes (docTree doc) ! i) = KindIf \<Longrightarrow>
     oppositesDiffer (docTree doc) truth (Nodes (docTree doc) ! i)"
  by (auto simp: agrees_def)

lemma anyTerminal_sound:
  assumes "anyTerminal rec t node ks = Some True"
  shows "\<exists>k \<in> set ks. nExtra node + k < length (ExtraList t) \<and> rec (ExtraList t ! (nExtra node + k)) = Some True"
  using assms by (induction ks) (auto simp: extraChild_def split: if_splits bind_splits)

lemma branchLoop_sound:
  assumes "agrees F doc truth" "\<not> truth (nLeft node)" and differ: "oppositesDiffer (docTree doc) truth node"
    and rec: "\<And>c. rec c = Some True \<Longrightarrow> \<not> completes (docTree doc) truth c"
    and zero: "nKind (Nodes (docTree doc) ! 0) = KindInvalid"
    and "branchLoop rec F doc node ks hasElse isExhaustive = Some True" "\<not> hasElse" "\<not> isExhaustive"
    and "\<forall>k \<in> set ks. k < nCount node \<and> nExtra node + k < length (ExtraList (docTree doc)) \<and>
           ExtraList (docTree doc) ! (nExtra node + k) < length (Nodes (docTree doc))"
  shows "\<not> falls_through (docTree doc) truth (map (\<lambda>k. ExtraList (docTree doc) ! (nExtra node + k)) ks)"
  using assms(6-9)
proof (induction ks)
  case Nil
  then show ?case by simp
next
  case (Cons k ks)
  let ?t = "docTree doc"
  let ?c = "ExtraList ?t ! (nExtra node + k)"
  let ?n = "Nodes ?t ! ?c"
  have child: "extraChild ?t node k = Some ?c" "?c < length (Nodes ?t)"
    using Cons.prems(4) by (auto simp: extraChild_def)
  have IH: "branchLoop rec F doc node ks False False = Some True \<Longrightarrow>
      \<not> falls_through ?t truth (map (\<lambda>k. ExtraList ?t ! (nExtra node + k)) ks)"
    using Cons.IH Cons.prems(2-4) by simp
  note agree = agreesD(1) [OF assms(1)]
  show ?case
  proof (cases "nKind ?n = KindElseIf")
    case True
    then have c0: "?c \<noteq> 0" using zero by (intro notI) simp
    obtain static where static: "staticTruth F doc (nLeft ?n) = Some static"
      using Cons.prems(1) child c0 True by (auto simp: Let_def split: bind_splits)
    show ?thesis
    proof (cases "static = Some True")
      case taken: True
      with Cons.prems(1) child c0 True static have "rec (nRight ?n) = Some True" by (simp add: Let_def)
      with agree static taken True rec show ?thesis
        by (auto simp: falls_through_Cons)
    next
      case False
      then have loop: "Option.bind (if static = Some False then Some True else rec (nRight ?n))
          (\<lambda>leaves. if \<not> leaves then Some False
             else Option.bind (isOppositeCondition ?t (nLeft node) (nLeft ?n))
               (\<lambda>opposite. branchLoop rec F doc node ks False opposite)) = Some True"
        using Cons.prems(1-3) child c0 True static by (simp add: Let_def cong: if_cong)
      then obtain opposite where opp: "isOppositeCondition ?t (nLeft node) (nLeft ?n) = Some opposite"
        "branchLoop rec F doc node ks False opposite = Some True"
        by (auto split: if_splits bind_splits)
      have taken: "truth (nLeft ?n) \<Longrightarrow> \<not> completes ?t truth (nRight ?n)"
        using loop static agree [of "nLeft ?n" False] rec by (auto split: if_splits bind_splits)
      have "\<not> truth (nLeft ?n) \<Longrightarrow> \<not> opposite"
        using differ opp(1) assms(2) Cons.prems(4) by (cases opposite) (auto simp: oppositesDiffer_def Let_def)
      with opp(2) IH taken True show ?thesis
        by (auto simp: falls_through_Cons)
    qed
  next
    case other: False
    show ?thesis
    proof (cases "nKind ?n = KindElse")
      case True
      then have c0: "?c \<noteq> 0" using zero by (intro notI) simp
      have "rec (nLeft ?n) = Some True"
        using Cons.prems(1) child c0 True by (auto simp: Let_def split: bind_splits if_splits)
      with rec True show ?thesis by (auto simp: falls_through_Cons)
    next
      case False
      with other Cons.prems(1-3) child have "branchLoop rec F doc node ks False False = Some True"
        by (simp add: Let_def split: if_splits)
      with IH other False show ?thesis by (auto simp: falls_through_Cons)
    qed
  qed
qed

lemma branchLoop_children:
  assumes "wf_tree t" "nid < length (Nodes t)"
  shows "\<forall>k \<in> set [0..<nCount (Nodes t ! nid)]. k < nCount (Nodes t ! nid) \<and> nExtra (Nodes t ! nid) + k < length (ExtraList t) \<and>
           ExtraList t ! (nExtra (Nodes t ! nid) + k) < length (Nodes t)"
  using wf_tree_children(5,6) [OF assms] by (auto intro: less_trans [OF _ assms(2)])

lemma isTerminal_completes:
  assumes "wf_tree (docTree doc)" "agrees F doc truth" "isTerminal fuel F doc nid = Some True"
  shows "\<not> completes (docTree doc) truth nid"
  using assms(3)
proof (induction fuel arbitrary: nid)
  case (Suc fuel)
  let ?t = "docTree doc"
  let ?n = "Nodes ?t ! nid"
  have rec: "isTerminal fuel F doc c = Some True \<Longrightarrow> \<not> completes ?t truth c" for c
    by (rule Suc.IH)
  have inside: "\<not> (nid = InvalidNode \<or> length (Nodes ?t) \<le> nid)"
    by (rule notI) (use Suc.prems in \<open>simp add: Let_def\<close>)
  then have cases: "nKind ?n \<in> {KindReturn, KindBreak, KindGoto, KindDo, KindBlock, KindIf}"
    using Suc.prems by (auto simp: Let_def split: if_splits)
  then consider "nKind ?n \<in> {KindReturn, KindBreak, KindGoto}" | "nKind ?n = KindDo"
    | "nKind ?n = KindBlock" | "nKind ?n = KindIf" by blast
  then show ?case
  proof cases
    case 1
    with inside show ?thesis by (auto simp: completes_iff [of _ _ nid])
  next
    case 2
    with Suc.prems inside have "isTerminal fuel F doc (nLeft ?n) = Some True" by (simp add: Let_def)
    with rec inside 2 show ?thesis by (simp add: completes_iff [of _ _ nid])
  next
    case 3
    with Suc.prems inside have "anyTerminal (isTerminal fuel F doc) ?t ?n [0..<nCount ?n] = Some True"
      by (simp add: Let_def)
    from anyTerminal_sound [OF this] rec inside 3 show ?thesis
      by (auto simp: completes_iff [of _ _ nid])
  next
    case 4
    let ?rest = "branchLoop (isTerminal fuel F doc) F doc ?n [0..<nCount ?n] False False"
    obtain static where static: "staticTruth F doc (nLeft ?n) = Some static"
      using Suc.prems inside 4 by (auto simp: Let_def split: bind_splits)
    have kids: "wf_tree ?t" "nid < length (Nodes ?t)" using assms(1) inside by auto
    have zero: "nKind (Nodes ?t ! 0) = KindInvalid" using wf_tree_node0 [OF assms(1)] by simp
    have rest: "?rest = Some True \<Longrightarrow> \<not> truth (nLeft ?n) \<Longrightarrow>
        \<not> falls_through ?t truth (map (\<lambda>k. ExtraList ?t ! (nExtra ?n + k)) [0..<nCount ?n])"
      by (rule branchLoop_sound [OF assms(2) _ agreesD(2) [OF assms(2) kids(2) 4] rec zero _ _ _ branchLoop_children [OF kids]])
        simp_all
    show ?thesis
    proof (cases "static = Some True")
      case True
      with Suc.prems inside 4 static have "isTerminal fuel F doc (nRight ?n) = Some True" by (simp add: Let_def)
      with rec True static agreesD(1) [OF assms(2)] inside 4 show ?thesis
        by (auto simp: completes_iff [of _ _ nid])
    next
      case False
      then have "?rest = Some True" "static = Some False \<or> isTerminal fuel F doc (nRight ?n) = Some True"
        using Suc.prems inside 4 static by (auto simp: Let_def split: if_splits bind_splits)
      with rec rest static agreesD(1) [OF assms(2), of "nLeft ?n" False] inside 4 show ?thesis
        by (auto simp: completes_iff [of _ _ nid])
    qed
  qed
qed simp

text \<open>The statements of a block up to and including position \<open>j\<close>.\<close>

definition blockStmt :: "Tree \<Rightarrow> Node \<Rightarrow> nat \<Rightarrow> NodeID" where
  "blockStmt t node j = ExtraList t ! (nExtra node + j)"

lemma unreachableFrom_spec:
  assumes "unreachableFrom F doc node found js = Some (Some (stmt, last_stmt))"
    and "found \<Longrightarrow> \<exists>i < length (js0 @ js). \<exists>fuel. i < length js0 \<and>
      isTerminal fuel F doc (blockStmt (docTree doc) node ((js0 @ js) ! i)) = Some True"
  shows "\<exists>i k. i < k \<and> k < length (js0 @ js) \<and> stmt = blockStmt (docTree doc) node ((js0 @ js) ! k) \<and>
           (\<exists>fuel. isTerminal fuel F doc (blockStmt (docTree doc) node ((js0 @ js) ! i)) = Some True)"
  using assms
proof (induction js arbitrary: found js0)
  case (Cons j js)
  show ?case
  proof (cases found)
    case True
    then obtain i fuel where "i < length js0"
      "isTerminal fuel F doc (blockStmt (docTree doc) node ((js0 @ j # js) ! i)) = Some True"
      using Cons.prems(2) by blast
    moreover have "stmt = blockStmt (docTree doc) node ((js0 @ j # js) ! length js0)"
      using Cons.prems(1) True by (auto simp: blockStmt_def nth_opt_eq_Some_iff split: bind_splits)
    ultimately show ?thesis
      by (intro exI [of _ i] exI [of _ "length js0"]) auto
  next
    case False
    then obtain b where b: "isTerminal (length (Nodes (docTree doc))) F doc (blockStmt (docTree doc) node j) = Some b"
      "unreachableFrom F doc node b js = Some (Some (stmt, last_stmt))"
      using Cons.prems(1) by (auto simp: blockStmt_def nth_opt_eq_Some_iff split: bind_splits)
    have "b \<Longrightarrow> \<exists>i < length ((js0 @ [j]) @ js). \<exists>fuel. i < length (js0 @ [j]) \<and>
        isTerminal fuel F doc (blockStmt (docTree doc) node (((js0 @ [j]) @ js) ! i)) = Some True"
      using b(1) by (intro exI [of _ "length js0"]) (auto simp: nth_append)
    from Cons.IH [OF b(2) this] show ?thesis by simp
  qed
qed simp

text \<open>
  C31. Code that is reported as unreachable comes after a statement that does not complete: an
  earlier statement of the same block does not complete, for all truth values of the conditions that
  agree with the static ones and give different values to the condition of an \<open>if\<close> and a branch
  of it that the code recognises as its opposite by comparing texts. The last assumption is
  needed: the two conditions may be calls that both return false (\<open>opposite_calls\<close>). Jumps to a label of
  the block are outside this reading (\<open>isTerminal_ignores_labels\<close>).
\<close>

theorem unreachable_code_sound:
  assumes "wf_tree (docTree doc)" "agrees F doc truth"
    and "unreachableFrom F doc node False [0..<nCount node] = Some (Some (stmt, last_stmt))"
  shows "\<exists>i k. i < k \<and> k < nCount node \<and> stmt = blockStmt (docTree doc) node k \<and>
           \<not> completes (docTree doc) truth (blockStmt (docTree doc) node i)"
proof -
  obtain i k fuel where "i < k" "k < nCount node" "stmt = blockStmt (docTree doc) node k"
    "isTerminal fuel F doc (blockStmt (docTree doc) node i) = Some True"
    using unreachableFrom_spec [OF assms(3), of "[]"] by auto
  with isTerminal_completes [OF assms(1,2)] show ?thesis by blast
qed

text \<open>A block that holds a \<open>return\<close> and a call; and a jump to a label that follows it.\<close>

definition returnDoc :: Document where
  "returnDoc =
     \<lparr>docTree = (NewTree ''return f()'')\<lparr>ExtraList := [1, 2], Nodes := [invalidNode, mkNode KindReturn 0 6,
        mkNode KindCallExpr 7 10, (mkNode KindBlock 0 10)\<lparr>nExtra := 0, nCount := 2\<rparr>]\<rparr>,
      docReferences = [], docMutated = [], docServer = False\<rparr>"

theorem unreachable_code_sound_witness:
  "\<exists>i k. i < k \<and> k < nCount (Nodes (docTree returnDoc) ! 3) \<and>
     2 = blockStmt (docTree returnDoc) (Nodes (docTree returnDoc) ! 3) k \<and>
     \<not> completes (docTree returnDoc) (\<lambda>_. True) (blockStmt (docTree returnDoc) (Nodes (docTree returnDoc) ! 3) i)"
proof (rule unreachable_code_sound)
  let ?t = "docTree returnDoc"
  show "wf_tree ?t"
    by (auto simp: returnDoc_def NewTree_def wf_tree_def wf_node_def wf_parent_def mkNode_def
        less_Suc_eq numeral_3_eq_3 numeral_2_eq_2)
  have kinds: "i < length (Nodes ?t) \<Longrightarrow> nKind (Nodes ?t ! i) \<noteq> KindUnaryExpr" for i
    by (auto simp: returnDoc_def mkNode_def less_Suc_eq numeral_2_eq_2)
  have "checkNot ?t a b \<noteq> Some True" for a b
    using kinds [of a] by (auto simp: checkNot_def nth_opt_def)
  then have "isOppositeCondition ?t a b \<noteq> Some True" for a b
    by (auto simp: isOppositeCondition_def split: bind_splits if_splits)
  then show "agrees intFloat returnDoc (\<lambda>_. True)"
    by (simp add: agrees_def oppositesDiffer_def staticTruth_def) (simp add: returnDoc_def)
  show "unreachableFrom intFloat returnDoc (Nodes ?t ! 3) False [0..<nCount (Nodes ?t ! 3)] = Some (Some (2, 2))"
    by (simp add: returnDoc_def mkNode_def upt_rec nth_opt_def numeral_2_eq_2)
qed

text \<open>
  Conditions with the same text are taken to have the same value: after
  \<open>if f() then return elseif not f() then return end\<close> the call of \<open>g\<close> is reported, but when the
  first call of \<open>f\<close> returns false and the second one true, the \<open>if\<close> completes.
\<close>

definition oppositeDoc :: Document where
  "oppositeDoc =
     \<lparr>docTree = (NewTree ''if f() then return elseif not f() then return end g()'')\<lparr>ExtraList := [2, 6, 8, 9, 10],
        Nodes := [invalidNode, mkNode KindCallExpr 3 6, mkNode KindReturn 12 18,
          (mkNode KindBlock 12 18)\<lparr>nExtra := 0, nCount := 1\<rparr>, mkNode KindCallExpr 30 33,
          (mkNode KindUnaryExpr 26 33)\<lparr>nRight := 4\<rparr>, mkNode KindReturn 39 45,
          (mkNode KindBlock 39 45)\<lparr>nExtra := 1, nCount := 1\<rparr>, (mkNode KindElseIf 19 45)\<lparr>nLeft := 5, nRight := 7\<rparr>,
          (mkNode KindIf 0 49)\<lparr>nLeft := 1, nRight := 3, nExtra := 2, nCount := 1\<rparr>, mkNode KindCallExpr 50 53,
          (mkNode KindBlock 0 53)\<lparr>nExtra := 3, nCount := 2\<rparr>]\<rparr>,
      docReferences = [], docMutated = [], docServer = False\<rparr>"

lemma opposite_calls:
  "unreachableFrom intFloat oppositeDoc (Nodes (docTree oppositeDoc) ! 11) False [0, 1] = Some (Some (10, 10)) \<and>
   completes (docTree oppositeDoc) (\<lambda>_. False) 9"
proof
  let ?t = "docTree oppositeDoc"
  have "TrimSpace ''f()'' = ''f()''" by (rule TrimSpace_stays(1); simp)
  then have "isOppositeCondition ?t 1 5 = Some True"
    by (simp add: isOppositeCondition_def checkNot_def stripParens_def oppositeDoc_def NewTree_def mkNode_def
        slice_opt_def nth_opt_def slice_def numeral_nat)
  moreover have "staticTruth intFloat oppositeDoc c = Some None" for c
    by (simp add: staticTruth_def oppositeDoc_def)
  ultimately show "unreachableFrom intFloat oppositeDoc (Nodes ?t ! 11) False [0, 1] = Some (Some (10, 10))"
    by (simp add: oppositeDoc_def mkNode_def nth_opt_def extraChild_def upt_rec numeral_nat)
  show "completes ?t (\<lambda>_. False) 9"
    by (rule completes_falls_through.if_else)
      (simp_all add: oppositeDoc_def mkNode_def falls_through_Cons)
qed

definition labelDoc :: Document where
  "labelDoc =
     \<lparr>docTree = (NewTree ''do goto x ::x:: end'')\<lparr>ExtraList := [1, 2], Nodes := [invalidNode, mkNode KindGoto 3 9,
        mkNode KindLabel 10 15, (mkNode KindBlock 3 15)\<lparr>nExtra := 0, nCount := 2\<rparr>,
        (mkNode KindDo 0 19)\<lparr>nLeft := 3\<rparr>]\<rparr>,
      docReferences = [], docMutated = [], docServer = False\<rparr>"

lemma isTerminal_ignores_labels: "isTerminal 5 intFloat labelDoc 4 = Some True"
  by (simp add: labelDoc_def mkNode_def extraChild_def upt_rec eval_nat_numeral)

end
