(* ===== verification/Luadoc.thy ===== *)
theory Luadoc
  imports Lsp_Text
begin

text \<open>
  Documentation comments (\<open>src/lsp/luadoc.go\<close>): the scanner for the types of annotations, the parser
  and printer of callable types, and \<open>parseLuaDoc\<close>, a line-by-line state machine over the tags. A Go
  index of \<open>-1\<close> is \<open>None\<close>; loops over a byte slice are recursion on the rest of the slice.
\<close>

section \<open>Data\<close>

record LuaDocParam =
  paramName :: bytes
  paramType :: bytes
  paramDesc :: bytes

record LuaDocReturn =
  returnType :: bytes
  returnDesc :: bytes

record LuaDocField =
  fieldName :: bytes
  fieldType :: bytes
  fieldDesc :: bytes

record LuaDocClass =
  className :: bytes
  classParent :: bytes
  classDesc :: bytes

record LuaDocType =
  docType :: bytes
  docTypeDesc :: bytes

record LuaDocAlias =
  aliasName :: bytes
  aliasType :: bytes
  aliasDesc :: bytes

record LuaDocEnum =
  enumName :: bytes
  enumDesc :: bytes

record LuaDocModule =
  moduleName :: bytes
  moduleDesc :: bytes

record LuaDocGeneric =
  genericName :: bytes
  genericParent :: bytes

record LuaDoc =
  ldDescription :: bytes
  ldDeprecatedMsg :: bytes
  ldClass :: "LuaDocClass option"
  ldType :: "LuaDocType option"
  ldAlias :: "LuaDocAlias option"
  ldEnum :: "LuaDocEnum option"
  ldModule :: "LuaDocModule option"
  ldExport :: bytes
  ldGenerics :: "LuaDocGeneric list"
  ldParams :: "LuaDocParam list"
  ldReturns :: "LuaDocReturn list"
  ldFields :: "LuaDocField list"
  ldOverloads :: "bytes list"
  ldSee :: "bytes list"
  ldIsDeprecated :: bool
  ldIsNoDiscard :: bool
  ldIsAsync :: bool
  ldIsPackage :: bool

record callableType =
  ctSignature :: bytes
  ctParams :: "LuaDocParam list"
  ctReturns :: "LuaDocReturn list"

section \<open>Scanning types\<close>

definition opensType :: "byte \<Rightarrow> bool" where
  "opensType c \<longleftrightarrow> c = CHR ''('' \<or> c = CHR ''<'' \<or> c = CHR ''{'' \<or> c = CHR ''[''"

definition closesType :: "byte \<Rightarrow> bool" where
  "closesType c \<longleftrightarrow> c = CHR '')'' \<or> c = CHR ''>'' \<or> c = CHR ''}'' \<or> c = CHR '']''"

definition isBlank :: "byte \<Rightarrow> bool" where
  "isBlank c \<longleftrightarrow> c = CHR '' '' \<or> c = CHR 0x09"

text \<open>The last byte before index \<open>i\<close> that is not blank.\<close>

primrec lastNonBlank :: "bytes \<Rightarrow> nat \<Rightarrow> byte option" where
  "lastNonBlank data 0 = None"
| "lastNonBlank data (Suc j) = (if isBlank (data ! j) then lastNonBlank data j else Some (data ! j))"

definition skipBlanks :: "bytes \<Rightarrow> nat \<Rightarrow> nat" where
  "skipBlanks data i = i + length (takeWhile isBlank (drop i data))"

function typeEndFrom :: "bytes \<Rightarrow> nat \<Rightarrow> int \<Rightarrow> nat option" where
  "typeEndFrom data i depth =
     (if i < length data
      then let c = data ! i
           in if opensType c then typeEndFrom data (i + 1) (depth + 1)
              else if closesType c then typeEndFrom data (i + 1) (depth - 1)
              else if isBlank c \<and> depth \<le> 0
              then if lastNonBlank data i \<in> {Some (CHR '':''), Some (CHR '',''), Some (CHR ''|'')}
                   then typeEndFrom data (i + 1) depth
                   else let k = skipBlanks data (i + 1)
                        in if k < length data \<and> (data ! k = CHR ''|'' \<or> data ! k = CHR '','')
                           then typeEndFrom data k depth
                           else Some i
              else typeEndFrom data (i + 1) depth
      else None)"
  by pat_completeness auto
termination
  by (relation "measure (\<lambda>(data, i, depth). length data - i)") (auto simp: skipBlanks_def)

definition findTypeEnd :: "bytes \<Rightarrow> nat option" where
  "findTypeEnd data = typeEndFrom data 0 0"

definition extractTypeDesc :: "bytes \<Rightarrow> bytes \<times> bytes" where
  "extractTypeDesc data =
     (let data = TrimSpace data
      in case findTypeEnd data of
           None \<Rightarrow> (data, [])
         | Some idx \<Rightarrow> (take idx data, TrimSpace (drop idx data)))"

text \<open>The loop of \<open>splitTopLevelList\<close>: the part since the last separator, and the rest.\<close>

primrec splitTopFrom :: "byte \<Rightarrow> int \<Rightarrow> bytes \<Rightarrow> bytes \<Rightarrow> bytes list" where
  "splitTopFrom sep depth part [] = [TrimSpace part]"
| "splitTopFrom sep depth part (c # cs) =
     (if opensType c then splitTopFrom sep (depth + 1) (part @ [c]) cs
      else if closesType c then splitTopFrom sep (depth - 1) (part @ [c]) cs
      else if c = sep \<and> depth = 0 then TrimSpace part # splitTopFrom sep depth [] cs
      else splitTopFrom sep depth (part @ [c]) cs)"

definition splitTopLevelList :: "bytes \<Rightarrow> byte \<Rightarrow> bytes list" where
  "splitTopLevelList val sep = (if TrimSpace val = [] then [] else splitTopFrom sep 0 [] val)"

primrec indexTopFrom :: "byte \<Rightarrow> int \<Rightarrow> nat \<Rightarrow> bytes \<Rightarrow> nat option" where
  "indexTopFrom target depth i [] = None"
| "indexTopFrom target depth i (c # cs) =
     (if opensType c then indexTopFrom target (depth + 1) (i + 1) cs
      else if closesType c then indexTopFrom target (depth - 1) (i + 1) cs
      else if c = target \<and> depth = 0 then Some i
      else indexTopFrom target depth (i + 1) cs)"

definition indexTopLevelByte :: "bytes \<Rightarrow> byte \<Rightarrow> nat option" where
  "indexTopLevelByte val target = indexTopFrom target 0 0 val"

section \<open>Callable types\<close>

text \<open>
  The search for the closing parenthesis. The \<open>break\<close> in the code leaves the \<open>switch\<close> and not the
  loop, so the scan goes on and the last parenthesis that closes the depth is the result.
\<close>

primrec closeScan :: "nat \<Rightarrow> int \<Rightarrow> nat option \<Rightarrow> bytes \<Rightarrow> nat option" where
  "closeScan i depth closeIdx [] = closeIdx"
| "closeScan i depth closeIdx (c # cs) =
     (if c = CHR ''('' then closeScan (i + 1) (depth + 1) closeIdx cs
      else if c = CHR '')''
      then closeScan (i + 1) (depth - 1) (if depth - 1 = 0 then Some i else closeIdx) cs
      else closeScan (i + 1) depth closeIdx cs)"

definition hasSuffix :: "bytes \<Rightarrow> bytes \<Rightarrow> bool" where
  "hasSuffix bs suff \<longleftrightarrow> suffix suff bs"

definition callableParam :: "bytes \<Rightarrow> LuaDocParam" where
  "callableParam rawParam =
     (let param = (case indexTopLevelByte rawParam (CHR '':'') of
                     None \<Rightarrow> \<lparr>paramName = TrimSpace rawParam, paramType = [], paramDesc = []\<rparr>
                   | Some colonIdx \<Rightarrow> \<lparr>paramName = TrimSpace (take colonIdx rawParam),
                                     paramType = TrimSpace (drop (colonIdx + 1) rawParam), paramDesc = []\<rparr>)
      in if hasSuffix (paramName param) ''?''
         then param\<lparr>paramName := butlast (paramName param),
                    paramType := (if paramType param \<noteq> [] \<and> \<not> hasSuffix (paramType param) ''?''
                                  then paramType param @ ''?'' else paramType param)\<rparr>
         else param)"

definition printParam :: "LuaDocParam \<Rightarrow> bytes" where
  "printParam param =
     paramName param @
     (if paramType param \<noteq> []
      then (if paramName param \<noteq> [] then '': '' else []) @ paramType param else [])"

primrec printParams :: "LuaDocParam list \<Rightarrow> bytes" where
  "printParams [] = []"
| "printParams (p # ps) = printParam p @ (if ps = [] then [] else '', '' @ printParams ps)"

definition buildCallableSignature :: "LuaDocParam list \<Rightarrow> LuaDocReturn list \<Rightarrow> bytes" where
  "buildCallableSignature params returns =
     ''fun('' @ printParams params @ '')'' @
     (case returns of [r] \<Rightarrow> if returnType r \<noteq> [] then '': '' @ returnType r else [] | _ \<Rightarrow> [])"

definition parseCallableType :: "bytes \<Rightarrow> callableType option" where
  "parseCallableType typeStr =
     (let trimmed = TrimSpace typeStr;
          regular = prefix ''fun('' trimmed;
          proxy = prefix ''funcref('' trimmed
      in if \<not> regular \<and> \<not> proxy then None
         else case IndexByte trimmed (CHR ''('') of
           None \<Rightarrow> None
         | Some openIdx \<Rightarrow>
             (case closeScan openIdx 0 None (drop openIdx trimmed) of
                None \<Rightarrow> None
              | Some closeIdx \<Rightarrow>
                  let paramsStr = TrimSpace (slice trimmed (openIdx + 1) closeIdx);
                      params = map callableParam (filter (\<lambda>raw. raw \<noteq> []) (splitTopLevelList paramsStr (CHR '','')));
                      remainder = TrimSpace (drop (closeIdx + 1) trimmed);
                      returns = (if prefix '':'' remainder \<and> TrimSpace (tl remainder) \<noteq> []
                                 then [\<lparr>returnType = TrimSpace (tl remainder), returnDesc = []\<rparr>] else []);
                      signature = buildCallableSignature params returns
                  in Some \<lparr>ctSignature = (if proxy \<and> signature = [] then ''fun()'' else signature),
                           ctParams = params, ctReturns = returns\<rparr>))"

section \<open>Names and alerts\<close>

definition extractNameDesc :: "bytes \<Rightarrow> bytes \<times> bytes" where
  "extractNameDesc data =
     (let data = TrimSpace data;
          name = takeWhile (\<lambda>c. \<not> isBlank c) data
      in if name = [] then ([], data) else (name, TrimSpace (drop (length name) data)))"

definition extractNameParent :: "bytes \<Rightarrow> bytes \<times> bytes \<times> bytes" where
  "extractNameParent data =
     (let data = TrimSpace data;
          name = takeWhile (\<lambda>c. \<not> isBlank c \<and> c \<noteq> CHR '':'') data
      in if name = [] then ([], [], data)
         else let data = TrimSpace (drop (length name) data)
              in if prefix '':'' data
                 then let data = TrimSpace (tl data);
                          parent = takeWhile (\<lambda>c. \<not> isBlank c) data
                      in (name, parent, TrimSpace (drop (length parent) data))
                 else (name, [], data))"

text \<open>The alert words with the UTF-8 encodings of their symbols.\<close>

definition alertTable :: "(bytes \<times> bytes) list" where
  "alertTable =
     [(''NOTE:'', map char_of [0xE2, 0x84, 0xB9, 0xEF, 0xB8, 0x8F :: nat]),
      (''TODO:'', map char_of [0xF0, 0x9F, 0x93, 0x9D :: nat]),
      (''INFO:'', map char_of [0xE2, 0x84, 0xB9, 0xEF, 0xB8, 0x8F :: nat]),
      (''WARNING:'', map char_of [0xE2, 0x9A, 0xA0, 0xEF, 0xB8, 0x8F :: nat]),
      (''WARN:'', map char_of [0xE2, 0x9A, 0xA0, 0xEF, 0xB8, 0x8F :: nat]),
      (''IMPORTANT:'', map char_of [0xE2, 0x9D, 0x97 :: nat]),
      (''FIXME:'', map char_of [0xF0, 0x9F, 0x94, 0xA7 :: nat]),
      (''BUG:'', map char_of [0xF0, 0x9F, 0x90, 0x9B :: nat]),
      (''TIP:'', map char_of [0xF0, 0x9F, 0x92, 0xA1 :: nat]),
      (''CAUTION:'', map char_of [0xF0, 0x9F, 0x9B, 0x91 :: nat])]"

definition alertLine :: "bytes \<Rightarrow> bytes" where
  "alertLine line =
     (let trimmed = TrimSpace line
      in case List.find (\<lambda>(word, icon). prefix word trimmed) alertTable of
           None \<Rightarrow> line
         | Some (word, icon) \<Rightarrow>
             take (length line - length trimmed) line @ icon @ '' **'' @ word @ ''**'' @
             drop (length word) trimmed)"

definition containsBytes :: "bytes \<Rightarrow> bytes \<Rightarrow> bool" where
  "containsBytes s sub \<longleftrightarrow> list_ex (\<lambda>i. prefix sub (drop i s)) [0..<length s + 1]"

definition formatAlerts :: "bytes \<Rightarrow> bytes" where
  "formatAlerts s =
     (if \<not> list_ex (\<lambda>(word, icon). containsBytes s word) alertTable then s
      else joinLines (map alertLine (splitLines s)))"

section \<open>The comment\<close>

definition CutPrefix :: "bytes \<Rightarrow> bytes \<Rightarrow> bytes option" where
  "CutPrefix line tag = (if prefix tag line then Some (drop (length tag) line) else None)"

definition TrimPrefix :: "bytes \<Rightarrow> bytes \<Rightarrow> bytes" where
  "TrimPrefix bs pre = (if prefix pre bs then drop (length pre) bs else bs)"

definition dropOptional :: "bytes \<Rightarrow> bytes" where
  "dropOptional name = (if hasSuffix name ''?'' then butlast name else name)"

definition parseParam :: "bytes \<Rightarrow> LuaDocParam" where
  "parseParam after =
     (let rest = TrimSpace after
      in case IndexByte rest (CHR '' '') of
           Some spaceIdx \<Rightarrow>
             let name = take spaceIdx rest;
                 (ty, desc) = extractTypeDesc (TrimSpace (drop spaceIdx rest))
             in \<lparr>paramName = dropOptional name, paramType = (if hasSuffix name ''?'' then ty @ ''?'' else ty),
                 paramDesc = TrimPrefix desc ''- ''\<rparr>
         | None \<Rightarrow> \<lparr>paramName = dropOptional rest, paramType = [], paramDesc = []\<rparr>)"

definition parseReturnTag :: "bytes \<Rightarrow> LuaDocReturn" where
  "parseReturnTag after =
     (let (ty, desc) = extractTypeDesc (TrimSpace after)
      in \<lparr>returnType = ty, returnDesc = TrimPrefix (TrimPrefix desc ''- '') ''# ''\<rparr>)"

definition parseField :: "bytes \<Rightarrow> LuaDocField" where
  "parseField after =
     (let rest = TrimSpace after;
          rest = (if prefix ''public '' rest then TrimSpace (drop 7 rest)
                  else if prefix ''private '' rest then TrimSpace (drop 8 rest)
                  else if prefix ''protected '' rest then TrimSpace (drop 10 rest) else rest)
      in case IndexByte rest (CHR '' '') of
           Some spaceIdx \<Rightarrow>
             let name = take spaceIdx rest;
                 (ty, desc) = extractTypeDesc (TrimSpace (drop spaceIdx rest))
             in \<lparr>fieldName = dropOptional name, fieldType = (if hasSuffix name ''?'' then ''?'' @ ty else ty),
                 fieldDesc = TrimPrefix desc ''- ''\<rparr>
         | None \<Rightarrow> \<lparr>fieldName = dropOptional rest, fieldType = [], fieldDesc = []\<rparr>)"

definition parseAlias :: "bytes \<Rightarrow> LuaDocAlias" where
  "parseAlias after =
     (let rest = TrimSpace after
      in case IndexByte rest (CHR '' '') of
           Some spaceIdx \<Rightarrow>
             let (ty, desc) = extractTypeDesc (TrimSpace (drop spaceIdx rest))
             in \<lparr>aliasName = take spaceIdx rest, aliasType = ty, aliasDesc = desc\<rparr>
         | None \<Rightarrow> \<lparr>aliasName = rest, aliasType = [], aliasDesc = []\<rparr>)"

text \<open>\<open>bytes.SplitSeq\<close> with a single separator byte.\<close>

fun splitAt :: "byte \<Rightarrow> bytes \<Rightarrow> bytes list" where
  "splitAt sep [] = [[]]"
| "splitAt sep (c # cs) =
     (if c = sep then [] # splitAt sep cs
      else case splitAt sep cs of [] \<Rightarrow> [[c]] | l # ls \<Rightarrow> (c # l) # ls)"

definition parseGenerics :: "bytes \<Rightarrow> LuaDocGeneric list" where
  "parseGenerics after =
     map (\<lambda>(name, parent, _). \<lparr>genericName = name, genericParent = parent\<rparr>)
       (filter (\<lambda>(name, _). name \<noteq> []) (map extractNameParent (splitAt (CHR '','') (TrimSpace after))))"

definition emptyLuaDoc :: LuaDoc where
  "emptyLuaDoc =
     \<lparr>ldDescription = [], ldDeprecatedMsg = [], ldClass = None, ldType = None, ldAlias = None,
      ldEnum = None, ldModule = None, ldExport = [], ldGenerics = [], ldParams = [], ldReturns = [],
      ldFields = [], ldOverloads = [], ldSee = [], ldIsDeprecated = False, ldIsNoDiscard = False,
      ldIsAsync = False, ldIsPackage = False\<rparr>"

text \<open>The local variables \<open>doc\<close>, \<open>descLines\<close> and \<open>activeTag\<close>.\<close>

datatype ActiveTag = NoTag | InParam | InReturn | InField

record DocState =
  dsDoc :: LuaDoc
  dsDescLines :: "bytes list"
  dsActiveTag :: ActiveTag

text \<open>A continuation line is added to the last entry; with no entry the index is out of range.\<close>

definition joinDesc :: "bytes \<Rightarrow> bytes \<Rightarrow> bytes" where
  "joinDesc desc line = (if desc \<noteq> [] then desc @ newline # line else line)"

definition updLast :: "('a \<Rightarrow> 'a) \<Rightarrow> 'a list \<Rightarrow> 'a list option" where
  "updLast f xs = (if xs = [] then None else Some (butlast xs @ [f (last xs)]))"

definition plainLine :: "bytes \<Rightarrow> DocState \<Rightarrow> DocState option" where
  "plainLine line s =
     (let d = dsDoc s
      in if line \<noteq> [] \<and> hd line \<noteq> CHR ''@''
         then case dsActiveTag s of
             InParam \<Rightarrow> map_option (\<lambda>ps. s\<lparr>dsDoc := d\<lparr>ldParams := ps\<rparr>\<rparr>)
               (updLast (\<lambda>p. p\<lparr>paramDesc := joinDesc (paramDesc p) line\<rparr>) (ldParams d))
           | InReturn \<Rightarrow> map_option (\<lambda>rs. s\<lparr>dsDoc := d\<lparr>ldReturns := rs\<rparr>\<rparr>)
               (updLast (\<lambda>r. r\<lparr>returnDesc := joinDesc (returnDesc r) line\<rparr>) (ldReturns d))
           | InField \<Rightarrow> map_option (\<lambda>fs. s\<lparr>dsDoc := d\<lparr>ldFields := fs\<rparr>\<rparr>)
               (updLast (\<lambda>f. f\<lparr>fieldDesc := joinDesc (fieldDesc f) line\<rparr>) (ldFields d))
           | NoTag \<Rightarrow> Some (s\<lparr>dsDescLines := dsDescLines s @ [line]\<rparr>)
         else Some (s\<lparr>dsActiveTag := NoTag, dsDescLines := dsDescLines s @ [line]\<rparr>))"

text \<open>The tags after \<open>@field\<close>, which all end the active tag.\<close>

definition otherTag :: "bytes \<Rightarrow> LuaDoc \<Rightarrow> LuaDoc option" where
  "otherTag line d =
     (if prefix ''@deprecated'' line
      then Some (d\<lparr>ldIsDeprecated := True, ldDeprecatedMsg := TrimSpace (drop 11 line)\<rparr>)
      else if prefix ''@class'' line
      then let (name, parent, desc) = extractNameParent (drop 6 line)
           in Some (if name \<noteq> [] then d\<lparr>ldClass := Some \<lparr>className = name, classParent = parent, classDesc = desc\<rparr>\<rparr> else d)
      else if prefix ''@enum'' line
      then let (name, desc) = extractNameDesc (drop 5 line)
           in Some (if name \<noteq> [] then d\<lparr>ldEnum := Some \<lparr>enumName = name, enumDesc = desc\<rparr>\<rparr> else d)
      else if prefix ''@module'' line
      then let (name, desc) = extractNameDesc (drop 7 line)
           in Some (if name \<noteq> [] then d\<lparr>ldModule := Some \<lparr>moduleName = name, moduleDesc = desc\<rparr>\<rparr> else d)
      else if prefix ''@nodiscard'' line then Some (d\<lparr>ldIsNoDiscard := True\<rparr>)
      else if prefix ''@async'' line then Some (d\<lparr>ldIsAsync := True\<rparr>)
      else if prefix ''@package'' line then Some (d\<lparr>ldIsPackage := True\<rparr>)
      else if prefix ''@type'' line
      then let (ty, desc) = extractTypeDesc (TrimSpace (drop 5 line))
           in Some (d\<lparr>ldType := Some \<lparr>docType = ty, docTypeDesc = desc\<rparr>\<rparr>)
      else if prefix ''@alias'' line then Some (d\<lparr>ldAlias := Some (parseAlias (drop 6 line))\<rparr>)
      else if prefix ''@generic'' line
      then Some (d\<lparr>ldGenerics := ldGenerics d @ parseGenerics (drop 8 line)\<rparr>)
      else if prefix ''@overload'' line
      then Some (d\<lparr>ldOverloads := ldOverloads d @ [TrimSpace (drop 9 line)]\<rparr>)
      else if prefix ''@see'' line then Some (d\<lparr>ldSee := ldSee d @ [TrimSpace (drop 4 line)]\<rparr>)
      else if prefix ''@export'' line then Some (d\<lparr>ldExport := TrimSpace (drop 7 line)\<rparr>)
      else None)"

definition docLine :: "bytes \<Rightarrow> DocState \<Rightarrow> DocState option" where
  "docLine rawLine s =
     (let line = TrimSpace rawLine;
          d = dsDoc s
      in case CutPrefix line ''@param'' of
           Some after \<Rightarrow> Some (s\<lparr>dsDoc := d\<lparr>ldParams := ldParams d @ [parseParam after]\<rparr>, dsActiveTag := InParam\<rparr>)
         | None \<Rightarrow>
         (case CutPrefix line ''@return'' of
            Some after \<Rightarrow> Some (s\<lparr>dsDoc := d\<lparr>ldReturns := ldReturns d @ [parseReturnTag after]\<rparr>, dsActiveTag := InReturn\<rparr>)
          | None \<Rightarrow>
          (case CutPrefix line ''@field'' of
             Some after \<Rightarrow> Some (s\<lparr>dsDoc := d\<lparr>ldFields := ldFields d @ [parseField after]\<rparr>, dsActiveTag := InField\<rparr>)
           | None \<Rightarrow>
           (case otherTag line d of
              Some d \<Rightarrow> Some (s\<lparr>dsDoc := d, dsActiveTag := NoTag\<rparr>)
            | None \<Rightarrow> plainLine line s))))"

text \<open>The lines that the loop takes off the comment: a final line break does not start another one.\<close>

definition commentLines :: "bytes \<Rightarrow> bytes list" where
  "commentLines comments =
     (let lines = splitLines comments in if last lines = [] then butlast lines else lines)"

definition trimEmptyLines :: "bytes list \<Rightarrow> bytes list" where
  "trimEmptyLines lines =
     rev (dropWhile (\<lambda>l. l = []) (rev (dropWhile (\<lambda>l. l = []) lines)))"

definition formatDocAlerts :: "LuaDoc \<Rightarrow> LuaDoc" where
  "formatDocAlerts d =
     d\<lparr>ldDescription := formatAlerts (ldDescription d),
       ldParams := map (\<lambda>p. p\<lparr>paramDesc := formatAlerts (paramDesc p)\<rparr>) (ldParams d),
       ldReturns := map (\<lambda>r. r\<lparr>returnDesc := formatAlerts (returnDesc r)\<rparr>) (ldReturns d),
       ldFields := map (\<lambda>f. f\<lparr>fieldDesc := formatAlerts (fieldDesc f)\<rparr>) (ldFields d)\<rparr>"

definition parseLuaDoc :: "bytes \<Rightarrow> bool \<Rightarrow> LuaDoc option" where
  "parseLuaDoc comments enableAlerts = do {
     s \<leftarrow> forM (commentLines comments) docLine
           \<lparr>dsDoc = emptyLuaDoc, dsDescLines = [], dsActiveTag = NoTag\<rparr>;
     let d = (dsDoc s)\<lparr>ldDescription := joinLines (trimEmptyLines (dsDescLines s))\<rparr>;
     Some (if enableAlerts then formatDocAlerts d else d)
   }"

section \<open>Properties of the comment\<close>

text \<open>The entries of a tag, from the lines of the comment.\<close>

definition taggedLines :: "bytes \<Rightarrow> bytes list \<Rightarrow> bytes list" where
  "taggedLines tag lines = List.map_filter (\<lambda>line. CutPrefix (TrimSpace line) tag) lines"

text \<open>The invariant of the loop: an active tag has an entry to add to.\<close>

definition docInv :: "bytes list \<Rightarrow> DocState \<Rightarrow> bool" where
  "docInv lines s \<longleftrightarrow>
     (dsActiveTag s = InParam \<longrightarrow> ldParams (dsDoc s) \<noteq> []) \<and>
     (dsActiveTag s = InReturn \<longrightarrow> ldReturns (dsDoc s) \<noteq> []) \<and>
     (dsActiveTag s = InField \<longrightarrow> ldFields (dsDoc s) \<noteq> []) \<and>
     map (\<lambda>p. (paramName p, paramType p)) (ldParams (dsDoc s))
       = map (\<lambda>a. (paramName (parseParam a), paramType (parseParam a))) (taggedLines ''@param'' lines) \<and>
     map returnType (ldReturns (dsDoc s))
       = map (\<lambda>a. returnType (parseReturnTag a)) (taggedLines ''@return'' lines) \<and>
     map (\<lambda>f. (fieldName f, fieldType f)) (ldFields (dsDoc s))
       = map (\<lambda>a. (fieldName (parseField a), fieldType (parseField a))) (taggedLines ''@field'' lines)"

lemma taggedLines_snoc:
  "taggedLines tag (lines @ [line]) =
     taggedLines tag lines @ (case CutPrefix (TrimSpace line) tag of None \<Rightarrow> [] | Some a \<Rightarrow> [a])"
  by (simp add: taggedLines_def map_filter_def split: option.split)

lemma updLast_map:
  "updLast f xs = Some ys \<Longrightarrow> (\<And>x. g (f x) = g x) \<Longrightarrow> map g ys = map g xs \<and> ys \<noteq> []"
  by (cases xs rule: rev_cases) (auto simp: updLast_def)

lemma updLast_Some: "xs \<noteq> [] \<Longrightarrow> \<exists>ys. updLast f xs = Some ys"
  by (simp add: updLast_def)

lemma otherTag_entries:
  assumes "otherTag line d = Some d'"
  shows "ldParams d' = ldParams d \<and> ldReturns d' = ldReturns d \<and> ldFields d' = ldFields d"
  using assms by (auto simp: otherTag_def split: if_splits prod.splits)

lemma plainLine_inv:
  assumes "docInv lines s" "CutPrefix (TrimSpace raw) ''@param'' = None"
    "CutPrefix (TrimSpace raw) ''@return'' = None" "CutPrefix (TrimSpace raw) ''@field'' = None"
  shows "\<exists>s'. plainLine line s = Some s' \<and> docInv (lines @ [raw]) s'"
proof (cases "line \<noteq> [] \<and> hd line \<noteq> CHR ''@''")
  case False
  then have "plainLine line s = Some (s\<lparr>dsActiveTag := NoTag, dsDescLines := dsDescLines s @ [line]\<rparr>)"
    by (simp only: plainLine_def Let_def if_False)
  with assms show ?thesis by (simp add: docInv_def taggedLines_snoc)
next
  case True
  show ?thesis
  proof (cases "dsActiveTag s")
    case NoTag
    with True assms show ?thesis by (simp add: plainLine_def Let_def docInv_def taggedLines_snoc)
  next
    case InParam
    then have "ldParams (dsDoc s) \<noteq> []"
      using assms(1) by (simp add: docInv_def)
    then obtain ps where ps: "updLast (\<lambda>p. p\<lparr>paramDesc := joinDesc (paramDesc p) line\<rparr>) (ldParams (dsDoc s)) = Some ps"
      using updLast_Some by blast
    from updLast_map [OF this, of "\<lambda>p. (paramName p, paramType p)"] True InParam assms ps show ?thesis
      by (simp add: plainLine_def Let_def docInv_def taggedLines_snoc)
  next
    case InReturn
    then have "ldReturns (dsDoc s) \<noteq> []"
      using assms(1) by (simp add: docInv_def)
    then obtain rs where rs: "updLast (\<lambda>r. r\<lparr>returnDesc := joinDesc (returnDesc r) line\<rparr>) (ldReturns (dsDoc s)) = Some rs"
      using updLast_Some by blast
    from updLast_map [OF this, of returnType] True InReturn assms rs show ?thesis
      by (simp add: plainLine_def Let_def docInv_def taggedLines_snoc)
  next
    case InField
    then have "ldFields (dsDoc s) \<noteq> []"
      using assms(1) by (simp add: docInv_def)
    then obtain fs where fs: "updLast (\<lambda>f. f\<lparr>fieldDesc := joinDesc (fieldDesc f) line\<rparr>) (ldFields (dsDoc s)) = Some fs"
      using updLast_Some by blast
    from updLast_map [OF this, of "\<lambda>f. (fieldName f, fieldType f)"] True InField assms fs show ?thesis
      by (simp add: plainLine_def Let_def docInv_def taggedLines_snoc)
  qed
qed

lemma tags_exclude:
  "CutPrefix line ''@param'' = Some a \<Longrightarrow> CutPrefix line ''@return'' = None \<and> CutPrefix line ''@field'' = None"
  "CutPrefix line ''@return'' = Some a \<Longrightarrow> CutPrefix line ''@param'' = None \<and> CutPrefix line ''@field'' = None"
  "CutPrefix line ''@field'' = Some a \<Longrightarrow> CutPrefix line ''@param'' = None \<and> CutPrefix line ''@return'' = None"
  by (auto simp: CutPrefix_def prefix_def split: if_splits)

lemma docLine_inv:
  assumes inv: "docInv lines s"
  shows "\<exists>s'. docLine raw s = Some s' \<and> docInv (lines @ [raw]) s'"
proof -
  let ?cut = "CutPrefix (TrimSpace raw)"
  consider a where "?cut ''@param'' = Some a" | a where "?cut ''@return'' = Some a"
    | a where "?cut ''@field'' = Some a"
    | "?cut ''@param'' = None" "?cut ''@return'' = None" "?cut ''@field'' = None"
    by (meson not_None_eq)
  then show ?thesis
  proof cases
    case 1
    with inv tags_exclude(1) [OF 1] show ?thesis
      by (simp add: docLine_def Let_def docInv_def taggedLines_snoc)
  next
    case 2
    with inv tags_exclude(2) [OF 2] show ?thesis
      by (simp add: docLine_def Let_def docInv_def taggedLines_snoc)
  next
    case 3
    with inv tags_exclude(3) [OF 3] show ?thesis
      by (simp add: docLine_def Let_def docInv_def taggedLines_snoc)
  next
    case 4
    show ?thesis
    proof (cases "otherTag (TrimSpace raw) (dsDoc s)")
      case None
      with 4 plainLine_inv [OF inv 4, of "TrimSpace raw"] show ?thesis
        by (simp add: docLine_def Let_def)
    next
      case (Some d)
      from otherTag_entries [OF this] 4 inv Some show ?thesis
        by (simp add: docLine_def Let_def docInv_def taggedLines_snoc)
    qed
  qed
qed

lemma docLines_inv:
  "\<exists>s. forM lines docLine \<lparr>dsDoc = emptyLuaDoc, dsDescLines = [], dsActiveTag = NoTag\<rparr> = Some s \<and> docInv lines s"
proof (induction lines rule: rev_induct)
  case Nil
  show ?case by (simp add: docInv_def taggedLines_def map_filter_def emptyLuaDoc_def)
next
  case (snoc raw lines)
  then obtain s where s: "forM lines docLine \<lparr>dsDoc = emptyLuaDoc, dsDescLines = [], dsActiveTag = NoTag\<rparr> = Some s"
    "docInv lines s" by blast
  obtain s' where "docLine raw s = Some s'" "docInv (lines @ [raw]) s'"
    using docLine_inv [OF s(2)] by blast
  with s(1) show ?case by (simp add: forM_append)
qed

text \<open>
  C32. Documentation comments parse without a panic, and completely: for every comment, the
  parameters, return values and fields of the result are, in order, those of its \<open>@param\<close>, \<open>@return\<close>
  and \<open>@field\<close> lines, with the name and type that their line gives; continuation lines and the alert
  symbols only change descriptions.
\<close>

theorem parseLuaDoc_entries:
  "\<exists>d. parseLuaDoc comments enableAlerts = Some d \<and>
     map (\<lambda>p. (paramName p, paramType p)) (ldParams d)
       = map (\<lambda>a. (paramName (parseParam a), paramType (parseParam a))) (taggedLines ''@param'' (commentLines comments)) \<and>
     map returnType (ldReturns d)
       = map (\<lambda>a. returnType (parseReturnTag a)) (taggedLines ''@return'' (commentLines comments)) \<and>
     map (\<lambda>f. (fieldName f, fieldType f)) (ldFields d)
       = map (\<lambda>a. (fieldName (parseField a), fieldType (parseField a))) (taggedLines ''@field'' (commentLines comments))"
proof -
  obtain s where "forM (commentLines comments) docLine
      \<lparr>dsDoc = emptyLuaDoc, dsDescLines = [], dsActiveTag = NoTag\<rparr> = Some s" "docInv (commentLines comments) s"
    using docLines_inv by blast
  then show ?thesis
    by (cases enableAlerts) (simp_all add: parseLuaDoc_def docInv_def formatDocAlerts_def Let_def comp_def)
qed

section \<open>The round trip of callable types\<close>

text \<open>
  The text of a type. \<open>nestedText ks\<close> reads a text inside the brackets whose closing bytes are \<open>ks\<close>,
  the innermost first: brackets match, and outside all brackets there is neither a comma nor a colon.
  The ends are visible characters, everything between is arbitrary.
\<close>

definition closerOf :: "byte \<Rightarrow> byte" where
  "closerOf c = (if c = CHR ''('' then CHR '')'' else if c = CHR ''<'' then CHR ''>''
                 else if c = CHR ''{'' then CHR ''}'' else CHR '']'')"

primrec nestedText :: "bytes \<Rightarrow> bytes \<Rightarrow> bool" where
  "nestedText ks [] \<longleftrightarrow> ks = []"
| "nestedText ks (c # cs) \<longleftrightarrow>
     (if opensType c then nestedText (closerOf c # ks) cs
      else if closesType c then ks \<noteq> [] \<and> hd ks = c \<and> nestedText (tl ks) cs
      else (ks = [] \<longrightarrow> c \<noteq> CHR '','' \<and> c \<noteq> CHR '':'') \<and> nestedText ks cs)"

definition visibleEnds :: "bytes \<Rightarrow> bool" where
  "visibleEnds s \<longleftrightarrow> s \<noteq> [] \<and> byte_val (hd s) \<in> {33..<128} \<and> byte_val (last s) \<in> {33..<128}"

definition typeText :: "bytes \<Rightarrow> bool" where
  "typeText s \<longleftrightarrow> visibleEnds s \<and> nestedText [] s"

definition returnText :: "bytes \<Rightarrow> bool" where
  "returnText s \<longleftrightarrow> visibleEnds s \<and> CHR ''('' \<notin> set s \<and> CHR '')'' \<notin> set s"

text \<open>A parameter: its name, or its type when it has no name, and the type of a named one.\<close>

definition typedParam :: "LuaDocParam \<Rightarrow> bool" where
  "typedParam p \<longleftrightarrow> typeText (paramName p) \<and> \<not> hasSuffix (paramName p) ''?'' \<and>
     (paramType p = [] \<or> typeText (paramType p)) \<and> paramDesc p = []"

lemma visibleEnds_trim:
  assumes "visibleEnds s"
  shows "TrimSpace s = s" "TrimSpace (CHR '' '' # s) = s"
  using assms by (auto simp: visibleEnds_def intro: TrimSpace_stays)

lemma TrimSpace_Nil [simp]: "TrimSpace [] = []"
  by (simp add: TrimSpace_def)

text \<open>
  What the scanners see of such a text: they count the brackets of all kinds together and stop at a
  separator outside them; the search for the end of the parameters counts only the parentheses.
\<close>

primrec topFree :: "byte \<Rightarrow> nat \<Rightarrow> bytes \<Rightarrow> bool" where
  "topFree sep d [] \<longleftrightarrow> d = 0"
| "topFree sep d (c # cs) \<longleftrightarrow>
     (if opensType c then topFree sep (Suc d) cs
      else if closesType c then 0 < d \<and> topFree sep (d - 1) cs
      else (d = 0 \<longrightarrow> c \<noteq> sep) \<and> topFree sep d cs)"

primrec parens :: "nat \<Rightarrow> bytes \<Rightarrow> bool" where
  "parens d [] \<longleftrightarrow> d = 0"
| "parens d (c # cs) \<longleftrightarrow>
     (if c = CHR ''('' then parens (Suc d) cs
      else if c = CHR '')'' then 0 < d \<and> parens (d - 1) cs
      else parens d cs)"

lemma nestedText_topFree: "nestedText ks s \<Longrightarrow> sep = CHR '','' \<or> sep = CHR '':'' \<Longrightarrow> topFree sep (length ks) s"
  by (induction s arbitrary: ks) (fastforce split: if_splits)+

lemma nestedText_parens: "nestedText ks s \<Longrightarrow> parens (count_list ks (CHR '')'')) s"
proof (induction s arbitrary: ks)
  case (Cons c s)
  show ?case
  proof (cases "opensType c")
    case True
    with Cons.prems have "nestedText (closerOf c # ks) s" by simp
    from Cons.IH [OF this] True show ?thesis by (auto simp: opensType_def closerOf_def)
  next
    case False
    then have c: "c \<noteq> CHR ''(''" by (auto simp: opensType_def)
    show ?thesis
    proof (cases "closesType c")
      case True
      with Cons.prems False obtain ks' where "ks = c # ks'" "nestedText ks' s" by (cases ks) auto
      with Cons.IH [of ks'] c show ?thesis by auto
    next
      case False
      then have "c \<noteq> CHR '')''" by (auto simp: closesType_def)
      with Cons.IH [of ks] Cons.prems c False \<open>\<not> opensType c\<close> show ?thesis by simp
    qed
  qed
qed simp

lemma topFree_append: "topFree sep d s \<Longrightarrow> topFree sep 0 s' \<Longrightarrow> topFree sep d (s @ s')"
  by (induction s arbitrary: d) auto

lemma parens_append: "parens d s \<Longrightarrow> parens 0 s' \<Longrightarrow> parens d (s @ s')"
  by (induction s arbitrary: d) auto

lemma splitTopFrom_topFree:
  "topFree sep d s \<Longrightarrow> splitTopFrom sep (int d) part (s @ rest) = splitTopFrom sep 0 (part @ s) rest"
proof (induction s arbitrary: d part)
  case (Cons c s)
  from Cons.IH [of "Suc d" "part @ [c]"] Cons.IH [of "d - 1" "part @ [c]"] Cons.IH [of d "part @ [c]"] Cons.prems
  show ?case by (auto simp: of_nat_diff add.commute split: if_splits)
qed simp

lemma indexTopFrom_topFree:
  "topFree sep d s \<Longrightarrow> indexTopFrom sep (int d) i (s @ rest) = indexTopFrom sep 0 (i + length s) rest"
proof (induction s arbitrary: d i)
  case (Cons c s)
  from Cons.IH [of "Suc d" "Suc i"] Cons.IH [of "d - 1" "Suc i"] Cons.IH [of d "Suc i"] Cons.prems
  show ?case by (auto simp: of_nat_diff add.commute split: if_splits)
qed simp

lemma closeScan_parens:
  "parens d s \<Longrightarrow> closeScan i (int d + 1) close (s @ rest) = closeScan (i + length s) 1 close rest"
proof (induction s arbitrary: d i)
  case (Cons c s)
  from Cons.IH [of "Suc d" "Suc i"] Cons.IH [of "d - 1" "Suc i"] Cons.IH [of d "Suc i"] Cons.prems
  show ?case by (auto simp: of_nat_diff add.commute split: if_splits)
qed simp

lemma closeScan_none: "CHR ''('' \<notin> set s \<Longrightarrow> CHR '')'' \<notin> set s \<Longrightarrow> closeScan i d close s = close"
  by (induction s arbitrary: i) auto

lemma typeText_facts:
  assumes "typeText s"
  shows "visibleEnds s" "topFree (CHR '','') 0 s" "topFree (CHR '':'') 0 s" "parens 0 s"
  using assms nestedText_topFree [of "[]" s] nestedText_parens [of "[]" s] by (auto simp: typeText_def)

lemma marks [simp]:
  "opensType (CHR '':'') = False" "closesType (CHR '':'') = False"
  "opensType (CHR '','') = False" "closesType (CHR '','') = False"
  "opensType (CHR '' '') = False" "closesType (CHR '' '') = False"
  by (simp_all add: opensType_def closesType_def)

text \<open>One printed parameter.\<close>

lemma printParam_eq:
  "typedParam p \<Longrightarrow>
     printParam p = paramName p @ (if paramType p \<noteq> [] then CHR '':'' # CHR '' '' # paramType p else [])"
  by (auto simp: typedParam_def typeText_def visibleEnds_def printParam_def)

lemma printParam_facts:
  assumes "typedParam p"
  shows "topFree (CHR '','') 0 (printParam p)" "parens 0 (printParam p)" "visibleEnds (printParam p)"
proof -
  have name: "typeText (paramName p)" and ty: "paramType p = [] \<or> typeText (paramType p)"
    using assms by (auto simp: typedParam_def)
  note eq = printParam_eq [OF assms] and facts = typeText_facts [OF name]
  show "topFree (CHR '','') 0 (printParam p)" unfolding eq
    using facts ty typeText_facts by (intro topFree_append) auto
  show "parens 0 (printParam p)" unfolding eq
    using facts ty typeText_facts by (intro parens_append) auto
  show "visibleEnds (printParam p)" unfolding eq
    using facts(1) ty typeText_facts(1) by (auto simp: visibleEnds_def)
qed

lemma callableParam_print:
  assumes "typedParam p"
  shows "callableParam (printParam p) = p"
proof -
  have name: "typeText (paramName p)" "\<not> hasSuffix (paramName p) ''?''"
    and ty: "paramType p = [] \<or> typeText (paramType p)" and desc: "paramDesc p = []"
    using assms by (auto simp: typedParam_def)
  note print = printParam_eq [OF assms] and trim = visibleEnds_trim [OF typeText_facts(1) [OF name(1)]]
    and index = indexTopFrom_topFree [OF typeText_facts(3) [OF name(1)], of 0]
  have eq: "p = \<lparr>paramName = paramName p, paramType = paramType p, paramDesc = []\<rparr>"
    using desc by (cases p) simp
  have "callableParam (printParam p) = \<lparr>paramName = paramName p, paramType = paramType p, paramDesc = []\<rparr>"
  proof (cases "paramType p = []")
    case True
    have "indexTopLevelByte (printParam p) (CHR '':'') = None"
      using index [of "[]"] True by (simp add: indexTopLevelByte_def print)
    with True name(2) trim(1) show ?thesis
      by (simp add: callableParam_def print Let_def)
  next
    case False
    have idx: "indexTopLevelByte (printParam p) (CHR '':'') = Some (length (paramName p))"
      using index [of "CHR '':'' # CHR '' '' # paramType p"] False by (simp add: indexTopLevelByte_def print)
    have "TrimSpace (CHR '' '' # paramType p) = paramType p"
      using ty False typeText_facts(1) visibleEnds_trim(2) by blast
    with False name(2) trim(1) idx show ?thesis
      by (simp add: callableParam_def print Let_def)
  qed
  then show ?thesis by (rule trans [OF _ eq [symmetric]])
qed

text \<open>The printed list of parameters.\<close>

lemma splitTopFrom_params:
  "list_all typedParam (p # ps) \<Longrightarrow> pre = [] \<or> pre = '' '' \<Longrightarrow>
     splitTopFrom (CHR '','') 0 pre (printParams (p # ps)) = map printParam (p # ps)"
proof (induction ps arbitrary: p pre)
  case Nil
  then have p: "typedParam p" by simp
  show ?case
    using splitTopFrom_topFree [OF printParam_facts(1) [OF p], of pre "[]"]
      visibleEnds_trim [OF printParam_facts(3) [OF p]] Nil.prems(2) by auto
next
  case (Cons q ps)
  then have p: "typedParam p" by simp
  have "splitTopFrom (CHR '','') 0 pre (printParams (p # q # ps)) =
      TrimSpace (pre @ printParam p) # splitTopFrom (CHR '','') 0 '' '' (printParams (q # ps))"
    using splitTopFrom_topFree [OF printParam_facts(1) [OF p], of pre "CHR '','' # CHR '' '' # printParams (q # ps)"]
    by simp
  then show ?case
    using Cons.IH [of q "'' ''"] Cons.prems visibleEnds_trim [OF printParam_facts(3) [OF p]] by auto
qed

lemma printParams_ends: "list_all typedParam ps \<Longrightarrow> ps \<noteq> [] \<Longrightarrow> visibleEnds (printParams ps)"
proof (induction ps)
  case (Cons p ps)
  with printParam_facts(3) [of p] show ?case by (cases "ps = []") (auto simp: visibleEnds_def)
qed simp

lemma printParams_parens: "list_all typedParam ps \<Longrightarrow> parens 0 (printParams ps)"
proof (induction ps)
  case (Cons p ps)
  with printParam_facts(2) [of p] show ?case by (auto intro!: parens_append)
qed simp

text \<open>
  C33. Printing and parsing of callable types: from the printed signature \<open>parseCallableType\<close>
  recovers exactly the parameters and the return type, and prints the same signature again. Names and
  types of parameters may be nested to any depth, with commas and colons inside matching brackets, as
  in \<open>fun(cb: fun(x: a, y: b), t: table<string, number>)\<close>; a name does not end with a question mark,
  the texts begin and end with visible ASCII characters, and the return type, if there is one, is any text without parentheses: with a function type there
  the round trip fails (\<open>parseCallableType_nested\<close>).
\<close>

theorem parseCallableType_print:
  assumes "list_all typedParam params" "returns = [] \<or> (\<exists>ty. returnText ty \<and> returns = [\<lparr>returnType = ty, returnDesc = []\<rparr>])"
  shows "parseCallableType (buildCallableSignature params returns) =
     Some \<lparr>ctSignature = buildCallableSignature params returns, ctParams = params, ctReturns = returns\<rparr>"
proof -
  let ?body = "printParams params"
  obtain trail where sig: "buildCallableSignature params returns = ''fun('' @ ?body @ '')'' @ trail"
    and trail: "trail = [] \<and> returns = [] \<or> (\<exists>ty. returnText ty \<and> trail = CHR '':'' # CHR '' '' # ty \<and>
      returns = [\<lparr>returnType = ty, returnDesc = []\<rparr>])"
    using assms(2) by (auto simp: buildCallableSignature_def returnText_def visibleEnds_def)
  let ?sig = "''fun('' @ ?body @ '')'' @ trail"
  have "visibleEnds ?sig"
    using trail by (auto simp: returnText_def visibleEnds_def)
  then have trimmed: "TrimSpace ?sig = ?sig" by (rule visibleEnds_trim(1))
  have "CHR ''('' \<notin> set trail" "CHR '')'' \<notin> set trail"
    using trail by (auto simp: returnText_def)
  then have close: "closeScan 3 0 None (CHR ''('' # ?body @ CHR '')'' # trail) = Some (4 + length ?body)"
    using closeScan_parens [OF printParams_parens [OF assms(1)], of 4 None "CHR '')'' # trail"] closeScan_none
    by (simp add: add.commute)
  have body: "TrimSpace ?body = ?body"
    using printParams_ends [OF assms(1)] visibleEnds_trim(1) by (cases "params = []") auto
  have split: "filter (\<lambda>raw. raw \<noteq> []) (splitTopLevelList ?body (CHR '','')) = map printParam params"
  proof (cases params)
    case (Cons p ps)
    then have "splitTopLevelList ?body (CHR '','') = map printParam params"
      using splitTopFrom_params [of p ps "[]"] assms(1) printParams_ends [OF assms(1)] body
      by (simp add: splitTopLevelList_def visibleEnds_def)
    moreover have "raw \<in> set (map printParam params) \<Longrightarrow> raw \<noteq> []" for raw
      using assms(1) printParam_facts(3) by (auto simp: list_all_iff visibleEnds_def)
    ultimately show ?thesis by (simp add: filter_id_conv)
  qed (simp add: splitTopLevelList_def)
  have params: "map callableParam (map printParam params) = params"
    using assms(1) callableParam_print by (simp add: list_all_iff map_idI)
  have ret: "(if prefix '':'' (TrimSpace trail) \<and> TrimSpace (tl (TrimSpace trail)) \<noteq> []
      then [\<lparr>returnType = TrimSpace (tl (TrimSpace trail)), returnDesc = []\<rparr>] else []) = returns"
  proof (cases "trail = []")
    case False
    then obtain ty where ty: "visibleEnds ty" "trail = CHR '':'' # CHR '' '' # ty"
      "returns = [\<lparr>returnType = ty, returnDesc = []\<rparr>]" using trail by (auto simp: returnText_def)
    have "visibleEnds trail" using ty(1,2) by (auto simp: visibleEnds_def)
    with ty visibleEnds_trim(2) [OF ty(1)] show ?thesis
      by (simp add: visibleEnds_trim(1)) (simp add: visibleEnds_def)
  qed (use trail in auto)
  have pre: "prefix ''fun('' ?sig = True" "prefix ''funcref('' ?sig = False"
    and idx: "IndexByte ?sig (CHR ''('') = Some 3"
    and rest: "drop 3 ?sig = CHR ''('' # ?body @ CHR '')'' # trail" "slice ?sig (3 + 1) (4 + length ?body) = ?body"
      "drop (4 + length ?body + 1) ?sig = trail"
    by (simp_all add: slice_def eval_nat_numeral)
  have "parseCallableType ?sig = Some \<lparr>ctSignature = buildCallableSignature params returns,
      ctParams = params, ctReturns = returns\<rparr>"
    by (simp only: parseCallableType_def trimmed Let_def pre idx rest close body split params ret option.case
        simp_thms if_False if_True)
  then show ?thesis
    by (simp only: sig)
qed

text \<open>A callback and a table type as types, a function type in place of a name, and a return type.\<close>

definition sampleParams :: "LuaDocParam list" where
  "sampleParams = [\<lparr>paramName = ''cb'', paramType = ''fun(x: a, y: b)'', paramDesc = []\<rparr>,
     \<lparr>paramName = ''t'', paramType = ''table<string, {k: a[]}>'', paramDesc = []\<rparr>,
     \<lparr>paramName = ''fun(z: c)'', paramType = [], paramDesc = []\<rparr>]"

theorem parseCallableType_print_witness:
  "buildCallableSignature sampleParams [\<lparr>returnType = ''map<a, b>'', returnDesc = []\<rparr>] =
     ''fun(cb: fun(x: a, y: b), t: table<string, {k: a[]}>, fun(z: c)): map<a, b>'' \<and>
   parseCallableType (buildCallableSignature sampleParams [\<lparr>returnType = ''map<a, b>'', returnDesc = []\<rparr>]) =
     Some \<lparr>ctSignature = buildCallableSignature sampleParams [\<lparr>returnType = ''map<a, b>'', returnDesc = []\<rparr>],
           ctParams = sampleParams, ctReturns = [\<lparr>returnType = ''map<a, b>'', returnDesc = []\<rparr>]\<rparr>"
proof
  have "list_all typedParam sampleParams" by code_simp
  moreover have "returnText ''map<a, b>''" by code_simp
  ultimately show "parseCallableType (buildCallableSignature sampleParams [\<lparr>returnType = ''map<a, b>'', returnDesc = []\<rparr>]) =
     Some \<lparr>ctSignature = buildCallableSignature sampleParams [\<lparr>returnType = ''map<a, b>'', returnDesc = []\<rparr>],
           ctParams = sampleParams, ctReturns = [\<lparr>returnType = ''map<a, b>'', returnDesc = []\<rparr>]\<rparr>"
    by (intro parseCallableType_print) simp_all
qed (simp add: buildCallableSignature_def sampleParams_def printParam_def)

text \<open>
  The scan for the closing parenthesis does not stop there: a function that returns a function is
  read as a function of one parameter with an unbalanced type, and without a return type.
\<close>

lemma parseCallableType_nested:
  "parseCallableType ''fun(a:b):fun()'' =
     Some \<lparr>ctSignature = ''fun(a: b):fun()'',
           ctParams = [\<lparr>paramName = ''a'', paramType = ''b):fun('', paramDesc = []\<rparr>],
           ctReturns = []\<rparr>"
proof -
  have "TrimSpace ''fun(a:b):fun()'' = ''fun(a:b):fun()''" "TrimSpace ''a:b):fun('' = ''a:b):fun(''"
    "TrimSpace ''b):fun('' = ''b):fun(''" "TrimSpace ''a'' = ''a''"
    by (rule TrimSpace_stays(1); simp)+
  then show ?thesis
    by (simp add: parseCallableType_def Let_def opensType_def closesType_def slice_def splitTopLevelList_def
        callableParam_def indexTopLevelByte_def hasSuffix_def suffix_def buildCallableSignature_def printParam_def
        eval_nat_numeral)
qed

text \<open>A line with an unknown tag is not ignored: it becomes part of the description.\<close>

lemma parseLuaDoc_unknown_tag: "map_option ldDescription (parseLuaDoc ''@meta'' False) = Some ''@meta''"
  by code_simp

end
