(* ===== verification/Fivem.thy ===== *)
theory Fivem
  imports Global_Index
begin

text \<open>
  The FiveM support (\<open>src/lsp/fivem.go\<close>): reading a resource manifest, deriving the fields of a
  resource from it, the graph of resources, and the execution profile of a document.

  The nodes of the graph are shared by three maps and compared by address, so they live in a heap
  that only grows; an address is a position in it. \<open>strings.ToLower\<close> and \<open>strings.EqualFold\<close> (the case
  tables of Unicode) are the arguments \<open>lower\<close> and \<open>equalFold\<close>. Keys of maps are visited in the order of an argument \<open>ord\<close>.
\<close>

section \<open>Manifests\<close>

definition Precedence :: "FiveMManifestSourceKind \<Rightarrow> nat" where
  "Precedence kind =
     (case kind of FiveMManifestSourceFXManifest \<Rightarrow> 2 | FiveMManifestSourceResourceLua \<Rightarrow> 1
      | FiveMManifestSourceUnknown \<Rightarrow> 0)"

text \<open>
  The comparisons of entries, manifests and resources, field by field; they are equality. Pointers
  are compared by what they point to, and \<open>nil\<close> is only equal to itself.
\<close>

definition entry_Equal :: "FiveMManifestEntry \<Rightarrow> FiveMManifestEntry \<Rightarrow> bool" where
  "entry_Equal a b \<longleftrightarrow>
     fmEntryURI a = fmEntryURI b \<and> fmRawName a = fmRawName b \<and> fmEmittedName a = fmEmittedName b \<and>
     fmNormalizedName a = fmNormalizedName b \<and> fmShape a = fmShape b \<and> fmRange a = fmRange b \<and>
     fmValueRange a = fmValueRange b \<and> fmRawValue a = fmRawValue b \<and> fmValue a = fmValue b \<and>
     fmReservedKey a = fmReservedKey b \<and> fmLoaderInjected a = fmLoaderInjected b \<and>
     fmExtraKey a = fmExtraKey b \<and> fmRawExtraKey a = fmRawExtraKey b"

definition manifest_Equal :: "FiveMManifest option \<Rightarrow> FiveMManifest option \<Rightarrow> bool" where
  "manifest_Equal a b \<longleftrightarrow>
     (case (a, b) of
        (None, None) \<Rightarrow> True
      | (Some a, Some b) \<Rightarrow>
          fmResourceName a = fmResourceName b \<and> fmResourceRoot a = fmResourceRoot b \<and>
          fmSourceURI a = fmSourceURI b \<and> fmSourceKind a = fmSourceKind b \<and> fmIsCfxV2 a = fmIsCfxV2 b \<and>
          list_all2 entry_Equal (fmEntries a) (fmEntries b)
      | _ \<Rightarrow> False)"

definition resource_Equal :: "FiveMResource \<Rightarrow> FiveMResource \<Rightarrow> bool" where
  "resource_Equal a b \<longleftrightarrow>
     frName a = frName b \<and> frRootURI a = frRootURI b \<and> frManifestURI a = frManifestURI b \<and>
     frManifestSource a = frManifestSource b \<and> frManifestVersion a = frManifestVersion b \<and>
     frFXVersion a = frFXVersion b \<and> frUseExperimentalOAL a = frUseExperimentalOAL b \<and>
     frUIPage a = frUIPage b \<and> frServerOnly a = frServerOnly b \<and> frIsCfxV2 a = frIsCfxV2 b \<and>
     manifest_Equal (frManifest a) (frManifest b) \<and>
     frDependencies a = frDependencies b \<and> frGames a = frGames b \<and> frProvides a = frProvides b \<and>
     frClientGlobs a = frClientGlobs b \<and> frServerGlobs a = frServerGlobs b \<and> frSharedGlobs a = frSharedGlobs b \<and>
     frClientCrossIncludes a = frClientCrossIncludes b \<and> frServerCrossIncludes a = frServerCrossIncludes b \<and>
     frSharedCrossIncludes a = frSharedCrossIncludes b \<and>
     frClientExports a = frClientExports b \<and> frServerExports a = frServerExports b"

lemma entry_Equal_iff: "entry_Equal = (=)"
  by (auto simp: fun_eq_iff entry_Equal_def)

lemma manifest_Equal_iff: "manifest_Equal a b \<longleftrightarrow> a = b"
  by (auto simp: manifest_Equal_def entry_Equal_iff list.rel_eq split: option.splits)

lemma resource_Equal_iff [simp]: "resource_Equal a b \<longleftrightarrow> a = b"
  by (auto simp: resource_Equal_def manifest_Equal_iff)

definition unquoteLuaString :: "bytes \<Rightarrow> bytes option" where
  "unquoteLuaString s =
     (let s = TrimSpace s
      in if 2 \<le> length s \<and> (hd s = CHR 0x22 \<or> hd s = CHR 0x27)
         then Some (if last s = hd s then slice s 1 (length s - 1) else tl s)
         else if prefix ''['' s
         then case IndexByte (tl s) (CHR ''['') of
                None \<Rightarrow> Some s
              | Some idx \<Rightarrow>
                  let start = 2 + idx;
                      start = (if start < length s \<and> s ! start = newline then start + 1 else start);
                      stop = int (length s) - int (2 + idx)
                  in if int start \<le> stop then slice_opt s start (nat stop) else Some s
         else Some s)"

definition fiveMManifestSourceFromURI :: "string \<Rightarrow> FiveMManifestSourceKind" where
  "fiveMManifestSourceFromURI uri =
     (if suffix ''/fxmanifest.lua'' uri then FiveMManifestSourceFXManifest
      else if suffix ''/__resource.lua'' uri then FiveMManifestSourceResourceLua
      else FiveMManifestSourceUnknown)"

definition fiveMManifestNormalizedName :: "(string \<Rightarrow> string) \<Rightarrow> string \<Rightarrow> string" where
  "fiveMManifestNormalizedName lower name =
     (let low = lower name
      in if low = ''client_scripts'' then ''client_script''
         else if low = ''server_scripts'' then ''server_script''
         else if low = ''shared_scripts'' then ''shared_script''
         else if low = ''files'' then ''file''
         else if low = ''exports'' then ''export''
         else if low = ''client_exports'' then ''client_export''
         else if low = ''server_exports'' then ''server_export''
         else if low = ''dependencies'' \<or> low = ''dependencie'' then ''dependency''
         else if low = ''provides'' then ''provide''
         else if suffix ''s'' low then butlast low
         else low)"

definition isReservedFiveMManifestKey :: "(string \<Rightarrow> string \<Rightarrow> bool) \<Rightarrow> string \<Rightarrow> bool" where
  "isReservedFiveMManifestKey equalFold name = equalFold name ''is_cfxv2''"

definition parseFiveMBoolSetting :: "(string \<Rightarrow> string) \<Rightarrow> string \<Rightarrow> bool" where
  "parseFiveMBoolSetting lower v \<longleftrightarrow>
     v = '''' \<or> lower (TrimSpace v) \<notin> {''false'', ''0'', ''off'', ''no'', ''nil''}"

definition normalizeFiveMGameName :: "(string \<Rightarrow> string) \<Rightarrow> string \<Rightarrow> string" where
  "normalizeFiveMGameName lower name =
     (let low = lower (TrimSpace name)
      in if low \<in> {''gta5'', ''gtaiv'', ''gta4'', ''gta-ny'', ''ny''}
         then if sublist ''ny'' low \<or> sublist ''iv'' low \<or> sublist ''4'' low then ''ny'' else ''gta5''
         else low)"

text \<open>The text of an argument of a directive, as written and without the quotes of a string, and its range.\<close>

definition fiveMManifestNodeValue :: "Tree \<Rightarrow> NodeID \<Rightarrow> (bytes \<times> bytes \<times> Range) option option" where
  "fiveMManifestNodeValue t nid =
     (if length (Nodes t) \<le> nid then Some None
      else let node = Nodes t ! nid
           in if nEnd node < nStart node \<or> length (Source t) < nEnd node then Some None
              else do {
                let raw = slice (Source t) (nStart node) (nEnd node);
                v \<leftarrow> (if nKind node = KindString then unquoteLuaString raw else Some raw);
                rng \<leftarrow> getNodeRange t nid;
                Some (Some (raw, v, rng))
              })"

definition emptyRange :: Range where
  "emptyRange = \<lparr>rgStart = (0, 0), rgEnd = (0, 0)\<rparr>"

text \<open>An entry for a call, with the fields that all entries of the call share.\<close>

definition callEntry :: "string \<Rightarrow> string \<Rightarrow> string \<Rightarrow> string \<Rightarrow> FiveMManifestEntryShape \<Rightarrow> Range \<Rightarrow> bool \<Rightarrow> FiveMManifestEntry" where
  "callEntry uri rawName emittedName normalizedName shape rng reserved =
     \<lparr>fmEntryURI = uri, fmRawName = rawName, fmEmittedName = emittedName, fmNormalizedName = normalizedName,
      fmShape = shape, fmRange = rng, fmValueRange = emptyRange, fmRawValue = [], fmValue = [],
      fmReservedKey = reserved, fmLoaderInjected = False, fmExtraKey = [], fmRawExtraKey = []\<rparr>"

text \<open>One pass over the \<open>n\<close> items of the extra list from \<open>extra\<close> on, for the arguments of a call or the fields of a table.\<close>

definition manifestValues :: "Tree \<Rightarrow> nat \<Rightarrow> nat \<Rightarrow> FiveMManifestEntry \<Rightarrow> FiveMManifestEntry list option" where
  "manifestValues t extra n entry =
     forM [0..<n] (\<lambda>i entries.
       if length (ExtraList t) \<le> extra + i then Some entries
       else do {
         v \<leftarrow> fiveMManifestNodeValue t (ExtraList t ! (extra + i));
         Some (case v of None \<Rightarrow> entries
               | Some (raw, v, rng) \<Rightarrow>
                   entries @ [entry\<lparr>fmValueRange := rng, fmRawValue := raw, fmValue := v\<rparr>])
       }) []"

definition manifestArgument :: "Tree \<Rightarrow> Node \<Rightarrow> nat \<Rightarrow> (bytes \<times> bytes \<times> Range) option option" where
  "manifestArgument t node i =
     (if i < nCount node \<and> nExtra node + i < length (ExtraList t)
      then fiveMManifestNodeValue t (ExtraList t ! (nExtra node + i)) else Some None)"

text \<open>
  The entries of a call, with the raw, the emitted and the normalised name of the directive. The
  recursion follows the callee, whose number is smaller; the fuel is the number of the call.
\<close>

fun fiveMManifestEntriesForCall ::
  "(string \<Rightarrow> string) \<Rightarrow> (string \<Rightarrow> string \<Rightarrow> bool) \<Rightarrow> nat \<Rightarrow> string \<Rightarrow> Tree \<Rightarrow> NodeID
   \<Rightarrow> (string \<times> string \<times> string \<times> FiveMManifestEntry list) option option" where
  "fiveMManifestEntriesForCall lower equalFold fuel uri t nid =
     (if length (Nodes t) \<le> nid then Some None
      else let node = Nodes t ! nid
      in if nKind node \<notin> {KindCallExpr, KindMethodCall} then Some None
      else if length (Nodes t) \<le> nLeft node then Some None
      else let left = Nodes t ! nLeft node
      in if nKind left \<in> {KindCallExpr, KindMethodCall}
      then case fuel of
             0 \<Rightarrow> None
           | Suc fuel \<Rightarrow> do {
               r \<leftarrow> fiveMManifestEntriesForCall lower equalFold fuel uri t (nLeft node);
               case r of
                 None \<Rightarrow> Some None
               | Some (rawName, emittedName, normalizedName, entries) \<Rightarrow>
                   if rawName = '''' then Some None
                   else do {
                     key \<leftarrow> manifestArgument t node 0;
                     payload \<leftarrow> manifestArgument t node 1;
                     callRange \<leftarrow> getNodeRange t nid;
                     let entry = callEntry uri rawName (emittedName @ ''_extra'') normalizedName
                           FiveMManifestEntryExtra callRange (isReservedFiveMManifestKey equalFold emittedName);
                     let entry = (case key of None \<Rightarrow> entry
                       | Some (raw, v, rng) \<Rightarrow> entry\<lparr>fmExtraKey := v, fmRawExtraKey := raw\<rparr>);
                     let entry = (case payload of None \<Rightarrow> entry
                       | Some (raw, v, rng) \<Rightarrow> entry\<lparr>fmValueRange := rng, fmRawValue := raw, fmValue := v\<rparr>);
                     Some (Some (rawName, emittedName, normalizedName, entries @ [entry]))
                   }
             }
      else if nKind left \<noteq> KindIdent \<or> nEnd left < nStart left \<or> length (Source t) < nEnd left
      then Some None
      else do {
        let rawName = slice (Source t) (nStart left) (nEnd left);
        let normalizedName = fiveMManifestNormalizedName lower rawName;
        let emittedName = lower rawName;
        callRange \<leftarrow> getNodeRange t nid;
        let reserved = isReservedFiveMManifestKey equalFold emittedName;
        let arg = ExtraList t ! nExtra node;
        if nCount node = 1 \<and> nExtra node < length (ExtraList t) \<and>
           arg < length (Nodes t) \<and> nKind (Nodes t ! arg) = KindTableExpr
        then do {
          entries \<leftarrow> manifestValues t (nExtra (Nodes t ! arg)) (nCount (Nodes t ! arg))
            (callEntry uri rawName normalizedName normalizedName FiveMManifestEntryTableValue callRange reserved);
          Some (Some (rawName, normalizedName, normalizedName, entries))
        }
        else do {
          let entry = callEntry uri rawName emittedName normalizedName FiveMManifestEntryScalar callRange reserved;
          entries \<leftarrow> (if nCount node = 0 then Some [entry]
                     else manifestValues t (nExtra node) (nCount node) entry);
          Some (Some (rawName, emittedName, normalizedName, entries))
        }
      })"

declare fiveMManifestEntriesForCall.simps [simp del]

text \<open>What one entry adds to the resource.\<close>

definition deriveEntry :: "(string \<Rightarrow> string) \<Rightarrow> FiveMManifestEntry \<Rightarrow> FiveMResource \<Rightarrow> FiveMResource" where
  "deriveEntry lower entry res =
     (let name = fmEmittedName entry;
          v = fmValue entry;
          include = prefix ''@'' v
      in if fmLoaderInjected entry
         then if name = ''is_cfxv2'' then res\<lparr>frIsCfxV2 := parseFiveMBoolSetting lower v\<rparr> else res
         else if fmReservedKey entry then res
         else if name = ''resource_manifest_version''
         then if v \<noteq> '''' then res\<lparr>frManifestVersion := v\<rparr> else res
         else if name = ''fx_version''
         then if v \<noteq> '''' then res\<lparr>frFXVersion := v\<rparr> else res
         else if name = ''game''
         then let game = normalizeFiveMGameName lower v
              in if game \<noteq> '''' then res\<lparr>frGames := frGames res @ [game]\<rparr> else res
         else if name = ''use_experimental_fxv2_oal''
         then res\<lparr>frUseExperimentalOAL := parseFiveMBoolSetting lower v\<rparr>
         else if name \<in> {''dependency'', ''dependencie''}
         then if v \<noteq> '''' then res\<lparr>frDependencies := frDependencies res @ [v]\<rparr> else res
         else if name = ''provide''
         then if v \<noteq> '''' then res\<lparr>frProvides := frProvides res @ [v]\<rparr> else res
         else if name = ''ui_page''
         then if v \<noteq> '''' then res\<lparr>frUIPage := v\<rparr> else res
         else if name = ''server_only'' then res\<lparr>frServerOnly := parseFiveMBoolSetting lower v\<rparr>
         else if name = ''client_script''
         then if include then res\<lparr>frClientCrossIncludes := frClientCrossIncludes res @ [v]\<rparr>
              else if v \<noteq> '''' then res\<lparr>frClientGlobs := frClientGlobs res @ [v]\<rparr> else res
         else if name = ''server_script''
         then if include then res\<lparr>frServerCrossIncludes := frServerCrossIncludes res @ [v]\<rparr>
              else if v \<noteq> '''' then res\<lparr>frServerGlobs := frServerGlobs res @ [v]\<rparr> else res
         else if name \<in> {''shared_script'', ''file''}
         then if include then res\<lparr>frSharedCrossIncludes := frSharedCrossIncludes res @ [v]\<rparr>
              else if v \<noteq> '''' then res\<lparr>frSharedGlobs := frSharedGlobs res @ [v]\<rparr> else res
         else if name \<in> {''export'', ''client_export''}
         then if v \<noteq> '''' then res\<lparr>frClientExports := frClientExports res @ [v]\<rparr> else res
         else if name = ''server_export''
         then if v \<noteq> '''' then res\<lparr>frServerExports := frServerExports res @ [v]\<rparr> else res
         else res)"

definition clearDerived :: "FiveMResource \<Rightarrow> FiveMResource" where
  "clearDerived res =
     emptyResource\<lparr>frName := frName res, frRootURI := frRootURI res, frManifestURI := frManifestURI res,
       frManifestSource := frManifestSource res, frManifest := frManifest res\<rparr>"

definition deriveFromManifest :: "(string \<Rightarrow> string) \<Rightarrow> FiveMResource \<Rightarrow> FiveMResource" where
  "deriveFromManifest lower res =
     (case frManifest res of
        None \<Rightarrow> clearDerived res
      | Some manifest \<Rightarrow>
          fold (deriveEntry lower) (fmEntries manifest)
            ((clearDerived res)\<lparr>frManifestURI := fmSourceURI manifest, frManifestSource := fmSourceKind manifest,
               frIsCfxV2 := fmIsCfxV2 manifest\<rparr>))"

text \<open>\<open>strings.LastIndexByte\<close>, and what stands before and after it in a path.\<close>

definition LastIndexByte :: "bytes \<Rightarrow> byte \<Rightarrow> nat option" where
  "LastIndexByte bs c = map_option (\<lambda>k. length bs - 1 - k) (IndexByte (rev bs) c)"

definition fiveMResourceNameFromRoot :: "(string \<Rightarrow> string) \<Rightarrow> string \<Rightarrow> string" where
  "fiveMResourceNameFromRoot lower root =
     (case LastIndexByte root (CHR ''/'') of None \<Rightarrow> lower root | Some idx \<Rightarrow> lower (drop (idx + 1) root))"

definition rootOfURI :: "string \<Rightarrow> string option" where
  "rootOfURI uri = map_option (\<lambda>idx. take idx uri) (LastIndexByte uri (CHR ''/''))"

text \<open>Calls whose callee is a call are read as one chain, from the outermost call.\<close>

definition isCallee :: "Tree \<Rightarrow> NodeID \<Rightarrow> bool" where
  "isCallee t nid \<longleftrightarrow>
     (let parent = nParent (Nodes t ! nid)
      in parent \<noteq> InvalidNode \<and> parent < length (Nodes t) \<and>
         nKind (Nodes t ! parent) \<in> {KindCallExpr, KindMethodCall} \<and> nLeft (Nodes t ! parent) = nid)"

definition manifestEntries ::
  "(string \<Rightarrow> string) \<Rightarrow> (string \<Rightarrow> string \<Rightarrow> bool) \<Rightarrow> string \<Rightarrow> Tree \<Rightarrow> FiveMManifestEntry list option" where
  "manifestEntries lower equalFold uri t =
     forM [1..<length (Nodes t)] (\<lambda>i entries.
       if nKind (Nodes t ! i) \<in> {KindCallExpr, KindMethodCall} \<and> \<not> isCallee t i
       then do {
         r \<leftarrow> fiveMManifestEntriesForCall lower equalFold i uri t i;
         Some (case r of None \<Rightarrow> entries | Some (_, _, _, found) \<Rightarrow> entries @ found)
       }
       else Some entries) []"

text \<open>The entry that the loader adds to every \<open>fxmanifest.lua\<close>.\<close>

definition injectedEntry :: "string \<Rightarrow> FiveMManifestEntry" where
  "injectedEntry uri =
     (callEntry uri ''is_cfxv2'' ''is_cfxv2'' ''is_cfxv2'' FiveMManifestEntryInjected emptyRange True)
       \<lparr>fmRawValue := ''true'', fmValue := ''true'', fmLoaderInjected := True\<rparr>"

definition parseFiveMManifest ::
  "(string \<Rightarrow> string) \<Rightarrow> (string \<Rightarrow> string \<Rightarrow> bool) \<Rightarrow> string \<Rightarrow> Tree \<Rightarrow> FiveMResource option" where
  "parseFiveMManifest lower equalFold uri t = do {
     root \<leftarrow> rootOfURI uri;
     let kind = fiveMManifestSourceFromURI uri;
     let name = fiveMResourceNameFromRoot lower root;
     entries \<leftarrow> manifestEntries lower equalFold uri t;
     let fx = (kind = FiveMManifestSourceFXManifest);
     let manifest = \<lparr>fmResourceName = name, fmResourceRoot = root, fmSourceURI = uri, fmSourceKind = kind,
                     fmIsCfxV2 = fx, fmEntries = entries @ (if fx then [injectedEntry uri] else [])\<rparr>;
     Some (deriveFromManifest lower (emptyResource\<lparr>frName := name, frRootURI := root, frManifestURI := uri,
       frManifestSource := kind, frManifest := Some manifest\<rparr>))
   }"

section \<open>The graph of resources\<close>

definition parseFiveMResourceInclude :: "(string \<Rightarrow> string) \<Rightarrow> string \<Rightarrow> (string \<times> string) option" where
  "parseFiveMResourceInclude lower v =
     (if \<not> prefix ''@'' v then None
      else case IndexByte (tl v) (CHR ''/'') of
             None \<Rightarrow> None
           | Some sep \<Rightarrow>
               if sep = 0 \<or> sep = length (tl v) - 1 then None
               else let resourceName = normalizeFiveMResourceAlias lower (take sep (tl v));
                        path = drop (sep + 1) (tl v)
                    in if resourceName \<noteq> '''' \<and> path \<noteq> '''' then Some (resourceName, path) else None)"

datatype ExpansionKind = ExpansionLocal | ExpansionInclude

record FiveMResourceGraphExpansion =
  geKind :: ExpansionKind
  gePattern :: string
  geInclude :: string
  geIncludeResource :: string
  geIncludePath :: string

definition localExpansion :: "string \<Rightarrow> FiveMResourceGraphExpansion" where
  "localExpansion pattern =
     \<lparr>geKind = ExpansionLocal, gePattern = pattern, geInclude = [], geIncludeResource = [], geIncludePath = []\<rparr>"

definition includeExpansion :: "string \<Rightarrow> string \<Rightarrow> string \<Rightarrow> FiveMResourceGraphExpansion" where
  "includeExpansion include resource path =
     \<lparr>geKind = ExpansionInclude, gePattern = [], geInclude = include, geIncludeResource = resource, geIncludePath = path\<rparr>"

definition newFiveMResourceGraphExpansion :: "(string \<Rightarrow> string) \<Rightarrow> FiveMManifestEntry \<Rightarrow> FiveMResourceGraphExpansion" where
  "newFiveMResourceGraphExpansion lower entry =
     (if prefix ''@'' (fmValue entry)
      then case parseFiveMResourceInclude lower (fmValue entry) of
             Some (resource, path) \<Rightarrow> includeExpansion (fmValue entry) resource path
           | None \<Rightarrow> includeExpansion (fmValue entry) [] []
      else localExpansion (fmValue entry))"

text \<open>A node of the graph, without the lists of events that the diagnostics of events keep in it.\<close>

record FiveMResourceGraphNode =
  gnResource :: FiveMResource
  gnName :: string
  gnRootURI :: string
  gnManifestURI :: string
  gnManifestSource :: FiveMManifestSourceKind
  gnProvides :: "string list"
  gnDependencies :: "string list"
  gnClientEntries :: "FiveMResourceGraphExpansion list"
  gnServerEntries :: "FiveMResourceGraphExpansion list"
  gnSharedEntries :: "FiveMResourceGraphExpansion list"

text \<open>A resource without a manifest lists its patterns and includes itself; unreadable includes are skipped.\<close>

definition listedEntries :: "(string \<Rightarrow> string) \<Rightarrow> string list \<Rightarrow> string list \<Rightarrow> FiveMResourceGraphExpansion list" where
  "listedEntries lower patterns includes =
     map localExpansion patterns @
     concat (map (\<lambda>include. case parseFiveMResourceInclude lower include of
                              None \<Rightarrow> []
                            | Some (resource, path) \<Rightarrow> [includeExpansion include resource path]) includes)"

definition nodeEntry :: "(string \<Rightarrow> string) \<Rightarrow> FiveMManifestEntry \<Rightarrow> FiveMResourceGraphNode \<Rightarrow> FiveMResourceGraphNode" where
  "nodeEntry lower entry node =
     (let name = fmEmittedName entry;
          expansion = newFiveMResourceGraphExpansion lower entry
      in if fmLoaderInjected entry \<or> fmReservedKey entry then node
         else if name \<in> {''dependency'', ''dependencie''}
         then if fmValue entry \<noteq> '''' then node\<lparr>gnDependencies := gnDependencies node @ [fmValue entry]\<rparr> else node
         else if name = ''provide''
         then let alias = normalizeFiveMResourceAlias lower (fmValue entry)
              in if alias \<noteq> '''' then node\<lparr>gnProvides := gnProvides node @ [alias]\<rparr> else node
         else if name = ''client_script'' then node\<lparr>gnClientEntries := gnClientEntries node @ [expansion]\<rparr>
         else if name = ''server_script'' then node\<lparr>gnServerEntries := gnServerEntries node @ [expansion]\<rparr>
         else if name \<in> {''shared_script'', ''file''} then node\<lparr>gnSharedEntries := gnSharedEntries node @ [expansion]\<rparr>
         else node)"

definition newFiveMResourceGraphNode :: "(string \<Rightarrow> string) \<Rightarrow> FiveMResource \<Rightarrow> FiveMResourceGraphNode" where
  "newFiveMResourceGraphNode lower res =
     (let node = \<lparr>gnResource = res, gnName = normalizeFiveMResourceAlias lower (frName res),
                  gnRootURI = frRootURI res, gnManifestURI = frManifestURI res, gnManifestSource = frManifestSource res,
                  gnProvides = [], gnDependencies = [], gnClientEntries = [], gnServerEntries = [], gnSharedEntries = []\<rparr>
      in case frManifest res of
           None \<Rightarrow> node\<lparr>gnProvides := frProvides res, gnDependencies := frDependencies res,
                     gnClientEntries := listedEntries lower (frClientGlobs res) (frClientCrossIncludes res),
                     gnServerEntries := listedEntries lower (frServerGlobs res) (frServerCrossIncludes res),
                     gnSharedEntries := listedEntries lower (frSharedGlobs res) (frSharedCrossIncludes res)\<rparr>
         | Some manifest \<Rightarrow> fold (nodeEntry lower) (fmEntries manifest) node)"

type_synonym NodeAddr = nat

record FiveMResourceGraph =
  grHeap :: "FiveMResourceGraphNode list"
  grByRoot :: "string \<rightharpoonup> NodeAddr"
  grByName :: "string \<rightharpoonup> NodeAddr"
  grByProvide :: "string \<rightharpoonup> NodeAddr list"

definition NewFiveMResourceGraph :: FiveMResourceGraph where
  "NewFiveMResourceGraph = \<lparr>grHeap = [], grByRoot = (\<lambda>_. None), grByName = (\<lambda>_. None), grByProvide = (\<lambda>_. None)\<rparr>"

definition graph_Clear :: "FiveMResourceGraph \<Rightarrow> FiveMResourceGraph" where
  "graph_Clear g = g\<lparr>grByRoot := (\<lambda>_. None), grByName := (\<lambda>_. None), grByProvide := (\<lambda>_. None)\<rparr>"

definition ResourceByRoot :: "FiveMResourceGraph \<Rightarrow> string \<Rightarrow> FiveMResource option" where
  "ResourceByRoot g root = map_option (\<lambda>a. gnResource (grHeap g ! a)) (grByRoot g root)"

text \<open>The key of \<open>compareFiveMResourceGraphNodes\<close>, which orders nodes by name and then by root.\<close>

definition nodeKey :: "FiveMResourceGraph \<Rightarrow> NodeAddr \<Rightarrow> string \<times> string" where
  "nodeKey g a = (gnName (grHeap g ! a), gnRootURI (grHeap g ! a))"

definition removeAlias :: "NodeAddr \<Rightarrow> string \<Rightarrow> FiveMResourceGraph \<Rightarrow> FiveMResourceGraph" where
  "removeAlias node alias g =
     (let nodes = remove1 node (case grByProvide g alias of None \<Rightarrow> [] | Some nodes \<Rightarrow> nodes)
      in g\<lparr>grByProvide := (grByProvide g)(alias := if nodes = [] then None else Some nodes)\<rparr>)"

definition removeNode :: "NodeAddr \<Rightarrow> FiveMResourceGraph \<Rightarrow> FiveMResourceGraph" where
  "removeNode a g =
     (let node = grHeap g ! a;
          g = g\<lparr>grByRoot := (grByRoot g)(gnRootURI node := None)\<rparr>;
          g = (if gnName node \<noteq> '''' \<and> grByName g (gnName node) = Some a
               then g\<lparr>grByName := (grByName g)(gnName node := None)\<rparr> else g)
      in fold (removeAlias a) (gnProvides node) g)"

definition addAlias :: "NodeAddr \<Rightarrow> string \<Rightarrow> FiveMResourceGraph \<Rightarrow> FiveMResourceGraph" where
  "addAlias node alias g =
     (if alias = '''' then g
      else let nodes = (case grByProvide g alias of None \<Rightarrow> [] | Some nodes \<Rightarrow> nodes) @ [node]
           in g\<lparr>grByProvide := (grByProvide g)(alias \<mapsto> sort_key (nodeKey g) nodes)\<rparr>)"

definition graph_addNode :: "(string \<Rightarrow> string) \<Rightarrow> FiveMResource \<Rightarrow> FiveMResourceGraph \<Rightarrow> FiveMResourceGraph" where
  "graph_addNode lower res g =
     (let a = length (grHeap g);
          node = newFiveMResourceGraphNode lower res;
          g = g\<lparr>grHeap := grHeap g @ [node], grByRoot := (grByRoot g)(gnRootURI node \<mapsto> a)\<rparr>;
          g = (if gnName node \<noteq> [] then g\<lparr>grByName := (grByName g)(gnName node \<mapsto> a)\<rparr> else g)
      in fold (addAlias a) (gnProvides node) g)"

definition graph_Register :: "(string \<Rightarrow> string) \<Rightarrow> FiveMResource \<Rightarrow> FiveMResourceGraph \<Rightarrow> FiveMResource \<times> FiveMResourceGraph" where
  "graph_Register lower res g =
     (case ResourceByRoot g (frRootURI res) of
        Some current \<Rightarrow>
          if Precedence (frManifestSource res) < Precedence (frManifestSource current) then (current, g)
          else (res, graph_addNode lower res (removeNode (the (grByRoot g (frRootURI res))) g))
      | None \<Rightarrow> (res, graph_addNode lower res g))"

definition graph_Resolve :: "(string \<Rightarrow> string) \<Rightarrow> FiveMResourceGraph \<Rightarrow> string \<Rightarrow> FiveMResource option" where
  "graph_Resolve lower g name =
     (let alias = normalizeFiveMResourceAlias lower name
      in if alias = '''' then None
         else case grByName g alias of
                Some a \<Rightarrow> Some (gnResource (grHeap g ! a))
              | None \<Rightarrow> (case grByProvide g alias of
                           Some (a # _) \<Rightarrow> Some (gnResource (grHeap g ! a))
                         | _ \<Rightarrow> None))"

text \<open>The names in the order the two maps are visited in, sorted.\<close>

definition PublicNames :: "string list \<Rightarrow> string list \<Rightarrow> FiveMResourceGraph \<Rightarrow> string list" where
  "PublicNames names aliases g = sort (names @ filter (\<lambda>alias. grByName g alias = None) aliases)"

section \<open>Execution profiles\<close>

datatype FileEnv = EnvUnknown | EnvShared | EnvClient | EnvServer

datatype FiveMExecutionProfileKind =
  FiveMProfilePlainLua | FiveMProfileManifest | FiveMProfileClient | FiveMProfileServer
| FiveMProfileShared | FiveMProfileExportBridge

record FiveMExecutionProfile =
  prKind :: FiveMExecutionProfileKind
  prResourceRoot :: string
  prResourceName :: string

definition plainProfile :: FiveMExecutionProfile where
  "plainProfile = \<lparr>prKind = FiveMProfilePlainLua, prResourceRoot = [], prResourceName = []\<rparr>"

definition profile_Env :: "FiveMExecutionProfile \<Rightarrow> FileEnv" where
  "profile_Env profile =
     (case prKind profile of FiveMProfileClient \<Rightarrow> EnvClient | FiveMProfileServer \<Rightarrow> EnvServer
      | FiveMProfileShared \<Rightarrow> EnvShared | _ \<Rightarrow> EnvUnknown)"

definition IsResourceProfile :: "FiveMExecutionProfile \<Rightarrow> bool" where
  "IsResourceProfile profile \<longleftrightarrow>
     prKind profile \<in> {FiveMProfileManifest, FiveMProfileClient, FiveMProfileServer, FiveMProfileShared, FiveMProfileExportBridge}"

definition AllowsExportBridge :: "FiveMExecutionProfile \<Rightarrow> bool" where
  "AllowsExportBridge profile \<longleftrightarrow>
     prKind profile \<in> {FiveMProfileClient, FiveMProfileServer, FiveMProfileShared, FiveMProfileExportBridge}"

definition AllowsFiveMGlobal :: "FiveMExecutionProfile \<Rightarrow> string \<Rightarrow> bool" where
  "AllowsFiveMGlobal profile name \<longleftrightarrow> name = ''exports'' \<and> AllowsExportBridge profile"

definition AllowsRuntimeLibrary :: "FiveMExecutionProfile \<Rightarrow> bool" where
  "AllowsRuntimeLibrary profile \<longleftrightarrow>
     prKind profile \<in> {FiveMProfileClient, FiveMProfileServer, FiveMProfileShared}"

definition ExportBridge :: "FiveMExecutionProfile \<Rightarrow> FiveMExecutionProfile" where
  "ExportBridge profile =
     profile\<lparr>prKind := (if AllowsExportBridge profile then FiveMProfileExportBridge else FiveMProfilePlainLua)\<rparr>"

datatype FiveMNativeFamily = FiveMNativeFamilyUnknown | FiveMNativeFamilyGTA5 | FiveMNativeFamilyServer

record FiveMNativeSelection =
  nsFamily :: FiveMNativeFamily
  nsBuilds :: "string list"
  nsUseExperimentalOAL :: bool

definition NativeSelection :: "FiveMResource \<Rightarrow> FiveMExecutionProfile \<Rightarrow> FiveMNativeSelection" where
  "NativeSelection res profile =
     (case prKind profile of
        FiveMProfileClient \<Rightarrow> \<lparr>nsFamily = FiveMNativeFamilyGTA5, nsBuilds = [''natives_client.lua''],
                                nsUseExperimentalOAL = frUseExperimentalOAL res\<rparr>
      | FiveMProfileServer \<Rightarrow> \<lparr>nsFamily = FiveMNativeFamilyServer, nsBuilds = [''natives_server.lua''],
                                nsUseExperimentalOAL = False\<rparr>
      | _ \<Rightarrow> \<lparr>nsFamily = FiveMNativeFamilyUnknown, nsBuilds = [], nsUseExperimentalOAL = False\<rparr>)"

definition allowedIncludes :: "FiveMResourceGraphNode \<Rightarrow> FileEnv \<Rightarrow> FiveMResourceGraphExpansion list" where
  "allowedIncludes node env =
     (let includes = filter (\<lambda>entry. geKind entry = ExpansionInclude)
      in includes (gnSharedEntries node) @
         (case env of EnvClient \<Rightarrow> includes (gnClientEntries node)
          | EnvServer \<Rightarrow> includes (gnServerEntries node) | _ \<Rightarrow> []))"

text \<open>The part of a document that profiles are computed from, with its cached profile.\<close>

record FivemDoc =
  fdURI :: string
  fdIsLibrary :: bool
  fdIsFiveMManifest :: bool
  fdProfile :: FiveMExecutionProfile
  fdProfileCached :: bool

text \<open>Whether a URI is a root or lies below it.\<close>

definition under :: "string \<Rightarrow> string \<Rightarrow> bool" where
  "under root uri \<longleftrightarrow> prefix (root @ ''/'') uri \<or> uri = root"

definition findFiveMResource :: "string list \<Rightarrow> FiveMResourceGraph \<Rightarrow> string \<Rightarrow> string \<times> FiveMResource option" where
  "findFiveMResource ord g uri =
     (let bestRoot = fold (\<lambda>root bestRoot. if under root uri \<and> length bestRoot < length root
                                           then root else bestRoot) ord []
      in if bestRoot = [] then ([], None) else (bestRoot, ResourceByRoot g bestRoot))"

text \<open>What follows the root in a URI.\<close>

definition relPath :: "string \<Rightarrow> string \<Rightarrow> string" where
  "relPath root uri = (if length root < length uri then drop (length root + 1) uri else [])"

definition manifestGlobs :: "string \<Rightarrow> FiveMResource \<Rightarrow> string list \<Rightarrow> string list" where
  "manifestGlobs name res globList =
     (case frManifest res of
        None \<Rightarrow> globList
      | Some manifest \<Rightarrow> map fmValue (filter (\<lambda>entry. fmEmittedName entry = name) (fmEntries manifest)))"

definition classifyDocumentEnv :: "FiveMResource option \<Rightarrow> string \<Rightarrow> FileEnv" where
  "classifyDocumentEnv res uri =
     (case res of
        None \<Rightarrow> EnvUnknown
      | Some res \<Rightarrow>
          (let path = relPath (frRootURI res) uri;
               matches = (\<lambda>globList. \<exists>g\<in>set globList. matchGlob g path);
               isShared = matches (manifestGlobs ''shared_script'' res (frSharedGlobs res));
               isClient = matches (manifestGlobs ''client_script'' res (frClientGlobs res));
               isServer = matches (manifestGlobs ''server_script'' res (frServerGlobs res))
           in if isShared \<or> (isClient \<and> isServer) then EnvShared
              else if isClient then EnvClient
              else if isServer then EnvServer
              else EnvUnknown))"

definition withResource :: "FiveMResource option \<Rightarrow> FiveMExecutionProfile \<Rightarrow> FiveMExecutionProfile" where
  "withResource res profile =
     (case res of Some r \<Rightarrow> if frName r \<noteq> [] then profile\<lparr>prResourceName := frName r\<rparr> else profile
      | None \<Rightarrow> profile)"

definition computeProfile ::
  "(string \<Rightarrow> string) \<Rightarrow> string list \<Rightarrow> FiveMResourceGraph \<Rightarrow> FivemDoc \<Rightarrow> FiveMExecutionProfile option" where
  "computeProfile lower ord g doc =
     (if fdIsLibrary doc then Some plainProfile
      else if fdIsFiveMManifest doc
      then do {
        root \<leftarrow> rootOfURI (fdURI doc);
        Some (withResource (ResourceByRoot g root)
          \<lparr>prKind = FiveMProfileManifest, prResourceRoot = root, prResourceName = fiveMResourceNameFromRoot lower root\<rparr>)
      }
      else let (root, res) = findFiveMResource ord g (fdURI doc)
           in if root = [] then Some plainProfile
              else let profile = withResource res
                     \<lparr>prKind = FiveMProfilePlainLua, prResourceRoot = root, prResourceName = fiveMResourceNameFromRoot lower root\<rparr>
                   in Some (case classifyDocumentEnv res (fdURI doc) of
                        EnvClient \<Rightarrow> profile\<lparr>prKind := FiveMProfileClient\<rparr>
                      | EnvServer \<Rightarrow> profile\<lparr>prKind := FiveMProfileServer\<rparr>
                      | EnvShared \<Rightarrow> profile\<lparr>prKind := FiveMProfileShared\<rparr>
                      | EnvUnknown \<Rightarrow> profile))"

definition getDocumentFiveMProfile ::
  "(string \<Rightarrow> string) \<Rightarrow> string list \<Rightarrow> FiveMResourceGraph \<Rightarrow> FivemDoc \<Rightarrow> (FiveMExecutionProfile \<times> FivemDoc) option" where
  "getDocumentFiveMProfile lower ord g doc =
     (if fdProfileCached doc then Some (fdProfile doc, doc)
      else do {
        profile \<leftarrow> computeProfile lower ord g doc;
        Some (profile, doc\<lparr>fdProfile := profile, fdProfileCached := True\<rparr>)
      })"

definition canSeeFiveMCrossResourceInclude ::
  "(string \<Rightarrow> string) \<Rightarrow> string list \<Rightarrow> FiveMResourceGraph \<Rightarrow> FiveMExecutionProfile \<Rightarrow> FivemDoc
   \<Rightarrow> (bool \<times> FivemDoc) option" where
  "canSeeFiveMCrossResourceInclude lower ord g srcProfile tgtDoc =
     (if prResourceRoot srcProfile = [] then Some (False, tgtDoc)
      else case grByRoot g (prResourceRoot srcProfile) of
             None \<Rightarrow> Some (False, tgtDoc)
           | Some src \<Rightarrow> do {
               (tgtProfile, tgtDoc) \<leftarrow> getDocumentFiveMProfile lower ord g tgtDoc;
               let tgtRoot = prResourceRoot tgtProfile;
               let path = relPath tgtRoot (fdURI tgtDoc);
               Some (tgtRoot \<noteq> [] \<and> path \<noteq> [] \<and>
                     (\<exists>include\<in>set (allowedIncludes (grHeap g ! src) (profile_Env srcProfile)).
                        geIncludeResource include \<noteq> [] \<and> geIncludePath include \<noteq> [] \<and>
                        map_option frRootURI (graph_Resolve lower g (geIncludeResource include)) = Some tgtRoot \<and>
                        (geIncludePath include = path \<or> matchGlob (geIncludePath include) path)),
                     tgtDoc)
             })"

section \<open>Registration and removal\<close>

record FivemServer =
  fsGraph :: FiveMResourceGraph
  fsDocuments :: "string \<rightharpoonup> FivemDoc"

text \<open>The search for the longest root keeps the first candidate even if it is not longer than the empty root.\<close>

definition targetRoot :: "string list \<Rightarrow> string \<Rightarrow> string" where
  "targetRoot ord uri =
     fold (\<lambda>root best. if root \<noteq> [] \<and> under root uri \<and> (best = [] \<or> length best < length root)
                       then root else best) ord []"

definition invalidateProfiles :: "string \<Rightarrow> (string \<rightharpoonup> FivemDoc) \<Rightarrow> (string \<rightharpoonup> FivemDoc)" where
  "invalidateProfiles root docs =
     (\<lambda>uri. if under root uri
            then map_option (\<lambda>d. d\<lparr>fdProfile := plainProfile, fdProfileCached := False\<rparr>) (docs uri)
            else docs uri)"

definition removeFiveMResource :: "string list \<Rightarrow> string \<Rightarrow> FivemServer \<Rightarrow> FivemServer" where
  "removeFiveMResource ord uri srv =
     (let g = fsGraph srv;
          root = targetRoot ord uri
      in case ResourceByRoot g root of
           None \<Rightarrow> srv
         | Some res \<Rightarrow>
             if root = [] then srv
             else let g = removeNode (the (grByRoot g root)) g;
                      g = (if frName res \<noteq> [] then g\<lparr>grByName := (grByName g)(frName res := None)\<rparr> else g)
                  in srv\<lparr>fsGraph := g, fsDocuments := invalidateProfiles (frRootURI res) (fsDocuments srv)\<rparr>)"

definition registerFiveMManifestResource ::
  "(string \<Rightarrow> string) \<Rightarrow> FiveMResource \<Rightarrow> FiveMResourceGraph \<Rightarrow> 'p GlobalIndex
   \<Rightarrow> (FiveMResource \<times> FiveMResourceGraph \<times> 'p GlobalIndex) option" where
  "registerFiveMManifestResource lower res g idx =
     (let (active, g) = graph_Register lower res g
      in do {
        idx \<leftarrow> RegisterFiveMResource lower active idx;
        Some (active, g, idx)
      })"

text \<open>
  The end of an update of a document (\<open>finalizeDocumentUpdate\<close> in \<open>src/lsp/workspace.go\<close>): a manifest
  is registered, and if that changes the resource of its root, the cached profiles of all documents
  whose URI starts with the root are dropped.
\<close>

definition dropProfilesWithPrefix :: "string \<Rightarrow> (string \<rightharpoonup> FivemDoc) \<Rightarrow> (string \<rightharpoonup> FivemDoc)" where
  "dropProfilesWithPrefix root docs =
     (\<lambda>uri. if prefix root uri
            then map_option (\<lambda>d. d\<lparr>fdProfile := plainProfile, fdProfileCached := False\<rparr>) (docs uri)
            else docs uri)"

definition finishUpdate ::
  "(string \<Rightarrow> string) \<Rightarrow> (string \<Rightarrow> string \<Rightarrow> bool) \<Rightarrow> FivemDoc \<Rightarrow> Tree \<Rightarrow> FivemServer \<Rightarrow> FivemServer option" where
  "finishUpdate lower equalFold doc t srv =
     (let doc = doc\<lparr>fdProfile := plainProfile, fdProfileCached := False\<rparr>
      in if fdIsFiveMManifest doc
         then do {
           res \<leftarrow> parseFiveMManifest lower equalFold (fdURI doc) t;
           let oldRes = ResourceByRoot (fsGraph srv) (frRootURI res);
           let (active, g) = graph_Register lower res (fsGraph srv);
           let docs = (if case oldRes of None \<Rightarrow> True | Some old \<Rightarrow> \<not> resource_Equal active old
                       then dropProfilesWithPrefix (frRootURI res) (fsDocuments srv) else fsDocuments srv);
           Some \<lparr>fsGraph = g, fsDocuments = docs(fdURI doc \<mapsto> doc)\<rparr>
         }
         else Some (srv\<lparr>fsDocuments := (fsDocuments srv)(fdURI doc \<mapsto> doc)\<rparr>))"

end
