(* ===== verification/Fivem_Correct.thy ===== *)
theory Fivem_Correct
  imports Fivem "HOL-Library.Multiset"
begin

text \<open>
  The graph of resources and the cached profiles. The invariant of the graph says that its three
  maps describe the same set of live nodes; names are resolved to live nodes only, aliases to the
  least of all live nodes that provide them. The cached profile of a document is, in every state that
  updates, queries and removals reach, the one that would be computed anew.
\<close>

section \<open>The invariant of the graph\<close>

abbreviation node_at :: "FiveMResourceGraph \<Rightarrow> NodeAddr \<Rightarrow> FiveMResourceGraphNode" where
  "node_at g a \<equiv> grHeap g ! a"

definition live :: "FiveMResourceGraph \<Rightarrow> NodeAddr \<Rightarrow> bool" where
  "live g a \<longleftrightarrow> a < length (grHeap g) \<and> grByRoot g (gnRootURI (node_at g a)) = Some a"

definition providers :: "FiveMResourceGraph \<Rightarrow> string \<Rightarrow> NodeAddr list" where
  "providers g p = (case grByProvide g p of None \<Rightarrow> [] | Some nodes \<Rightarrow> nodes)"

definition provisions :: "FiveMResourceGraph \<Rightarrow> string \<Rightarrow> NodeAddr \<Rightarrow> nat" where
  "provisions g p a = (if p \<noteq> [] \<and> live g a then count_list (gnProvides (node_at g a)) p else 0)"

definition graph_ok :: "FiveMResourceGraph \<Rightarrow> bool" where
  "graph_ok g \<longleftrightarrow>
     finite (dom (grByRoot g)) \<and>
     (\<forall>r a. grByRoot g r = Some a \<longrightarrow> a < length (grHeap g) \<and> gnRootURI (node_at g a) = r) \<and>
     (\<forall>n a. grByName g n = Some a \<longrightarrow> n \<noteq> [] \<and> live g a \<and> gnName (node_at g a) = n) \<and>
     (\<forall>p. grByProvide g p \<noteq> Some [] \<and> sorted (map (nodeKey g) (providers g p)) \<and>
          (\<forall>a. count_list (providers g p) a = provisions g p a)) \<and>
     (\<forall>a < length (grHeap g). gnRootURI (node_at g a) = frRootURI (gnResource (node_at g a)))"

lemma graph_okD:
  assumes "graph_ok g"
  shows "grByRoot g r = Some a \<Longrightarrow> live g a \<and> gnRootURI (node_at g a) = r"
    and "grByName g n = Some a \<Longrightarrow> n \<noteq> [] \<and> live g a \<and> gnName (node_at g a) = n"
    and "grByProvide g p \<noteq> Some []"
    and "sorted (map (nodeKey g) (providers g p))"
    and "count_list (providers g p) a = provisions g p a"
    and "live g a \<Longrightarrow> frRootURI (gnResource (node_at g a)) = gnRootURI (node_at g a)"
    and "finite (dom (grByRoot g))"
proof -
  show root: "grByRoot g r = Some a \<Longrightarrow> live g a \<and> gnRootURI (node_at g a) = r"
    using assms by (auto simp: graph_ok_def live_def)
  show "grByName g n = Some a \<Longrightarrow> n \<noteq> [] \<and> live g a \<and> gnName (node_at g a) = n"
    "grByProvide g p \<noteq> Some []" "sorted (map (nodeKey g) (providers g p))"
    "count_list (providers g p) a = provisions g p a" "finite (dom (grByRoot g))"
    using assms by (simp_all add: graph_ok_def)
  show "live g a \<Longrightarrow> frRootURI (gnResource (node_at g a)) = gnRootURI (node_at g a)"
    using assms by (simp add: graph_ok_def live_def)
qed

lemma providers_live: "graph_ok g \<Longrightarrow> a \<in> set (providers g p) \<longleftrightarrow> p \<noteq> [] \<and> live g a \<and> p \<in> set (gnProvides (node_at g a))"
  using graph_okD(5) [of g p a] count_list_0_iff [of "providers g p" a]
    count_list_0_iff [of "gnProvides (node_at g a)" p]
  by (auto simp: provisions_def split: if_splits)

lemma graph_ok_new: "graph_ok NewFiveMResourceGraph" and graph_ok_clear: "graph_ok g \<Longrightarrow> graph_ok (graph_Clear g)"
  by (auto simp: graph_ok_def NewFiveMResourceGraph_def graph_Clear_def providers_def provisions_def live_def)

lemma count_list_remove1: "count_list (remove1 a xs) b = count_list xs b - (if a = b then 1 else 0)"
  by (simp flip: count_mset)

lemma count_list_sort_key: "count_list (sort_key f xs) b = count_list xs b"
  by (simp flip: count_mset)

section \<open>Removal and registration keep it\<close>

lemma removeAlias_simps [simp]:
  "grHeap (removeAlias a p g) = grHeap g" "grByRoot (removeAlias a p g) = grByRoot g"
  "grByName (removeAlias a p g) = grByName g"
  "providers (removeAlias a p g) q = (if q = p then remove1 a (providers g q) else providers g q)"
  by (auto simp: removeAlias_def providers_def Let_def)

lemma removeAlias_None: "grByProvide g q \<noteq> Some [] \<Longrightarrow> grByProvide (removeAlias a p g) q \<noteq> Some []"
  by (auto simp: removeAlias_def Let_def)

lemma fold_removeAlias [simp]:
  "grHeap (fold (removeAlias a) ps g) = grHeap g" "grByRoot (fold (removeAlias a) ps g) = grByRoot g"
  "grByName (fold (removeAlias a) ps g) = grByName g"
  "providers (fold (removeAlias a) ps g) q = (remove1 a ^^ count_list ps q) (providers g q)"
  by (induction ps arbitrary: g) (auto simp: funpow_swap1)

lemma fold_removeAlias_None: "grByProvide g q \<noteq> Some [] \<Longrightarrow> grByProvide (fold (removeAlias a) ps g) q \<noteq> Some []"
  by (induction ps arbitrary: g) (simp_all add: removeAlias_None)

lemma count_funpow_remove1: "count_list ((remove1 a ^^ n) xs) b = count_list xs b - (if a = b then n else 0)"
  by (induction n) (auto simp: count_list_remove1)

lemma sorted_funpow_remove1: "sorted (map f xs) \<Longrightarrow> sorted (map f ((remove1 a ^^ n) xs))"
  by (induction n) (simp_all add: sorted_map_remove1)

lemma removeNode_simps [simp]:
  "grHeap (removeNode a g) = grHeap g"
  "grByRoot (removeNode a g) = (grByRoot g)(gnRootURI (node_at g a) := None)"
  "grByName (removeNode a g) n = (if grByName g n = Some a \<and> n = gnName (node_at g a) \<and> n \<noteq> [] then None else grByName g n)"
  "providers (removeNode a g) q = (remove1 a ^^ count_list (gnProvides (node_at g a)) q) (providers g q)"
  by (auto simp: removeNode_def Let_def) (simp_all add: providers_def)

lemma nodeKey_cong [simp]: "nodeKey (removeNode a g) = nodeKey g"
  by (simp add: nodeKey_def fun_eq_iff)

lemma live_removeNode:
  assumes "graph_ok g" "live g a"
  shows "live (removeNode a g) b \<longleftrightarrow> live g b \<and> b \<noteq> a"
  using assms(2) by (auto simp: live_def)

lemma graph_ok_removeNode:
  assumes ok: "graph_ok g" and live: "live g a"
  shows "graph_ok (removeNode a g)"
  unfolding graph_ok_def
proof (intro conjI allI impI)
  note live' = live_removeNode [OF ok live]
  show "finite (dom (grByRoot (removeNode a g)))" using graph_okD(7) [OF ok] by simp
  fix r b
  assume b: "grByRoot (removeNode a g) r = Some b"
  with graph_okD(1) [OF ok, of r b] show "b < length (grHeap (removeNode a g))" "gnRootURI (node_at (removeNode a g) b) = r"
    by (auto simp: live_def split: if_splits)
next
  note live' = live_removeNode [OF ok live]
  fix n b
  assume b: "grByName (removeNode a g) n = Some b"
  then have "grByName g n = Some b" by (simp split: if_splits)
  from graph_okD(2) [OF ok this] b show "n \<noteq> []" "live (removeNode a g) b" "gnName (node_at (removeNode a g) b) = n"
    by (auto simp: live' split: if_splits)
next
  fix p b
  show "grByProvide (removeNode a g) p \<noteq> Some []"
    using graph_okD(3) [OF ok] by (auto simp: removeNode_def Let_def intro!: fold_removeAlias_None)
  show "sorted (map (nodeKey (removeNode a g)) (providers (removeNode a g) p))"
    using graph_okD(4) [OF ok] by (simp add: sorted_funpow_remove1)
  show "count_list (providers (removeNode a g) p) b = provisions (removeNode a g) p b"
    using graph_okD(5) [OF ok, of p b] live
    by (auto simp: count_funpow_remove1 provisions_def live_removeNode [OF ok live])
next
  fix b
  assume "b < length (grHeap (removeNode a g))"
  with ok show "gnRootURI (node_at (removeNode a g) b) = frRootURI (gnResource (node_at (removeNode a g) b))"
    by (simp add: graph_ok_def)
qed

lemma fold_addAlias [simp]:
  "grHeap (fold (addAlias a) ps g) = grHeap g" "grByRoot (fold (addAlias a) ps g) = grByRoot g"
  "grByName (fold (addAlias a) ps g) = grByName g"
  by (induction ps arbitrary: g) (auto simp: addAlias_def Let_def)

lemma addAlias_providers:
  "providers (addAlias a p g) q = (if q = p \<and> p \<noteq> [] then sort_key (nodeKey g) (providers g q @ [a]) else providers g q)"
  by (auto simp: addAlias_def providers_def Let_def)

lemma addAlias_ok:
  assumes "grByProvide g q \<noteq> Some []" "sorted (map (nodeKey g) (providers g q))"
  shows "grByProvide (addAlias a p g) q \<noteq> Some []" "sorted (map (nodeKey (addAlias a p g)) (providers (addAlias a p g) q))"
proof -
  have "nodeKey (addAlias a p g) = nodeKey g" by (simp add: nodeKey_def addAlias_def Let_def fun_eq_iff)
  with assms(2) show "sorted (map (nodeKey (addAlias a p g)) (providers (addAlias a p g) q))"
    by (simp add: addAlias_providers)
  have "sort_key (nodeKey g) (xs @ [a]) \<noteq> []" for xs
    by (metis append_is_Nil_conv length_0_conv length_sort not_Cons_self2)
  with assms(1) show "grByProvide (addAlias a p g) q \<noteq> Some []" by (simp add: addAlias_def Let_def)
qed

lemma addAlias_count:
  "count_list (providers (addAlias a p g) q) b = count_list (providers g q) b + (if q = p \<and> p \<noteq> [] \<and> a = b then 1 else 0)"
  by (auto simp: addAlias_providers count_list_sort_key)

lemma fold_addAlias_ok:
  assumes "grByProvide g q \<noteq> Some []" "sorted (map (nodeKey g) (providers g q))"
  shows "grByProvide (fold (addAlias a) ps g) q \<noteq> Some []"
    and "sorted (map (nodeKey (fold (addAlias a) ps g)) (providers (fold (addAlias a) ps g) q))"
    and "count_list (providers (fold (addAlias a) ps g) q) b =
         count_list (providers g q) b + (if q \<noteq> [] \<and> a = b then count_list ps q else 0)"
  using assms
proof (induction ps arbitrary: g)
  case (Cons p ps)
  {
    case 1
    show ?case using Cons.IH(1) [OF addAlias_ok [OF 1]] by simp
  next
    case 2
    show ?case using Cons.IH(2) [OF addAlias_ok [OF 2]] by simp
  next
    case 3
    show ?case using Cons.IH(3) [OF addAlias_ok [OF 3]] by (auto simp: addAlias_count)
  }
qed simp_all

lemma nodeEntry_keeps [simp]:
  "gnResource (nodeEntry lower e n) = gnResource n" "gnName (nodeEntry lower e n) = gnName n"
  "gnRootURI (nodeEntry lower e n) = gnRootURI n"
  by (simp_all add: nodeEntry_def Let_def)

lemma fold_nodeEntry_keeps [simp]:
  "gnResource (fold (nodeEntry lower) es n) = gnResource n" "gnName (fold (nodeEntry lower) es n) = gnName n"
  "gnRootURI (fold (nodeEntry lower) es n) = gnRootURI n"
  by (induction es arbitrary: n) simp_all

lemma newNode_simps [simp]:
  "gnResource (newFiveMResourceGraphNode lower res) = res"
  "gnName (newFiveMResourceGraphNode lower res) = normalizeFiveMResourceAlias lower (frName res)"
  "gnRootURI (newFiveMResourceGraphNode lower res) = frRootURI res"
  by (simp_all add: newFiveMResourceGraphNode_def Let_def split: option.split)

lemma addNode_simps [simp]:
  "grHeap (graph_addNode lower res g) = grHeap g @ [newFiveMResourceGraphNode lower res]"
  "grByRoot (graph_addNode lower res g) = (grByRoot g)(frRootURI res \<mapsto> length (grHeap g))"
  "grByName (graph_addNode lower res g) =
     (let name = normalizeFiveMResourceAlias lower (frName res)
      in if name \<noteq> [] then (grByName g)(name \<mapsto> length (grHeap g)) else grByName g)"
  by (simp_all add: graph_addNode_def Let_def)

lemma live_addNode:
  assumes "graph_ok g" "grByRoot g (frRootURI res) = None"
  shows "live (graph_addNode lower res g) b \<longleftrightarrow> b = length (grHeap g) \<or> live g b"
  using assms(2) by (auto simp: live_def nth_append less_Suc_eq)

lemma node_at_addNode:
  "b < length (grHeap g) \<Longrightarrow> node_at (graph_addNode lower res g) b = node_at g b"
  "node_at (graph_addNode lower res g) (length (grHeap g)) = newFiveMResourceGraphNode lower res"
  by (simp_all add: nth_append)

lemma graph_ok_addNode:
  assumes ok: "graph_ok g" and free: "grByRoot g (frRootURI res) = None"
  shows "graph_ok (graph_addNode lower res g)"
  unfolding graph_ok_def
proof (intro conjI allI impI)
  note live' = live_addNode [OF ok free]
  show "finite (dom (grByRoot (graph_addNode lower res g)))" using graph_okD(7) [OF ok] by simp
  fix r b
  assume "grByRoot (graph_addNode lower res g) r = Some b"
  with graph_okD(1) [OF ok, of r b]
  show "b < length (grHeap (graph_addNode lower res g))" "gnRootURI (node_at (graph_addNode lower res g) b) = r"
    by (auto simp: live_def nth_append split: if_splits)
next
  fix n b
  assume b: "grByName (graph_addNode lower res g) n = Some b"
  with graph_okD(2) [OF ok, of n b] free
  show "n \<noteq> []" "live (graph_addNode lower res g) b" "gnName (node_at (graph_addNode lower res g) b) = n"
    by (auto simp: live_addNode [OF ok free] Let_def live_def nth_append split: if_splits)
next
  fix p b
  let ?a = "length (grHeap g)" and ?node = "newFiveMResourceGraphNode lower res"
  define g1 where "g1 = (let g = g\<lparr>grHeap := grHeap g @ [?node], grByRoot := (grByRoot g)(gnRootURI ?node \<mapsto> ?a)\<rparr>
                         in if gnName ?node \<noteq> [] then g\<lparr>grByName := (grByName g)(gnName ?node \<mapsto> ?a)\<rparr> else g)"
  have g: "graph_addNode lower res g = fold (addAlias ?a) (gnProvides ?node) g1"
    by (simp add: graph_addNode_def g1_def Let_def)
  have prov: "grByProvide g1 = grByProvide g" "providers g1 q = providers g q" "grHeap g1 = grHeap g @ [?node]" for q
    by (simp_all add: g1_def providers_def Let_def)
  have "a < ?a" if "a \<in> set (providers g p)" for a
    using that by (simp add: providers_live [OF ok] live_def)
  then have keys: "map (nodeKey g1) (providers g p) = map (nodeKey g) (providers g p)"
    by (simp add: nodeKey_def prov nth_append)
  have "grByProvide g1 p \<noteq> Some []" "sorted (map (nodeKey g1) (providers g1 p))"
    by (simp_all only: prov keys graph_okD(3,4) [OF ok] not_False_eq_True)
  note fold = fold_addAlias_ok [OF this, of ?a "gnProvides ?node"]
  show "grByProvide (graph_addNode lower res g) p \<noteq> Some []"
    "sorted (map (nodeKey (graph_addNode lower res g)) (providers (graph_addNode lower res g) p))"
    using fold(1,2) by (simp_all add: g)
  have "\<not> live g ?a" by (simp add: live_def)
  then show "count_list (providers (graph_addNode lower res g) p) b = provisions (graph_addNode lower res g) p b"
    using fold(3) [of b] graph_okD(5) [OF ok, of p b] free
    by (auto simp: g [symmetric] prov provisions_def live_addNode [OF ok free] nth_append live_def)
next
  fix b
  assume "b < length (grHeap (graph_addNode lower res g))"
  with ok show "gnRootURI (node_at (graph_addNode lower res g) b) = frRootURI (gnResource (node_at (graph_addNode lower res g) b))"
    by (auto simp: graph_ok_def nth_append)
qed

lemma ResourceByRoot_Some:
  "ResourceByRoot g r = Some res \<longleftrightarrow> (\<exists>a. grByRoot g r = Some a \<and> res = gnResource (node_at g a))"
  by (auto simp: ResourceByRoot_def)

lemma graph_Register_cases:
  assumes "graph_ok g"
  obtains (rejected) current where "ResourceByRoot g (frRootURI res) = Some current"
      "graph_Register lower res g = (current, g)"
  | (fresh) "ResourceByRoot g (frRootURI res) = None" "grByRoot g (frRootURI res) = None"
      "graph_Register lower res g = (res, graph_addNode lower res g)"
  | (replaced) current a where "ResourceByRoot g (frRootURI res) = Some current" "live g a"
      "grByRoot g (frRootURI res) = Some a" "gnRootURI (node_at g a) = frRootURI res"
      "graph_Register lower res g = (res, graph_addNode lower res (removeNode a g))"
proof (cases "grByRoot g (frRootURI res)")
  case None
  then show ?thesis by (intro fresh) (simp_all add: graph_Register_def ResourceByRoot_def)
next
  case (Some a)
  with graph_okD(1) [OF assms Some] show ?thesis
    by (cases "Precedence (frManifestSource res) < Precedence (frManifestSource (gnResource (node_at g a)))")
       (auto simp: graph_Register_def ResourceByRoot_def intro: rejected replaced)
qed

lemma graph_ok_Register:
  assumes "graph_ok g"
  shows "graph_ok (snd (graph_Register lower res g))"
  using assms
proof (cases rule: graph_Register_cases [of g res lower])
  case (replaced current a)
  with assms show ?thesis by (simp add: graph_ok_addNode graph_ok_removeNode)
qed (simp_all add: assms graph_ok_addNode)

section \<open>What the profile of a document depends on\<close>

lemma dom_ByRoot: "grByRoot g r \<noteq> None \<longleftrightarrow> ResourceByRoot g r \<noteq> None"
  by (simp add: ResourceByRoot_def)

definition longestRoot :: "string list \<Rightarrow> string \<Rightarrow> string" where
  "longestRoot ord uri = fold (\<lambda>root best. if under root uri \<and> length best < length root then root else best) ord []"

lemma findFiveMResource_eq:
  "findFiveMResource ord g uri =
     (let root = longestRoot ord uri in if root = [] then ([], None) else (root, ResourceByRoot g root))"
  by (simp add: findFiveMResource_def longestRoot_def)

lemma targetRoot_eq: "targetRoot ord uri = longestRoot ord uri"
  unfolding targetRoot_def longestRoot_def by (rule fold_cong) (auto simp: fun_eq_iff)

lemma under_prefix: "under root uri \<Longrightarrow> prefix root uri"
  by (auto simp: under_def prefix_def)

lemma fold_longest:
  fixes best0 uri :: string
  defines "f \<equiv> \<lambda>root best. if under root uri \<and> length best < length root then root else best"
  shows "(fold f ord best0 = best0 \<or> fold f ord best0 \<in> set ord \<and> under (fold f ord best0) uri) \<and>
         length best0 \<le> length (fold f ord best0) \<and>
         (\<forall>r\<in>set ord. under r uri \<longrightarrow> length r \<le> length (fold f ord best0))"
proof (induction ord arbitrary: best0)
  case (Cons r ord)
  show ?case
    using Cons.IH [of "f r best0"] by (auto simp: f_def split: if_splits)
qed simp

lemma longestRoot_spec:
  "longestRoot ord uri = [] \<or> longestRoot ord uri \<in> set ord \<and> under (longestRoot ord uri) uri"
  "r \<in> set ord \<Longrightarrow> under r uri \<Longrightarrow> length r \<le> length (longestRoot ord uri)"
  using fold_longest [of uri ord "[]"] by (auto simp: longestRoot_def)

text \<open>Two roots above a URI are prefixes of it, so the longest one is unique and the order does not matter.\<close>

lemma longestRoot_cong:
  assumes "\<And>r. under r uri \<Longrightarrow> r \<in> set ord \<longleftrightarrow> r \<in> set ord'"
  shows "longestRoot ord uri = longestRoot ord' uri"
proof -
  let ?a = "longestRoot ord uri" and ?b = "longestRoot ord' uri"
  have "length ?a \<le> length ?b"
    using longestRoot_spec(1) [of ord uri] longestRoot_spec(2) [of ?a ord' uri] assms by fastforce
  moreover have "length ?b \<le> length ?a"
    using longestRoot_spec(1) [of ord' uri] longestRoot_spec(2) [of ?b ord uri] assms by fastforce
  ultimately have len: "length ?a = length ?b" by simp
  show ?thesis
  proof (cases "?a = []")
    case False
    with len have "?b \<noteq> []" by auto
    with False longestRoot_spec(1) [of ord uri] longestRoot_spec(1) [of ord' uri]
    have "prefix ?a uri" "prefix ?b uri" by (auto dest: under_prefix)
    with len show ?thesis by (metis append_eq_conv_conj prefix_def)
  qed (use len in auto)
qed

lemma rootOfURI_under:
  assumes "rootOfURI uri = Some root"
  shows "under root uri"
proof -
  obtain k where k: "IndexByte (rev uri) (CHR ''/'') = Some k" "root = take (length uri - 1 - k) uri"
    using assms by (auto simp: rootOfURI_def LastIndexByte_def)
  from IndexByte_SomeD [OF k(1)] have "k < length uri" "uri ! (length uri - 1 - k) = CHR ''/''"
    by (auto simp: rev_nth)
  then have "uri = root @ CHR ''/'' # drop (Suc (length uri - 1 - k)) uri"
    unfolding k(2) by (intro id_take_nth_drop [where i = "length uri - 1 - k" and xs = uri, THEN trans]) auto
  then show ?thesis unfolding under_def prefix_def by (metis append.assoc append_Cons append_Nil)
qed

lemma computeProfile_cong:
  assumes "\<And>r. under r (fdURI doc) \<Longrightarrow> ResourceByRoot g r = ResourceByRoot g' r"
    and "set ord = dom (grByRoot g)" "set ord' = dom (grByRoot g')"
  shows "computeProfile lower ord g doc = computeProfile lower ord' g' doc"
proof -
  have "r \<in> set ord \<longleftrightarrow> r \<in> set ord'" if "under r (fdURI doc)" for r
    using assms(1) [OF that] dom_ByRoot [of g r] dom_ByRoot [of g' r] by (auto simp: assms(2,3) dom_def)
  then have best: "longestRoot ord (fdURI doc) = longestRoot ord' (fdURI doc)"
    by (rule longestRoot_cong)
  have "findFiveMResource ord g (fdURI doc) = findFiveMResource ord' g' (fdURI doc)"
    using longestRoot_spec(1) [of ord "fdURI doc"] assms(1) by (auto simp: findFiveMResource_eq best Let_def)
  moreover have "rootOfURI (fdURI doc) = Some root \<Longrightarrow> ResourceByRoot g root = ResourceByRoot g' root" for root
    using assms(1) rootOfURI_under by blast
  ultimately show ?thesis by (auto simp: computeProfile_def intro!: Option.bind_cong)
qed

section \<open>Cached profiles stay right\<close>

lemma computeProfile_cache [simp]:
  "computeProfile lower ord g (doc\<lparr>fdProfile := p, fdProfileCached := c\<rparr>) = computeProfile lower ord g doc"
  by (simp add: computeProfile_def split: prod.split)

lemma ResourceByRoot_removeNode:
  "ResourceByRoot (removeNode a g) r = (if r = gnRootURI (node_at g a) then None else ResourceByRoot g r)"
  by (simp add: ResourceByRoot_def)

lemma ResourceByRoot_addNode:
  assumes "graph_ok g"
  shows "ResourceByRoot (graph_addNode lower res g) r = (if r = frRootURI res then Some res else ResourceByRoot g r)"
  using graph_okD(1) [OF assms, of r]
  by (cases "grByRoot g r") (auto simp: ResourceByRoot_def nth_append live_def)

lemma ResourceByRoot_Register:
  assumes "graph_ok g" "graph_Register lower res g = (active, g')"
  shows "ResourceByRoot g' r = (if r = frRootURI res then Some active else ResourceByRoot g r)"
  using assms(1)
proof (cases rule: graph_Register_cases [of g res lower])
  case (replaced current a)
  then have "active = res" "g' = graph_addNode lower res (removeNode a g)" using assms(2) by simp_all
  with replaced show ?thesis
    by (simp add: ResourceByRoot_addNode [OF graph_ok_removeNode [OF assms(1)]] ResourceByRoot_removeNode)
qed (use assms in \<open>simp_all add: ResourceByRoot_addNode\<close>)

lemma graph_ok_drop_name: "graph_ok g \<Longrightarrow> graph_ok (g\<lparr>grByName := (grByName g)(n := None)\<rparr>)"
proof -
  let ?g = "g\<lparr>grByName := (grByName g)(n := None)\<rparr>"
  have same: "live ?g = live g" "providers ?g = providers g" "provisions ?g = provisions g" "nodeKey ?g = nodeKey g"
    by (simp_all add: fun_eq_iff live_def providers_def provisions_def nodeKey_def)
  show "graph_ok g \<Longrightarrow> graph_ok ?g" unfolding graph_ok_def same by simp
qed

definition coherent :: "(string \<Rightarrow> string) \<Rightarrow> FiveMResourceGraph \<Rightarrow> FivemDoc \<Rightarrow> bool" where
  "coherent lower g doc \<longleftrightarrow>
     (fdProfileCached doc \<longrightarrow>
       (\<forall>ord. set ord = dom (grByRoot g) \<longrightarrow> computeProfile lower ord g doc = Some (fdProfile doc)))"

definition server_ok :: "(string \<Rightarrow> string) \<Rightarrow> FivemServer \<Rightarrow> bool" where
  "server_ok lower srv \<longleftrightarrow>
     graph_ok (fsGraph srv) \<and>
     (\<forall>uri doc. fsDocuments srv uri = Some doc \<longrightarrow> fdURI doc = uri \<and> coherent lower (fsGraph srv) doc)"

lemma coherent_cong:
  assumes "coherent lower g doc" "finite (dom (grByRoot g))"
    and "\<And>r. under r (fdURI doc) \<Longrightarrow> ResourceByRoot g r = ResourceByRoot g' r"
  shows "coherent lower g' doc"
proof -
  obtain ord where ord: "set ord = dom (grByRoot g)" using finite_list [OF assms(2)] by blast
  show ?thesis
    unfolding coherent_def
  proof (intro impI allI)
    fix ord'
    assume "fdProfileCached doc" "set ord' = dom (grByRoot g')"
    with assms(1) ord computeProfile_cong [where g = g and g' = g' and ord = ord and ord' = ord' and doc = doc, OF assms(3)]
    show "computeProfile lower ord' g' doc = Some (fdProfile doc)" by (metis coherent_def)
  qed
qed

inductive fivem_reachable :: "(string \<Rightarrow> string) \<Rightarrow> (string \<Rightarrow> string \<Rightarrow> bool) \<Rightarrow> FivemServer \<Rightarrow> bool"
  for lower equalFold where
  start: "fivem_reachable lower equalFold \<lparr>fsGraph = NewFiveMResourceGraph, fsDocuments = (\<lambda>_. None)\<rparr>"
| update: "fivem_reachable lower equalFold srv \<Longrightarrow> finishUpdate lower equalFold doc t srv = Some srv' \<Longrightarrow>
     fivem_reachable lower equalFold srv'"
| query: "fivem_reachable lower equalFold srv \<Longrightarrow> fsDocuments srv uri = Some doc \<Longrightarrow>
     set ord = dom (grByRoot (fsGraph srv)) \<Longrightarrow>
     getDocumentFiveMProfile lower ord (fsGraph srv) doc = Some (profile, doc') \<Longrightarrow>
     fivem_reachable lower equalFold (srv\<lparr>fsDocuments := (fsDocuments srv)(uri \<mapsto> doc')\<rparr>)"
| remove: "fivem_reachable lower equalFold srv \<Longrightarrow> set ord = dom (grByRoot (fsGraph srv)) \<Longrightarrow>
     fivem_reachable lower equalFold (removeFiveMResource ord uri srv)"
| close: "fivem_reachable lower equalFold srv \<Longrightarrow>
     fivem_reachable lower equalFold (srv\<lparr>fsDocuments := (fsDocuments srv)(uri := None)\<rparr>)"

lemma changed_iff: "(case old of None \<Rightarrow> True | Some old \<Rightarrow> \<not> resource_Equal active old) \<longleftrightarrow> old \<noteq> Some active"
  by (auto split: option.split)

lemma server_ok_update:
  assumes ok: "server_ok lower srv" and step: "finishUpdate lower equalFold doc t srv = Some srv'"
  shows "server_ok lower srv'"
proof (cases "fdIsFiveMManifest doc")
  case False
  with step have "srv' = srv\<lparr>fsDocuments := (fsDocuments srv)(fdURI doc \<mapsto> doc\<lparr>fdProfile := plainProfile, fdProfileCached := False\<rparr>)\<rparr>"
    by (simp add: finishUpdate_def)
  with ok show ?thesis by (auto simp: server_ok_def coherent_def)
next
  case True
  with step obtain res active g where
    g: "graph_Register lower res (fsGraph srv) = (active, g)" and
    srv': "srv' = \<lparr>fsGraph = g, fsDocuments =
        (if ResourceByRoot (fsGraph srv) (frRootURI res) \<noteq> Some active
         then dropProfilesWithPrefix (frRootURI res) (fsDocuments srv) else fsDocuments srv)
        (fdURI doc \<mapsto> doc\<lparr>fdProfile := plainProfile, fdProfileCached := False\<rparr>)\<rparr>"
  proof -
    from True step obtain res where "parseFiveMManifest lower equalFold (fdURI doc) t = Some res"
      by (auto simp: finishUpdate_def bind_eq_Some_conv)
    moreover obtain active g where "graph_Register lower res (fsGraph srv) = (active, g)" by fastforce
    ultimately show ?thesis
      using that True step by (simp add: finishUpdate_def Let_def changed_iff)
  qed
  from ok have gok: "graph_ok (fsGraph srv)" by (simp add: server_ok_def)
  note byRoot = ResourceByRoot_Register [OF gok g]
  have "fdURI d = uri \<and> coherent lower g d" if d: "fsDocuments srv' uri = Some d" for uri d
  proof (cases "uri = fdURI doc")
    case True
    with d show ?thesis by (auto simp: srv' coherent_def)
  next
    case False
    let ?same = "ResourceByRoot (fsGraph srv) (frRootURI res) = Some active \<or> \<not> prefix (frRootURI res) uri"
    have "fsDocuments srv' uri = (if ?same then fsDocuments srv uri
        else map_option (\<lambda>d. d\<lparr>fdProfile := plainProfile, fdProfileCached := False\<rparr>) (fsDocuments srv uri))"
      using False by (simp add: srv' dropProfilesWithPrefix_def)
    with d obtain d0 where d0: "fsDocuments srv uri = Some d0" "fdURI d = fdURI d0"
      and dd: "d = d0 \<and> ?same \<or> \<not> fdProfileCached d"
      by (cases ?same) auto
    with ok have d0_ok: "fdURI d0 = uri" "coherent lower (fsGraph srv) d0" by (auto simp: server_ok_def)
    have "coherent lower g d"
    proof (cases "fdProfileCached d")
      case True
      with dd have same: "d = d0"
        and "ResourceByRoot (fsGraph srv) (frRootURI res) = Some active \<or> \<not> prefix (frRootURI res) uri"
        by simp_all
      then have "under r (fdURI d0) \<Longrightarrow> ResourceByRoot (fsGraph srv) r = ResourceByRoot g r" for r
        using d0_ok(1) under_prefix [of r uri] by (auto simp: byRoot)
      from coherent_cong [OF d0_ok(2) graph_okD(7) [OF gok] this] show ?thesis by (simp add: same)
    qed (simp add: coherent_def)
    with d0(2) d0_ok(1) show ?thesis by simp
  qed
  moreover have "graph_ok g" using graph_ok_Register [OF gok, of lower res] g by simp
  moreover have "fsGraph srv' = g" by (simp add: srv')
  ultimately show ?thesis unfolding server_ok_def by blast
qed

lemma server_ok_remove:
  assumes ok: "server_ok lower srv" and ord: "set ord = dom (grByRoot (fsGraph srv))"
  shows "server_ok lower (removeFiveMResource ord uri srv)"
proof -
  let ?g = "fsGraph srv" and ?root = "longestRoot ord uri"
  from ok have gok: "graph_ok ?g" by (simp add: server_ok_def)
  show ?thesis
  proof (cases "?root = [] \<or> grByRoot ?g ?root = None")
    case True
    then have "removeFiveMResource ord uri srv = srv"
      unfolding removeFiveMResource_def targetRoot_eq ResourceByRoot_def Let_def
      by (cases "grByRoot ?g ?root") simp_all
    with ok show ?thesis by simp
  next
    case False
    then obtain a where a: "grByRoot ?g ?root = Some a" by auto
    let ?res = "gnResource (node_at ?g a)"
    define g where "g = (let g = removeNode a ?g in
        if frName ?res \<noteq> [] then g\<lparr>grByName := (grByName g)(frName ?res := None)\<rparr> else g)"
    from graph_okD(1) [OF gok a] have live: "live ?g a" "gnRootURI (node_at ?g a) = ?root" by simp_all
    with graph_okD(6) [OF gok] have resRoot: "frRootURI ?res = ?root" by simp
    have srv': "fsGraph (removeFiveMResource ord uri srv) = g"
      "fsDocuments (removeFiveMResource ord uri srv) = invalidateProfiles ?root (fsDocuments srv)"
      using False a by (simp_all add: removeFiveMResource_def targetRoot_eq ResourceByRoot_def Let_def g_def resRoot)
    have "graph_ok g"
      using graph_ok_removeNode [OF gok live(1)] by (simp add: g_def Let_def graph_ok_drop_name)
    moreover have byRoot: "ResourceByRoot g r = (if r = ?root then None else ResourceByRoot ?g r)" for r
      using live(2) ResourceByRoot_removeNode [of a ?g r] by (simp add: g_def Let_def ResourceByRoot_def)
    have "fdURI d = u \<and> coherent lower g d" if d: "invalidateProfiles ?root (fsDocuments srv) u = Some d" for u d
    proof -
      from d obtain d0 where d0: "fsDocuments srv u = Some d0" "fdURI d = fdURI d0"
        and dd: "d = d0 \<and> \<not> under ?root u \<or> \<not> fdProfileCached d"
        by (cases "under ?root u") (auto simp: invalidateProfiles_def)
      with ok have d0_ok: "fdURI d0 = u" "coherent lower ?g d0" by (auto simp: server_ok_def)
      have "coherent lower g d"
      proof (cases "fdProfileCached d")
        case True
        with dd d0_ok(1) have "d = d0" "under r (fdURI d0) \<Longrightarrow> ResourceByRoot ?g r = ResourceByRoot g r" for r
          by (auto simp: byRoot)
        with coherent_cong [OF d0_ok(2) graph_okD(7) [OF gok]] show ?thesis by simp
      qed (simp add: coherent_def)
      with d0(2) d0_ok(1) show ?thesis by simp
    qed
    ultimately show ?thesis unfolding server_ok_def srv' by blast
  qed
qed

lemma server_ok_query:
  assumes ok: "server_ok lower srv" and doc: "fsDocuments srv uri = Some doc"
    and ord: "set ord = dom (grByRoot (fsGraph srv))"
    and q: "getDocumentFiveMProfile lower ord (fsGraph srv) doc = Some (profile, doc')"
  shows "server_ok lower (srv\<lparr>fsDocuments := (fsDocuments srv)(uri \<mapsto> doc')\<rparr>)"
proof -
  from ok doc have d: "fdURI doc = uri" "coherent lower (fsGraph srv) doc" by (auto simp: server_ok_def)
  have "fdURI doc' = uri \<and> coherent lower (fsGraph srv) doc'"
  proof (cases "fdProfileCached doc")
    case True
    with q d show ?thesis by (simp add: getDocumentFiveMProfile_def)
  next
    case False
    with q have p: "computeProfile lower ord (fsGraph srv) doc = Some profile"
      "doc' = doc\<lparr>fdProfile := profile, fdProfileCached := True\<rparr>"
      by (auto simp: getDocumentFiveMProfile_def bind_eq_Some_conv)
    have "computeProfile lower ord' (fsGraph srv) doc' = Some profile"
      if "set ord' = dom (grByRoot (fsGraph srv))" for ord'
      using computeProfile_cong [of doc "fsGraph srv" "fsGraph srv" ord' ord lower] that ord p by simp
    with d(1) show ?thesis by (simp add: coherent_def p(2))
  qed
  with ok show ?thesis by (simp add: server_ok_def)
qed

lemma server_ok_start: "server_ok lower \<lparr>fsGraph = NewFiveMResourceGraph, fsDocuments = (\<lambda>_. None)\<rparr>"
  by (simp add: server_ok_def graph_ok_new)

lemma reachable_ok: "fivem_reachable lower equalFold srv \<Longrightarrow> server_ok lower srv"
proof (induction rule: fivem_reachable.induct)
  case (close srv uri)
  then show ?case by (simp add: server_ok_def)
qed (blast intro: server_ok_start server_ok_update server_ok_query server_ok_remove)+

section \<open>Reading a manifest\<close>

lemma getNodeRange_total:
  assumes "wf_tree t" "wf_lines t"
  shows "\<exists>r. getNodeRange t nid = Some r"
proof (cases "nid = InvalidNode \<or> length (Nodes t) \<le> nid")
  case False
  with wf_treeD(1) [OF assms(1), of nid] have "nStart (Nodes t ! nid) \<le> length (Source t)" "nEnd (Nodes t ! nid) \<le> length (Source t)"
    by (auto simp: wf_node_def)
  with Position_eq [OF assms(2)] show ?thesis by (simp add: getNodeRange_def getRange_def)
qed (auto simp: getNodeRange_def)

lemma unquoteLuaString_total: "\<exists>v. unquoteLuaString s = Some v"
proof -
  have "Suc (Suc k) \<le> length bs" if "IndexByte (tl bs) c = Some k" for bs and c :: byte and k
    using IndexByte_SomeD [OF that] by auto
  then show ?thesis by (auto simp: unquoteLuaString_def Let_def split: option.split)
qed

lemma nodeValue_total:
  assumes "wf_tree t" "wf_lines t"
  shows "\<exists>v. fiveMManifestNodeValue t nid = Some v"
proof -
  obtain rng where rng: "getNodeRange t nid = Some rng" using getNodeRange_total [OF assms] by blast
  obtain v where v: "unquoteLuaString (slice (Source t) (nStart (Nodes t ! nid)) (nEnd (Nodes t ! nid))) = Some v"
    using unquoteLuaString_total by blast
  show ?thesis by (simp add: fiveMManifestNodeValue_def Let_def rng v)
qed

lemma manifestValues_total:
  assumes "wf_tree t" "wf_lines t"
  shows "\<exists>es. manifestValues t extra n entry = Some es"
proof -
  have "\<exists>es. manifestValues t extra n entry = Some es \<and> True"
    unfolding manifestValues_def
  proof (rule forM_invariant)
    fix i es
    obtain v where "fiveMManifestNodeValue t (ExtraList t ! (extra + i)) = Some v"
      using nodeValue_total [OF assms] by blast
    then show "\<exists>es'. (if length (ExtraList t) \<le> extra + i then Some es
       else do {
         v \<leftarrow> fiveMManifestNodeValue t (ExtraList t ! (extra + i));
         Some (case v of None \<Rightarrow> es
               | Some (raw, v, rng) \<Rightarrow> es @ [entry\<lparr>fmValueRange := rng, fmRawValue := raw, fmValue := v\<rparr>])
       }) = Some es' \<and> True" by simp
  qed simp
  then show ?thesis by simp
qed

lemma manifestArgument_total:
  "wf_tree t \<Longrightarrow> wf_lines t \<Longrightarrow> \<exists>v. manifestArgument t node i = Some v"
  using nodeValue_total by (simp add: manifestArgument_def)

lemma entriesForCall_total:
  assumes "wf_tree t" "wf_lines t" "nid \<le> fuel"
  shows "\<exists>r. fiveMManifestEntriesForCall lower equalFold fuel uri t nid = Some r"
  using assms(3)
proof (induction fuel arbitrary: nid)
  case (0 nid)
  with wf_tree_node0 [OF assms(1)] show ?case by (simp add: fiveMManifestEntriesForCall.simps)
next
  case (Suc fuel)
  let ?node = "Nodes t ! nid"
  let ?left = "Nodes t ! nLeft ?node"
  obtain rng where rng: "getNodeRange t nid = Some rng" using getNodeRange_total [OF assms(1,2)] by blast
  show ?case
  proof (cases "length (Nodes t) \<le> nid \<or> nKind ?node \<notin> {KindCallExpr, KindMethodCall}")
    case True
    then show ?thesis by (subst fiveMManifestEntriesForCall.simps) (auto simp: Let_def)
  next
    case call: False
    with wf_tree_node0 [OF assms(1)] have "0 < nid" by (cases "nid = 0") auto
    with call wf_treeD(1) [OF assms(1), of nid] have "nLeft ?node < nid" by (simp add: wf_node_def)
    with Suc.prems have "nLeft ?node \<le> fuel" by simp
    from Suc.IH [OF this] obtain r where r: "fiveMManifestEntriesForCall lower equalFold fuel uri t (nLeft ?node) = Some r"
      by blast
    show ?thesis
    proof (cases "nKind ?left \<in> {KindCallExpr, KindMethodCall}")
      case True
      obtain k v where "manifestArgument t ?node 0 = Some k" "manifestArgument t ?node (Suc 0) = Some v"
        using manifestArgument_total [OF assms(1,2)] by blast
      with call True show ?thesis
        by (subst fiveMManifestEntriesForCall.simps) (auto simp: Let_def r rng split: option.split)
    next
      case False
      define mv where "mv = (\<lambda>extra n e. the (manifestValues t extra n e))"
      have "manifestValues t extra n e = Some (mv extra n e)" for extra n e
        using manifestValues_total [OF assms(1,2), of extra n e] by (auto simp: mv_def)
      then show ?thesis
        using call False by (subst fiveMManifestEntriesForCall.simps) (simp add: Let_def rng)
    qed
  qed
qed

lemma manifestEntries_total:
  assumes "wf_tree t" "wf_lines t"
  shows "\<exists>es. manifestEntries lower equalFold uri t = Some es"
proof -
  have "\<exists>es. manifestEntries lower equalFold uri t = Some es \<and> True"
    unfolding manifestEntries_def
  proof (rule forM_invariant)
    fix i es
    obtain r where "fiveMManifestEntriesForCall lower equalFold i uri t i = Some r"
      using entriesForCall_total [OF assms order_refl] by blast
    then show "\<exists>es'. (if nKind (Nodes t ! i) \<in> {KindCallExpr, KindMethodCall} \<and> \<not> isCallee t i
       then do {
         r \<leftarrow> fiveMManifestEntriesForCall lower equalFold i uri t i;
         Some (case r of None \<Rightarrow> es | Some (_, _, _, found) \<Rightarrow> es @ found)
       } else Some es) = Some es' \<and> True" by simp
  qed simp
  then show ?thesis by simp
qed

lemma parseFiveMManifest_total:
  assumes "wf_tree t" "wf_lines t" "CHR ''/'' \<in> set uri"
  shows "\<exists>res. parseFiveMManifest lower equalFold uri t = Some res"
proof -
  obtain es where "manifestEntries lower equalFold uri t = Some es" using manifestEntries_total [OF assms(1,2)] by blast
  moreover have "IndexByte (rev uri) (CHR ''/'') \<noteq> None" using assms(3) by (simp add: IndexByte_None_iff)
  ultimately show ?thesis by (auto simp: parseFiveMManifest_def rootOfURI_def LastIndexByte_def Let_def)
qed

text \<open>
  The resource and its node are read off the same entries by two loops. One step of both keeps
  them in agreement.
\<close>

definition agree :: "(string \<Rightarrow> string) \<Rightarrow> FiveMResource \<Rightarrow> FiveMResourceGraphNode \<Rightarrow> bool" where
  "agree lower res node \<longleftrightarrow>
     gnDependencies node = frDependencies res \<and>
     gnProvides node = filter (\<lambda>p. p \<noteq> []) (map (normalizeFiveMResourceAlias lower) (frProvides res)) \<and>
     (\<forall>(entries, globList, includes) \<in> {(gnClientEntries node, frClientGlobs res, frClientCrossIncludes res),
         (gnServerEntries node, frServerGlobs res, frServerCrossIncludes res),
         (gnSharedEntries node, frSharedGlobs res, frSharedCrossIncludes res)}.
        map geInclude (filter (\<lambda>e. geKind e = ExpansionInclude) entries) = includes \<and>
        filter (\<lambda>p. p \<noteq> []) (map gePattern (filter (\<lambda>e. geKind e = ExpansionLocal) entries)) = globList)"

lemma newExpansion_simps:
  "geKind (newFiveMResourceGraphExpansion lower e) = (if prefix ''@'' (fmValue e) then ExpansionInclude else ExpansionLocal)"
  "prefix ''@'' (fmValue e) \<Longrightarrow> geInclude (newFiveMResourceGraphExpansion lower e) = fmValue e"
  "\<not> prefix ''@'' (fmValue e) \<Longrightarrow> gePattern (newFiveMResourceGraphExpansion lower e) = fmValue e"
  by (simp_all add: newFiveMResourceGraphExpansion_def includeExpansion_def localExpansion_def split: option.split)

text \<open>What an entry contributes to a list: its value, if the entry is authored, has one of the names and passes the test.\<close>

definition contributes :: "FiveMManifestEntry \<Rightarrow> string set \<Rightarrow> bool \<Rightarrow> bool" where
  "contributes e names test \<longleftrightarrow> \<not> fmLoaderInjected e \<and> \<not> fmReservedKey e \<and> fmEmittedName e \<in> names \<and> test"

lemma deriveEntry_lists:
  "frDependencies (deriveEntry lower e res) = frDependencies res @
     (if contributes e {''dependency'', ''dependencie''} (fmValue e \<noteq> []) then [fmValue e] else [])"
  "frProvides (deriveEntry lower e res) = frProvides res @
     (if contributes e {''provide''} (fmValue e \<noteq> []) then [fmValue e] else [])"
  "frClientGlobs (deriveEntry lower e res) = frClientGlobs res @
     (if contributes e {''client_script''} (\<not> prefix ''@'' (fmValue e) \<and> fmValue e \<noteq> []) then [fmValue e] else [])"
  "frServerGlobs (deriveEntry lower e res) = frServerGlobs res @
     (if contributes e {''server_script''} (\<not> prefix ''@'' (fmValue e) \<and> fmValue e \<noteq> []) then [fmValue e] else [])"
  "frSharedGlobs (deriveEntry lower e res) = frSharedGlobs res @
     (if contributes e {''shared_script'', ''file''} (\<not> prefix ''@'' (fmValue e) \<and> fmValue e \<noteq> []) then [fmValue e] else [])"
  "frClientCrossIncludes (deriveEntry lower e res) = frClientCrossIncludes res @
     (if contributes e {''client_script''} (prefix ''@'' (fmValue e)) then [fmValue e] else [])"
  "frServerCrossIncludes (deriveEntry lower e res) = frServerCrossIncludes res @
     (if contributes e {''server_script''} (prefix ''@'' (fmValue e)) then [fmValue e] else [])"
  "frSharedCrossIncludes (deriveEntry lower e res) = frSharedCrossIncludes res @
     (if contributes e {''shared_script'', ''file''} (prefix ''@'' (fmValue e)) then [fmValue e] else [])"
  by (simp_all add: deriveEntry_def contributes_def Let_def if_distrib [of frDependencies] if_distrib [of frProvides]
      if_distrib [of frClientGlobs] if_distrib [of frServerGlobs] if_distrib [of frSharedGlobs]
      if_distrib [of frClientCrossIncludes] if_distrib [of frServerCrossIncludes]
      if_distrib [of frSharedCrossIncludes] cong: if_cong)

lemma nodeEntry_lists:
  "gnDependencies (nodeEntry lower e node) = gnDependencies node @
     (if contributes e {''dependency'', ''dependencie''} (fmValue e \<noteq> []) then [fmValue e] else [])"
  "gnProvides (nodeEntry lower e node) = gnProvides node @
     (if contributes e {''provide''} (normalizeFiveMResourceAlias lower (fmValue e) \<noteq> [])
      then [normalizeFiveMResourceAlias lower (fmValue e)] else [])"
  "gnClientEntries (nodeEntry lower e node) = gnClientEntries node @
     (if contributes e {''client_script''} True then [newFiveMResourceGraphExpansion lower e] else [])"
  "gnServerEntries (nodeEntry lower e node) = gnServerEntries node @
     (if contributes e {''server_script''} True then [newFiveMResourceGraphExpansion lower e] else [])"
  "gnSharedEntries (nodeEntry lower e node) = gnSharedEntries node @
     (if contributes e {''shared_script'', ''file''} True then [newFiveMResourceGraphExpansion lower e] else [])"
  by (simp_all add: nodeEntry_def contributes_def Let_def if_distrib [of gnDependencies] if_distrib [of gnProvides]
      if_distrib [of gnClientEntries] if_distrib [of gnServerEntries] if_distrib [of gnSharedEntries] cong: if_cong)

lemma agree_step:
  assumes "agree lower res node" "normalizeFiveMResourceAlias lower [] = []"
  shows "agree lower (deriveEntry lower e res) (nodeEntry lower e node)"
  using assms by (auto simp: agree_def deriveEntry_lists nodeEntry_lists newExpansion_simps contributes_def)

lemma agree_fold:
  assumes "agree lower res node" "normalizeFiveMResourceAlias lower [] = []"
  shows "agree lower (fold (deriveEntry lower) es res) (fold (nodeEntry lower) es node)"
  using assms by (induction es arbitrary: res node) (simp_all add: agree_step)

lemma rootOfURI_split:
  assumes "rootOfURI uri = Some root"
  shows "\<exists>file. uri = root @ ''/'' @ file \<and> CHR ''/'' \<notin> set file"
proof -
  obtain k where k: "IndexByte (rev uri) (CHR ''/'') = Some k" "root = take (length uri - 1 - k) uri"
    using assms by (auto simp: rootOfURI_def LastIndexByte_def)
  from IndexByte_SomeD [OF k(1)] have len: "k < length uri"
    and at: "uri ! (length uri - 1 - k) = CHR ''/''" and after: "\<forall>j<k. rev uri ! j \<noteq> CHR ''/''"
    by (auto simp: rev_nth)
  have "uri = root @ ''/'' @ drop (Suc (length uri - 1 - k)) uri"
    using id_take_nth_drop [of "length uri - 1 - k" uri] len at unfolding k(2) by simp
  moreover have "CHR ''/'' \<notin> set (drop (Suc (length uri - 1 - k)) uri)"
  proof
    assume "CHR ''/'' \<in> set (drop (Suc (length uri - 1 - k)) uri)"
    then obtain i where i: "i < k" "uri ! (length uri - k + i) = CHR ''/''"
      using len by (auto simp: in_set_conv_nth Suc_diff_Suc)
    with after [rule_format, of "k - 1 - i"] len show False by (simp add: rev_nth)
  qed
  ultimately show ?thesis by blast
qed

lemma deriveEntry_keeps [simp]:
  "frManifest (deriveEntry lower e res) = frManifest res" "frName (deriveEntry lower e res) = frName res"
  "frRootURI (deriveEntry lower e res) = frRootURI res" "frManifestURI (deriveEntry lower e res) = frManifestURI res"
  by (simp_all add: deriveEntry_def Let_def if_distrib [of frManifest] if_distrib [of frName] if_distrib [of frRootURI]
      if_distrib [of frManifestURI] cong: if_cong)

lemma fold_deriveEntry_keeps [simp]:
  "frManifest (fold (deriveEntry lower) es res) = frManifest res" "frName (fold (deriveEntry lower) es res) = frName res"
  "frRootURI (fold (deriveEntry lower) es res) = frRootURI res" "frManifestURI (fold (deriveEntry lower) es res) = frManifestURI res"
  by (induction es arbitrary: res) simp_all

lemma deriveFromManifest_keeps [simp]:
  "frManifest (deriveFromManifest lower res) = frManifest res" "frName (deriveFromManifest lower res) = frName res"
  "frRootURI (deriveFromManifest lower res) = frRootURI res"
  by (simp_all add: deriveFromManifest_def clearDerived_def split: option.split)

lemma node_reads_manifest:
  assumes "frManifest res = Some manifest" "normalizeFiveMResourceAlias lower [] = []"
  shows "agree lower (deriveFromManifest lower res) (newFiveMResourceGraphNode lower (deriveFromManifest lower res))"
proof -
  have "agree lower res0 node0 \<Longrightarrow> agree lower (fold (deriveEntry lower) es res0) (fold (nodeEntry lower) es node0)"
    for es res0 node0 using agree_fold assms(2) by blast
  then show ?thesis
    unfolding newFiveMResourceGraphNode_def deriveFromManifest_keeps assms(1) option.case Let_def
    by (simp add: deriveFromManifest_def assms(1) agree_def clearDerived_def emptyResource_def)
qed

section \<open>What removal gives up\<close>

text \<open>
  The resource to remove is looked for by the directory of the deleted manifest. Where a directory
  has both manifests, deleting the one that is not in force removes the resource of the other.
\<close>

lemma longestRoot_is:
  assumes "root \<in> set ord" "under root uri" "root \<noteq> []"
    and "\<And>r. r \<in> set ord \<Longrightarrow> under r uri \<Longrightarrow> length r \<le> length root"
  shows "longestRoot ord uri = root"
proof -
  let ?best = "longestRoot ord uri"
  from longestRoot_spec(2) [OF assms(1,2)] have ge: "length root \<le> length ?best" .
  with assms(3) have "?best \<noteq> []" by auto
  with longestRoot_spec(1) [of ord uri] have best: "?best \<in> set ord" "under ?best uri" by simp_all
  with assms(4) [OF best] ge have "length ?best = length root" by simp
  then show ?thesis
    using under_prefix [OF best(2)] under_prefix [OF assms(2)] by (metis append_eq_conv_conj prefix_def)
qed

lemma remove_other_manifest:
  assumes "fivem_reachable lower equalFold srv" and ord: "set ord = dom (grByRoot (fsGraph srv))"
    and res: "ResourceByRoot (fsGraph srv) root = Some res" and "root \<noteq> []"
    and longest: "\<And>r. r \<in> set ord \<Longrightarrow> under r (root @ ''/__resource.lua'') \<Longrightarrow> length r \<le> length root"
  shows "ResourceByRoot (fsGraph (removeFiveMResource ord (root @ ''/__resource.lua'') srv)) root = None"
proof -
  let ?g = "fsGraph srv" and ?uri = "root @ ''/__resource.lua''"
  have ok: "graph_ok ?g" using reachable_ok [OF assms(1)] by (simp add: server_ok_def)
  obtain a where a: "grByRoot ?g root = Some a" using res by (auto simp: ResourceByRoot_Some)
  then have "root \<in> set ord" unfolding ord by blast
  moreover have "under root ?uri" by (simp add: under_def)
  ultimately have "targetRoot ord ?uri = root"
    unfolding targetRoot_eq using \<open>root \<noteq> []\<close> longest by (rule longestRoot_is)
  moreover have "gnRootURI (node_at ?g a) = root" using graph_okD(1) [OF ok a] by simp
  ultimately show ?thesis
    using a \<open>root \<noteq> []\<close> by (simp add: removeFiveMResource_def ResourceByRoot_def Let_def)
qed

text \<open>
  Of two resources with the same name only the one registered last is found by it; when that one is
  removed the other stays registered, but its name is lost.
\<close>

lemma remove_loses_namesake:
  assumes "graph_ok g" "live g a" "live g b" "a \<noteq> b" "grByName g n = Some a" "grByProvide g n = None"
    and "gnName (node_at g b) = n" "normalizeFiveMResourceAlias lower name = n"
  shows "live (removeNode a g) b" "graph_Resolve lower (removeNode a g) name = None"
proof -
  show "live (removeNode a g) b" using live_removeNode [OF assms(1,2)] assms(3,4) by simp
  have n: "gnName (node_at g a) = n" "n \<noteq> []" using graph_okD(2) [OF assms(1,5)] by simp_all
  have "(remove1 a ^^ k) [] = []" for k by (induction k) simp_all
  then have "providers (removeNode a g) n = []" using assms(6) by (simp add: providers_def [of g])
  then have "grByProvide (removeNode a g) n = None"
    using graph_okD(3) [OF graph_ok_removeNode [OF assms(1,2)], of n] by (simp add: providers_def split: option.splits)
  with n show "graph_Resolve lower (removeNode a g) name = None"
    using assms(5,8) by (simp add: graph_Resolve_def)
qed

section \<open>A sample\<close>

text \<open>The state after one empty manifest has been read.\<close>

definition sampleDoc :: FivemDoc where
  "sampleDoc = \<lparr>fdURI = ''r/a/fxmanifest.lua'', fdIsLibrary = False, fdIsFiveMManifest = True,
     fdProfile = plainProfile, fdProfileCached = False\<rparr>"

definition startServer :: FivemServer where
  "startServer = \<lparr>fsGraph = NewFiveMResourceGraph, fsDocuments = (\<lambda>_. None)\<rparr>"

lemma sample_parse:
  "\<exists>res. parseFiveMManifest id (=) ''r/a/fxmanifest.lua'' (NewTree []) = Some res \<and>
     frName res = ''a'' \<and> frRootURI res = ''r/a''"
  by (simp add: parseFiveMManifest_def rootOfURI_def LastIndexByte_def manifestEntries_def NewTree_def fiveMResourceNameFromRoot_def
    fiveMManifestSourceFromURI_def suffix_def deriveFromManifest_def clearDerived_def emptyResource_def injectedEntry_def callEntry_def deriveEntry_def Let_def)

definition sampleServer :: FivemServer where
  "sampleServer = the (finishUpdate id (=) sampleDoc (NewTree []) startServer)"

lemma sampleServer: "finishUpdate id (=) sampleDoc (NewTree []) startServer = Some sampleServer"
  "\<exists>res a. grByName (fsGraph sampleServer) ''a'' = Some a \<and> gnResource (node_at (fsGraph sampleServer) a) = res \<and> frRootURI res = ''r/a'' \<and>
    dom (grByRoot (fsGraph sampleServer)) = {''r/a''} \<and> 
    fsDocuments sampleServer ''r/a/fxmanifest.lua'' = Some sampleDoc"
proof -
  obtain res where res: "parseFiveMManifest id (=) ''r/a/fxmanifest.lua'' (NewTree []) = Some res"
     "frName res = ''a''" "frRootURI res = ''r/a''" using sample_parse by blast
  have n: "normalizeFiveMResourceAlias id ''a'' = ''a''"
    unfolding normalizeFiveMResourceAlias_def by (simp_all add: TrimSpace_stays(1))
  have "graph_Register id res NewFiveMResourceGraph = (res, graph_addNode id res NewFiveMResourceGraph)"
    by (simp add: graph_Register_def ResourceByRoot_def NewFiveMResourceGraph_def)
  then have s: "finishUpdate id (=) sampleDoc (NewTree []) startServer =
     Some \<lparr>fsGraph = graph_addNode id res NewFiveMResourceGraph, fsDocuments = [''r/a/fxmanifest.lua'' \<mapsto> sampleDoc]\<rparr>"
    by (simp add: finishUpdate_def sampleDoc_def startServer_def res Let_def dropProfilesWithPrefix_def plainProfile_def fun_eq_iff)
  then show "finishUpdate id (=) sampleDoc (NewTree []) startServer = Some sampleServer"
    by (simp add: sampleServer_def)
  from s show "\<exists>res a. grByName (fsGraph sampleServer) ''a'' = Some a \<and> gnResource (node_at (fsGraph sampleServer) a) = res \<and> frRootURI res = ''r/a'' \<and>
    dom (grByRoot (fsGraph sampleServer)) = {''r/a''} \<and> 
    fsDocuments sampleServer ''r/a/fxmanifest.lua'' = Some sampleDoc"
    by (simp add: sampleServer_def n res NewFiveMResourceGraph_def)
qed

lemma sampleServer_reachable: "fivem_reachable id (=) sampleServer"
  using sampleServer(1) unfolding startServer_def by (rule fivem_reachable.update [OF fivem_reachable.start])

section \<open>The properties\<close>

text \<open>
  C35. Names resolve to registered resources, and to the right ones. In every state that updates,
  queries, removals and closings reach, a name is resolved to a resource that is registered under its
  root; it carries the name, or it provides it as an alias and is the least, by name and root, of all
  registered resources that do. A name that is not resolved is an alias of no registered resource.
\<close>

theorem Resolve_exact:
  assumes "fivem_reachable lower equalFold srv" and "normalizeFiveMResourceAlias lower name = key" "key \<noteq> []"
  shows "case graph_Resolve lower (fsGraph srv) name of
           Some res \<Rightarrow>
             ResourceByRoot (fsGraph srv) (frRootURI res) = Some res \<and>
             (\<exists>a. live (fsGraph srv) a \<and> gnResource (node_at (fsGraph srv) a) = res \<and>
                (gnName (node_at (fsGraph srv) a) = key \<or>
                 key \<in> set (gnProvides (node_at (fsGraph srv) a)) \<and>
                 (\<forall>b. live (fsGraph srv) b \<and> key \<in> set (gnProvides (node_at (fsGraph srv) b)) \<longrightarrow>
                      nodeKey (fsGraph srv) a \<le> nodeKey (fsGraph srv) b)))
         | None \<Rightarrow> \<forall>b. live (fsGraph srv) b \<longrightarrow> key \<notin> set (gnProvides (node_at (fsGraph srv) b))"
proof -
  let ?g = "fsGraph srv"
  have ok: "graph_ok ?g" using reachable_ok [OF assms(1)] by (simp add: server_ok_def)
  have root: "ResourceByRoot ?g (frRootURI (gnResource (node_at ?g a))) = Some (gnResource (node_at ?g a))"
    if "live ?g a" for a
    using graph_okD(6) [OF ok that] that by (simp add: ResourceByRoot_def live_def)
  show ?thesis
  proof (cases "grByName ?g key")
    case (Some a)
    with graph_okD(2) [OF ok Some] root [of a] assms(2,3) show ?thesis
      by (auto simp: graph_Resolve_def Let_def)
  next
    case None
    show ?thesis
    proof (cases "providers ?g key")
      case Nil
      then have "grByProvide ?g key = None"
        using graph_okD(3) [OF ok, of key] by (simp add: providers_def split: option.splits)
      with None assms(2,3) Nil providers_live [OF ok, of _ key] show ?thesis
        by (simp add: graph_Resolve_def)
    next
      case (Cons a as)
      then have "grByProvide ?g key = Some (a # as)" by (simp add: providers_def split: option.splits)
      moreover have a: "live ?g a" "key \<in> set (gnProvides (node_at ?g a))"
        using providers_live [OF ok, of a key] Cons by simp_all
      moreover have "nodeKey ?g a \<le> nodeKey ?g b"
        if "live ?g b" "key \<in> set (gnProvides (node_at ?g b))" for b
        using providers_live [OF ok, of b key] graph_okD(4) [OF ok, of key] that assms(3) by (auto simp: Cons)
      ultimately show ?thesis
        using None assms(2,3) root [of a] by (auto simp: graph_Resolve_def)
    qed
  qed
qed

theorem Resolve_exact_witness:
  "\<exists>res. graph_Resolve id (fsGraph sampleServer) ''a'' = Some res \<and>
     ResourceByRoot (fsGraph sampleServer) (frRootURI res) = Some res"
proof -
  have n: "normalizeFiveMResourceAlias id ''a'' = ''a''"
    unfolding normalizeFiveMResourceAlias_def by (simp add: TrimSpace_stays(1))
  obtain a where "grByName (fsGraph sampleServer) ''a'' = Some a" using sampleServer(2) by blast
  then have "graph_Resolve id (fsGraph sampleServer) ''a'' = Some (gnResource (node_at (fsGraph sampleServer) a))"
    by (simp add: graph_Resolve_def n)
  with Resolve_exact [OF sampleServer_reachable n] show ?thesis by simp
qed

text \<open>
  C34. The profile cache is coherent. In every state that updates, queries, removals and closings
  reach, a query answers with the profile that is computed from the current graph, whether it is
  cached or not, and for every order in which the roots are visited; in particular a document
  never keeps the profile of a resource whose manifest was changed or deleted.
\<close>

theorem cached_profiles_coherent:
  assumes "fivem_reachable lower equalFold srv" and "fsDocuments srv uri = Some doc"
    and "set ord = dom (grByRoot (fsGraph srv))" "set ord' = dom (grByRoot (fsGraph srv))"
    and "getDocumentFiveMProfile lower ord (fsGraph srv) doc = Some (profile, doc')"
  shows "computeProfile lower ord' (fsGraph srv) doc = Some profile"
proof -
  have "coherent lower (fsGraph srv) doc"
    using reachable_ok [OF assms(1)] assms(2) by (auto simp: server_ok_def)
  with assms(3-5) computeProfile_cong [of doc "fsGraph srv" "fsGraph srv" ord ord' lower] show ?thesis
    by (auto simp: getDocumentFiveMProfile_def coherent_def bind_eq_Some_conv split: if_splits)
qed

theorem cached_profiles_coherent_witness:
  "\<exists>profile doc. getDocumentFiveMProfile id [''r/a''] (fsGraph sampleServer) sampleDoc = Some (profile, doc) \<and>
     fdProfileCached doc \<and> computeProfile id [''r/a''] (fsGraph sampleServer) doc = Some profile"
proof -
  let ?g = "fsGraph sampleServer"
  have s: "set [''r/a''] = dom (grByRoot ?g)" "fsDocuments sampleServer ''r/a/fxmanifest.lua'' = Some sampleDoc"
    using sampleServer(2) by auto
  obtain profile doc where q: "getDocumentFiveMProfile id [''r/a''] ?g sampleDoc = Some (profile, doc)"
    "fdProfileCached doc" "fdProfile doc = profile"
    by (simp add: getDocumentFiveMProfile_def computeProfile_def sampleDoc_def rootOfURI_def LastIndexByte_def)
  note reach = fivem_reachable.query [OF sampleServer_reachable s(2,1) q(1)]
  have "computeProfile id [''r/a''] (fsGraph (sampleServer\<lparr>fsDocuments := (fsDocuments sampleServer)
      (''r/a/fxmanifest.lua'' \<mapsto> doc)\<rparr>)) doc = Some profile"
    using s(1) q(2,3)
    by (intro cached_profiles_coherent [OF reach, of "''r/a/fxmanifest.lua''" _ "[''r/a'']"])
       (simp_all add: getDocumentFiveMProfile_def)
  with q show ?thesis by auto
qed

text \<open>
  C36. Manifests are read completely, and by both readers alike. For every well-formed tree and every
  URI with a directory, \<open>parseFiveMManifest\<close> returns a resource without a panic; its root is the
  directory of the URI. The node that the graph makes of the resource, which reads the entries of the manifest
  again, has the dependencies, the provided aliases (normalised, without empty ones), the patterns
  and the includes of the resource, in the same order.
\<close>

theorem parseFiveMManifest_complete:
  assumes "wf_tree t" "wf_lines t" "CHR ''/'' \<in> set uri" "normalizeFiveMResourceAlias lower [] = []"
  shows "\<exists>res. parseFiveMManifest lower equalFold uri t = Some res \<and>
     (\<exists>file. uri = frRootURI res @ ''/'' @ file \<and> CHR ''/'' \<notin> set file) \<and>
     agree lower res (newFiveMResourceGraphNode lower res)"
proof -
  obtain res where res: "parseFiveMManifest lower equalFold uri t = Some res"
    using parseFiveMManifest_total [OF assms(1-3)] by blast
  then obtain root where root: "rootOfURI uri = Some root" by (auto simp: parseFiveMManifest_def bind_eq_Some_conv)
  have "\<exists>res0. res = deriveFromManifest lower res0 \<and> frManifest res0 \<noteq> None \<and> frRootURI res0 = root"
    using res unfolding parseFiveMManifest_def root Let_def
    by (auto simp: bind_eq_Some_conv)
  then obtain res0 where res0: "res = deriveFromManifest lower res0" "frManifest res0 \<noteq> None" "frRootURI res = root"
    by auto
  have "agree lower res (newFiveMResourceGraphNode lower res)"
    using node_reads_manifest [OF _ assms(4)] res0(1,2) by auto
  with res show ?thesis using rootOfURI_split [OF root] res0(3) by auto
qed

theorem parseFiveMManifest_complete_witness:
  "\<exists>res. parseFiveMManifest id (=) ''r/a/fxmanifest.lua'' (NewTree ''files {}'') = Some res \<and>
     agree id res (newFiveMResourceGraphNode id res)"
proof -
  have "wf_tree (NewTree ''files {}'')" "wf_lines (NewTree ''files {}'')"
    by (auto simp: wf_tree_def wf_lines_def NewTree_def)
  moreover have "normalizeFiveMResourceAlias id [] = []" by (simp add: normalizeFiveMResourceAlias_def TrimSpace_def)
  ultimately show ?thesis
    using parseFiveMManifest_complete [of "NewTree ''files {}''" "''r/a/fxmanifest.lua''" id "(=)"] by auto
qed

end
