(* ===== verification/Spec2Isabelle.thy ===== *)
theory Spec2Isabelle
  imports Positions Parser_Correct Resolver_Correct Index_Steps Eviction Tree_Diff Server_Loop Types_Equal Format_Correct Eval_Correct Luadoc Fivem_Correct
begin

text \<open>
  Lugo (\<open>src/\<close>) is a front end for Lua 5.4 and a language server, in Go. This library models its front
  end completely and the core of its server, and proves them correct.

  \<^bold>\<open>The program.\<close> A source goes through the scanner (\<open>lexer\<close>) to the parser (\<open>parser\<close>), which builds a flat
  tree of nodes (\<open>ast\<close>); the resolver (\<open>semantic\<close>) links names to declarations. The server (\<open>lsp\<close>) reads
  JSON-RPC frames, dispatches requests to handlers, keeps the sources and symbols of a workspace in an index
  with a memory budget, orders resources by their dependencies, evicts sources, compares trees, and reasons
  about types. On request it formats a document, computes the values of constant expressions, finds code that
  no path reaches, and parses the documentation comments of declarations. For the game platform FiveM it reads the
  manifests of resources, keeps a graph of them, and derives from it in which environment a script runs.

  \<^bold>\<open>Conventions.\<close> A Go \<open>byte\<close> is a \<open>char\<close>. \<open>None\<close> stands for a run-time panic (an index out of range, a missing
  address) or for exhausted fuel; totality theorems exclude all of them. Counters and hashes of 64 bits are
  words and wrap. Offsets and node numbers (\<open>uint32\<close>) are natural numbers; the theorems bound them by the
  length of the source, so that nothing wraps below 4 GiB. Pointers that the code compares or shares are
  addresses with an explicit heap. Where Go iterates over a map in an arbitrary order and the outcome could
  depend on it, the order is an argument \<open>ord\<close>, and the theorems hold for every listing of the keys.
  \<open>strings.ToLower\<close> (the case tables of Unicode), \<open>encoding/json\<close>, the \<open>io.Writer\<close> and the clock are
  arguments. Mutexes are not modelled: each method of the index, of the policy and of the transport is one step.

  \<^bold>\<open>The theories.\<close>
  \<^item> \<open>Prelude\<close>: machine types, checked slices, loops, and a small calculus of total correctness (\<open>wp\<close>).
  \<^item> \<open>Tokens\<close> (\<open>token/token.go\<close>): kinds, tokens and the two-word token set.
  \<^item> \<open>Ast\<close>, \<open>Positions\<close> (\<open>ast/ast.go\<close>): nodes, trees, \<open>AddNode\<close>, \<open>NodeAt\<close>, hashes; the line table and
    \<open>Position\<close> and \<open>Offset\<close> in UTF-8, UTF-16 and UTF-32 columns, ill-formed UTF-8 included.
  \<^item> \<open>Lexer\<close> (\<open>lexer/lexer.go\<close>): the scanner, one definition per method; it terminates, loses nothing
    but white space, and reads identifiers, keywords and long brackets as Lua prescribes.
  \<^item> \<open>Parser\<close> (\<open>parser/parser.go\<close>): every parsing method over the parser state; \<open>Parser_Rules\<close>,
    \<open>Parser_Calls\<close>, \<open>Parser_Expr\<close>, \<open>Parser_Stmt\<close> and \<open>Parser_Correct\<close> prove that \<open>Parse\<close> is total on every
    byte string, that its tree is well formed and that its errors lie inside the source. The recursion
    is bounded by the depth counters of the code (200 expressions, 200 blocks), which is why a fuel of 401
    is enough; loops over tokens have a fuel of the length of the source and three, as each round consumes a token.
  \<^item> \<open>Resolver\<close>, \<open>Resolver_Rules\<close>, \<open>Resolver_Correct\<close> (\<open>semantic/resolver.go\<close>): scopes, declarations,
    references, fields and receivers, and the walk over the tree; the locale \<open>visitor\<close> is the contract
    of the recursive call, and its interpretation is the walk itself. The fuel is one more than the number of
    nodes, as a well-formed tree has no longer path.
  \<^item> \<open>Lsp_Text\<close> (\<open>lsp/utils.go\<close>, scores of \<open>lsp/global_index.go\<close>): bounded edit distance, case-folding
    search, glob patterns, trimming.
  \<^item> \<open>Dep_Graph\<close> (\<open>lsp/global_index.go\<close>): the dependency graph, its cycles and its topological order. The depth-first
    search has as much fuel as there are resources, since it never enters one twice.
  \<^item> \<open>Global_Index\<close>, \<open>Index_Correct\<close>, \<open>Index_Steps\<close> (\<open>lsp/global_index.go\<close>): the workspace index; insertion
    and lookup, the memory account and its eviction, then the operations as steps of a state machine
    with the invariant of all reachable states (locale \<open>neutral\<close>: operations that leave what the
    invariants read), the edges of the scopes, visibility and pruning.
  \<^item> \<open>Eviction\<close> (\<open>lsp/eviction.go\<close>): the cap on the number of sources.
  \<^item> \<open>Tree_Diff\<close> (\<open>lsp/treediff.go\<close>): the structural comparison of two trees.
  \<^item> \<open>Rpc\<close> (\<open>lsp/rpc.go\<close>) and \<open>Server_Loop\<close> (\<open>lsp/server.go\<close>, \<open>lsp/messages.go\<close>): frames, the main loop, dispatch
    and cancellation; the handlers of features are an argument.
  \<^item> \<open>Types\<close>, \<open>Types_Equal\<close> (\<open>lsp/types_structural.go\<close>): types as pointer graphs. Three locales state the contracts of
    the recursive comparison (a positive answer yields a bisimulation, bisimilar types are not told apart,
    an answer is given), and their interpretations are the code's comparison. Its fuel is more than the
    number of pairs of structures, as each pair is entered once.
  \<^item> \<open>Format\<close>, \<open>Format_Correct\<close> (\<open>lsp/format.go\<close>): the formatter, one step per token of the document. Where
    nothing is illegal and the scopes nest it does not panic and rewrites only white space (and, in the
    opinionated mode, semicolons), keeping line breaks and the white space between words, between
    operators and next to comments; five lemmas show what it does elsewhere. The token list is read with a fuel
    of one more than the length of the source, as each token consumes a byte.
  \<^item> \<open>Eval\<close>, \<open>Eval_Correct\<close> (\<open>lsp/eval.go\<close>, \<open>getAssignedValue\<close> of \<open>lsp/document.go\<close>, \<open>isTerminal\<close> and
    \<open>isOppositeCondition\<close> of \<open>lsp/utils.go\<close>, the check for unreachable code of \<open>lsp/diagnostics.go\<close>): values of constant expressions
    and of parts of chains such as \<open>x .. 'a' .. 'b'\<close>, and statements that do not complete. The recursion of
    \<open>evalNode\<close> ends at the depth limit of the code (20); climbs to a parent have as much fuel as there are nodes. The arithmetic of
    \<open>float64\<close> and \<open>strconv\<close> are an argument (record \<open>Float64\<close>), as are the table of documents and
    \<open>normalizeURI\<close>.
  \<^item> \<open>Luadoc\<close> (\<open>lsp/luadoc.go\<close>): documentation comments, line by line, and the syntax of callable types.
  \<^item> \<open>Fivem\<close>, \<open>Fivem_Correct\<close> (\<open>lsp/fivem.go\<close>, the end of \<open>finalizeDocumentUpdate\<close> in \<open>lsp/workspace.go\<close>):
    manifests, the graph of resources and the execution profiles of documents. Updates, queries, removals and
    closings of documents are the steps of a state machine; in all reachable states the graph is consistent and the
    cached profiles are those that would be computed anew. The fuel of a chain of calls is the number of the
    call, as callees have smaller numbers.

  \<^bold>\<open>Findings proved here.\<close> \<open>VisibleSymbols_exact\<close>: dependencies registered under a name that is not their root
  URI are not visible. \<open>PruneResource_exact\<close>: the edges of a resource are looked for under its URI instead
  of its identity. \<open>Union_cyclic_diverges\<close>: union and intersection of types that contain themselves do
  not return. \<open>Format_panics_on_leading_closer\<close>: the formatter panics on a surplus closing token;
  \<open>Format_deletes_shebang\<close>, \<open>Format_makes_comment\<close>, \<open>Format_makes_long_string\<close>, \<open>Format_truncates_at_zero\<close>: it
  deletes text around illegal tokens and glues \<open>- -\<close> and \<open>[ [[\<close>. \<open>comparisons_are_true\<close>: every comparison of
  constants is shown as true. \<open>opposite_calls\<close>: conditions with opposite texts count as opposite, although they
  may be calls. \<open>isTerminal_ignores_labels\<close>: a jump to a label of the same block counts as leaving
  it. \<open>parseCallableType_nested\<close>: a function type that returns a function type is cut at the last parenthesis.
  \<open>parseLuaDoc_unknown_tag\<close>: unknown tags end up in the description.
  \<open>remove_other_manifest\<close>: deleting one of two manifests of a directory removes the resource of the other;
  \<open>remove_loses_namesake\<close>: removing a resource makes another one with its name unreachable by name.

  \<^bold>\<open>Not modelled.\<close> The handlers of the other editor features, refactorings, diagnostics and type inference
  (large, and mostly protocol data), the checks of the FiveM API in scripts, the access to the file system,
  telemetry and the command-line tools; of the modelled files, the predicates on trees in \<open>lsp/utils.go\<close>, the
  pragmas, comment lookup and completion of locals in \<open>lsp/document.go\<close>, the configuration of the server, the
  diagnostics of manifests, and the pool of interned types.
\<close>

section \<open>From a source to resolved names\<close>

text \<open>
  C4. The front end as a whole is total: for every byte string and every error limit, parsing and
  then resolving the names of the tree terminates without a run-time panic. The result has one
  reference per node of the tree and satisfies the invariant of the resolver: every reference has
  its justification, and every reported duplicate and shadowing pair is a pair of declarations
  with the same text.
\<close>

theorem front_end_total:
  "\<exists>p root p' r. Parser_New code (NewTree code) maxErrors = Some p \<and> Parse p = Some (root, p') \<and>
     Resolve root (Resolver_New (pTree p')) = Some r \<and> wf_resolver r \<and> rTree r = pTree p' \<and>
     length (rReferences r) = length (Nodes (pTree p')) \<and> rScopeStarts r = [] \<and> rSelfStack r = []"
proof -
  obtain p root p' where
    p: "Parser_New code (NewTree code) maxErrors = Some p" "Parse p = Some (root, p')"
    using New_Parse_exists by blast
  from New_Parse_result [OF p] have "wf_tree (pTree p')" "root < length (Nodes (pTree p'))"
    by (auto simp: parse_result_def)
  then obtain r where r: "Resolve root (Resolver_New (pTree p')) = Some r"
    "good (Resolver_New (pTree p')) r" "rTree r = pTree p'"
    by (rule New_Resolve_good)
  have "rScopeStarts r = []" "rSelfStack r = []"
    using r(2) by (simp_all add: good_def grows_def Resolver_New_def)
  with p r goodD(1,4) [OF r(2)] show ?thesis by auto
qed

end
